(* ===== verification/Prelude.thy ===== *)
theory Prelude
  imports Main "HOL-Library.Word" "HOL-Library.Sublist"
begin

text \<open>
  The vocabulary shared by every component: C++ byte strings and the operations of
  \<^verbatim>\<open>std::string\<close> and \<^verbatim>\<open><cctype>\<close> that the sources call, the machine integer types,
  and the contracts (locales) that several components implement.

  A \<^verbatim>\<open>std::string\<close> is a list of bytes, so it is a \<^typ>\<open>string\<close> here (a HOL character
  is one byte). A position that only moves forward through a string is represented by the
  suffix it denotes, and \<^verbatim>\<open>npos\<close> by \<^term>\<open>None\<close>.
\<close>

unbundle bit_operations_syntax

type_synonym u8 = "8 word"
type_synonym u16 = "16 word"
type_synonym u32 = "32 word"
type_synonym u64 = "64 word"

named_theorems cpp_string \<open>facts on the modelled std::string operations\<close>
named_theorems byte_reader \<open>facts on functions that consume a prefix of a byte buffer\<close>

subsection \<open>Characters as bytes\<close>

definition code_of :: "char \<Rightarrow> nat" where
  "code_of c = of_char c"

definition tolower :: "char \<Rightarrow> char" where
  "tolower c = (if 65 \<le> code_of c \<and> code_of c \<le> 90 then char_of (code_of c + 32) else c)"

definition toupper :: "char \<Rightarrow> char" where
  "toupper c = (if 97 \<le> code_of c \<and> code_of c \<le> 122 then char_of (code_of c - 32) else c)"

definition isspace :: "char \<Rightarrow> bool" where
  "isspace c \<longleftrightarrow> code_of c = 32 \<or> (9 \<le> code_of c \<and> code_of c \<le> 13)"

definition isdigit :: "char \<Rightarrow> bool" where
  "isdigit c \<longleftrightarrow> 48 \<le> code_of c \<and> code_of c \<le> 57"

definition isalpha :: "char \<Rightarrow> bool" where
  "isalpha c \<longleftrightarrow> (65 \<le> code_of c \<and> code_of c \<le> 90) \<or> (97 \<le> code_of c \<and> code_of c \<le> 122)"

definition isalnum :: "char \<Rightarrow> bool" where
  "isalnum c \<longleftrightarrow> isalpha c \<or> isdigit c"

lemma code_of_less: "code_of c < 256"
  using nat_of_char_less_256 [of c] by (simp add: code_of_def)

lemma code_of_char_of: "n < 256 \<Longrightarrow> code_of (char_of n) = n"
  by (simp add: code_of_def)

lemma code_of_inject: "code_of c = code_of d \<longleftrightarrow> c = d"
  by (simp add: code_of_def)

lemma tolower_idem: "tolower (tolower c) = tolower c"
  by (auto simp: tolower_def code_of_char_of)

lemma toupper_idem: "toupper (toupper c) = toupper c"
  by (auto simp: toupper_def code_of_char_of)

abbreviation NL :: char where "NL \<equiv> CHR 0x0A"
abbreviation CR :: char where "CR \<equiv> CHR 0x0D"
abbreviation TAB :: char where "TAB \<equiv> CHR 0x09"
abbreviation DQ :: char where "DQ \<equiv> CHR 0x22"
abbreviation SQ :: char where "SQ \<equiv> CHR 0x27"
abbreviation BSL :: char where "BSL \<equiv> CHR 0x5C"

subsection \<open>Machine words\<close>

lemma nat_or_shift:
  assumes "a < 2 ^ n"
  shows "push_bit n m OR a = m * 2 ^ n + (a :: nat)"
proof -
  have "take_bit n a = a" using assms by (simp add: take_bit_nat_eq_self)
  then have "\<not> bit a k" if "n \<le> k" for k
    using that by (metis bit_take_bit_iff linorder_not_less)
  then have "push_bit n m AND a = 0"
    by (simp add: bit_eq_iff bit_and_iff bit_push_bit_iff)
  then show ?thesis
    by (simp add: disjunctive_add_eq_or [symmetric] push_bit_eq_mult)
qed

lemma unat_u8_less: "unat (b :: u8) < 256"
  using unsigned_less [of b, where 'a = nat] by simp

text \<open>Four bytes, most significant first, as the sources assemble them with shifts.\<close>

definition be32 :: "u8 \<Rightarrow> u8 \<Rightarrow> u8 \<Rightarrow> u8 \<Rightarrow> u32" where
  "be32 b0 b1 b2 b3 =
     push_bit 24 (ucast b0) OR push_bit 16 (ucast b1) OR push_bit 8 (ucast b2) OR ucast b3"

lemma unat_ucast_u8_u32: "unat (ucast (b :: u8) :: u32) = unat b"
  by (simp add: unsigned_ucast_eq take_bit_nat_eq_self unat_u8_less less_trans [OF unat_u8_less])

lemma unat_push_u8:
  "n \<le> 24 \<Longrightarrow> unat (push_bit n (ucast (b :: u8) :: u32)) = push_bit n (unat b)"
proof -
  assume n: "n \<le> 24"
  have "push_bit n (unat b) < 2 ^ n * 2 ^ 8"
    using unat_u8_less [of b] by (simp add: push_bit_eq_mult)
  also have "\<dots> \<le> (2 :: nat) ^ 32"
    using n power_increasing [of "n + 8" 32 "2 :: nat"] by (simp add: power_add)
  finally show ?thesis
    by (simp add: unsigned_push_bit_eq unat_ucast_u8_u32 take_bit_nat_eq_self)
qed

lemma unat_be32:
  "unat (be32 b0 b1 b2 b3) =
     unat b0 * 2 ^ 24 + unat b1 * 2 ^ 16 + unat b2 * 2 ^ 8 + unat b3"
proof -
  note lt = unat_u8_less [of b0] unat_u8_less [of b1] unat_u8_less [of b2] unat_u8_less [of b3]
  have "unat (be32 b0 b1 b2 b3) =
      push_bit 24 (unat b0) OR push_bit 16 (unat b1) OR push_bit 8 (unat b2) OR unat b3"
    by (simp add: be32_def unsigned_or_eq unat_push_u8 unat_ucast_u8_u32)
  also have "push_bit 8 (unat b2) OR unat b3 = unat b2 * 2 ^ 8 + unat b3"
    using lt by (intro nat_or_shift) simp
  also have "push_bit 16 (unat b1) OR (unat b2 * 2 ^ 8 + unat b3) =
      unat b1 * 2 ^ 16 + (unat b2 * 2 ^ 8 + unat b3)"
    using lt by (intro nat_or_shift) simp
  also have "push_bit 24 (unat b0) OR (unat b1 * 2 ^ 16 + (unat b2 * 2 ^ 8 + unat b3)) =
      unat b0 * 2 ^ 24 + (unat b1 * 2 ^ 16 + (unat b2 * 2 ^ 8 + unat b3))"
    using lt by (intro nat_or_shift) simp
  finally show ?thesis by simp
qed
lemma unat_drop_bit: "unat (drop_bit n w) = unat (w :: 'a :: len word) div 2 ^ n"
proof -
  have "unat (drop_bit n w) = drop_bit n (unat w)" 
    by (simp add: unsigned_drop_bit_eq take_bit_nat_eq_self unsigned_less)
  also have "\<dots> = unat w div 2 ^ n" by (rule drop_bit_eq_div)
  finally show ?thesis .
qed

subsection \<open>Searching\<close>

text \<open>\<open>find_if P s\<close> is the first index whose byte satisfies \<open>P\<close> (\<^verbatim>\<open>find\<close>,
  \<^verbatim>\<open>find_first_of\<close>, \<^verbatim>\<open>find_first_not_of\<close>); \<open>rfind_if\<close> is the last one.\<close>

fun find_if :: "(char \<Rightarrow> bool) \<Rightarrow> string \<Rightarrow> nat option" where
  "find_if P [] = None"
| "find_if P (x # xs) = (if P x then Some 0 else map_option Suc (find_if P xs))"

fun rfind_if :: "(char \<Rightarrow> bool) \<Rightarrow> string \<Rightarrow> nat option" where
  "rfind_if P [] = None"
| "rfind_if P (x # xs) =
     (case rfind_if P xs of Some n \<Rightarrow> Some (Suc n) | None \<Rightarrow> if P x then Some 0 else None)"

abbreviation find_char :: "char \<Rightarrow> string \<Rightarrow> nat option" where
  "find_char c \<equiv> find_if (\<lambda>x. x = c)"

abbreviation rfind_char :: "char \<Rightarrow> string \<Rightarrow> nat option" where
  "rfind_char c \<equiv> rfind_if (\<lambda>x. x = c)"

fun find_str :: "string \<Rightarrow> string \<Rightarrow> nat option" where
  "find_str pat [] = (if pat = [] then Some 0 else None)"
| "find_str pat (x # xs) =
     (if prefix pat (x # xs) then Some 0 else map_option Suc (find_str pat xs))"

definition substr :: "nat \<Rightarrow> nat \<Rightarrow> string \<Rightarrow> string" where
  "substr p n s = take n (drop p s)"

lemma drop_past [simp]: "drop (Suc (length xs)) (xs @ y # ys) = ys"
  by (induction xs) auto

lemma find_if_None [cpp_string]: "find_if P s = None \<longleftrightarrow> (\<forall>x \<in> set s. \<not> P x)"
  by (induction s) auto

lemma find_if_SomeD:
  "find_if P s = Some n \<Longrightarrow>
     n < length s \<and> P (s ! n) \<and> (\<forall>x \<in> set (take n s). \<not> P x)"
proof (induction s arbitrary: n)
  case (Cons x s)
  then show ?case by (cases n) (auto split: if_splits)
qed simp

lemma find_if_less: "find_if P s = Some n \<Longrightarrow> n < length s"
  using find_if_SomeD by blast

lemma find_if_append [cpp_string]:
  "\<forall>x \<in> set xs. \<not> P x \<Longrightarrow>
     find_if P (xs @ ys) = map_option (\<lambda>n. length xs + n) (find_if P ys)"
  by (induction xs) (auto simp: map_option_case split: option.splits)

lemma find_if_hit [cpp_string]:
  "\<forall>x \<in> set xs. \<not> P x \<Longrightarrow> P y \<Longrightarrow> find_if P (xs @ y # ys) = Some (length xs)"
  by (simp add: find_if_append)

lemma find_char_None_iff: "find_char c s = None \<longleftrightarrow> c \<notin> set s"
  by (auto simp: find_if_None)

lemma find_char_None [simp]: "c \<notin> set s \<Longrightarrow> find_char c s = None"
  by (simp add: find_char_None_iff)

lemma find_char_hit [simp]: "c \<notin> set xs \<Longrightarrow> find_char c (xs @ c # ys) = Some (length xs)"
  by (rule find_if_hit) auto

lemma find_char_split:
  "find_char c s = Some n \<Longrightarrow> s = take n s @ c # drop (Suc n) s \<and> c \<notin> set (take n s)"
  using find_if_SomeD [of "\<lambda>x. x = c" s n] by (auto simp: id_take_nth_drop)

lemma rfind_if_None [cpp_string]: "rfind_if P s = None \<longleftrightarrow> (\<forall>x \<in> set s. \<not> P x)"
  by (induction s) (auto split: option.splits)

lemma rfind_if_SomeD:
  "rfind_if P s = Some n \<Longrightarrow>
     n < length s \<and> P (s ! n) \<and> (\<forall>x \<in> set (drop (Suc n) s). \<not> P x)"
proof (induction s arbitrary: n)
  case (Cons x s)
  then show ?case
    by (cases n) (auto split: option.splits if_splits simp: rfind_if_None)
qed simp

lemma rfind_if_hit [cpp_string]:
  assumes "P y" and "\<forall>x \<in> set ys. \<not> P x"
  shows "rfind_if P (xs @ y # ys) = Some (length xs)"
proof -
  have "rfind_if P ys = None" using assms(2) by (simp add: rfind_if_None)
  then have "rfind_if P (y # ys) = Some 0" using assms(1) by simp
  then show ?thesis by (induction xs) auto
qed

text \<open>The text between the first and the last byte outside \<open>P\<close>, as a
  \<^verbatim>\<open>find_first_not_of\<close> / \<^verbatim>\<open>find_last_not_of\<close> pair cuts it.\<close>

definition trim_if :: "(char \<Rightarrow> bool) \<Rightarrow> string \<Rightarrow> string option" where
  "trim_if P s =
     (case (find_if (\<lambda>c. \<not> P c) s, rfind_if (\<lambda>c. \<not> P c) s) of
        (Some a, Some b) \<Rightarrow> Some (substr a (b - a + 1) s)
      | _ \<Rightarrow> None)"

lemma trim_if_blank: "\<forall>c \<in> set s. P c \<Longrightarrow> trim_if P s = None"
proof -
  assume "\<forall>c \<in> set s. P c"
  then have "find_if (\<lambda>c. \<not> P c) s = None" by (auto simp: find_if_None)
  then show ?thesis by (simp add: trim_if_def)
qed

lemma trim_if_core:
  assumes "\<forall>c \<in> set w1. P c" "\<forall>c \<in> set w2. P c" "t \<noteq> []" "\<not> P (hd t)" "\<not> P (last t)"
  shows "trim_if P (w1 @ t @ w2) = Some t"
proof -
  obtain x r where t1: "t = x # r" using assms(3) by (cases t) auto
  obtain l y where t2: "t = l @ [y]" using assms(3) by (cases t rule: rev_cases) auto
  have "find_if (\<lambda>c. \<not> P c) (w1 @ t @ w2) = Some (length w1)"
    using find_if_hit [of w1 "\<lambda>c. \<not> P c" x "r @ w2"] assms t1 by simp
  moreover have "rfind_if (\<lambda>c. \<not> P c) (w1 @ t @ w2) = Some (length w1 + length l)"
    using rfind_if_hit [of "\<lambda>c. \<not> P c" y w2 "w1 @ l"] assms t2 by simp
  ultimately show ?thesis using t2 by (simp add: trim_if_def substr_def)
qed

lemma split_trailing:
  "\<exists>v w. s = v @ w \<and> (\<forall>c \<in> set w. P c) \<and> (v \<noteq> [] \<longrightarrow> \<not> P (last v))"
proof (induction s rule: rev_induct)
  case (snoc x s)
  then obtain v w where "s = v @ w" "\<forall>c \<in> set w. P c" "v \<noteq> [] \<longrightarrow> \<not> P (last v)" by blast
  note vw = this
  show ?case
  proof (cases "P x")
    case True
    then show ?thesis using vw by (intro exI [of _ v] exI [of _ "w @ [x]"]) auto
  next
    case False
    then show ?thesis by (intro exI [of _ "s @ [x]"] exI [of _ "[]"]) auto
  qed
qed simp

lemma find_str_SomeD: "find_str pat s = Some n \<Longrightarrow> n \<le> length s \<and> prefix pat (drop n s)"
proof (induction s arbitrary: n)
  case (Cons x s)
  then show ?case by (cases n) (auto split: if_splits)
qed (auto split: if_splits)

lemma find_str_first: "find_str pat s = Some n \<Longrightarrow> k < n \<Longrightarrow> \<not> prefix pat (drop k s)"
proof (induction s arbitrary: n k)
  case (Cons x s)
  then show ?case by (cases n; cases k) (auto split: if_splits)
qed (auto split: if_splits)

lemma find_str_None: "find_str pat s = None \<longleftrightarrow> \<not> sublist pat s"
  by (induction s) (auto simp: sublist_Cons_right)

subsection \<open>Segments of a string\<close>

text \<open>The segments a \<^verbatim>\<open>find(sep, pos) / pos = hit + 1\<close> loop visits while
  \<^verbatim>\<open>pos < size()\<close>: a separator at the very end opens no further segment.\<close>

function segs :: "char \<Rightarrow> string \<Rightarrow> string list" where
  "segs c s =
     (if s = [] then []
      else case find_char c s of
             None \<Rightarrow> [s]
           | Some n \<Rightarrow> take n s # segs c (drop (Suc n) s))"
  by pat_completeness auto
termination
  by (relation "measure (\<lambda>(c, s). length s)") (auto dest: find_if_less)

declare segs.simps [simp del]

lemma segs_Nil [simp]: "segs c [] = []"
  by (simp add: segs.simps)

lemma segs_line [simp]: "c \<notin> set xs \<Longrightarrow> segs c (xs @ c # ys) = xs # segs c ys"
  by (subst segs.simps) simp

lemma segs_no_sep: "x \<in> set (segs c s) \<Longrightarrow> c \<notin> set x"
proof (induction c s rule: segs.induct)
  case (1 c s)
  show ?case
  proof (cases "find_char c s")
    case None
    with "1.prems" show ?thesis
      by (auto simp: segs.simps [of c s] find_char_None_iff split: if_splits)
  next
    case (Some n)
    with 1 show ?thesis
      by (auto simp: segs.simps [of c s] dest: find_char_split split: if_splits)
  qed
qed

lemma segs_concat:
  "\<forall>l \<in> set ls. c \<notin> set l \<Longrightarrow> segs c (concat (map (\<lambda>l. l @ [c]) ls)) = ls"
  by (induction ls) auto

primrec first_some :: "('a \<Rightarrow> 'b option) \<Rightarrow> 'a list \<Rightarrow> 'b option" where
  "first_some f [] = None"
| "first_some f (x # xs) = (case f x of Some y \<Rightarrow> Some y | None \<Rightarrow> first_some f xs)"

lemma first_some_append:
  "first_some f (xs @ ys) = (case first_some f xs of Some y \<Rightarrow> Some y | None \<Rightarrow> first_some f ys)"
  by (induction xs) (auto split: option.splits)

lemma first_some_None: "first_some f xs = None \<longleftrightarrow> (\<forall>x \<in> set xs. f x = None)"
  by (induction xs) (auto split: option.splits)

text \<open>\<^verbatim>\<open>std::to_string\<close> of an unsigned number.\<close>

function nat_str :: "nat \<Rightarrow> string" where
  "nat_str n = (if n < 10 then [char_of (48 + n)] else nat_str (n div 10) @ [char_of (48 + n mod 10)])"
  by pat_completeness auto
termination by (relation "measure id") auto

declare nat_str.simps [simp del]

subsection \<open>Contracts\<close>

text \<open>An encoding with a left inverse: two different inputs never encode alike.\<close>

locale codec =
  fixes enc :: "'a \<Rightarrow> 'b" and dec :: "'b \<Rightarrow> 'a"
  assumes dec_enc: "dec (enc x) = x"
begin

lemma enc_eq_iff: "enc x = enc y \<longleftrightarrow> x = y"
  by (metis dec_enc)

lemma map_enc_eq_iff: "map enc xs = map enc ys \<longleftrightarrow> xs = ys"
  using inj_map_eq_map [of enc xs ys] by (auto simp: inj_def enc_eq_iff)

end

text \<open>A key-value store: a write is read back under its own key and no other key changes.\<close>

locale kv_store =
  fixes inv :: "'s \<Rightarrow> bool"
    and get :: "'s \<Rightarrow> 'k \<Rightarrow> 'v option"
    and put :: "'s \<Rightarrow> 'k \<Rightarrow> 'v \<Rightarrow> 's"
  assumes get_put: "inv s \<Longrightarrow> get (put s k v) k' = (if k' = k then Some v else get s k')"
    and inv_put: "inv s \<Longrightarrow> inv (put s k v)"
begin

lemma get_put_same: "inv s \<Longrightarrow> get (put s k v) k = Some v"
  by (simp add: get_put)

lemma overwrite: "inv s \<Longrightarrow> get (put (put s k v) k w) = get (put s k w)"
  by (rule ext) (simp add: get_put inv_put)

lemma commute:
  "inv s \<Longrightarrow> k \<noteq> l \<Longrightarrow> get (put (put s k v) l w) = get (put (put s l w) k v)"
  by (rule ext) (simp add: get_put inv_put)

lemma inv_puts: "inv s \<Longrightarrow> inv (fold (\<lambda>(k, v) s. put s k v) kvs s)"
  by (induction kvs arbitrary: s) (auto simp: inv_put)

lemma get_puts:
  "inv s \<Longrightarrow> get (fold (\<lambda>(k, v) s. put s k v) kvs s) = get s ++ map_of (rev kvs)"
proof (induction kvs arbitrary: s)
  case (Cons kv kvs)
  obtain k v where kv: "kv = (k, v)" by (cases kv)
  have "get (put s k v) = (get s)(k \<mapsto> v)"
    using Cons.prems by (auto simp: get_put)
  then show ?case
    using Cons.IH [of "put s k v"] Cons.prems kv
    by (simp add: inv_put map_add_def fun_eq_iff split: option.splits)
qed (simp add: map_add_def)

end

end
