(* ===== verification/Session_Esc.thy ===== *)
theory Session_Esc
  imports Prelude
begin

text \<open>
  Session identifiers and the session blob (\<^verbatim>\<open>cpp/include/look/session_esc.h\<close>): the
  allow-list for identifiers that become part of a file name, the escaping of keys and
  values, and reading and writing a key in the \<^verbatim>\<open>key=value\n\<close> blob.
\<close>

subsection \<open>Model\<close>

abbreviation EQS :: char where "EQS \<equiv> CHR ''=''"

definition sid_hex_char :: "char \<Rightarrow> bool" where
  "sid_hex_char c \<longleftrightarrow> (48 \<le> code_of c \<and> code_of c \<le> 57) \<or> (97 \<le> code_of c \<and> code_of c \<le> 102)
     \<or> (65 \<le> code_of c \<and> code_of c \<le> 70)"

definition valid_sid :: "string \<Rightarrow> bool" where
  "valid_sid s \<longleftrightarrow> length s = 32 \<and> list_all sid_hex_char s"

definition sess_esc_char :: "bool \<Rightarrow> char \<Rightarrow> string" where
  "sess_esc_char is_key c =
     (if c = BSL then [BSL, BSL]
      else if c = NL then [BSL, CHR ''n'']
      else if c = CR then [BSL, CHR ''r'']
      else if c = EQS \<and> is_key then [BSL, CHR ''e'']
      else [c])"

definition sess_esc :: "string \<Rightarrow> bool \<Rightarrow> string" where
  "sess_esc s is_key = concat (map (sess_esc_char is_key) s)"

fun sess_unesc :: "string \<Rightarrow> string" where
  "sess_unesc [] = []"
| "sess_unesc [c] = [c]"
| "sess_unesc (c # n # s) =
     (if c \<noteq> BSL then c # sess_unesc (n # s)
      else if n = CHR ''n'' then NL # sess_unesc s
      else if n = CHR ''r'' then CR # sess_unesc s
      else if n = CHR ''e'' then EQS # sess_unesc s
      else if n = BSL then BSL # sess_unesc s
      else BSL # n # sess_unesc s)"

text \<open>One line of the blob, tested against an escaped key: the raw text after the first
  \<^verbatim>\<open>=\<close> when the text before it is the key.\<close>

definition sess_line_hit :: "string \<Rightarrow> string \<Rightarrow> string option" where
  "sess_line_hit ek line =
     (case find_char EQS line of
        None \<Rightarrow> None
      | Some eq \<Rightarrow> if take eq line = ek then Some (drop (Suc eq) line) else None)"

function sess_blob_get :: "string \<Rightarrow> string \<Rightarrow> string option" where
  "sess_blob_get blob key =
     (if blob = [] then None
      else let nl = find_char NL blob;
               line = (case nl of None \<Rightarrow> blob | Some n \<Rightarrow> take n blob)
           in case sess_line_hit (sess_esc key True) line of
                Some raw \<Rightarrow> Some (sess_unesc raw)
              | None \<Rightarrow> (case nl of None \<Rightarrow> None
                                 | Some n \<Rightarrow> sess_blob_get (drop (Suc n) blob) key))"
  by pat_completeness auto
termination
  by (relation "measure (\<lambda>(blob, key). length blob)") (auto dest: find_if_less)

function sess_blob_set_loop ::
    "string \<Rightarrow> string \<Rightarrow> string \<Rightarrow> string \<Rightarrow> bool \<Rightarrow> string \<times> bool" where
  "sess_blob_set_loop ek ev blob out replaced =
     (if blob = [] then (out, replaced)
      else let nl = find_char NL blob;
               line = (case nl of None \<Rightarrow> blob | Some n \<Rightarrow> take n blob);
               hit = (line \<noteq> [] \<and> sess_line_hit ek line \<noteq> None);
               out' = (if line = [] then out
                       else if hit then out @ ek @ [EQS] @ ev @ [NL]
                       else out @ line @ [NL]);
               replaced' = (replaced \<or> hit)
           in case nl of None \<Rightarrow> (out', replaced')
                       | Some n \<Rightarrow> sess_blob_set_loop ek ev (drop (Suc n) blob) out' replaced')"
  by pat_completeness auto
termination
  by (relation "measure (\<lambda>(ek, ev, blob, out, replaced). length blob)")
    (auto dest: find_if_less)

definition sess_blob_set :: "string \<Rightarrow> string \<Rightarrow> string \<Rightarrow> string" where
  "sess_blob_set blob key val =
     (let ek = sess_esc key True; ev = sess_esc val False;
          (out, replaced) = sess_blob_set_loop ek ev blob [] False
      in if replaced then out else out @ ek @ [EQS] @ ev @ [NL])"

declare sess_blob_get.simps [simp del] sess_blob_set_loop.simps [simp del]

subsection \<open>Escaping\<close>

lemma sess_unesc_plain: "c \<noteq> BSL \<Longrightarrow> sess_unesc (c # s) = c # sess_unesc s"
  by (cases s) auto

lemma sess_unesc_esc: "sess_unesc (sess_esc s k) = s"
proof (induction s)
  case (Cons c s)
  then show ?case
    by (auto simp: sess_esc_def sess_esc_char_def sess_unesc_plain)
qed (simp add: sess_esc_def)

interpretation sess_key: codec "\<lambda>s. sess_esc s True" sess_unesc
  by unfold_locales (rule sess_unesc_esc)

interpretation sess_val: codec "\<lambda>s. sess_esc s False" sess_unesc
  by unfold_locales (rule sess_unesc_esc)

lemma sess_esc_no_newline: "NL \<notin> set (sess_esc s k) \<and> CR \<notin> set (sess_esc s k)"
  by (induction s) (auto simp: sess_esc_def sess_esc_char_def)

lemma sess_esc_key_no_eq: "EQS \<notin> set (sess_esc s True)"
  by (induction s) (auto simp: sess_esc_def sess_esc_char_def)

lemma sess_line_hit_written:
  "sess_line_hit ek' (sess_esc k True @ EQS # v) = (if ek' = sess_esc k True then Some v else None)"
  by (auto simp: sess_line_hit_def sess_esc_key_no_eq)

lemma sess_line_hit_keyed:
  "sess_line_hit ek line \<noteq> None \<Longrightarrow> ek' \<noteq> ek \<Longrightarrow> sess_line_hit ek' line = None"
  by (auto simp: sess_line_hit_def split: option.splits if_splits)

subsection \<open>Reading and writing, over the lines of the blob\<close>

lemma sess_blob_get_lines:
  "sess_blob_get blob key =
     map_option sess_unesc (first_some (sess_line_hit (sess_esc key True)) (segs NL blob))"
proof (induction blob key rule: sess_blob_get.induct)
  case (1 blob key)
  show ?case
  proof (cases "find_char NL blob")
    case None
    then show ?thesis
      by (auto simp: sess_blob_get.simps [of blob] segs.simps [of NL blob] split: option.splits)
  next
    case (Some n)
    with 1 show ?thesis
      by (auto simp: sess_blob_get.simps [of blob] segs.simps [of NL blob] split: option.splits)
  qed
qed

definition sess_rewrite :: "string \<Rightarrow> string \<Rightarrow> string \<Rightarrow> string" where
  "sess_rewrite ek ev line = (if sess_line_hit ek line \<noteq> None then ek @ EQS # ev else line)"

lemma sess_line_hit_Nil [simp]: "sess_line_hit ek [] = None"
  by (simp add: sess_line_hit_def)

abbreviation sess_kept :: "string \<Rightarrow> string \<Rightarrow> string \<Rightarrow> string list" where
  "sess_kept ek ev blob \<equiv> map (sess_rewrite ek ev) (filter (\<lambda>l. l \<noteq> []) (segs NL blob))"

lemma sess_blob_set_loop_lines:
  "sess_blob_set_loop ek ev blob out replaced =
     (out @ concat (map (\<lambda>l. l @ [NL]) (sess_kept ek ev blob)),
      replaced \<or> (\<exists>l \<in> set (segs NL blob). sess_line_hit ek l \<noteq> None))"
proof (induction ek ev blob out replaced rule: sess_blob_set_loop.induct)
  case (1 ek ev blob out replaced)
  show ?case
  proof (cases "find_char NL blob")
    case None
    then show ?thesis
      by (auto simp: sess_blob_set_loop.simps [of ek ev blob] segs.simps [of NL blob]
          sess_rewrite_def)
  next
    case (Some n)
    show ?thesis
    proof (cases "blob = []")
      case False
      from Some False "1.IH" [OF False refl refl refl refl refl Some] show ?thesis
        by (auto simp: sess_blob_set_loop.simps [of ek ev blob] segs.simps [of NL blob]
            sess_rewrite_def)
    qed (use Some in simp)
  qed
qed

definition sess_lines_after :: "string \<Rightarrow> string \<Rightarrow> string \<Rightarrow> string list" where
  "sess_lines_after ek ev blob = sess_kept ek ev blob @
     (if \<exists>l \<in> set (segs NL blob). sess_line_hit ek l \<noteq> None then [] else [ek @ EQS # ev])"

lemma sess_blob_set_lines:
  "sess_blob_set blob key val =
     concat (map (\<lambda>l. l @ [NL]) (sess_lines_after (sess_esc key True) (sess_esc val False) blob))"
  by (simp add: sess_blob_set_def sess_blob_set_loop_lines sess_lines_after_def Let_def)

lemma segs_sess_blob_set:
  "segs NL (sess_blob_set blob key val) =
     sess_lines_after (sess_esc key True) (sess_esc val False) blob"
  unfolding sess_blob_set_lines
  by (rule segs_concat)
    (auto simp: sess_lines_after_def sess_rewrite_def sess_esc_no_newline dest: segs_no_sep
      split: if_splits)

lemma first_some_rewrite_same:
  "first_some (sess_line_hit (sess_esc k True))
       (map (sess_rewrite (sess_esc k True) ev) (filter (\<lambda>l. l \<noteq> []) ls)) =
     (if \<exists>l \<in> set ls. sess_line_hit (sess_esc k True) l \<noteq> None then Some ev else None)"
  by (induction ls) (auto simp: sess_rewrite_def sess_line_hit_written split: option.splits)

lemma first_some_rewrite_other:
  "ek' \<noteq> sess_esc k True \<Longrightarrow>
     first_some (sess_line_hit ek') (map (sess_rewrite (sess_esc k True) ev) ls) =
     first_some (sess_line_hit ek') ls"
  by (induction ls)
    (auto simp: sess_rewrite_def sess_line_hit_written sess_line_hit_keyed split: option.splits)

lemma first_some_nonempty:
  "first_some (sess_line_hit ek) (filter (\<lambda>l. l \<noteq> []) ls) = first_some (sess_line_hit ek) ls"
  by (induction ls) (auto split: option.splits)

lemma sess_blob_get_set:
  "sess_blob_get (sess_blob_set blob k v) k' = (if k' = k then Some v else sess_blob_get blob k')"
proof (cases "k' = k")
  case True
  then show ?thesis
    by (auto simp: sess_blob_get_lines segs_sess_blob_set sess_lines_after_def first_some_append
        first_some_rewrite_same sess_line_hit_written sess_unesc_esc)
next
  case False
  then have "sess_esc k' True \<noteq> sess_esc k True" by (simp add: sess_key.enc_eq_iff)
  then show ?thesis
    using False
    by (auto simp: sess_blob_get_lines segs_sess_blob_set sess_lines_after_def first_some_append
        first_some_rewrite_other first_some_nonempty sess_line_hit_written split: option.splits)
qed

interpretation sess_store: kv_store "\<lambda>_. True" sess_blob_get sess_blob_set
  by unfold_locales (auto simp: sess_blob_get_set)

subsection \<open>Properties\<close>

text \<open>A session field that is written is read back unchanged whatever bytes it holds, and
  writing it changes no other field: no value or key a user supplies can forge or alter
  another field of the session.\<close>

theorem session_set_isolated:
  "sess_blob_get (sess_blob_set blob k v) k' = (if k' = k then Some v else sess_blob_get blob k')"
  by (rule sess_blob_get_set)

text \<open>C34: After any sequence of writes the blob holds exactly the last value of each key over
  what it held before: the text format implements a finite map.\<close>

theorem session_blob_refines_map:
  "sess_blob_get (fold (\<lambda>(k, v) b. sess_blob_set b k v) kvs blob) =
     sess_blob_get blob ++ map_of (rev kvs)"
  by (rule sess_store.get_puts) simp

end
