(* ===== verification/Int_Overflow.thy ===== *)
theory Int_Overflow
  imports Prelude "HOL-Library.Signed_Division"
begin

text \<open>
  Overflow detection for 64-bit signed arithmetic
  (\<^verbatim>\<open>cpp/include/look/int_overflow.h\<close>). An \<^verbatim>\<open>int64_t\<close> is a \<^typ>\<open>u64\<close> read with
  \<^const>\<open>sint\<close>. Each operation has two bodies in the source, selected by the compiler: the
  GCC/Clang builtin (documented as: store the wrapped result, return whether the exact
  result does not fit) and a portable one. Each returns the stored result and the flag.
\<close>

subsection \<open>Model\<close>

definition fits_i64 :: "int \<Rightarrow> bool" where
  "fits_i64 k \<longleftrightarrow> - (2 ^ 63) \<le> k \<and> k < 2 ^ 63"

definition i64_add_ovf :: "u64 \<Rightarrow> u64 \<Rightarrow> u64 \<times> bool" where
  "i64_add_ovf a b = (a + b, \<not> fits_i64 (sint a + sint b))"

definition i64_add_ovf_portable :: "u64 \<Rightarrow> u64 \<Rightarrow> u64 \<times> bool" where
  "i64_add_ovf_portable a b = (let r = a + b in (r, sint ((a XOR r) AND (b XOR r)) < 0))"

definition i64_sub_ovf :: "u64 \<Rightarrow> u64 \<Rightarrow> u64 \<times> bool" where
  "i64_sub_ovf a b = (a - b, \<not> fits_i64 (sint a - sint b))"

definition i64_sub_ovf_portable :: "u64 \<Rightarrow> u64 \<Rightarrow> u64 \<times> bool" where
  "i64_sub_ovf_portable a b = (let r = a - b in (r, sint ((a XOR b) AND (a XOR r)) < 0))"

definition i64_mul_ovf :: "u64 \<Rightarrow> u64 \<Rightarrow> u64 \<times> bool" where
  "i64_mul_ovf a b = (a * b, \<not> fits_i64 (sint a * sint b))"

definition i64_mul_ovf_portable :: "u64 \<Rightarrow> u64 \<Rightarrow> u64 \<times> bool" where
  "i64_mul_ovf_portable a b =
     (let r = a * b
      in if sint a = -1 \<and> sint b = - (2 ^ 63) then (r, True)
         else if sint a \<noteq> 0 \<and> sint r sdiv sint a \<noteq> sint b then (r, True)
         else (r, False))"

subsection \<open>Signed reading of wrapped results\<close>

lemma sint_i64_range: "- (2 ^ 63) \<le> sint (a :: u64) \<and> sint a < 2 ^ 63"
  using sint_ge [of a] sint_lt [of a] by simp

lemma fits_sint: "fits_i64 (sint (a :: u64))"
  using sint_i64_range by (simp add: fits_i64_def)

lemma signed_take_bit_63:
  "signed_take_bit 63 k = (k + 2 ^ 63) mod 2 ^ 64 - (2 ^ 63 :: int)"
  by (simp add: signed_take_bit_eq_take_bit_shift take_bit_eq_mod)

lemma sint_wrap_add: "sint (a + b :: u64) = (sint a + sint b + 2 ^ 63) mod 2 ^ 64 - 2 ^ 63"
  by (simp add: sint_word_ariths signed_take_bit_63)

lemma sint_wrap_sub: "sint (a - b :: u64) = (sint a - sint b + 2 ^ 63) mod 2 ^ 64 - 2 ^ 63"
  by (simp add: sint_word_ariths signed_take_bit_63)

lemma sint_wrap_mul: "sint (a * b :: u64) = (sint a * sint b + 2 ^ 63) mod 2 ^ 64 - 2 ^ 63"
  by (simp add: sint_word_ariths signed_take_bit_63)

lemma neg_and_xor_iff:
  "sint ((a XOR r) AND (b XOR s) :: u64) < 0 \<longleftrightarrow>
     (sint a < 0) \<noteq> (sint r < 0) \<and> (sint b < 0) \<noteq> (sint s < 0)"
  using bit_last_iff [of "(a XOR r) AND (b XOR s)"] bit_last_iff [of a] bit_last_iff [of b]
    bit_last_iff [of r] bit_last_iff [of s]
  by (simp add: bit_and_iff bit_xor_iff)

lemma wrap_in_range: "fits_i64 k \<Longrightarrow> (k + 2 ^ 63) mod 2 ^ 64 - 2 ^ 63 = k"
  by (simp add: fits_i64_def)

lemma wrap_above:
  assumes "2 ^ 63 \<le> k" and "k < 2 ^ 64"
  shows "(k + 2 ^ 63) mod 2 ^ 64 - 2 ^ 63 = k - (2 ^ 64 :: int)"
  using assms mod_pos_pos_trivial [of "k + 2 ^ 63 - 2 ^ 64" "2 ^ 64"]
    minus_mod_self2 [of "k + 2 ^ 63" "2 ^ 64"] by simp

lemma wrap_below:
  assumes "k < - (2 ^ 63)" and "- (2 ^ 64) \<le> k"
  shows "(k + 2 ^ 63) mod 2 ^ 64 - 2 ^ 63 = k + (2 ^ 64 :: int)"
  using assms mod_pos_pos_trivial [of "k + 2 ^ 63 + 2 ^ 64" "2 ^ 64"]
    mod_add_self2 [of "k + 2 ^ 63" "2 ^ 64"] by simp

lemma wrap_sign:
  assumes "- (2 ^ 64) \<le> k" and "k < 2 ^ 64"
  shows "\<not> fits_i64 k \<longleftrightarrow> (k < 0) \<noteq> ((k + 2 ^ 63) mod 2 ^ 64 - 2 ^ 63 < (0 :: int))"
  using assms wrap_in_range [of k] wrap_above [of k] wrap_below [of k]
  by (auto simp: fits_i64_def)

lemma add_flag_iff:
  "\<not> fits_i64 (sint a + sint b) \<longleftrightarrow>
     (sint a < 0) \<noteq> (sint (a + b :: u64) < 0) \<and> (sint b < 0) \<noteq> (sint (a + b) < 0)"
  using sint_i64_range [of a] sint_i64_range [of b] wrap_sign [of "sint a + sint b"]
  by (auto simp: sint_wrap_add fits_i64_def)

lemma sub_flag_iff:
  "\<not> fits_i64 (sint a - sint b) \<longleftrightarrow>
     (sint a < 0) \<noteq> (sint (b :: u64) < 0) \<and> (sint a < 0) \<noteq> (sint (a - b) < 0)"
  using sint_i64_range [of a] sint_i64_range [of b] wrap_sign [of "sint a - sint b"]
  by (auto simp: sint_wrap_sub fits_i64_def)

lemma exact_sdiv:
  assumes "a \<noteq> 0"
  shows "(a * b) sdiv a = (b :: int)"
proof -
  have "(a * b) smod a = 0"
    by (simp add: signed_modulo_int_def abs_mult)
  then have "a * ((a * b) sdiv a) = a * b"
    using mult_sdiv_smod_eq [of a "a * b"] by simp
  with assms show ?thesis by simp
qed

lemma small_multiple_zero: "(2 ^ 64 :: int) dvd d \<Longrightarrow> \<bar>d\<bar> < 2 ^ 64 \<Longrightarrow> d = 0"
  using zdvd_imp_le [of "2 ^ 64" "\<bar>d\<bar>"] by auto

lemma mul_quotient_exact:
  assumes quot: "sint (a * b :: u64) sdiv sint a = sint b" and nz: "sint a \<noteq> 0"
  shows "sint (a * b) = sint a * sint b"
proof -
  let ?d = "sint (a * b) - sint a * sint b"
  have "\<bar>sint a\<bar> \<le> 2 ^ 63" using sint_i64_range [of a] by auto
  moreover have "?d = sint (a * b) smod sint a"
    using minus_mult_sdiv_eq_smod [of "sint (a * b)" "sint a"] quot by simp
  ultimately have "\<bar>?d\<bar> < 2 ^ 64"
    using smod_int_range [of "sint a" "sint (a * b)"] nz by auto
  moreover have "(2 ^ 64 :: int) dvd ?d"
  proof -
    have "(sint a * sint b + 2 ^ 63) mod 2 ^ 64 mod 2 ^ 64 = (sint a * sint b + 2 ^ 63) mod (2 ^ 64 :: int)"
      by simp
    then have "(2 ^ 64 :: int) dvd (sint a * sint b + 2 ^ 63) mod 2 ^ 64 - (sint a * sint b + 2 ^ 63)"
      by (simp only: mod_eq_dvd_iff)
    then show ?thesis by (simp add: sint_wrap_mul algebra_simps)
  qed
  ultimately show ?thesis using small_multiple_zero [of ?d] by simp
qed

lemma mul_flag_iff:
  "\<not> fits_i64 (sint a * sint b) \<longleftrightarrow>
     (sint a = -1 \<and> sint b = - (2 ^ 63)) \<or>
     (sint a \<noteq> 0 \<and> sint (a * b :: u64) sdiv sint a \<noteq> sint b)"
proof (cases "fits_i64 (sint a * sint b)")
  case True
  then have "sint (a * b) = sint a * sint b"
    by (simp add: sint_wrap_mul wrap_in_range [simplified])
  moreover have "\<not> (sint a = -1 \<and> sint b = - (2 ^ 63))"
    using True by (auto simp: fits_i64_def)
  ultimately show ?thesis using True exact_sdiv [of "sint a" "sint b"] by auto
next
  case False
  then have "sint a \<noteq> 0" by (auto simp: fits_i64_def)
  moreover have "sint (a * b) \<noteq> sint a * sint b"
    using False fits_sint [of "a * b"] by auto
  ultimately show ?thesis using False mul_quotient_exact by blast
qed

subsection \<open>Properties\<close>

text \<open>The portable bodies of \<^verbatim>\<open>i64_add_ovf\<close>, \<^verbatim>\<open>i64_sub_ovf\<close> and \<^verbatim>\<open>i64_mul_ovf\<close> return
  the same result and the same overflow flag as the compiler builtins, for all operands.\<close>

theorem portable_overflow_checks_agree:
  "i64_add_ovf_portable a b = i64_add_ovf a b \<and>
   i64_sub_ovf_portable a b = i64_sub_ovf a b \<and>
   i64_mul_ovf_portable a b = i64_mul_ovf a b"
  by (auto simp: i64_add_ovf_portable_def i64_add_ovf_def i64_sub_ovf_portable_def
      i64_sub_ovf_def i64_mul_ovf_portable_def i64_mul_ovf_def Let_def neg_and_xor_iff
      add_flag_iff sub_flag_iff mul_flag_iff)

lemma i64_no_overflow_exact:
  "\<not> snd (i64_add_ovf a b) \<Longrightarrow> sint (fst (i64_add_ovf a b)) = sint a + sint b"
  "\<not> snd (i64_sub_ovf a b) \<Longrightarrow> sint (fst (i64_sub_ovf a b)) = sint a - sint b"
  "\<not> snd (i64_mul_ovf a b) \<Longrightarrow> sint (fst (i64_mul_ovf a b)) = sint a * sint b"
  by (simp_all add: i64_add_ovf_def i64_sub_ovf_def i64_mul_ovf_def sint_wrap_add sint_wrap_sub
      sint_wrap_mul wrap_in_range [simplified])

end
