(* ===== verification/Ssrf.thy ===== *)
theory Ssrf
  imports Prelude
begin

text \<open>
  The decision whether an address may be contacted by the HTTP client
  (\<^verbatim>\<open>cpp/include/look/ssrf_safe.h\<close>): private and special IPv4 blocks, and the IPv6
  addresses that are local or embed such an IPv4 address.
\<close>

subsection \<open>Model\<close>

definition is_private_v4 :: "u32 \<Rightarrow> bool" where
  "is_private_v4 ip \<longleftrightarrow>
     drop_bit 24 ip = 127 \<or> drop_bit 24 ip = 10 \<or> drop_bit 20 ip = 172 * 16 + 1 \<or>
     drop_bit 16 ip = 192 * 256 + 168 \<or> drop_bit 16 ip = 169 * 256 + 254 \<or>
     drop_bit 22 ip = 100 * 4 + 1 \<or> drop_bit 24 ip = 0 \<or>
     drop_bit 28 ip = 0xE \<or> drop_bit 28 ip = 0xF"

definition ssrf_rd32 :: "u8 \<Rightarrow> u8 \<Rightarrow> u8 \<Rightarrow> u8 \<Rightarrow> u32" where
  "ssrf_rd32 b0 b1 b2 b3 = be32 b0 b1 b2 b3"

text \<open>The sixteen bytes are the list \<open>b\<close>; \<open>b ! i\<close> is \<^verbatim>\<open>b[i]\<close>.\<close>

definition ssrf_blocked_v6 :: "u8 list \<Rightarrow> bool" where
  "ssrf_blocked_v6 b \<longleftrightarrow>
     (let is_lo = (\<forall>i \<in> set [0..<15]. b ! i = 0);
          hi80_zero = (\<forall>i \<in> set [0..<10]. b ! i = 0);
          v4 = ssrf_rd32 (b ! 12) (b ! 13) (b ! 14) (b ! 15)
      in (is_lo \<and> b ! 15 = 1) \<or> (is_lo \<and> b ! 15 = 0) \<or>
         b ! 0 AND 0xFE = 0xFC \<or>
         (b ! 0 = 0xFE \<and> b ! 1 AND 0xC0 = 0x80) \<or>
         (hi80_zero \<and> b ! 10 = 0xFF \<and> b ! 11 = 0xFF \<and> is_private_v4 v4) \<or>
         (hi80_zero \<and> b ! 10 = 0 \<and> b ! 11 = 0 \<and>
           b ! 12 OR b ! 13 OR b ! 14 OR b ! 15 \<noteq> 0 \<and> is_private_v4 v4) \<or>
         (b ! 0 = 0 \<and> b ! 1 = 0x64 \<and> b ! 2 = 0xFF \<and> b ! 3 = 0x9B \<and>
           (\<forall>i \<in> set [4..<12]. b ! i = 0) \<and> is_private_v4 v4) \<or>
         (b ! 0 = 0x20 \<and> b ! 1 = 0x02 \<and>
           is_private_v4 (ssrf_rd32 (b ! 2) (b ! 3) (b ! 4) (b ! 5))))"

subsection \<open>Dotted quads\<close>

lemma quad_div:
  fixes a b c d :: nat
  assumes "b < 256" "c < 256" "d < 256"
  defines "n \<equiv> a * 2 ^ 24 + b * 2 ^ 16 + c * 2 ^ 8 + d"
  shows "n div 2 ^ 24 = a" "n div 2 ^ 16 = a * 256 + b" "n div 2 ^ 20 = a * 16 + b div 16"
    "n div 2 ^ 22 = a * 4 + b div 64" "n div 2 ^ 28 = a div 16"
proof -
  show "n div 2 ^ 24 = a" using assms by simp
  show b: "n div 2 ^ 16 = a * 256 + b" using assms by simp
  have "n div 2 ^ 20 = n div 2 ^ 16 div 2 ^ 4" by (simp add: div_mult2_eq [symmetric])
  then show "n div 2 ^ 20 = a * 16 + b div 16" unfolding b by simp
  have "n div 2 ^ 22 = n div 2 ^ 16 div 2 ^ 6" by (simp add: div_mult2_eq [symmetric])
  then show "n div 2 ^ 22 = a * 4 + b div 64" unfolding b by simp
  have "n div 2 ^ 28 = n div 2 ^ 24 div 2 ^ 4" by (simp add: div_mult2_eq [symmetric])
  then show "n div 2 ^ 28 = a div 16" unfolding \<open>n div 2 ^ 24 = a\<close> by simp
qed

lemma word_eq_unat: "(v = w) = (unat v = unat (w :: 'a :: len word))"
  by (simp add: word_unat_eq_iff)

lemma div_block:
  fixes y k q :: nat
  assumes "0 < k"
  shows "y div k = q \<longleftrightarrow> q * k \<le> y \<and> y < (q + 1) * k"
proof
  assume "y div k = q"
  then show "q * k \<le> y \<and> y < (q + 1) * k"
    using assms div_times_less_eq_dividend [of y k] dividend_less_div_times [of k y] by auto
next
  assume "q * k \<le> y \<and> y < (q + 1) * k"
  then show "y div k = q" by (intro div_nat_eqI) (auto simp: algebra_simps)
qed

lemma mixed_radix:
  fixes x z m :: nat
  assumes "z < m" and "c < m"
  shows "x * m + z = p * m + c \<longleftrightarrow> x = p \<and> z = c"
proof
  assume eq: "x * m + z = p * m + c"
  then have "(x * m + z) div m = (p * m + c) div m" "(x * m + z) mod m = (p * m + c) mod m"
    by simp_all
  with assms show "x = p \<and> z = c" by simp
qed simp

lemma is_private_v4_quad:
  "is_private_v4 (be32 a b c d) \<longleftrightarrow>
     a \<in> {0, 10, 127} \<or> (a = 172 \<and> 16 \<le> b \<and> b \<le> 31) \<or> (a = 192 \<and> b = 168) \<or>
     (a = 169 \<and> b = 254) \<or> (a = 100 \<and> 64 \<le> b \<and> b \<le> 127) \<or> 224 \<le> a"
proof -
  have lt: "unat a < 256" "unat b < 256" "unat c < 256" "unat d < 256"
    by (rule unat_u8_less)+
  note q = quad_div [of "unat b" "unat c" "unat d" "unat a", OF lt(2,3,4)]
  have t172: "unat a * 16 + unat b div 16 = 172 * 16 + 1 \<longleftrightarrow>
      unat a = 172 \<and> 16 \<le> unat b \<and> unat b \<le> 31"
    using lt mixed_radix [of "unat b div 16" 16 1 "unat a" 172] div_block [of 16 "unat b" 1]
    by (simp add: less_mult_imp_div_less) linarith
  have t100: "unat a * 4 + unat b div 64 = 100 * 4 + 1 \<longleftrightarrow>
      unat a = 100 \<and> 64 \<le> unat b \<and> unat b \<le> 127"
    using lt mixed_radix [of "unat b div 64" 4 1 "unat a" 100] div_block [of 64 "unat b" 1]
    by (simp add: less_mult_imp_div_less) linarith
  have t16: "unat a * 256 + unat b = 192 * 256 + 168 \<longleftrightarrow> unat a = 192 \<and> unat b = 168"
      "unat a * 256 + unat b = 169 * 256 + 254 \<longleftrightarrow> unat a = 169 \<and> unat b = 254"
    using lt by (intro mixed_radix; simp)+
  have top: "unat a div 16 = 14 \<or> unat a div 16 = 15 \<longleftrightarrow> 224 \<le> unat a"
    using lt(1) div_block [of 16 "unat a" 14] div_block [of 16 "unat a" 15] by auto
  have "is_private_v4 (be32 a b c d) \<longleftrightarrow>
      unat a = 127 \<or> unat a = 10 \<or> unat a * 16 + unat b div 16 = 172 * 16 + 1 \<or>
      unat a * 256 + unat b = 192 * 256 + 168 \<or> unat a * 256 + unat b = 169 * 256 + 254 \<or>
      unat a * 4 + unat b div 64 = 100 * 4 + 1 \<or> unat a = 0 \<or> unat a div 16 = 14 \<or>
      unat a div 16 = 15"
    unfolding is_private_v4_def word_eq_unat unat_drop_bit unat_be32 q by simp
  also have "\<dots> \<longleftrightarrow> unat a \<in> {0, 10, 127} \<or> (unat a = 172 \<and> 16 \<le> unat b \<and> unat b \<le> 31) \<or>
      (unat a = 192 \<and> unat b = 168) \<or> (unat a = 169 \<and> unat b = 254) \<or>
      (unat a = 100 \<and> 64 \<le> unat b \<and> unat b \<le> 127) \<or> 224 \<le> unat a"
    unfolding t172 t100 t16 using top by blast
  finally show ?thesis
    by (simp add: word_eq_unat [where 'a = 8] word_le_nat_alt)
qed

subsection \<open>Properties\<close>

text \<open>The shift tests of \<^verbatim>\<open>is_private_v4\<close> decide exactly the blocks the comments name, read
  as dotted quads: 0/8, 10/8, 127/8, 172.16-31, 192.168, 169.254, 100.64-127 and 224 upwards.\<close>

theorem private_v4_blocks:
  "is_private_v4 (ssrf_rd32 a b c d) \<longleftrightarrow>
     a \<in> {0, 10, 127} \<or> (a = 172 \<and> 16 \<le> b \<and> b \<le> 31) \<or> (a = 192 \<and> b = 168) \<or>
     (a = 169 \<and> b = 254) \<or> (a = 100 \<and> 64 \<le> b \<and> b \<le> 127) \<or> 224 \<le> a"
  unfolding ssrf_rd32_def by (rule is_private_v4_quad)

text \<open>No IPv6 spelling hides an IPv4 address from the filter: a v4-mapped, v4-compatible,
  NAT64 or 6to4 address is blocked exactly when the IPv4 address it carries is private.\<close>

theorem v6_embedding_is_transparent:
  "ssrf_blocked_v6 [0,0,0,0,0,0,0,0,0,0,0xFF,0xFF,a,b,c,d] = is_private_v4 (ssrf_rd32 a b c d) \<and>
   ssrf_blocked_v6 [0,0,0,0,0,0,0,0,0,0,0,0,a,b,c,d] = is_private_v4 (ssrf_rd32 a b c d) \<and>
   ssrf_blocked_v6 [0,0x64,0xFF,0x9B,0,0,0,0,0,0,0,0,a,b,c,d] = is_private_v4 (ssrf_rd32 a b c d) \<and>
   ssrf_blocked_v6 ([0x20,0x02,a,b,c,d] @ rest) = is_private_v4 (ssrf_rd32 a b c d)"
proof (intro conjI)
  show "ssrf_blocked_v6 [0,0,0,0,0,0,0,0,0,0,0xFF,0xFF,a,b,c,d] = is_private_v4 (ssrf_rd32 a b c d)"
    by (simp add: ssrf_blocked_v6_def Let_def upt_rec [of 0] upt_rec [of "Suc _"])
  show "ssrf_blocked_v6 [0,0,0,0,0,0,0,0,0,0,0,0,a,b,c,d] = is_private_v4 (ssrf_rd32 a b c d)"
    by (auto simp: ssrf_blocked_v6_def Let_def upt_rec [of 0] upt_rec [of "Suc _"] or_eq_0_iff
        ssrf_rd32_def is_private_v4_quad)
  show "ssrf_blocked_v6 [0,0x64,0xFF,0x9B,0,0,0,0,0,0,0,0,a,b,c,d] = is_private_v4 (ssrf_rd32 a b c d)"
    by (simp add: ssrf_blocked_v6_def Let_def upt_rec [of 0] upt_rec [of "Suc _"])
  show "ssrf_blocked_v6 ([0x20,0x02,a,b,c,d] @ rest) = is_private_v4 (ssrf_rd32 a b c d)"
    by (simp add: ssrf_blocked_v6_def Let_def upt_rec [of 0] upt_rec [of "Suc _"])
qed

end
