(* ===== verification/Json_Str.thy ===== *)
theory Json_Str
  imports Prelude
begin

text \<open>
  JSON strings: the decoder of \<^verbatim>\<open>cpp/include/look/json_str_parse.h\<close> (escapes, surrogate
  pairs, UTF-8 output) and the encoder \<^verbatim>\<open>json_encode_string\<close> of \<^verbatim>\<open>web_stdlib.cpp\<close>. A read
  position is the suffix of the text that starts there; a position at or past the end is
  the empty suffix.
\<close>

subsection \<open>Model\<close>

definition chr :: "u32 \<Rightarrow> char" where
  "chr w = char_of (unat w)"

definition json_append_utf8 :: "u32 \<Rightarrow> string" where
  "json_append_utf8 cp =
     (if cp < 0x80 then [chr cp]
      else if cp < 0x800 then [chr (0xC0 OR drop_bit 6 cp), chr (0x80 OR (cp AND 0x3F))]
      else if cp < 0x10000 then
        [chr (0xE0 OR drop_bit 12 cp), chr (0x80 OR (drop_bit 6 cp AND 0x3F)),
         chr (0x80 OR (cp AND 0x3F))]
      else
        [chr (0xF0 OR drop_bit 18 cp), chr (0x80 OR (drop_bit 12 cp AND 0x3F)),
         chr (0x80 OR (drop_bit 6 cp AND 0x3F)), chr (0x80 OR (cp AND 0x3F))])"

definition json_hexval :: "char \<Rightarrow> nat option" where
  "json_hexval c =
     (if 48 \<le> code_of c \<and> code_of c \<le> 57 then Some (code_of c - 48)
      else if 97 \<le> code_of c \<and> code_of c \<le> 102 then Some (code_of c - 97 + 10)
      else if 65 \<le> code_of c \<and> code_of c \<le> 70 then Some (code_of c - 65 + 10)
      else None)"

fun json_read_digits :: "nat \<Rightarrow> nat \<Rightarrow> string \<Rightarrow> (nat \<times> string) option" where
  "json_read_digits 0 cp s = Some (cp, s)"
| "json_read_digits (Suc k) cp [] = None"
| "json_read_digits (Suc k) cp (c # s) =
     (case json_hexval c of None \<Rightarrow> None | Some h \<Rightarrow> json_read_digits k (cp * 16 + h) s)"

text \<open>\<^term>\<open>None\<close> is the result \<^verbatim>\<open>-1\<close>, which leaves the position where it was.\<close>

definition json_read_u4 :: "string \<Rightarrow> (nat \<times> string) option" where
  "json_read_u4 s = (if length s < 4 then None else json_read_digits 4 0 s)"

definition json_surrogate :: "nat \<Rightarrow> string \<Rightarrow> nat \<times> string" where
  "json_surrogate cp t =
     (if 0xD800 \<le> cp \<and> cp \<le> 0xDBFF \<and> 2 \<le> length t \<and> t ! 0 = BSL \<and> t ! 1 = CHR ''u'' then
        (case json_read_u4 (drop 2 t) of
           None \<Rightarrow> (cp, t)
         | Some (lo, t') \<Rightarrow>
             if 0xDC00 \<le> lo \<and> lo \<le> 0xDFFF
             then (0x10000 + (cp - 0xD800) * 2 ^ 10 + (lo - 0xDC00), t') else (cp, t))
      else (cp, t))"

definition json_simple_escape :: "char \<Rightarrow> char" where
  "json_simple_escape e =
     (if e = CHR ''n'' then NL else if e = CHR ''t'' then TAB else if e = CHR ''r'' then CR
      else if e = CHR ''b'' then CHR 0x08 else if e = CHR ''f'' then CHR 0x0C else e)"

lemma json_read_digits_len: "json_read_digits k cp s = Some (v, t) \<Longrightarrow> length t + k = length s"
  by (induction k cp s rule: json_read_digits.induct) (auto split: option.splits)

lemma json_read_u4_len: "json_read_u4 s = Some (v, t) \<Longrightarrow> length t + 4 = length s"
  by (auto simp: json_read_u4_def split: if_splits dest: json_read_digits_len)

lemma json_surrogate_len: "json_surrogate cp t = (cp', t') \<Longrightarrow> length t' \<le> length t"
  by (auto simp: json_surrogate_def split: if_splits option.splits dest: json_read_u4_len)

function json_str_loop :: "string \<Rightarrow> string \<Rightarrow> string \<times> string" where
  "json_str_loop [] result = (result, [])"
| "json_str_loop (c # s) result =
     (if c = DQ then (result, c # s)
      else if c \<noteq> BSL then json_str_loop s (result @ [c])
      else case s of
             [] \<Rightarrow> (result, [])
           | e # t \<Rightarrow>
               if e = CHR ''u'' then
                 (case json_read_u4 t of
                    None \<Rightarrow> json_str_loop (drop 1 t) (result @ [BSL, CHR ''u''])
                  | Some (cp, t1) \<Rightarrow>
                      (let (cp', t2) = json_surrogate cp t1
                       in json_str_loop t2 (result @ json_append_utf8 (word_of_nat cp'))))
               else json_str_loop t (result @ [json_simple_escape e]))"
  by pat_completeness auto
termination
  by (relation "measure (\<lambda>(s, r). length s)")
    (auto dest!: json_read_u4_len json_surrogate_len [OF sym])

definition json_decode_str :: "string \<Rightarrow> string \<times> string" where
  "json_decode_str s = (let (result, t) = json_str_loop (drop 1 s) [] in (result, drop 1 t))"

definition hex_digit :: "nat \<Rightarrow> char" where
  "hex_digit n = (if n < 10 then char_of (48 + n) else char_of (87 + n))"

definition json_encode_char :: "char \<Rightarrow> string" where
  "json_encode_char c =
     (if c = DQ then [BSL, DQ]
      else if c = BSL then [BSL, BSL]
      else if c = NL then [BSL, CHR ''n'']
      else if c = CR then [BSL, CHR ''r'']
      else if c = TAB then [BSL, CHR ''t'']
      else if code_of c < 0x20 then
        [BSL, CHR ''u'', CHR ''0'', CHR ''0'', hex_digit (code_of c div 16),
         hex_digit (code_of c mod 16)]
      else [c])"

definition json_encode_string :: "string \<Rightarrow> string" where
  "json_encode_string s = [DQ] @ concat (map json_encode_char s) @ [DQ]"

declare json_str_loop.simps [simp del]

subsection \<open>UTF-8 output\<close>

lemma unat_or_split:
  fixes x y :: u32
  assumes "unat x < 2 ^ n" and "unat y = push_bit n m"
  shows "unat (y OR x) = m * 2 ^ n + unat x"
  using assms by (simp add: unsigned_or_eq nat_or_shift)

lemma unat_and_3F: "unat (x AND 0x3F :: u32) = unat x mod 64"
proof -
  have "x AND 0x3F = take_bit 6 x" by (simp add: take_bit_eq_mask mask_eq_exp_minus_1)
  then have "unat (x AND 0x3F) = take_bit 6 (unat x)" by (simp only: unsigned_take_bit_eq)
  also have "\<dots> = unat x mod 64" by (simp add: take_bit_eq_mod)
  finally show ?thesis .
qed

lemma unat_cont: "unat (0x80 OR (x AND 0x3F) :: u32) = 128 + unat x mod 64"
proof -
  have "unat (0x80 OR (x AND 0x3F) :: u32) = 2 * 2 ^ 6 + unat (x AND 0x3F)"
    by (rule unat_or_split) (simp_all add: unat_and_3F push_bit_eq_mult)
  then show ?thesis by (simp add: unat_and_3F)
qed

lemma unat_lead:
  fixes x :: u32
  shows "unat x < 32 \<Longrightarrow> unat (0xC0 OR x) = 192 + unat x"
    and "unat x < 16 \<Longrightarrow> unat (0xE0 OR x) = 224 + unat x"
    and "unat x < 8 \<Longrightarrow> unat (0xF0 OR x) = 240 + unat x"
proof -
  assume "unat x < 32"
  then have "unat (0xC0 OR x) = 6 * 2 ^ 5 + unat x"
    by (intro unat_or_split) (simp_all add: push_bit_eq_mult)
  then show "unat (0xC0 OR x) = 192 + unat x" by simp
next
  assume "unat x < 16"
  then have "unat (0xE0 OR x) = 14 * 2 ^ 4 + unat x"
    by (intro unat_or_split) (simp_all add: push_bit_eq_mult)
  then show "unat (0xE0 OR x) = 224 + unat x" by simp
next
  assume "unat x < 8"
  then have "unat (0xF0 OR x) = 30 * 2 ^ 3 + unat x"
    by (intro unat_or_split) (simp_all add: push_bit_eq_mult)
  then show "unat (0xF0 OR x) = 240 + unat x" by simp
qed

text \<open>A strict reference decoder for one UTF-8 sequence: shortest form only, up to U+10FFFF.\<close>

definition cont_byte :: "char \<Rightarrow> bool" where
  "cont_byte c \<longleftrightarrow> code_of c div 64 = 2"

fun utf8_decode1 :: "string \<Rightarrow> (nat \<times> string) option" where
  "utf8_decode1 [] = None"
| "utf8_decode1 (a # s) =
     (if code_of a < 0x80 then Some (code_of a, s)
      else if code_of a div 32 = 6 then
        (case s of b # t \<Rightarrow>
           let cp = code_of a mod 32 * 64 + code_of b mod 64
           in if cont_byte b \<and> 0x80 \<le> cp then Some (cp, t) else None
         | _ \<Rightarrow> None)
      else if code_of a div 16 = 14 then
        (case s of b # c # t \<Rightarrow>
           let cp = code_of a mod 16 * 4096 + code_of b mod 64 * 64 + code_of c mod 64
           in if cont_byte b \<and> cont_byte c \<and> 0x800 \<le> cp then Some (cp, t) else None
         | _ \<Rightarrow> None)
      else if code_of a div 8 = 30 then
        (case s of b # c # d # t \<Rightarrow>
           let cp = code_of a mod 8 * 262144 + code_of b mod 64 * 4096 + code_of c mod 64 * 64
                    + code_of d mod 64
           in if cont_byte b \<and> cont_byte c \<and> cont_byte d \<and> 0x10000 \<le> cp \<and> cp < 0x110000
              then Some (cp, t) else None
         | _ \<Rightarrow> None)
      else None)"

lemma code_of_chr: "unat w < 256 \<Longrightarrow> code_of (chr w) = unat w"
  by (simp add: chr_def code_of_char_of)

lemma u32_less_unat: "(w < numeral n) = (unat (w :: u32) < unat (numeral n :: u32))"
  by (rule word_less_nat_alt)

text \<open>What each byte carries: the code points of the lead and continuation bytes.\<close>

definition utf8_bytes :: "nat \<Rightarrow> nat list" where
  "utf8_bytes n =
     (if n < 0x80 then [n]
      else if n < 0x800 then [192 + n div 64, 128 + n mod 64]
      else if n < 0x10000 then [224 + n div 4096, 128 + n div 64 mod 64, 128 + n mod 64]
      else [240 + n div 262144, 128 + n div 4096 mod 64, 128 + n div 64 mod 64, 128 + n mod 64])"

lemma json_append_utf8_bytes:
  "unat cp < 0x110000 \<Longrightarrow> json_append_utf8 cp = map char_of (utf8_bytes (unat cp))"
  by (auto simp: json_append_utf8_def utf8_bytes_def chr_def u32_less_unat unat_cont unat_lead
      unat_drop_bit less_mult_imp_div_less)

lemma off_div_mod:
  fixes q m k :: nat
  assumes "q < m"
  shows "(k * m + q) mod m = q" and "(k * m + q) div m = k"
  using assms by simp_all

lemmas utf8_digits =
  off_div_mod [where k = 2 and m = 64, simplified]
  off_div_mod [where k = 6 and m = 32, simplified]
  off_div_mod [where k = 14 and m = 16, simplified]
  off_div_mod [where k = 30 and m = 8, simplified]

lemma utf8_decode1_bytes:
  assumes "n < 0x110000"
  shows "utf8_decode1 (map char_of (utf8_bytes n) @ rest) = Some (n, rest)"
proof -
  have q: "n div 64 div 64 = n div 4096" "n div 4096 div 64 = n div 262144"
    by (simp_all add: div_mult2_eq [symmetric])
  have d1: "n = n div 64 * 64 + n mod 64" by simp
  have d2: "n div 64 = n div 4096 * 64 + n div 64 mod 64"
    using div_mult_mod_eq [of "n div 64" 64] q(1) by simp
  have d3: "n div 4096 = n div 262144 * 64 + n div 4096 mod 64"
    using div_mult_mod_eq [of "n div 4096" 64] q(2) by simp
  have e3: "n div 4096 * 4096 + n div 64 mod 64 * 64 + n mod 64 = n"
    using d1 d2 by linarith
  have e4: "n div 262144 * 262144 + n div 4096 mod 64 * 4096 + n div 64 mod 64 * 64 + n mod 64 = n"
    using e3 d3 by linarith
  have c: "code_of (char_of (128 + m mod 64)) = 128 + m mod 64" for m
    by (rule code_of_char_of) (use mod_less_divisor [of 64 m] in simp)
  consider "n < 0x80" | "0x80 \<le> n" "n < 0x800" | "0x800 \<le> n" "n < 0x10000" | "0x10000 \<le> n"
    by linarith
  then show ?thesis
  proof cases
    case 1
    then show ?thesis by (simp add: utf8_bytes_def code_of_char_of)
  next
    case 2
    then have "n div 64 < 32" by (simp add: less_mult_imp_div_less)
    with 2 show ?thesis
      by (simp add: utf8_bytes_def code_of_char_of cont_byte_def utf8_digits Let_def)
  next
    case 3
    then have lt: "n div 4096 < 16" by (simp add: less_mult_imp_div_less)
    then have "(224 + n div 4096) div 32 = 7" by simp
    with 3 lt e3 show ?thesis
      by (simp add: utf8_bytes_def code_of_char_of c cont_byte_def utf8_digits Let_def)
  next
    case 4
    with assms have lt: "n div 262144 < 8" by (simp add: less_mult_imp_div_less)
    then have "(240 + n div 262144) div 32 = 7" "(240 + n div 262144) div 16 = 15" by simp_all
    with 4 assms lt e4 show ?thesis
      by (simp add: utf8_bytes_def code_of_char_of c cont_byte_def utf8_digits Let_def)
  qed
qed

lemma json_append_utf8_decodes:
  "unat cp < 0x110000 \<Longrightarrow> utf8_decode1 (json_append_utf8 cp @ rest) = Some (unat cp, rest)"
  by (simp add: json_append_utf8_bytes utf8_decode1_bytes)

subsection \<open>Decoding what the encoder wrote\<close>

lemma json_hexval_digit: "n < 16 \<Longrightarrow> json_hexval (hex_digit n) = Some n"
  by (auto simp: json_hexval_def hex_digit_def code_of_char_of)

lemma json_read_digits_4: "json_read_digits 4 = json_read_digits (Suc (Suc (Suc (Suc 0))))"
  by (simp add: numeral_eq_Suc)

lemma json_read_u4_control:
  "n < 256 \<Longrightarrow>
     json_read_u4 (CHR ''0'' # CHR ''0'' # hex_digit (n div 16) # hex_digit (n mod 16) # s) = Some (n, s)"
proof -
  assume "n < 256"
  then have "n div 16 < 16" by (simp add: less_mult_imp_div_less)
  moreover have "json_hexval (CHR ''0'') = Some 0" by (simp add: json_hexval_def code_of_def)
  ultimately show ?thesis
    by (simp add: json_read_u4_def json_read_digits_4 json_hexval_digit)
qed

lemma json_append_utf8_ascii: "code_of c < 0x80 \<Longrightarrow> json_append_utf8 (word_of_nat (code_of c)) = [c]"
proof -
  assume lt: "code_of c < 0x80"
  then have "unat (word_of_nat (code_of c) :: u32) = code_of c"
    by (simp add: unsigned_of_nat take_bit_nat_eq_self)
  with lt show ?thesis
    by (simp add: json_append_utf8_bytes utf8_bytes_def) (simp add: code_of_def)
qed

lemma json_str_loop_encoded:
  "json_str_loop (json_encode_char c @ s) r = json_str_loop s (r @ [c])"
proof -
  consider "c \<in> {DQ, BSL, NL, CR, TAB}" | "c \<notin> {DQ, BSL, NL, CR, TAB}" "code_of c < 0x20"
    | "c \<notin> {DQ, BSL, NL, CR, TAB}" "\<not> code_of c < 0x20"
    by blast
  then show ?thesis
  proof cases
    case 1
    then show ?thesis
      by (auto simp: json_encode_char_def json_str_loop.simps json_simple_escape_def)
  next
    case 2
    then show ?thesis
      by (simp add: json_encode_char_def json_str_loop.simps json_read_u4_control
          json_surrogate_def json_append_utf8_ascii)
  next
    case 3
    then show ?thesis
      by (simp add: json_encode_char_def json_str_loop.simps)
  qed
qed

lemma json_str_loop_encoded_all:
  "json_str_loop (concat (map json_encode_char s) @ DQ # rest) r = (r @ s, DQ # rest)"
  by (induction s arbitrary: r) (simp_all add: json_str_loop_encoded json_str_loop.simps)

subsection \<open>Properties\<close>

text \<open>C37: Every byte string survives JSON: decoding an encoded string returns it unchanged and
  leaves the reader exactly behind the closing quote, whatever follows.\<close>

theorem json_string_roundtrip: "json_decode_str (json_encode_string s @ rest) = (s, rest)"
  by (simp add: json_decode_str_def json_encode_string_def json_str_loop_encoded_all)

text \<open>A Unicode code point is written as its shortest UTF-8 form, which a strict decoder reads
  back to the same code point.\<close>

theorem json_utf8_decodes:
  assumes "unat cp < 0x110000"
  shows "utf8_decode1 (json_append_utf8 cp @ rest) = Some (unat cp, rest)"
  using assms by (rule json_append_utf8_decodes)

theorem json_utf8_decodes_witness:
  "utf8_decode1 (json_append_utf8 0x1F600 @ ''!'') = Some (0x1F600, ''!'')"
  using json_utf8_decodes [of "0x1F600" "''!''"] by simp

text \<open>A malformed \<^verbatim>\<open>\u\<close> escape makes the decoder drop the byte after it. When that byte is
  the closing quote, the string does not end there: decoding goes on through the text that
  follows.\<close>

theorem json_bad_unicode_swallows_quote:
  "json_decode_str ([DQ, BSL, CHR ''u'', DQ] @ t) =
     (let (r, t') = json_str_loop t [BSL, CHR ''u''] in (r, drop 1 t'))"
proof -
  have "json_read_u4 (DQ # t) = None"
    by (simp add: json_read_u4_def json_read_digits_4 json_hexval_def code_of_def)
  then show ?thesis
    by (simp add: json_decode_str_def json_str_loop.simps)
qed

end
