(* ===== verification/Charset.thy ===== *)
theory Charset
  imports Json_Str
begin

text \<open>
  Conversion of the single-byte encodings to UTF-8 (\<^verbatim>\<open>cpp/include/look/charset.h\<close>).
\<close>

subsection \<open>Model\<close>

definition utf8_append :: "u32 \<Rightarrow> string" where
  "utf8_append cp =
     (if cp < 0x80 then [chr cp]
      else if cp < 0x800 then [chr (0xC0 OR drop_bit 6 cp), chr (0x80 OR (cp AND 0x3F))]
      else [chr (0xE0 OR drop_bit 12 cp), chr (0x80 OR (drop_bit 6 cp AND 0x3F)),
            chr (0x80 OR (cp AND 0x3F))])"

definition cp1252_hi :: "nat list" where
  "cp1252_hi =
     [0x20AC,0,0x201A,0x0192,0x201E,0x2026,0x2020,0x2021,0x02C6,0x2030,0x0160,0x2039,0x0152,0,0x017D,0,
      0,0x2018,0x2019,0x201C,0x201D,0x2022,0x2013,0x2014,0x02DC,0x2122,0x0161,0x203A,0x0153,0,0x017E,0x0178]"

datatype charset = Iso88591 | Iso88599 | Windows1252 | Windows1254

definition charset_of_name :: "string \<Rightarrow> charset option" where
  "charset_of_name cs =
     (let c = map tolower (filter (\<lambda>ch. ch \<noteq> CHR ''-'' \<and> ch \<noteq> CHR ''_'' \<and> ch \<noteq> CHR '' '') cs)
      in if c = ''iso88599'' \<or> c = ''latin5'' then Some Iso88599
         else if c = ''iso88591'' \<or> c = ''latin1'' then Some Iso88591
         else if c = ''windows1254'' \<or> c = ''cp1254'' then Some Windows1254
         else if c = ''windows1252'' \<or> c = ''cp1252'' then Some Windows1252
         else None)"

definition turkish_letter :: "nat \<Rightarrow> nat \<Rightarrow> nat" where
  "turkish_letter b cp =
     (if b = 0xD0 then 0x011E else if b = 0xDD then 0x0130 else if b = 0xDE then 0x015E
      else if b = 0xF0 then 0x011F else if b = 0xFD then 0x0131 else if b = 0xFE then 0x015F else cp)"

definition charset_code_point :: "charset \<Rightarrow> nat \<Rightarrow> nat" where
  "charset_code_point cs b =
     (if b < 0x80 then b
      else let cp = (if cs \<in> {Windows1252, Windows1254} \<and> b \<le> 0x9F \<and> cp1252_hi ! (b - 0x80) \<noteq> 0
                     then cp1252_hi ! (b - 0x80) else b)
           in if cs \<in> {Iso88599, Windows1254} then turkish_letter b cp else cp)"

definition charset_to_utf8 :: "string \<Rightarrow> string \<Rightarrow> string option" where
  "charset_to_utf8 inp cs =
     (case charset_of_name cs of
        None \<Rightarrow> None
      | Some enc \<Rightarrow>
          Some (concat (map (\<lambda>b. utf8_append (word_of_nat (charset_code_point enc (code_of b)))) inp)))"

subsection \<open>Decoding the output\<close>

lemma utf8_append_eq: "cp < 0x10000 \<Longrightarrow> utf8_append cp = json_append_utf8 cp"
  by (simp add: utf8_append_def json_append_utf8_def)

lemma cp1252_hi_bound: "list_all (\<lambda>n. n < 0x10000) cp1252_hi \<and> length cp1252_hi = 32"
  by (simp add: cp1252_hi_def)

lemma charset_code_point_bound: "b < 256 \<Longrightarrow> charset_code_point cs b < 0x10000"
  using cp1252_hi_bound
  by (auto simp: charset_code_point_def turkish_letter_def Let_def list_all_length)

fun utf8_decode :: "nat \<Rightarrow> string \<Rightarrow> nat list option" where
  "utf8_decode 0 s = (if s = [] then Some [] else None)"
| "utf8_decode (Suc n) s =
     (case utf8_decode1 s of None \<Rightarrow> None | Some (cp, t) \<Rightarrow> map_option ((#) cp) (utf8_decode n t))"

lemma charset_byte_decodes:
  assumes "n < 0x10000"
  shows "utf8_decode1 (utf8_append (word_of_nat n) @ rest) = Some (n, rest)"
proof -
  have u: "unat (word_of_nat n :: u32) = n"
    using assms by (simp add: unsigned_of_nat take_bit_nat_eq_self)
  then have "(word_of_nat n :: u32) < 0x10000" using assms by (simp add: word_less_nat_alt)
  then show ?thesis using u assms by (simp add: utf8_append_eq json_append_utf8_decodes)
qed

subsection \<open>Properties\<close>

text \<open>For a known charset the output is valid UTF-8 with one code point per input byte, namely
  the code point the charset table gives for that byte.\<close>

theorem charset_output_decodes:
  assumes "charset_of_name cs = Some enc"
  shows "\<exists>out. charset_to_utf8 inp cs = Some out \<and>
    utf8_decode (length inp) out = Some (map (\<lambda>b. charset_code_point enc (code_of b)) inp)"
proof -
  have "utf8_decode (length inp)
      (concat (map (\<lambda>b. utf8_append (word_of_nat (charset_code_point enc (code_of b)))) inp)) =
      Some (map (\<lambda>b. charset_code_point enc (code_of b)) inp)"
    by (induction inp) (simp_all add: charset_byte_decodes charset_code_point_bound code_of_less)
  then show ?thesis using assms by (simp add: charset_to_utf8_def)
qed

theorem charset_output_decodes_witness:
  "\<exists>out. charset_to_utf8 [CHR 0xDD, CHR 0x41] ''ISO-8859-9'' = Some out \<and>
    utf8_decode (length [CHR 0xDD, CHR 0x41]) out = Some [0x130, 0x41]"
proof -
  have name: "charset_of_name ''ISO-8859-9'' = Some Iso88599" by code_simp
  have "map (\<lambda>b. charset_code_point Iso88599 (code_of b)) [CHR 0xDD, CHR 0x41] = [0x130, 0x41]"
    by code_simp
  then show ?thesis using charset_output_decodes [OF name, of "[CHR 0xDD, CHR 0x41]"] by (simp only:)
qed

end
