(* ===== verification/Html_Escape.thy ===== *)
theory Html_Escape
  imports Prelude
begin

text \<open>
  HTML text escaping (\<^verbatim>\<open>cpp/include/look/html_escape.h\<close>), used by \<^verbatim>\<open>html::escape\<close> and the
  template engine.
\<close>

subsection \<open>Model\<close>

definition html_escape_char :: "char \<Rightarrow> string" where
  "html_escape_char c =
     (if c = CHR ''&'' then ''&amp;'' else if c = CHR ''<'' then ''&lt;''
      else if c = CHR ''>'' then ''&gt;'' else if c = DQ then ''&quot;''
      else if c = SQ then ''&#39;'' else if c = CHR 0x60 then ''&#96;'' else [c])"

definition html_escape :: "string \<Rightarrow> string" where
  "html_escape s = concat (map html_escape_char s)"

subsection \<open>A browser's reading of the six entities\<close>

definition html_entity :: "string \<Rightarrow> (char \<times> string) option" where
  "html_entity s =
     (if prefix ''&amp;'' s then Some (CHR ''&'', drop 5 s)
      else if prefix ''&lt;'' s then Some (CHR ''<'', drop 4 s)
      else if prefix ''&gt;'' s then Some (CHR ''>'', drop 4 s)
      else if prefix ''&quot;'' s then Some (DQ, drop 6 s)
      else if prefix ''&#39;'' s then Some (SQ, drop 5 s)
      else if prefix ''&#96;'' s then Some (CHR 0x60, drop 5 s)
      else None)"

function html_unescape :: "string \<Rightarrow> string" where
  "html_unescape [] = []"
| "html_unescape (c # s) =
     (case html_entity (c # s) of
        Some (d, t) \<Rightarrow> d # html_unescape t
      | None \<Rightarrow> c # html_unescape s)"
  by pat_completeness auto
termination
  by (relation "measure length") (auto simp: html_entity_def split: if_splits)

declare html_unescape.simps(2) [simp del]

lemma html_entity_plain: "c \<noteq> CHR ''&'' \<Longrightarrow> html_entity (c # s) = None"
  by (simp add: html_entity_def)

lemma html_unescape_escaped: "html_unescape (html_escape_char c @ s) = c # html_unescape s"
  by (auto simp: html_escape_char_def html_unescape.simps(2) html_entity_def)

lemma html_unescape_escape: "html_unescape (html_escape s) = s"
  by (induction s) (simp_all add: html_escape_def html_unescape_escaped)

interpretation html_text: codec html_escape html_unescape
  by unfold_locales (rule html_unescape_escape)

lemma html_escape_char_safe:
  "set (html_escape_char c) \<inter> {CHR ''<'', CHR ''>'', DQ, SQ, CHR 0x60} = {}"
  by (auto simp: html_escape_char_def)

subsection \<open>Properties\<close>

text \<open>Escaped text holds no character that opens a tag, closes an attribute or starts a
  template literal, and a browser that resolves the entities shows exactly the original text.\<close>

theorem html_escape_safe_and_lossless:
  "set (html_escape s) \<inter> {CHR ''<'', CHR ''>'', DQ, SQ, CHR 0x60} = {} \<and>
   html_unescape (html_escape s) = s"
proof -
  have "set (html_escape s) \<inter> {CHR ''<'', CHR ''>'', DQ, SQ, CHR 0x60} = {}"
    using html_escape_char_safe unfolding html_escape_def by fastforce
  then show ?thesis by (simp add: html_unescape_escape)
qed

text \<open>Two different texts never render to the same escaped markup.\<close>

theorem html_escape_injective: "html_escape s = html_escape t \<longleftrightarrow> s = t"
  by (rule html_text.enc_eq_iff)

end
