(* ===== verification/Smtp_Parse.thy ===== *)
theory Smtp_Parse
  imports Prelude
begin

text \<open>
  The pre-authentication parsers of the SMTP server (\<^verbatim>\<open>cpp/include/look/smtp_parse.h\<close>): the
  address of \<^verbatim>\<open>MAIL FROM\<close>/\<^verbatim>\<open>RCPT TO\<close> and the command verb.
\<close>

subsection \<open>Model\<close>

definition wsp :: "char \<Rightarrow> bool" where
  "wsp c \<longleftrightarrow> c = CHR '' '' \<or> c = TAB"

text \<open>\<^term>\<open>None\<close> is the result \<^verbatim>\<open>false\<close>, where \<^verbatim>\<open>addr\<close> is left empty.\<close>

definition smtp_angle_addr :: "string \<Rightarrow> string option" where
  "smtp_angle_addr rest =
     (case find_char (CHR ''>'') rest of
        None \<Rightarrow> None
      | Some gt \<Rightarrow>
          let addr = substr 1 (gt - 1) rest
          in if find_char (CHR ''<'') addr \<noteq> None \<or> find_char (CHR '' '') addr \<noteq> None
             then None else Some addr)"

definition smtp_bare_addr :: "string \<Rightarrow> string option" where
  "smtp_bare_addr rest =
     (let addr = (case find_if wsp rest of None \<Rightarrow> rest | Some sp \<Rightarrow> take sp rest)
      in if addr = [] \<or> find_char (CHR ''<'') addr \<noteq> None \<or> find_char (CHR ''>'') addr \<noteq> None
         then None else Some addr)"

definition smtp_extract_addr :: "string \<Rightarrow> string option" where
  "smtp_extract_addr line =
     (case find_char (CHR '':'') line of
        None \<Rightarrow> None
      | Some colon \<Rightarrow>
          let rest = drop (Suc colon) line
          in case find_if (\<lambda>c. \<not> wsp c) rest of
               None \<Rightarrow> None
             | Some b \<Rightarrow>
                 let rest' = drop b rest
                 in if hd rest' = CHR ''<'' then smtp_angle_addr rest' else smtp_bare_addr rest')"

fun smtp_verb :: "string \<Rightarrow> string" where
  "smtp_verb [] = []"
| "smtp_verb (c # s) =
     (if c = CHR '' '' \<or> c = CR \<or> c = NL then [] else toupper c # smtp_verb s)"

subsection \<open>Accepted addresses\<close>

lemma find_if_nil_iff: "find_if P s = None \<longleftrightarrow> filter P s = []"
  by (auto simp: find_if_None filter_empty_conv)

lemma smtp_angle_clean:
  "smtp_angle_addr r = Some a \<Longrightarrow> CHR ''<'' \<notin> set a \<and> CHR ''>'' \<notin> set a \<and> CHR '' '' \<notin> set a"
proof -
  assume a: "smtp_angle_addr r = Some a"
  then obtain gt where gt: "find_char (CHR ''>'') r = Some gt" and sub: "a = substr 1 (gt - 1) r"
    and no: "CHR ''<'' \<notin> set a" "CHR '' '' \<notin> set a"
    by (auto simp: smtp_angle_addr_def Let_def find_char_None_iff split: option.splits if_splits)
  have "set a \<subseteq> set (take gt r)"
    unfolding sub substr_def
    by (metis drop_take set_drop_subset)
  moreover have "CHR ''>'' \<notin> set (take gt r)" using find_char_split [OF gt] by blast
  ultimately show ?thesis using no by blast
qed

lemma smtp_bare_clean:
  "smtp_bare_addr r = Some a \<Longrightarrow>
     a \<noteq> [] \<and> CHR ''<'' \<notin> set a \<and> CHR ''>'' \<notin> set a \<and> CHR '' '' \<notin> set a"
  by (auto simp: smtp_bare_addr_def Let_def find_char_None_iff find_if_None wsp_def
      split: option.splits if_splits dest!: find_if_SomeD)

lemma find_if_0: "P c \<Longrightarrow> find_if P (c # s) = Some 0"
  by simp

subsection \<open>Properties\<close>

text \<open>An address the server accepts never contains an angle bracket or a space, so it cannot
  carry a second path or extra parameters into the envelope.\<close>

theorem smtp_address_clean:
  assumes "smtp_extract_addr line = Some a"
  shows "CHR ''<'' \<notin> set a \<and> CHR ''>'' \<notin> set a \<and> CHR '' '' \<notin> set a"
  using assms smtp_angle_clean smtp_bare_clean
  by (auto simp: smtp_extract_addr_def Let_def split: option.splits if_splits)

theorem smtp_address_clean_witness:
  "CHR ''<'' \<notin> set ''a@b.c'' \<and> CHR ''>'' \<notin> set ''a@b.c'' \<and> CHR '' '' \<notin> set ''a@b.c''"
proof -
  have "smtp_extract_addr ''MAIL FROM:<a@b.c> SIZE=9'' = Some ''a@b.c''" by code_simp
  then show ?thesis by (rule smtp_address_clean)
qed

text \<open>The bracketed form of every clean address, the null sender included, is accepted and gives
  back exactly that address, whatever parameters follow it.\<close>

theorem smtp_bracketed_address_accepted:
  assumes "CHR '':'' \<notin> set cmd" and "CHR ''<'' \<notin> set a" and "CHR ''>'' \<notin> set a" and "CHR '' '' \<notin> set a"
  shows "smtp_extract_addr (cmd @ '':<'' @ a @ ''>'' @ params) = Some a"
proof -
  have "find_char (CHR ''>'') (CHR ''<'' # a @ CHR ''>'' # params) = Some (Suc (length a))"
    using assms(3) find_char_hit [of "CHR ''>''" "CHR ''<'' # a" params] by simp
  with assms show ?thesis
    by (simp add: smtp_extract_addr_def smtp_angle_addr_def substr_def wsp_def Let_def)
qed

theorem smtp_bracketed_address_accepted_witness:
  "smtp_extract_addr (''MAIL FROM'' @ '':<'' @ [] @ ''>'' @ '' SIZE=5'') = Some []"
  by (rule smtp_bracketed_address_accepted) simp_all

end
