(* ===== verification/Imap_Parse.thy ===== *)
theory Imap_Parse
  imports Prelude
begin

text \<open>
  The pre-authentication parsers of the IMAP server (\<^verbatim>\<open>cpp/include/look/imap_parse.h\<close>): the
  command line, the two arguments of \<^verbatim>\<open>LOGIN\<close>, and the check of a mailbox name before it
  becomes a path component.
\<close>

subsection \<open>Model\<close>

abbreviation SP :: char where "SP \<equiv> CHR '' ''"

text \<open>The result is (tag, command in upper case, arguments).\<close>

definition imap_parse_command :: "string \<Rightarrow> string \<times> string \<times> string" where
  "imap_parse_command line =
     (case find_char SP line of
        None \<Rightarrow> (line, [], [])
      | Some sp1 \<Rightarrow>
          let tag = take sp1 line; after = drop (Suc sp1) line
          in case find_char SP after of
               None \<Rightarrow> (tag, map toupper after, [])
             | Some sp2 \<Rightarrow> (tag, map toupper (take sp2 after), drop (Suc sp2) after))"

definition imap_unquote :: "string \<Rightarrow> string" where
  "imap_unquote s =
     (if 2 \<le> length s \<and> hd s = DQ \<and> last s = DQ then substr 1 (length s - 2) s else s)"

text \<open>The position \<^verbatim>\<open>i\<close> is the unread suffix; \<^term>\<open>None\<close> when no token is left.\<close>

definition imap_next_token :: "string \<Rightarrow> (string \<times> string) option" where
  "imap_next_token args =
     (let s = dropWhile (\<lambda>c. c = SP) args
      in if s = [] then None
         else if hd s = DQ then
           (case find_char DQ (tl s) of
              None \<Rightarrow> Some (s, [])
            | Some e \<Rightarrow> Some (take (e + 2) s, drop (e + 2) s))
         else
           (case find_char SP s of
              None \<Rightarrow> Some (s, [])
            | Some e \<Rightarrow> Some (take e s, drop e s)))"

definition imap_split_two :: "string \<Rightarrow> string \<times> string" where
  "imap_split_two args =
     (case imap_next_token args of
        None \<Rightarrow> ([], [])
      | Some (t1, rest) \<Rightarrow>
          (case imap_next_token rest of
             None \<Rightarrow> (imap_unquote t1, [])
           | Some (t2, rest') \<Rightarrow> (imap_unquote t1, imap_unquote t2)))"

definition mailbox_bad_char :: "char \<Rightarrow> bool" where
  "mailbox_bad_char c \<longleftrightarrow>
     c = CHR ''/'' \<or> c = BSL \<or> c = CHR '';'' \<or> code_of c < 0x20 \<or> code_of c = 0x7F"

definition imap_mailbox_name_ok :: "string \<Rightarrow> string option" where
  "imap_mailbox_name_ok name =
     (let mb = imap_unquote name
      in if mb = [] \<or> mb = ''INBOX'' then Some ''INBOX''
         else if find_char (CHR 0x00) mb \<noteq> None then None
         else if hd mb = CHR ''/'' \<or> hd mb = BSL then None
         else if find_str ''..'' mb \<noteq> None then None
         else if list_ex mailbox_bad_char mb then None
         else Some mb)"

subsection \<open>Tokens\<close>

lemma imap_unquote_quoted: "imap_unquote (DQ # u @ [DQ]) = u"
  by (simp add: imap_unquote_def substr_def)

lemma imap_next_token_quoted:
  "DQ \<notin> set u \<Longrightarrow> imap_next_token (DQ # u @ DQ # rest) = Some (DQ # u @ [DQ], rest)"
  by (simp add: imap_next_token_def)

lemma imap_next_token_space: "imap_next_token (SP # s) = imap_next_token s"
  by (simp add: imap_next_token_def)

lemma imap_next_token_atom:
  assumes "u \<noteq> []" and "SP \<notin> set u" and "hd u \<noteq> DQ"
  shows "imap_next_token (u @ SP # rest) = Some (u, SP # rest)"
    and "imap_next_token u = Some (u, [])"
proof -
  obtain c v where u: "u = c # v" using assms(1) by (cases u) auto
  have "c \<noteq> SP" using assms(2) u by auto
  then show "imap_next_token u = Some (u, [])"
    using assms u by (simp add: imap_next_token_def)
  have "find_char SP ((c # v) @ SP # rest) = Some (length (c # v))"
    using assms(2) u find_char_hit [of SP "c # v" rest] by auto
  then show "imap_next_token (u @ SP # rest) = Some (u, SP # rest)"
    using \<open>c \<noteq> SP\<close> assms u by (simp add: imap_next_token_def)
qed

lemma imap_unquote_atom: "hd u \<noteq> DQ \<Longrightarrow> imap_unquote u = u"
  by (simp add: imap_unquote_def)

subsection \<open>Properties\<close>

text \<open>A mailbox name that passes the check is one path component: no separator, no control
  character, no shell separator and no parent reference, so joining it to the mail directory
  cannot leave that directory.\<close>

theorem imap_mailbox_is_component:
  assumes "imap_mailbox_name_ok name = Some mb"
  shows "mb \<noteq> [] \<and> \<not> sublist ''..'' mb \<and>
    (\<forall>c \<in> set mb. c \<noteq> CHR ''/'' \<and> c \<noteq> BSL \<and> c \<noteq> CHR '';'' \<and> 0x20 \<le> code_of c \<and> code_of c \<noteq> 0x7F)"
proof (cases "mb = ''INBOX''")
  case True
  have "\<not> sublist ''..'' ''INBOX''" by (simp add: find_str_None [symmetric])
  then show ?thesis using True by (auto simp: code_of_def)
next
  case False
  obtain m where m: "imap_unquote name = m" by blast
  from assms have "m = mb" and "mb \<noteq> []" and "find_str ''..'' mb = None"
    and clean: "\<not> list_ex mailbox_bad_char mb"
    using False unfolding imap_mailbox_name_ok_def m Let_def
    by (metis option.distinct(1) option.inject)+
  then have "\<not> sublist ''..'' mb" using find_str_None [of "''..''" mb] by blast
  moreover have "\<forall>c \<in> set mb. c \<noteq> CHR ''/'' \<and> c \<noteq> BSL \<and> c \<noteq> CHR '';'' \<and>
      0x20 \<le> code_of c \<and> code_of c \<noteq> 0x7F"
    using clean unfolding list_ex_iff mailbox_bad_char_def linorder_not_less [symmetric] by blast
  ultimately show ?thesis using \<open>mb \<noteq> []\<close> by blast
qed

theorem imap_mailbox_is_component_witness:
  "imap_mailbox_name_ok (DQ # ''Sent'' @ [DQ]) = Some ''Sent'' \<and> \<not> sublist ''..'' ''Sent''"
proof -
  have "imap_mailbox_name_ok (DQ # ''Sent'' @ [DQ]) = Some ''Sent''" by code_simp
  then show ?thesis using imap_mailbox_is_component by blast
qed

text \<open>\<^verbatim>\<open>LOGIN\<close> with quoted arguments yields exactly the user name and password between the
  quotes, spaces included.\<close>

theorem imap_login_quoted:
  assumes "DQ \<notin> set u" and "DQ \<notin> set p"
  shows "imap_split_two (DQ # u @ DQ # SP # DQ # p @ DQ # rest) = (u, p)"
  using assms
  by (simp add: imap_split_two_def imap_next_token_quoted imap_next_token_space
      imap_unquote_quoted)

theorem imap_login_quoted_witness:
  "imap_split_two (DQ # ''al ice'' @ DQ # SP # DQ # ''p w'' @ DQ # []) = (''al ice'', ''p w'')"
  by (rule imap_login_quoted) simp_all

lemma imap_login_atoms:
  assumes "u \<noteq> []" and "SP \<notin> set u" and "hd u \<noteq> DQ" and "p \<noteq> []" and "SP \<notin> set p" and "hd p \<noteq> DQ"
  shows "imap_split_two (u @ SP # p) = (u, p)"
  using assms
  by (simp add: imap_split_two_def imap_next_token_atom imap_next_token_space imap_unquote_atom)

lemma imap_parse_command_parts:
  assumes "SP \<notin> set tag" and "SP \<notin> set cmd"
  shows "imap_parse_command (tag @ SP # cmd @ SP # args) = (tag, map toupper cmd, args)"
  using assms by (simp add: imap_parse_command_def Let_def)

end
