(* ===== verification/Path_Safe.thy ===== *)
theory Path_Safe
  imports Prelude
begin

text \<open>
  The two path containment checks: \<^verbatim>\<open>path_under_root\<close>
  (\<^verbatim>\<open>cpp/include/look/path_guard.h\<close>, component-wise) and \<^verbatim>\<open>zip_entry_inside_dest\<close>
  (\<^verbatim>\<open>cpp/include/look/zip_safe.h\<close>, on the path strings). What the file system says,
  \<^verbatim>\<open>weakly_canonical(absolute(p))\<close>, is the parameter \<open>canon\<close>: \<^term>\<open>None\<close> when the call
  sets the error code.
\<close>

subsection \<open>Model\<close>

type_synonym fs_path = "string list"

fun components_prefix :: "fs_path \<Rightarrow> fs_path \<Rightarrow> bool" where
  "components_prefix [] c = True"
| "components_prefix (r # rs) [] = False"
| "components_prefix (r # rs) (c # cs) = (if c \<noteq> r then False else components_prefix rs cs)"

definition path_under_root :: "(string \<Rightarrow> fs_path option) \<Rightarrow> string \<Rightarrow> string \<Rightarrow> bool" where
  "path_under_root canon root cand =
     (case canon root of
        None \<Rightarrow> False
      | Some r \<Rightarrow> (case canon cand of None \<Rightarrow> False | Some c \<Rightarrow> components_prefix r c))"

definition zip_str_inside :: "string \<Rightarrow> string \<Rightarrow> bool" where
  "zip_str_inside out_str dest_str \<longleftrightarrow>
     length dest_str \<le> length out_str \<and> take (length dest_str) out_str = dest_str \<and>
     (length out_str = length dest_str \<or> out_str ! length dest_str = CHR ''/'' \<or>
      out_str ! length dest_str = BSL)"

text \<open>\<open>canon_str\<close> is \<^verbatim>\<open>weakly_canonical(p).string()\<close> and \<open>join\<close> is \<^verbatim>\<open>dest_dir / filename\<close>.\<close>

definition zip_entry_inside_dest ::
    "('p \<Rightarrow> string) \<Rightarrow> ('p \<Rightarrow> string \<Rightarrow> 'p) \<Rightarrow> string \<Rightarrow> 'p \<Rightarrow> bool" where
  "zip_entry_inside_dest canon_str join filename dest_dir =
     zip_str_inside (canon_str (join dest_dir filename)) (canon_str dest_dir)"

subsection \<open>Strings against components\<close>

lemma components_prefix_iff: "components_prefix r c = prefix r c"
  by (induction r c rule: components_prefix.induct) auto

text \<open>An absolute path as text: every component behind a slash.\<close>

definition render :: "fs_path \<Rightarrow> string" where
  "render cs = concat (map (\<lambda>c. CHR ''/'' # c) cs)"

definition plain_component :: "string \<Rightarrow> bool" where
  "plain_component c \<longleftrightarrow> c \<noteq> [] \<and> CHR ''/'' \<notin> set c \<and> BSL \<notin> set c"

lemma render_simps [simp]:
  "render [] = []" "render (c # cs) = CHR ''/'' # c @ render cs"
  by (simp_all add: render_def)

lemma render_cases: "render cs = [] \<and> cs = [] \<or> (\<exists>t. render cs = CHR ''/'' # t)"
  by (cases cs) auto

lemma zip_str_inside_iff:
  "zip_str_inside o_s d_s \<longleftrightarrow> (\<exists>t. o_s = d_s @ t \<and> (t = [] \<or> hd t = CHR ''/'' \<or> hd t = BSL))"
proof
  assume i: "zip_str_inside o_s d_s"
  then have "o_s = d_s @ drop (length d_s) o_s"
    by (metis append_take_drop_id zip_str_inside_def)
  moreover have "drop (length d_s) o_s = [] \<or> hd (drop (length d_s) o_s) = CHR ''/'' \<or>
      hd (drop (length d_s) o_s) = BSL"
    using i by (auto simp: zip_str_inside_def hd_drop_conv_nth)
  ultimately show "\<exists>t. o_s = d_s @ t \<and> (t = [] \<or> hd t = CHR ''/'' \<or> hd t = BSL)" by blast
next
  assume "\<exists>t. o_s = d_s @ t \<and> (t = [] \<or> hd t = CHR ''/'' \<or> hd t = BSL)"
  then show "zip_str_inside o_s d_s"
    by (auto simp: zip_str_inside_def nth_append hd_conv_nth)
qed

lemma separator_split:
  assumes "plain_component x" and "plain_component y"
    and "s = [] \<or> hd s = CHR ''/'' \<or> hd s = BSL" and "t = [] \<or> hd t = CHR ''/'' \<or> hd t = BSL"
    and eq: "x @ s = y @ t"
  shows "x = y \<and> s = t"
proof -
  have tw: "takeWhile (\<lambda>c. c \<noteq> CHR ''/'' \<and> c \<noteq> BSL) (z @ u) = z"
    if "plain_component z" "u = [] \<or> hd u = CHR ''/'' \<or> hd u = BSL" for z u :: string
  proof -
    have "\<forall>c \<in> set z. c \<noteq> CHR ''/'' \<and> c \<noteq> BSL" using that(1) by (auto simp: plain_component_def)
    then show ?thesis using that(2) by (cases u) (auto simp: takeWhile_append2)
  qed
  have "x = y" using tw [of x s] tw [of y t] assms by simp
  then show ?thesis using eq by simp
qed

lemma render_prefix_imp:
  assumes "\<forall>c \<in> set d. plain_component c" and "\<forall>c \<in> set p. plain_component c"
    and "render p = render d @ t" and t: "t = [] \<or> hd t = CHR ''/'' \<or> hd t = BSL"
  shows "prefix d p"
  using assms(1-3)
proof (induction d arbitrary: p)
  case (Cons x d)
  then obtain y p' where p: "p = y # p'" by (cases p) auto
  have "x = y \<and> render d @ t = render p'"
  proof (rule separator_split)
    show "render d @ t = [] \<or> hd (render d @ t) = CHR ''/'' \<or> hd (render d @ t) = BSL"
      using render_cases [of d] t by auto
    show "render p' = [] \<or> hd (render p') = CHR ''/'' \<or> hd (render p') = BSL"
      using render_cases [of p'] by auto
  qed (use Cons.prems p in auto)
  then show ?case using Cons.IH [of p'] Cons.prems p by simp
qed simp

lemma render_prefix:
  assumes "\<forall>c \<in> set d. plain_component c" and "\<forall>c \<in> set p. plain_component c"
  shows "zip_str_inside (render p) (render d) \<longleftrightarrow> prefix d p"
proof
  assume "prefix d p"
  then obtain q where "p = d @ q" by (auto simp: prefix_def)
  then show "zip_str_inside (render p) (render d)"
    using render_cases [of q] by (auto simp: zip_str_inside_iff render_def)
next
  assume "zip_str_inside (render p) (render d)"
  then obtain t where t: "render p = render d @ t" "t = [] \<or> hd t = CHR ''/'' \<or> hd t = BSL"
    unfolding zip_str_inside_iff by blast
  then show "prefix d p" by (rule render_prefix_imp [OF assms])
qed

subsection \<open>Properties\<close>

text \<open>A path is accepted as being under a root exactly when both resolve and the resolved root
  is a component-wise prefix of the resolved path; a resolution error is a refusal.\<close>

theorem path_under_root_iff:
  "path_under_root canon root cand \<longleftrightarrow>
     (\<exists>r c. canon root = Some r \<and> canon cand = Some c \<and> prefix r c)"
  by (auto simp: path_under_root_def components_prefix_iff split: option.splits)

text \<open>The string test of the archive extractor decides component-wise containment: on
  canonical paths it accepts an entry exactly when the destination is a component prefix of
  it, so a sibling that merely shares leading characters is refused.\<close>

theorem zip_entry_containment:
  assumes "canon_str (join dest file) = render p" and "canon_str dest = render d"
    and "d \<noteq> []" and "list_all plain_component d" and "list_all plain_component p"
  shows "zip_entry_inside_dest canon_str join file dest \<longleftrightarrow> prefix d p"
  using assms render_prefix [of d p] by (simp add: zip_entry_inside_dest_def list_all_iff)

theorem zip_entry_containment_witness:
  "\<not> zip_entry_inside_dest (\<lambda>p. render (filter (\<lambda>c. c \<noteq> ''..'') p))
      (\<lambda>d f. butlast d @ [f]) ''repo-evil'' [''pkg'', ''repo'']"
proof -
  have "zip_entry_inside_dest (\<lambda>p. render (filter (\<lambda>c. c \<noteq> ''..'') p))
      (\<lambda>d f. butlast d @ [f]) ''repo-evil'' [''pkg'', ''repo''] \<longleftrightarrow>
      prefix [''pkg'', ''repo''] [''pkg'', ''repo-evil'']"
    by (rule zip_entry_containment) (simp_all add: plain_component_def)
  then show ?thesis by simp
qed

end
