(* ===== verification/Url_Safe.thy ===== *)
theory Url_Safe
  imports Prelude
begin

text \<open>
  URLs of the HTTP client and of the package installer: \<^verbatim>\<open>redirect_allowed\<close>
  (\<^verbatim>\<open>cpp/include/look/url_safe.h\<close>) and \<^verbatim>\<open>parse_url\<close> with its \<^verbatim>\<open>ParsedUrl\<close>
  (\<^verbatim>\<open>http_client.h\<close>, \<^verbatim>\<open>http_client.cpp\<close>), which picks the host that is contacted.
\<close>

subsection \<open>Model\<close>

datatype redirect_error = NotHttps string | UnexpectedHost string

definition ends_with :: "string \<Rightarrow> string \<Rightarrow> bool" where
  "ends_with s suf \<longleftrightarrow> length suf \<le> length s \<and> drop (length s - length suf) s = suf"

definition github_host :: "string \<Rightarrow> bool" where
  "github_host host \<longleftrightarrow> host = ''github.com'' \<or> host = ''api.github.com'' \<or>
     ends_with host ''.github.com'' \<or> ends_with host ''.githubusercontent.com''"

definition redirect_host :: "string \<Rightarrow> string" where
  "redirect_host loc =
     (let rest = drop 8 loc;
          host = (case find_char (CHR ''/'') rest of None \<Rightarrow> rest | Some n \<Rightarrow> take n rest)
      in case find_char (CHR '':'') host of None \<Rightarrow> host | Some n \<Rightarrow> take n host)"

definition redirect_allowed :: "string \<Rightarrow> redirect_error + unit" where
  "redirect_allowed loc =
     (if \<not> prefix ''https://'' loc then Inl (NotHttps loc)
      else if github_host (redirect_host loc) then Inr ()
      else Inl (UnexpectedHost (redirect_host loc)))"

record ParsedUrl =
  pu_tls :: bool
  pu_host :: string
  pu_port :: int
  pu_path :: string

text \<open>\<^verbatim>\<open>std::stoi\<close>: white space, an optional sign, at least one digit, and a value that fits
  an \<^verbatim>\<open>int\<close>; anything else throws (\<^term>\<open>None\<close>).\<close>

fun digits_value :: "int \<Rightarrow> string \<Rightarrow> int" where
  "digits_value acc [] = acc"
| "digits_value acc (c # s) =
     (if isdigit c then digits_value (acc * 10 + int (code_of c) - 48) s else acc)"

definition stoi :: "string \<Rightarrow> int option" where
  "stoi s =
     (let s1 = dropWhile isspace s;
          neg = (s1 \<noteq> [] \<and> hd s1 = CHR ''-'');
          s2 = (if s1 \<noteq> [] \<and> hd s1 \<in> {CHR ''-'', CHR ''+''} then tl s1 else s1)
      in if s2 = [] \<or> \<not> isdigit (hd s2) then None
         else let v = (if neg then - digits_value 0 s2 else digits_value 0 s2)
              in if - (2 ^ 31) \<le> v \<and> v < 2 ^ 31 then Some v else None)"

datatype url_error = UnsupportedScheme string | InvalidIPv6 string

definition default_port :: "bool \<Rightarrow> int" where
  "default_port tls = (if tls then 443 else 80)"

definition port_or_default :: "bool \<Rightarrow> string \<Rightarrow> int" where
  "port_or_default tls s = (case stoi s of Some p \<Rightarrow> p | None \<Rightarrow> default_port tls)"

definition parse_host_port :: "string \<Rightarrow> bool \<Rightarrow> string \<Rightarrow> string \<Rightarrow> url_error + ParsedUrl" where
  "parse_host_port url tls host_port path =
     (if host_port \<noteq> [] \<and> hd host_port = CHR ''['' then
        (case find_char (CHR '']'') host_port of
           None \<Rightarrow> Inl (InvalidIPv6 url)
         | Some rb \<Rightarrow>
             Inr \<lparr>pu_tls = tls, pu_host = substr 1 (rb - 1) host_port,
                  pu_port = (if rb + 1 < length host_port \<and> host_port ! (rb + 1) = CHR '':''
                             then port_or_default tls (drop (rb + 2) host_port)
                             else default_port tls),
                  pu_path = path\<rparr>)
      else
        (case rfind_char (CHR '':'') host_port of
           None \<Rightarrow> Inr \<lparr>pu_tls = tls, pu_host = host_port, pu_port = default_port tls, pu_path = path\<rparr>
         | Some colon \<Rightarrow>
             Inr \<lparr>pu_tls = tls, pu_host = take colon host_port,
                  pu_port = port_or_default tls (drop (Suc colon) host_port), pu_path = path\<rparr>))"

definition parse_url :: "string \<Rightarrow> url_error + ParsedUrl" where
  "parse_url url =
     (let split = (\<lambda>tls s.
            case find_char (CHR ''/'') s of
              None \<Rightarrow> parse_host_port url tls s ''/''
            | Some n \<Rightarrow> parse_host_port url tls (take n s) (drop n s))
      in if take 8 url = ''https://'' then split True (drop 8 url)
         else if take 7 url = ''http://'' then split False (drop 7 url)
         else Inl (UnsupportedScheme url))"

subsection \<open>The checked host and the contacted host\<close>

lemma ends_with_iff: "ends_with s suf \<longleftrightarrow> suffix suf s"
proof -
  have "s = take (length s - length suf) s @ drop (length s - length suf) s" by simp
  then show ?thesis unfolding ends_with_def suffix_def
    by (metis append_eq_conv_conj diff_diff_cancel diff_le_self length_append length_drop
        add_diff_cancel_right' le_add2)
qed

lemma find_rfind_unique:
  assumes "rfind_char c s = Some n" and "c \<notin> set (take n s)"
  shows "find_char c s = Some n"
proof -
  have "n < length s" "s ! n = c" using rfind_if_SomeD [OF assms(1)] by auto
  then have "s = take n s @ c # drop (Suc n) s" using id_take_nth_drop [of n s] by simp
  then show ?thesis using find_char_hit [OF assms(2), of "drop (Suc n) s"] \<open>n < length s\<close>
    by (metis length_take less_imp_le min.absorb2)
qed

lemma parse_host_port_host:
  assumes "parse_host_port url tls hp path = Inr r" and "CHR '':'' \<notin> set (pu_host r)"
    and "hp = [] \<or> hd hp \<noteq> CHR ''[''"
  shows "pu_tls r = tls \<and>
    pu_host r = (case find_char (CHR '':'') hp of None \<Rightarrow> hp | Some n \<Rightarrow> take n hp)"
proof (cases "rfind_char (CHR '':'') hp")
  case None
  then have "find_char (CHR '':'') hp = None" by (simp add: rfind_if_None find_if_None)
  then show ?thesis using assms None by (auto simp: parse_host_port_def)
next
  case (Some n)
  then have r: "pu_host r = take n hp" "pu_tls r = tls"
    using assms(1,3) by (auto simp: parse_host_port_def)
  then have "find_char (CHR '':'') hp = Some n"
    using assms(2) by (intro find_rfind_unique [OF Some]) simp
  then show ?thesis using r by simp
qed

lemma prefix_take_iff: "prefix p s \<longleftrightarrow> take (length p) s = p"
  by (metis prefix_def append_eq_conv_conj append_take_drop_id)

subsection \<open>Properties\<close>

text \<open>A redirect the installer accepts is contacted over TLS at a GitHub host: when
  \<^verbatim>\<open>parse_url\<close> resolves it to a host name (no brackets, no colon left in it), that host is the
  one the allow-list admitted.\<close>

theorem redirect_contacts_github:
  assumes ok: "redirect_allowed loc = Inr ()" and url: "parse_url loc = Inr r"
    and "CHR '':'' \<notin> set (pu_host r)" and "\<not> prefix ''https://['' loc"
  shows "pu_tls r \<and> (pu_host r = ''github.com'' \<or> suffix ''.github.com'' (pu_host r) \<or>
    suffix ''.githubusercontent.com'' (pu_host r))"
proof -
  let ?s = "drop 8 loc"
  let ?hp = "case find_char (CHR ''/'') ?s of None \<Rightarrow> ?s | Some n \<Rightarrow> take n ?s"
  have https: "prefix ''https://'' loc" and gh: "github_host (redirect_host loc)"
    using ok by (auto simp: redirect_allowed_def split: if_splits)
  then have loc8: "loc = ''https://'' @ ?s" by (auto simp: prefix_def)
  have "\<exists>path. parse_host_port loc True ?hp path = Inr r"
    using url https by (subst (asm) loc8)
      (auto simp: parse_url_def Let_def prefix_def split: option.splits)
  then obtain path where "parse_host_port loc True ?hp path = Inr r" by blast
  moreover have "?hp = [] \<or> hd ?hp \<noteq> CHR ''[''"
  proof (rule ccontr)
    assume "\<not> (?hp = [] \<or> hd ?hp \<noteq> CHR ''['')"
    then have "?s \<noteq> [] \<and> hd ?s = CHR ''[''" by (auto split: option.splits)
    then obtain t where "?s = CHR ''['' # t" by (cases ?s) auto
    then have "loc = ''https://['' @ t" using loc8 by simp
    then show False using assms(4) by simp
  qed
  ultimately have "pu_tls r \<and> pu_host r = redirect_host loc"
    using parse_host_port_host [of loc True ?hp _ r] assms(3) by (auto simp: redirect_host_def Let_def)
  then show ?thesis using gh
    by (auto simp: github_host_def ends_with_iff suffix_def)
qed

theorem redirect_contacts_github_witness:
  "\<exists>r. parse_url ''https://codeload.github.com:443/a'' = Inr r \<and> pu_tls r \<and>
    (pu_host r = ''github.com'' \<or> suffix ''.github.com'' (pu_host r) \<or>
     suffix ''.githubusercontent.com'' (pu_host r))"
proof -
  let ?r = "\<lparr>pu_tls = True, pu_host = ''codeload.github.com'', pu_port = 443, pu_path = ''/a''\<rparr>"
  have url: "parse_url ''https://codeload.github.com:443/a'' = Inr ?r" by code_simp
  have ok: "redirect_allowed ''https://codeload.github.com:443/a'' = Inr ()" by code_simp
  show ?thesis using redirect_contacts_github [OF ok url] url by simp
qed

text \<open>A redirect that is not \<^verbatim>\<open>https\<close> is refused, and so is every host outside the two GitHub
  domains, with the refused URL or host as the error.\<close>

theorem redirect_refused:
  "redirect_allowed loc =
     (if \<not> prefix ''https://'' loc then Inl (NotHttps loc)
      else if redirect_host loc = ''github.com'' \<or> suffix ''.github.com'' (redirect_host loc) \<or>
              suffix ''.githubusercontent.com'' (redirect_host loc) then Inr ()
      else Inl (UnexpectedHost (redirect_host loc)))"
proof -
  have "suffix ''.github.com'' ''api.github.com''" by (simp add: suffix_def)
  then show ?thesis by (auto simp: redirect_allowed_def github_host_def ends_with_iff)
qed

end
