(* ===== verification/Db_Dsn.thy ===== *)
theory Db_Dsn
  imports Prelude
begin

text \<open>
  Database connection strings (\<^verbatim>\<open>cpp/include/look/db_dsn.h\<close>): looking up a query
  parameter, the TLS decision of the three drivers, the start-up warning, masking for logs
  and the require-TLS policy.
\<close>

subsection \<open>Model\<close>

abbreviation AMP :: char where "AMP \<equiv> CHR ''&''"
abbreviation EQC :: char where "EQC \<equiv> CHR ''=''"

definition dsn_key_at :: "string \<Rightarrow> string \<Rightarrow> bool" where
  "dsn_key_at q key \<longleftrightarrow> prefix key q \<and>
     (let after = drop (length key) q in after = [] \<or> hd after = EQC \<or> hd after = AMP)"

definition dsn_val_at :: "string \<Rightarrow> string \<Rightarrow> string" where
  "dsn_val_at q key =
     (case drop (length key) q of
        c # v \<Rightarrow> if c = EQC then (case find_char AMP v of None \<Rightarrow> v | Some vend \<Rightarrow> take vend v) else []
      | [] \<Rightarrow> [])"

text \<open>\<^term>\<open>None\<close> is the result \<^verbatim>\<open>false\<close>; a key without a value gives the empty string.\<close>

function dsn_lookup :: "string \<Rightarrow> string \<Rightarrow> string option" where
  "dsn_lookup q key =
     (if dsn_key_at q key then Some (dsn_val_at q key)
      else case find_char AMP q of
             None \<Rightarrow> None
           | Some amp \<Rightarrow> dsn_lookup (drop (Suc amp) q) key)"
  by pat_completeness auto
termination
  by (relation "measure (\<lambda>(q, key). length q)") (auto dest: find_if_less)

declare dsn_lookup.simps [simp del]

definition dsn_val_falsey :: "string \<Rightarrow> bool" where
  "dsn_val_falsey v \<longleftrightarrow> v = ''0'' \<or> v = ''false'' \<or> v = ''off'' \<or> v = ''no'' \<or>
     v = ''disable'' \<or> v = ''disabled''"

text \<open>A resolver returns (tls, verify). An absent parameter leaves the C++ string empty.\<close>

definition dsn_value :: "string \<Rightarrow> string \<Rightarrow> string" where
  "dsn_value q key = (case dsn_lookup q key of None \<Rightarrow> [] | Some v \<Rightarrow> v)"

definition pg_resolve_tls :: "string \<Rightarrow> bool \<Rightarrow> bool \<times> bool" where
  "pg_resolve_tls query scheme_secure =
     (let tls_kv = dsn_lookup query ''tls''; sv = dsn_value query ''ssl'';
          mode = dsn_value query ''sslmode'';
          insecure = (tls_kv = Some ''insecure'' \<or> sv = ''insecure'' \<or> mode = ''require'');
          wantverify = (tls_kv = Some ''verify'' \<or> tls_kv = Some ''1'' \<or> tls_kv = Some ''true'' \<or>
                        sv = ''verify'' \<or> mode = ''verify-full'' \<or> mode = ''verify-ca'')
      in if insecure then (True, False)
         else if wantverify then (True, True)
         else (scheme_secure, True))"

definition truthy_param :: "string option \<Rightarrow> bool" where
  "truthy_param p = (case p of None \<Rightarrow> False | Some v \<Rightarrow> \<not> dsn_val_falsey v)"

definition mysql_resolve_tls :: "string \<Rightarrow> bool \<Rightarrow> bool \<times> bool" where
  "mysql_resolve_tls query scheme_secure =
     (let tv = dsn_lookup query ''tls''; sv = dsn_lookup query ''ssl''
      in if tv = Some ''insecure'' \<or> sv = Some ''insecure'' then (True, False)
         else if tv = Some ''verify'' \<or> sv = Some ''verify'' \<or> sv = Some ''verify_identity''
           then (True, True)
         else if truthy_param tv \<or> truthy_param sv then (True, True)
         else (scheme_secure, True))"

definition redis_resolve_tls :: "string \<Rightarrow> bool \<Rightarrow> bool \<times> bool" where
  "redis_resolve_tls query scheme_secure =
     (let tv = dsn_lookup query ''tls''; sv = dsn_lookup query ''ssl''
      in if tv = Some ''insecure'' \<or> sv = Some ''insecure'' then (True, False)
         else if tv = Some ''verify'' \<or> sv = Some ''verify'' then (True, True)
         else if truthy_param tv \<or> truthy_param sv then (True, True)
         else (scheme_secure, True))"

text \<open>The result is (userinfo, hostpart, query).\<close>

definition redis_split_url :: "string \<Rightarrow> string \<times> string \<times> string" where
  "redis_split_url after_scheme =
     (let (userinfo, hostpart) =
            (case rfind_char (CHR ''@'') after_scheme of
               None \<Rightarrow> ([], after_scheme)
             | Some at \<Rightarrow> (take at after_scheme, drop (Suc at) after_scheme))
      in case find_char (CHR ''?'') hostpart of
           None \<Rightarrow> (userinfo, hostpart, [])
         | Some q \<Rightarrow> (userinfo, take q hostpart, drop (Suc q) hostpart))"

definition db_dsn_query :: "string \<Rightarrow> string" where
  "db_dsn_query dsn =
     (case find_str ''://'' dsn of
        None \<Rightarrow> []
      | Some se \<Rightarrow>
          let sch = take se dsn; rest = drop (se + 3) dsn
          in if sch = ''redis'' \<or> sch = ''rediss'' then snd (snd (redis_split_url rest))
             else let rest' = (case rfind_char (CHR ''@'') rest of
                                 None \<Rightarrow> rest | Some at \<Rightarrow> drop (Suc at) rest)
                  in case find_char (CHR ''/'') rest' of
                       None \<Rightarrow> []
                     | Some slash \<Rightarrow>
                         (let db = drop (Suc slash) rest'
                          in case find_char (CHR ''?'') db of
                               None \<Rightarrow> [] | Some q \<Rightarrow> drop (Suc q) db))"

datatype db_kind = PostgreSQL | MySQL | Redis

text \<open>\<^verbatim>\<open>db_tls_warning\<close> returns one of two texts per driver, or the empty string.\<close>

datatype tls_warning = NoWarning | Unencrypted db_kind | NotVerified db_kind

definition dsn_scheme :: "string \<Rightarrow> string" where
  "dsn_scheme dsn = (case find_char (CHR '':'') dsn of None \<Rightarrow> dsn | Some n \<Rightarrow> take n dsn)"

definition warn_of :: "db_kind \<Rightarrow> bool \<times> bool \<Rightarrow> tls_warning" where
  "warn_of k tv = (if \<not> fst tv then Unencrypted k else if \<not> snd tv then NotVerified k else NoWarning)"

definition db_tls_warning :: "string \<Rightarrow> tls_warning" where
  "db_tls_warning dsn =
     (let sch = dsn_scheme dsn; query = db_dsn_query dsn
      in if sch = ''postgres'' \<or> sch = ''postgresql'' \<or> sch = ''postgresqls'' then
           warn_of PostgreSQL (pg_resolve_tls query (sch = ''postgresqls''))
         else if sch = ''mysql'' \<or> sch = ''mariadb'' \<or> sch = ''mysqls'' \<or> sch = ''mariadbs'' then
           warn_of MySQL (mysql_resolve_tls query (sch = ''mysqls'' \<or> sch = ''mariadbs''))
         else if sch = ''redis'' \<or> sch = ''rediss'' then
           warn_of Redis (redis_resolve_tls query (sch = ''rediss''))
         else NoWarning)"

definition db_dsn_redact :: "string \<Rightarrow> string" where
  "db_dsn_redact dsn =
     (case find_str ''://'' dsn of
        None \<Rightarrow> dsn
      | Some se \<Rightarrow>
          let rs = se + 3
          in case rfind_char (CHR ''@'') dsn of
               None \<Rightarrow> dsn
             | Some at \<Rightarrow>
                 if at < rs then dsn
                 else case find_char (CHR '':'') (drop rs dsn) of
                        None \<Rightarrow> dsn
                      | Some k \<Rightarrow>
                          let colon = rs + k
                          in if at < colon then dsn
                             else take (Suc colon) dsn @ ''***'' @ drop at dsn)"

definition db_host_is_local :: "string \<Rightarrow> bool" where
  "db_host_is_local host \<longleftrightarrow>
     host = [] \<or> hd host = CHR ''/'' \<or> host = ''localhost'' \<or> host = ''::1'' \<or> host = ''[::1]'' \<or>
     (prefix ''127.'' host \<and> find_if (\<lambda>c. c \<notin> set ''0123456789.'') host = None)"

definition db_insecure_plaintext_opt :: "string \<Rightarrow> bool" where
  "db_insecure_plaintext_opt query =
     (case dsn_lookup query ''insecure_plaintext'' of
        None \<Rightarrow> False | Some v \<Rightarrow> \<not> dsn_val_falsey v \<and> v \<noteq> [])"

definition db_refuse_plaintext :: "bool \<Rightarrow> bool \<Rightarrow> string \<Rightarrow> bool \<Rightarrow> bool" where
  "db_refuse_plaintext require_tls encrypted host insecure_plaintext =
     (if \<not> require_tls \<or> encrypted \<or> insecure_plaintext then False else \<not> db_host_is_local host)"

subsection \<open>Parameters\<close>

definition dsn_render :: "(string \<times> string) list \<Rightarrow> string" where
  "dsn_render kvs = concat (map (\<lambda>(k, v). k @ EQC # v @ [AMP]) kvs)"

definition dsn_params_ok :: "(string \<times> string) list \<Rightarrow> bool" where
  "dsn_params_ok kvs = list_all (\<lambda>(k, v). AMP \<notin> set k \<and> EQC \<notin> set k \<and> AMP \<notin> set v) kvs"

lemma dsn_key_at_param:
  assumes "EQC \<notin> set k" "EQC \<notin> set key" "AMP \<notin> set key" "AMP \<notin> set k"
  shows "dsn_key_at (k @ EQC # v) key \<longleftrightarrow> key = k"
proof
  assume "dsn_key_at (k @ EQC # v) key"
  then obtain r where r: "k @ EQC # v = key @ r" and h: "r = [] \<or> hd r = EQC \<or> hd r = AMP"
    unfolding dsn_key_at_def Let_def prefix_def by (metis append_eq_conv_conj)
  have "r \<noteq> []" using r assms(2) by (metis append_Nil2 in_set_conv_decomp)
  then obtain c r' where c: "r = c # r'" "c = EQC \<or> c = AMP" using h by (cases r) auto
  have "takeWhile (\<lambda>x. x \<noteq> EQC \<and> x \<noteq> AMP) (k @ EQC # v) = k"
    using assms by (subst takeWhile_append2) auto
  moreover have "takeWhile (\<lambda>x. x \<noteq> EQC \<and> x \<noteq> AMP) (key @ r) = key"
    using assms c by (subst takeWhile_append2) auto
  ultimately show "key = k" using r by simp
qed (simp add: dsn_key_at_def)

lemma dsn_lookup_Nil: "key \<noteq> [] \<Longrightarrow> dsn_lookup [] key = None"
  by (simp add: dsn_lookup.simps dsn_key_at_def)

lemma dsn_lookup_render:
  assumes "dsn_params_ok kvs" and "key \<noteq> []" and "AMP \<notin> set key" and "EQC \<notin> set key"
  shows "dsn_lookup (dsn_render kvs) key = map_of kvs key"
  using assms(1)
proof (induction kvs)
  case Nil
  then show ?case using assms(2) by (simp add: dsn_render_def dsn_lookup_Nil)
next
  case (Cons kv kvs)
  obtain k v where kv: "kv = (k, v)" by (cases kv)
  have ok: "AMP \<notin> set k" "EQC \<notin> set k" "AMP \<notin> set v" "dsn_params_ok kvs"
    using Cons.prems kv by (auto simp: dsn_params_ok_def)
  let ?q = "k @ EQC # v @ AMP # dsn_render kvs"
  have q: "dsn_render (kv # kvs) = ?q" by (simp add: dsn_render_def kv)
  have hit: "dsn_key_at ?q key \<longleftrightarrow> key = k"
    using dsn_key_at_param [of k key "v @ AMP # dsn_render kvs"] ok assms by simp
  have amp: "find_char AMP ?q = Some (length (k @ EQC # v))"
    using find_char_hit [of AMP "k @ EQC # v" "dsn_render kvs"] ok by simp
  show ?case
  proof (cases "key = k")
    case True
    then show ?thesis using hit ok
      by (simp add: q [unfolded kv] dsn_lookup.simps [of ?q] kv dsn_val_at_def)
  next
    case False
    then have "dsn_lookup ?q key = dsn_lookup (dsn_render kvs) key"
      using hit amp by (simp add: dsn_lookup.simps [of ?q])
    then show ?thesis using False Cons.IH ok q kv by simp
  qed
qed

subsection \<open>The contract of a TLS resolver\<close>

text \<open>A resolver never weakens the scheme, and only an explicit opt-out of the DSN turns
  certificate verification off, which still encrypts.\<close>

locale tls_resolver =
  fixes resolve :: "string \<Rightarrow> bool \<Rightarrow> bool \<times> bool"
    and opt_out :: "string \<Rightarrow> bool"
  assumes scheme_kept: "fst (resolve q True)"
    and verified: "snd (resolve q sec) \<longleftrightarrow> \<not> opt_out q"
    and opt_out_encrypts: "opt_out q \<Longrightarrow> fst (resolve q sec)"
begin

lemma plaintext_only_if: "\<not> fst (resolve q sec) \<Longrightarrow> \<not> sec \<and> snd (resolve q sec)"
  using scheme_kept [of q] verified [of q sec] opt_out_encrypts [of q sec] by (cases sec) auto

lemma secure_scheme_safe: "\<not> opt_out q \<Longrightarrow> resolve q True = (True, True)"
  using scheme_kept [of q] verified [of q True] by (cases "resolve q True") auto

lemma no_warning_iff: "warn_of k (resolve q sec) = NoWarning \<longleftrightarrow> resolve q sec = (True, True)"
  by (cases "resolve q sec") (auto simp: warn_of_def)

end

definition pg_opt_out :: "string \<Rightarrow> bool" where
  "pg_opt_out q \<longleftrightarrow> dsn_lookup q ''tls'' = Some ''insecure'' \<or> dsn_lookup q ''ssl'' = Some ''insecure'' \<or>
     dsn_lookup q ''sslmode'' = Some ''require''"

definition my_opt_out :: "string \<Rightarrow> bool" where
  "my_opt_out q \<longleftrightarrow> dsn_lookup q ''tls'' = Some ''insecure'' \<or> dsn_lookup q ''ssl'' = Some ''insecure''"

lemma dsn_value_eq: "w \<noteq> [] \<Longrightarrow> dsn_value q key = w \<longleftrightarrow> dsn_lookup q key = Some w"
  by (auto simp: dsn_value_def split: option.splits)

interpretation pg_tls: tls_resolver pg_resolve_tls pg_opt_out
  by unfold_locales (auto simp: pg_resolve_tls_def pg_opt_out_def dsn_value_eq Let_def)

interpretation mysql_tls: tls_resolver mysql_resolve_tls my_opt_out
  by unfold_locales (auto simp: mysql_resolve_tls_def my_opt_out_def Let_def)

interpretation redis_tls: tls_resolver redis_resolve_tls my_opt_out
  by unfold_locales (auto simp: redis_resolve_tls_def my_opt_out_def Let_def)

subsection \<open>Masking\<close>

lemma find_str_scheme: "CHR '':'' \<notin> set sch \<Longrightarrow> find_str ''://'' (sch @ ''://'' @ t) = Some (length sch)"
  by (induction sch) auto

lemma db_dsn_redact_user_pass:
  assumes "CHR '':'' \<notin> set sch" and "CHR '':'' \<notin> set user" and "CHR ''@'' \<notin> set host"
  shows "db_dsn_redact (sch @ ''://'' @ user @ '':'' @ pw @ ''@'' @ host) =
     sch @ ''://'' @ user @ '':***@'' @ host"
proof -
  let ?u = "user @ '':'' @ pw"
  let ?dsn = "sch @ ''://'' @ user @ '':'' @ pw @ ''@'' @ host"
  have at: "rfind_char (CHR ''@'') ?dsn = Some (length (sch @ ''://'' @ ?u))"
    using assms(3) rfind_if_hit [of "\<lambda>x. x = CHR ''@''" "CHR ''@''" host "sch @ ''://'' @ ?u"] by auto
  have colon: "find_char (CHR '':'') (user @ CHR '':'' # pw @ CHR ''@'' # host) = Some (length user)"
    using assms(2) by simp
  have rest: "drop (length sch + 3) ?dsn = user @ CHR '':'' # pw @ CHR ''@'' # host"
    by (simp add: numeral_eq_Suc)
  have head: "take (Suc (length sch + 3 + length user)) ?dsn = sch @ ''://'' @ user @ '':''"
    by (simp add: numeral_eq_Suc)
  have tail: "drop (length (sch @ ''://'' @ ?u)) ?dsn = ''@'' @ host"
    by (simp add: numeral_eq_Suc)
  show ?thesis
    unfolding db_dsn_redact_def find_str_scheme [OF assms(1), of "user @ '':'' @ pw @ ''@'' @ host"]
      Let_def option.case at rest colon head tail
    by simp
qed

subsection \<open>Properties\<close>

text \<open>A parameter of a connection string is found exactly under its own name: on a query made of
  \<^verbatim>\<open>key=value&\<close> pairs the lookup is the first pair with that key, so text inside a value or a
  longer key never counts as a parameter.\<close>

theorem dsn_lookup_is_first_param:
  assumes "dsn_params_ok kvs" and "key \<noteq> []" and "AMP \<notin> set key" and "EQC \<notin> set key"
  shows "dsn_lookup (dsn_render kvs) key = map_of kvs key"
  using assms by (rule dsn_lookup_render)

theorem dsn_lookup_is_first_param_witness:
  "dsn_lookup (dsn_render [(''opt'', ''tls=insecure''), (''xtls'', ''1'')]) ''tls'' = None"
  using dsn_lookup_is_first_param [of "[(''opt'', ''tls=insecure''), (''xtls'', ''1'')]" "''tls''"]
  by (simp add: dsn_params_ok_def)



text \<open>A connection string in a log never depends on the password: whatever the password holds,
  the masked text is the same, with host and user kept.\<close>

theorem dsn_redact_hides_password:
  assumes "CHR '':'' \<notin> set sch" and "CHR '':'' \<notin> set user" and "CHR ''@'' \<notin> set host"
  shows "db_dsn_redact (sch @ ''://'' @ user @ '':'' @ pw @ ''@'' @ host) =
     sch @ ''://'' @ user @ '':***@'' @ host"
  using assms by (rule db_dsn_redact_user_pass)

theorem dsn_redact_hides_password_witness:
  "db_dsn_redact (''mysql'' @ ''://'' @ ''root'' @ '':'' @ ''p@:w'' @ ''@'' @ ''h/db'') =
     ''mysql'' @ ''://'' @ ''root'' @ '':***@'' @ ''h/db''"
  by (rule dsn_redact_hides_password) simp_all

text \<open>Under the require-TLS policy a connection goes ahead in plain text only to a local host or
  with the explicit opt-out, and a host name that merely starts like 127 is not local.\<close>

theorem plaintext_refused_iff:
  "db_refuse_plaintext req enc host opt \<longleftrightarrow> req \<and> \<not> enc \<and> \<not> opt \<and>
     \<not> (host = [] \<or> hd host = CHR ''/'' \<or> host \<in> {''localhost'', ''::1'', ''[::1]''} \<or>
        (prefix ''127.'' host \<and> set host \<subseteq> set ''0123456789.''))"
proof -
  have "find_if (\<lambda>c. c \<notin> set ''0123456789.'') host = None \<longleftrightarrow> set host \<subseteq> set ''0123456789.''"
    unfolding find_if_None by blast
  then show ?thesis unfolding db_refuse_plaintext_def db_host_is_local_def if_bool_eq_conj insert_iff empty_iff by blast
qed

lemma tls_warning_silent:
  "dsn_scheme dsn \<in> {''mysql'', ''mysqls''} \<Longrightarrow>
     db_tls_warning dsn = NoWarning \<longleftrightarrow>
       mysql_resolve_tls (db_dsn_query dsn) (dsn_scheme dsn = ''mysqls'') = (True, True)"
  by (auto simp: db_tls_warning_def Let_def mysql_tls.no_warning_iff)

end
