(* ===== verification/Dkim_Tag.thy ===== *)
theory Dkim_Tag
  imports Prelude
begin

text \<open>
  The DKIM-Signature tag lookup of \<^verbatim>\<open>dkim_tag.h\<close>. A header value is a list of
  \<^verbatim>\<open>name=value\<close> tags between semicolons; a tag is matched by its whole name, so the lookup of
  \<^verbatim>\<open>h\<close> never reads \<^verbatim>\<open>bh\<close>.
\<close>

abbreviation SEMI :: char where "SEMI \<equiv> CHR '';''"
abbreviation EQD :: char where "EQD \<equiv> CHR ''=''"

definition dkim_ws :: "char \<Rightarrow> bool" where
  "dkim_ws c \<longleftrightarrow> c = CHR '' '' \<or> c = TAB \<or> c = CR \<or> c = NL"

definition dkim_wsp :: "char \<Rightarrow> bool" where
  "dkim_wsp c \<longleftrightarrow> c = CHR '' '' \<or> c = TAB"

text \<open>One segment: its value when its trimmed name is the one asked for.\<close>

definition dkim_seg :: "string \<Rightarrow> string \<Rightarrow> string option" where
  "dkim_seg seg0 name =
     (case trim_if dkim_ws seg0 of
        None \<Rightarrow> None
      | Some seg \<Rightarrow>
          (case find_char EQD seg of
             None \<Rightarrow> None
           | Some eq \<Rightarrow>
               let tname0 = take eq seg;
                   tname = (case trim_if dkim_wsp tname0 of None \<Rightarrow> tname0 | Some t \<Rightarrow> t)
               in if tname = name then Some (filter (\<lambda>c. \<not> dkim_ws c) (drop (Suc eq) seg)) else None))"

function dkim_scan :: "string \<Rightarrow> string \<Rightarrow> string option" where
  "dkim_scan body name =
     (case find_char SEMI body of
        None \<Rightarrow> dkim_seg body name
      | Some semi \<Rightarrow>
          (case dkim_seg (take semi body) name of
             Some v \<Rightarrow> Some v
           | None \<Rightarrow> dkim_scan (drop (Suc semi) body) name))"
  by pat_completeness auto
termination
  by (relation "measure (\<lambda>(s, n). length s)") (auto dest: find_if_less)

declare dkim_scan.simps [simp del]

definition dkim_tag :: "string \<Rightarrow> string \<Rightarrow> string" where
  "dkim_tag dkim_header name =
     (let body = (case find_char (CHR '':'') dkim_header of
                    None \<Rightarrow> dkim_header | Some colon \<Rightarrow> drop (Suc colon) dkim_header)
      in case dkim_scan body name of None \<Rightarrow> [] | Some v \<Rightarrow> v)"

subsection \<open>Tag lists\<close>

text \<open>A written tag: leading folding space, the name, space around the equals sign, the value.\<close>

record dkim_spec =
  fws :: string
  tname :: string
  nsp :: string
  tval :: string

definition spec_ok :: "dkim_spec \<Rightarrow> bool" where
  "spec_ok t \<longleftrightarrow> list_all dkim_ws (fws t) \<and> list_all dkim_wsp (nsp t) \<and> tname t \<noteq> [] \<and>
     list_all (\<lambda>c. \<not> dkim_ws c \<and> c \<noteq> SEMI \<and> c \<noteq> EQD) (tname t) \<and> SEMI \<notin> set (tval t)"

definition spec_text :: "dkim_spec \<Rightarrow> string" where
  "spec_text t = fws t @ tname t @ nsp t @ EQD # tval t"

definition spec_value :: "dkim_spec \<Rightarrow> string" where
  "spec_value t = filter (\<lambda>c. \<not> dkim_ws c) (tval t)"

definition dkim_render :: "dkim_spec list \<Rightarrow> string" where
  "dkim_render ts = concat (map (\<lambda>t. spec_text t @ [SEMI]) ts)"

lemma dkim_wsp_ws: "dkim_wsp c \<Longrightarrow> dkim_ws c"
  by (auto simp: dkim_wsp_def dkim_ws_def)

lemma spec_not_ws: "\<not> dkim_ws EQD" "\<not> dkim_ws SEMI"
  by (simp_all add: dkim_ws_def)

lemma spec_okD:
  assumes "spec_ok t"
  shows "\<forall>c \<in> set (fws t). dkim_ws c" "\<forall>c \<in> set (nsp t). dkim_wsp c" "tname t \<noteq> []"
    "\<forall>c \<in> set (tname t). \<not> dkim_ws c" "EQD \<notin> set (tname t @ nsp t)" "SEMI \<notin> set (spec_text t)"
  using assms spec_not_ws dkim_wsp_ws
  by (auto simp: spec_ok_def spec_text_def list_all_iff)

lemma dkim_name_trim:
  assumes "spec_ok t"
  shows "trim_if dkim_wsp (tname t @ nsp t) = Some (tname t)"
proof -
  have "\<not> dkim_wsp c" if "c \<in> set (tname t)" for c
    using spec_okD(4) [OF assms] that dkim_wsp_ws by blast
  then show ?thesis
    using trim_if_core [of "[]" dkim_wsp "nsp t" "tname t"] spec_okD [OF assms] by simp
qed

lemma dkim_seg_spec:
  assumes "spec_ok t"
  shows "dkim_seg (spec_text t) name = (if tname t = name then Some (spec_value t) else None)"
proof -
  note ok = spec_okD [OF assms]
  obtain v w where v: "tval t = v @ w" "\<forall>c \<in> set w. dkim_ws c" "v \<noteq> [] \<longrightarrow> \<not> dkim_ws (last v)"
    using split_trailing [of "tval t" dkim_ws] by blast
  let ?core = "(tname t @ nsp t) @ EQD # v"
  have "\<not> dkim_ws (hd ?core)" using ok(3,4) by (cases "tname t") auto
  moreover have "\<not> dkim_ws (last ?core)" using v(3) by (auto simp: spec_not_ws)
  ultimately have "trim_if dkim_ws (spec_text t) = Some ?core"
    using trim_if_core [of "fws t" dkim_ws w ?core] ok(1) v by (simp add: spec_text_def)
  moreover have "find_char EQD ?core = Some (length (tname t @ nsp t))"
    using ok(5) by (rule find_char_hit)
  moreover have "filter (\<lambda>c. \<not> dkim_ws c) v = spec_value t"
    using v by (simp add: spec_value_def)
  ultimately show ?thesis
    using dkim_name_trim [OF assms] by (simp add: dkim_seg_def)
qed

lemma dkim_scan_render:
  "list_all spec_ok ts \<Longrightarrow>
     dkim_scan (dkim_render ts) name = map_of (map (\<lambda>t. (tname t, spec_value t)) ts) name"
proof (induction ts)
  case Nil
  show ?case by (simp add: dkim_scan.simps dkim_render_def dkim_seg_def trim_if_blank)
next
  case (Cons t ts)
  let ?b = "spec_text t @ SEMI # dkim_render ts"
  have "find_char SEMI ?b = Some (length (spec_text t))"
    using Cons.prems spec_okD(6) [of t] by (intro find_char_hit) simp
  then have "dkim_scan ?b name =
      (case dkim_seg (spec_text t) name of Some v \<Rightarrow> Some v | None \<Rightarrow> dkim_scan (dkim_render ts) name)"
    by (simp add: dkim_scan.simps [of ?b] split: option.splits)
  moreover have "dkim_render (t # ts) = ?b" by (simp add: dkim_render_def)
  ultimately show ?case
    using Cons dkim_seg_spec [of t name] by simp
qed

subsection \<open>Properties\<close>

text \<open>On a well-formed DKIM-Signature header the lookup is exact: it returns the value of the
  first tag whose whole name is the one asked for, with folding space removed, and the empty
  string when there is none. In particular an earlier \<^verbatim>\<open>bh=\<close> tag is never read as
  \<^verbatim>\<open>h=\<close>.\<close>

theorem dkim_tag_exact:
  assumes "CHR '':'' \<notin> set field" and "list_all spec_ok ts"
  shows "dkim_tag (field @ CHR '':'' # dkim_render ts) name =
     (case map_of (map (\<lambda>t. (tname t, spec_value t)) ts) name of None \<Rightarrow> [] | Some v \<Rightarrow> v)"
  using assms by (simp add: dkim_tag_def dkim_scan_render)

theorem dkim_tag_exact_witness:
  "dkim_tag (''DKIM-Signature'' @ CHR '':'' # dkim_render
      [\<lparr>fws = '' '', tname = ''bh'', nsp = '''', tval = ''AAA=''\<rparr>,
       \<lparr>fws = '' '', tname = ''h'', nsp = '' '', tval = ''from : to''\<rparr>]) ''h'' = ''from:to''"
  by (subst dkim_tag_exact) (simp_all add: spec_ok_def spec_value_def dkim_ws_def dkim_wsp_def)

end
