(* ===== verification/Pg_Insert.thy ===== *)
theory Pg_Insert
  imports Prelude
begin

text \<open>
  The SQL helpers of \<^verbatim>\<open>pg_insert.h\<close> behind \<^verbatim>\<open>db::last_id\<close> on PostgreSQL: is the statement an
  INSERT, which table does it name, does it already have a RETURNING clause, and the statement
  with the clause added. A scanning index is the suffix it denotes; \<^verbatim>\<open>i - start\<close> is a
  difference of lengths.
\<close>

fun kw_match :: "string \<Rightarrow> string \<Rightarrow> string option" where
  "kw_match s [] = Some s"
| "kw_match [] (k # ks) = None"
| "kw_match (c # s) (k # ks) = (if toupper c = k then kw_match s ks else None)"

definition skip_ws :: "string \<Rightarrow> string" where
  "skip_ws s = dropWhile isspace s"

definition pg_is_insert :: "string \<Rightarrow> bool" where
  "pg_is_insert sql =
     (case kw_match (skip_ws sql) ''INSERT'' of
        None \<Rightarrow> False
      | Some r \<Rightarrow> r = [] \<or> \<not> (isalnum (hd r) \<or> hd r = CHR ''_''))"

definition ident_start :: "char \<Rightarrow> bool" where
  "ident_start c \<longleftrightarrow> isalpha c \<or> c = CHR ''_'' \<or> 0x80 \<le> code_of c"

definition ident_char :: "char \<Rightarrow> bool" where
  "ident_char c \<longleftrightarrow> isalnum c \<or> c = CHR ''_'' \<or> c = CHR ''$'' \<or> 0x80 \<le> code_of c"

definition keyword :: "string \<Rightarrow> string \<Rightarrow> string option" where
  "keyword s kw =
     (case kw_match s kw of
        None \<Rightarrow> None
      | Some r \<Rightarrow> if r \<noteq> [] \<and> ident_char (hd r) then None else Some r)"

text \<open>The rest after a quoted piece whose opening quote has been read; a doubled quote stands
  for itself. \<^term>\<open>None\<close>: the quote is never closed.\<close>

fun pg_quoted :: "char \<Rightarrow> string \<Rightarrow> string option" where
  "pg_quoted q [] = None"
| "pg_quoted q [c] = (if c = q then Some [] else None)"
| "pg_quoted q (c # d # s) =
     (if c = q then (if d = q then pg_quoted q s else Some (d # s)) else pg_quoted q (d # s))"

text \<open>The loop over at most three dotted parts; \<open>start\<close> is the suffix at the first part.\<close>

fun pg_parts :: "nat \<Rightarrow> string \<Rightarrow> string \<Rightarrow> string option" where
  "pg_parts 0 start s = Some s"
| "pg_parts (Suc n) start s =
     (let part = (case s of
                    [] \<Rightarrow> None
                  | c # t \<Rightarrow>
                      if c = DQ then
                        (case pg_quoted DQ t of
                           None \<Rightarrow> None
                         | Some r \<Rightarrow> if length start - length r < 3 then None else Some r)
                      else if ident_start c then Some (dropWhile ident_char s)
                      else None)
      in case part of
           None \<Rightarrow> None
         | Some [] \<Rightarrow> Some []
         | Some (c # r) \<Rightarrow> if c = CHR ''.'' then pg_parts n start r else Some (c # r))"

definition pg_insert_target :: "string \<Rightarrow> string" where
  "pg_insert_target sql =
     (case keyword (skip_ws sql) ''INSERT'' of
        None \<Rightarrow> []
      | Some s1 \<Rightarrow>
          (case keyword (skip_ws s1) ''INTO'' of
             None \<Rightarrow> []
           | Some s2 \<Rightarrow>
               let start = skip_ws s2
               in case pg_parts 3 start start of
                    None \<Rightarrow> []
                  | Some r \<Rightarrow>
                      if r \<noteq> [] \<and> \<not> (isspace (hd r) \<or> hd r = CHR ''('') then []
                      else take (length start - length r) start))"

text \<open>The scan for a RETURNING word outside quotes and comments; \<open>p\<close> is the byte before the
  position, if any. A quoted piece that is never closed runs to the end of the statement.\<close>

definition skip_quoted :: "char \<Rightarrow> string \<Rightarrow> string" where
  "skip_quoted q s = (case pg_quoted q s of None \<Rightarrow> [] | Some r \<Rightarrow> r)"

definition skip_block_comment :: "string \<Rightarrow> string" where
  "skip_block_comment s = (case find_str ''*/'' s of None \<Rightarrow> [] | Some e \<Rightarrow> drop (e + 2) s)"

definition prev_in :: "char option \<Rightarrow> string \<Rightarrow> string \<Rightarrow> char option" where
  "prev_in p s r = (if length r < length s then Some (s ! (length s - length r - 1)) else p)"

lemma pg_quoted_length: "pg_quoted q s = Some r \<Longrightarrow> length r < length s"
  by (induction q s rule: pg_quoted.induct) (auto split: if_splits)

lemma skip_quoted_length: "length (skip_quoted q s) \<le> length s"
  by (auto simp: skip_quoted_def split: option.splits dest: pg_quoted_length)

lemma skip_block_length: "length (skip_block_comment (tl s)) < Suc (length s)"
  by (cases s) (auto simp: skip_block_comment_def split: option.splits)

function pg_scan :: "char option \<Rightarrow> string \<Rightarrow> bool" where
  "pg_scan p [] = False"
| "pg_scan p (c # s) =
     (if c = SQ \<or> c = DQ then
        (let r = skip_quoted c s in pg_scan (prev_in (Some c) s r) r)
      else if c = CHR ''-'' \<and> s \<noteq> [] \<and> hd s = CHR ''-'' then
        (let r = dropWhile (\<lambda>x. x \<noteq> NL) s in pg_scan (prev_in (Some c) s r) r)
      else if c = CHR ''/'' \<and> s \<noteq> [] \<and> hd s = CHR ''*'' then
        (let r = skip_block_comment (tl s) in pg_scan (prev_in (Some c) s r) r)
      else if ident_start c \<and> (case p of None \<Rightarrow> True | Some x \<Rightarrow> \<not> ident_char x) then
        (if keyword (c # s) ''RETURNING'' \<noteq> None then True
         else let r = dropWhile ident_char s in pg_scan (prev_in (Some c) s r) r)
      else pg_scan (Some c) s)"
  by pat_completeness auto
termination
  by (relation "measure (\<lambda>(p, s). length s)")
     (auto simp: le_imp_less_Suc skip_quoted_length length_dropWhile_le skip_block_length)

declare pg_scan.simps(2) [simp del]

definition pg_has_returning :: "string \<Rightarrow> bool" where
  "pg_has_returning sql = pg_scan None sql"

definition dbl_quote :: "char \<Rightarrow> string \<Rightarrow> string" where
  "dbl_quote q s = concat (map (\<lambda>c. if c = q then [q, c] else [c]) s)"

definition pg_strip_end :: "string \<Rightarrow> string" where
  "pg_strip_end sql = rev (dropWhile (\<lambda>c. isspace c \<or> c = CHR '';'') (rev sql))"

definition pg_with_returning :: "string \<Rightarrow> string \<Rightarrow> string" where
  "pg_with_returning sql col =
     pg_strip_end sql @ NL # ''RETURNING '' @ DQ # dbl_quote DQ col @ [DQ]"

subsection \<open>Quoting\<close>

fun undouble :: "char \<Rightarrow> string \<Rightarrow> string" where
  "undouble q (c # d # s) = (if c = q \<and> d = q then q # undouble q s else c # undouble q (d # s))"
| "undouble q s = s"

lemma undouble_cons: "c \<noteq> q \<Longrightarrow> undouble q (c # s) = c # undouble q s"
  by (cases s) auto

lemma dbl_quote_simps [simp]:
  "dbl_quote q [] = []"
  "dbl_quote q (c # s) = (if c = q then q # q # dbl_quote q s else c # dbl_quote q s)"
  by (simp_all add: dbl_quote_def)

interpretation pg_ident: codec "dbl_quote q" "undouble q" for q
proof
  show "undouble q (dbl_quote q s) = s" for s
    by (induction s) (auto simp: undouble_cons)
qed

lemma pg_quoted_cons: "c \<noteq> q \<Longrightarrow> pg_quoted q (c # s) = pg_quoted q s"
  by (cases s) auto

lemma pg_quoted_close: "post = [] \<or> hd post \<noteq> q \<Longrightarrow> pg_quoted q (q # post) = Some post"
  by (cases post) auto

lemma pg_quoted_dbl:
  assumes "post = [] \<or> hd post \<noteq> q"
  shows "pg_quoted q (dbl_quote q s @ q # post) = Some post"
  using pg_quoted_close [OF assms] by (induction s) (auto simp: pg_quoted_cons)

subsection \<open>Table names\<close>

datatype pg_part = Ident string | Quoted string

fun part_text :: "pg_part \<Rightarrow> string" where
  "part_text (Ident s) = s"
| "part_text (Quoted s) = DQ # dbl_quote DQ s @ [DQ]"

fun part_ok :: "pg_part \<Rightarrow> bool" where
  "part_ok (Ident s) = (s \<noteq> [] \<and> ident_start (hd s) \<and> list_all ident_char s)"
| "part_ok (Quoted s) = (s \<noteq> [])"

fun name_text :: "pg_part list \<Rightarrow> string" where
  "name_text [] = []"
| "name_text [p] = part_text p"
| "name_text (p # ps) = part_text p @ CHR ''.'' # name_text ps"

definition name_end :: "string \<Rightarrow> bool" where
  "name_end r \<longleftrightarrow> r = [] \<or> isspace (hd r) \<or> hd r = CHR ''(''"

lemma dq_not_ident: "\<not> ident_start DQ" "\<not> ident_char DQ"
  by (simp_all add: ident_start_def ident_char_def isalnum_def isalpha_def isdigit_def code_of_def)

lemma ident_char_not_space: "ident_char c \<Longrightarrow> \<not> isspace c"
  by (auto simp: ident_char_def isalnum_def isalpha_def isdigit_def isspace_def code_of_def)

lemma ident_start_char: "ident_start c \<Longrightarrow> ident_char c"
  by (auto simp: ident_char_def ident_start_def isalnum_def)

lemma name_end_stops:
  assumes "name_end r"
  shows "r = [] \<or> hd r \<noteq> DQ" and "r = [] \<or> \<not> ident_char (hd r)" and "r = [] \<or> hd r \<noteq> CHR ''.''"
  using assms ident_char_not_space [of "hd r"]
  by (auto simp: name_end_def isspace_def ident_char_def isalnum_def isalpha_def isdigit_def code_of_def)

lemma dot_stops: "\<not> ident_char (CHR ''.'')" "CHR ''.'' \<noteq> DQ"
  by (simp_all add: ident_char_def isalnum_def isalpha_def isdigit_def code_of_def)

lemma dropWhile_ident:
  "list_all ident_char s \<Longrightarrow> r = [] \<or> \<not> ident_char (hd r) \<Longrightarrow> dropWhile ident_char (s @ r) = r"
  by (induction s) (auto simp: dropWhile_eq_self_iff)

lemma dbl_quote_length: "length s \<le> length (dbl_quote q s)"
  by (induction s) auto

lemma pg_parts_step:
  assumes "part_ok p" "r = [] \<or> hd r \<noteq> DQ" "r = [] \<or> \<not> ident_char (hd r)"
    and "length (part_text p @ r) \<le> length start"
  shows "pg_parts (Suc n) start (part_text p @ r) =
     (case r of [] \<Rightarrow> Some [] | c # r' \<Rightarrow> if c = CHR ''.'' then pg_parts n start r' else Some (c # r'))"
proof (cases p)
  case (Ident s)
  then obtain c t where s: "s = c # t" "ident_start c" using assms(1) by (cases s) auto
  have "c \<noteq> DQ" using s dq_not_ident by auto
  then show ?thesis
    using assms Ident s dropWhile_ident [of s r] by simp
next
  case (Quoted s)
  have "1 \<le> length s" using assms(1) Quoted by (cases s) auto
  then have "\<not> length start - length r < 3"
    using assms(4) Quoted dbl_quote_length [of s DQ] by simp
  then show ?thesis
    using Quoted pg_quoted_dbl [OF assms(2), of s] by simp
qed

lemma pg_parts_name:
  assumes "ps \<noteq> []" "list_all part_ok ps" "length ps \<le> n" "name_end r"
    and "length (name_text ps @ r) \<le> length start"
  shows "pg_parts n start (name_text ps @ r) = Some r"
  using assms
proof (induction ps arbitrary: n rule: name_text.induct)
  case (2 p)
  then obtain m where n: "n = Suc m" by (cases n) auto
  show ?case
    using 2 name_end_stops [OF "2.prems"(4)] pg_parts_step [of p r start m]
    by (auto simp: n split: list.splits)
next
  case (3 p p' ps)
  then obtain m where n: "n = Suc m" by (cases n) auto
  let ?r = "CHR ''.'' # name_text (p' # ps) @ r"
  have "pg_parts n start (part_text p @ ?r) = pg_parts m start (name_text (p' # ps) @ r)"
    using pg_parts_step [of p ?r start m] 3 dot_stops by (simp add: n)
  then show ?case using 3 n by simp
qed simp

lemma kw_match_hit: "map toupper k = kw \<Longrightarrow> kw_match (k @ s) kw = Some s"
  by (induction k arbitrary: kw) auto

lemma skip_ws_hit: "list_all isspace w \<Longrightarrow> s = [] \<or> \<not> isspace (hd s) \<Longrightarrow> skip_ws (w @ s) = s"
  unfolding skip_ws_def by (induction w) (auto simp: dropWhile_eq_self_iff)

lemma keyword_hit:
  assumes "map toupper k = kw" "w \<noteq> []" "list_all isspace w"
  shows "keyword (k @ w @ s) kw = Some (w @ s)"
  using assms kw_match_hit [of k kw "w @ s"] ident_char_not_space [of "hd w"]
  by (cases w) (auto simp: keyword_def)

lemma toupper_space: "isspace (toupper c) \<longleftrightarrow> isspace c"
  by (auto simp: toupper_def isspace_def code_of_char_of)

lemma part_text_hd: "part_ok p \<Longrightarrow> part_text p \<noteq> [] \<and> \<not> isspace (hd (part_text p))"
proof (cases p)
  case (Ident s)
  assume "part_ok p"
  then show ?thesis using Ident ident_start_char ident_char_not_space by auto
next
  case (Quoted s)
  then show ?thesis by (simp add: isspace_def code_of_def)
qed

lemma name_text_hd:
  "ps \<noteq> [] \<Longrightarrow> list_all part_ok ps \<Longrightarrow> name_text ps \<noteq> [] \<and> \<not> isspace (hd (name_text ps))"
  by (induction ps rule: name_text.induct) (auto simp: hd_append part_text_hd)

lemma pg_insert_target_name:
  assumes "list_all isspace w0" "list_all isspace w1" "list_all isspace w2" "w1 \<noteq> []" "w2 \<noteq> []"
    and "map toupper ins = ''INSERT''" "map toupper into = ''INTO''"
    and "ps \<noteq> []" "length ps \<le> 3" "list_all part_ok ps" "name_end rest"
  shows "pg_insert_target (w0 @ ins @ w1 @ into @ w2 @ name_text ps @ rest) = name_text ps"
proof -
  let ?n = "name_text ps @ rest"
  note hd_n = name_text_hd [OF assms(8,10)]
  have nosp: "\<not> isspace (hd k)" if "map toupper k = kw" "kw \<noteq> []" "\<not> isspace (hd kw)" for k kw
    using that toupper_space [of "hd k"] by (cases k) auto
  have s1: "skip_ws (w0 @ ins @ w1 @ into @ w2 @ ?n) = ins @ w1 @ into @ w2 @ ?n"
    using assms(1,6) nosp [OF assms(6)] by (intro skip_ws_hit) (cases ins; auto simp: isspace_def code_of_def)+
  have s2: "skip_ws (w1 @ into @ w2 @ ?n) = into @ w2 @ ?n"
    using assms(2,7) nosp [OF assms(7)] by (intro skip_ws_hit) (cases into; auto simp: isspace_def code_of_def)+
  have s3: "skip_ws (w2 @ ?n) = ?n"
    using assms(3) hd_n by (intro skip_ws_hit) (auto simp: hd_append)
  have "pg_parts 3 ?n ?n = Some rest"
    using pg_parts_name [of ps 3 rest ?n] assms by simp
  then show ?thesis
    using keyword_hit [OF assms(6,4,2)] keyword_hit [OF assms(7,5,3)] assms(11)
    by (auto simp: pg_insert_target_def s1 s2 s3 name_end_def)
qed

lemma pg_scan_literal:
  assumes "q = SQ \<or> q = DQ" "post = [] \<or> hd post \<noteq> q"
  shows "pg_scan p (q # dbl_quote q lit @ q # post) = pg_scan (Some q) post"
  using assms(1) pg_quoted_dbl [OF assms(2), of lit]
  by (auto simp: pg_scan.simps(2) skip_quoted_def prev_in_def nth_append)

subsection \<open>Properties\<close>

text \<open>The target of an INSERT is read exactly: for every name of one to three parts, plain or
  quoted, in any letter case and spacing of the keywords, the result is the name as written.\<close>

theorem pg_insert_target_exact:
  assumes "list_all isspace w0" "list_all isspace w1" "list_all isspace w2" "w1 \<noteq> []" "w2 \<noteq> []"
    and "map toupper ins = ''INSERT''" "map toupper into = ''INTO''"
    and "ps \<noteq> []" "length ps \<le> 3" "list_all part_ok ps" "name_end rest"
  shows "pg_insert_target (w0 @ ins @ w1 @ into @ w2 @ name_text ps @ rest) = name_text ps"
  using assms by (rule pg_insert_target_name)

theorem pg_insert_target_exact_witness:
  "pg_insert_target ('' '' @ ''Insert'' @ '' '' @ ''into'' @ '' '' @
     name_text [Ident ''app'', Quoted ''my''] @ ''(a)'') = name_text [Ident ''app'', Quoted ''my'']"
  by (rule pg_insert_target_exact; code_simp)

text \<open>A RETURNING inside a literal or a quoted identifier is never taken for the clause: the
  scan continues right behind the closing quote, whatever the literal holds.\<close>

theorem pg_returning_in_literal_ignored:
  assumes "q = SQ \<or> q = DQ" "post = [] \<or> hd post \<noteq> q"
  shows "pg_has_returning (q # dbl_quote q lit @ q # post) = pg_scan (Some q) post"
  unfolding pg_has_returning_def using assms by (rule pg_scan_literal)

theorem pg_returning_in_literal_ignored_witness:
  "pg_has_returning (SQ # dbl_quote SQ ''a' RETURNING x'' @ SQ # '';'') = False"
  by (subst pg_returning_in_literal_ignored) (simp_all add: pg_scan.simps(2) ident_start_def isalpha_def code_of_def)

text \<open>The added clause quotes the column so that no column name can leave its quotes: the
  quoted piece ends exactly at the end of the statement, and two columns never give the same
  clause.\<close>

theorem pg_with_returning_contained:
  "\<exists>body. pg_with_returning sql col = pg_strip_end sql @ NL # ''RETURNING '' @ DQ # body \<and>
     pg_quoted DQ body = Some [] \<and> undouble DQ (butlast body) = col"
  by (rule exI [of _ "dbl_quote DQ col @ [DQ]"])
     (simp add: pg_with_returning_def pg_quoted_dbl pg_ident.dec_enc)

text \<open>The empty quoted part is refused only as the first part: the length test counts from the
  start of the whole name, so \<^verbatim>\<open>a.""\<close>, which is no SQL identifier, is passed on.\<close>

theorem pg_empty_second_part_accepted:
  "pg_insert_target (''INSERT INTO a.'' @ [DQ, DQ] @ '' (x)'') = ''a.'' @ [DQ, DQ] \<and>
   pg_insert_target (''INSERT INTO '' @ [DQ, DQ] @ '' (x)'') = []"
  by code_simp

end
