(* ===== verification/Wire.thy ===== *)
theory Wire
  imports Prelude
begin

text \<open>
  What the binary protocol readers share: a buffer \<^verbatim>\<open>[p, end)\<close> is the list of bytes from
  \<^verbatim>\<open>p\<close> on, a reader returns what it read and the bytes it left, and the contract
  \<open>bounded_reader\<close> says that it never leaves the buffer (it returns a suffix of it) nor moves
  backwards.
\<close>

type_synonym bytes = "u8 list"

locale bounded_reader =
  fixes rd :: "bytes \<Rightarrow> 'a \<times> bytes"
  assumes rd_suffix: "suffix (snd (rd b)) b"
begin

lemma rd_length: "length (snd (rd b)) \<le> length b"
  using rd_suffix suffix_length_le by blast

lemma rd_bytes: "set (snd (rd b)) \<subseteq> set b"
  using rd_suffix set_mono_suffix by blast

lemma rd_then: "suffix b' (snd (rd b)) \<Longrightarrow> suffix b' b"
  using rd_suffix suffix_order.trans by blast

lemma rd_progress: "snd (rd b) \<noteq> b \<Longrightarrow> length (snd (rd b)) < length b"
  using rd_suffix [of b] by (metis suffix_def append_eq_append_conv append_self_conv2 le_neq_implies_less
      rd_length)

end

text \<open>\<^verbatim>\<open>raw_read\<close>: exactly \<open>n\<close> bytes from a stream, or failure when it ends before.\<close>

definition raw_read :: "nat \<Rightarrow> bytes \<Rightarrow> (bytes \<times> bytes) option" where
  "raw_read n s = (if n \<le> length s then Some (take n s, drop n s) else None)"

lemma raw_read_append [byte_reader]: "length a = n \<Longrightarrow> raw_read n (a @ s) = Some (a, s)"
  by (auto simp: raw_read_def)

lemma raw_read_SomeD:
  "raw_read n s = Some (a, r) \<Longrightarrow> s = a @ r \<and> length a = n"
  by (auto simp: raw_read_def split: if_splits)

lemma raw_read_0 [byte_reader, simp]: "raw_read 0 s = Some ([], s)"
  by (simp add: raw_read_def)

subsection \<open>Two-byte integers\<close>

definition be16 :: "u8 \<Rightarrow> u8 \<Rightarrow> u16" where
  "be16 b0 b1 = push_bit 8 (ucast b0) OR ucast b1"

lemma and_FF_bit: "bit (w AND 0xFF :: u16) n \<longleftrightarrow> bit w n \<and> n < 8"
proof -
  have "w AND 0xFF = take_bit 8 w" by (simp add: take_bit_eq_mask mask_eq_exp_minus_1)
  then show ?thesis by (auto simp: bit_take_bit_iff)
qed

lemma be16_split: "be16 (ucast (drop_bit 8 w)) (ucast (w AND 0xFF)) = w"
proof (rule bit_word_eqI)
  fix n assume "n < LENGTH(16)"
  then show "bit (be16 (ucast (drop_bit 8 w)) (ucast (w AND 0xFF))) n = bit w n"
    by (cases "8 \<le> n")
       (auto simp: be16_def bit_or_iff bit_push_bit_iff bit_unsigned_iff bit_drop_bit_eq and_FF_bit)
qed

lemma unat_ucast_u8_u16: "unat (ucast (b :: u8) :: u16) = unat b"
  by (simp add: unsigned_ucast_eq take_bit_nat_eq_self unat_u8_less less_trans [OF unat_u8_less])

lemma unat_be16: "unat (be16 a b) = unat a * 256 + unat b"
proof -
  have "push_bit 8 (unat a) < 2 ^ 16"
    using unat_u8_less [of a] by (simp add: push_bit_eq_mult)
  then have "unat (push_bit 8 (ucast a :: u16)) = push_bit 8 (unat a)"
    by (simp add: unsigned_push_bit_eq unat_ucast_u8_u16 take_bit_nat_eq_self)
  then show ?thesis
    using nat_or_shift [of "unat b" 8 "unat a"] unat_u8_less [of b]
    by (simp add: be16_def unsigned_or_eq unat_ucast_u8_u16)
qed

lemma unat_word_of_nat_u8: "n < 256 \<Longrightarrow> unat (word_of_nat n :: u8) = n"
  by (simp add: unsigned_of_nat take_bit_nat_eq_self)

lemma base256:
  "n div 2 ^ 24 * 2 ^ 24 + n div 2 ^ 16 mod 256 * 2 ^ 16 + n div 2 ^ 8 mod 256 * 2 ^ 8 + n mod 256 = (n :: nat)"
proof -
  have a: "n div 2 ^ 16 = n div 2 ^ 8 div 2 ^ 8" "n div 2 ^ 24 = n div 2 ^ 8 div 2 ^ 8 div 2 ^ 8"
    by (simp_all flip: div_mult2_eq)
  have "n div 256 div 256 div 256 * 16777216 + n div 256 div 256 mod 256 * 65536 +
      n div 256 mod 256 * 256 + n mod 256 = n"
    using div_mult_mod_eq [of n 256] div_mult_mod_eq [of "n div 256" 256]
      div_mult_mod_eq [of "n div 256 div 256" 256] by linarith
  then show ?thesis unfolding a by simp
qed

end
