(* ===== verification/Fcgi.thy ===== *)
theory Fcgi
  imports Wire
begin

text \<open>
  FastCGI: the pure parsers of \<^verbatim>\<open>fcgi_parse.h\<close>, the record types of \<^verbatim>\<open>fcgi.h\<close> and the
  connection of \<^verbatim>\<open>fcgi_main.cpp\<close> (\<^verbatim>\<open>read_record\<close>, \<^verbatim>\<open>write_record\<close>,
  \<^verbatim>\<open>accept\<close>, \<^verbatim>\<open>end_request\<close>). A connection is the stream of bytes still to be read and the
  bytes written so far; a read past the end of the stream is the closed connection.
\<close>

subsection \<open>Types\<close>

datatype FcgiType = FCGI_BEGIN_REQUEST | FCGI_ABORT_REQUEST | FCGI_END_REQUEST | FCGI_PARAMS
  | FCGI_STDIN | FCGI_STDOUT | FCGI_STDERR | FCGI_DATA | FCGI_GET_VALUES | FCGI_GET_VALUES_RESULT

fun fcgi_type_code :: "FcgiType \<Rightarrow> u8" where
  "fcgi_type_code FCGI_BEGIN_REQUEST = 1"
| "fcgi_type_code FCGI_ABORT_REQUEST = 2"
| "fcgi_type_code FCGI_END_REQUEST = 3"
| "fcgi_type_code FCGI_PARAMS = 4"
| "fcgi_type_code FCGI_STDIN = 5"
| "fcgi_type_code FCGI_STDOUT = 6"
| "fcgi_type_code FCGI_STDERR = 7"
| "fcgi_type_code FCGI_DATA = 8"
| "fcgi_type_code FCGI_GET_VALUES = 9"
| "fcgi_type_code FCGI_GET_VALUES_RESULT = 10"

datatype FcgiProtoStatus = FCGI_REQUEST_COMPLETE | FCGI_CANT_MPX_CONN | FCGI_OVERLOADED
  | FCGI_UNKNOWN_ROLE

fun fcgi_status_code :: "FcgiProtoStatus \<Rightarrow> u8" where
  "fcgi_status_code FCGI_REQUEST_COMPLETE = 0"
| "fcgi_status_code FCGI_CANT_MPX_CONN = 1"
| "fcgi_status_code FCGI_OVERLOADED = 2"
| "fcgi_status_code FCGI_UNKNOWN_ROLE = 3"

record FcgiRecordHeader =
  version :: u8
  rtype :: u8
  req_id :: u16
  content_len :: u16
  padding_len :: u8

record FcgiRequest =
  fid :: u16
  keep_conn :: bool
  params :: "bytes \<rightharpoonup> bytes"
  body :: bytes

definition empty_request :: FcgiRequest where
  "empty_request = \<lparr>fid = 0, keep_conn = False, params = Map.empty, body = []\<rparr>"

subsection \<open>Parsers\<close>

definition fcgi_decode_header :: "bytes \<Rightarrow> FcgiRecordHeader" where
  "fcgi_decode_header hdr =
     \<lparr>version = hdr ! 0, rtype = hdr ! 1, req_id = be16 (hdr ! 2) (hdr ! 3),
      content_len = be16 (hdr ! 4) (hdr ! 5), padding_len = hdr ! 6\<rparr>"

definition fcgi_begin_keep_conn :: "bytes \<Rightarrow> bool" where
  "fcgi_begin_keep_conn content = (if length content < 3 then False else content ! 2 AND 0x01 \<noteq> 0)"

fun fcgi_read_len :: "bytes \<Rightarrow> u32 \<times> bytes" where
  "fcgi_read_len [] = (0, [])"
| "fcgi_read_len (b # r) =
     (if drop_bit 7 b = 0 then (ucast b, r)
      else case r of
             p1 # p2 # p3 # r' \<Rightarrow> (be32 (b AND 0x7F) p1 p2 p3, r')
           | _ \<Rightarrow> (0, b # r))"

interpretation fcgi_len: bounded_reader fcgi_read_len
proof
  show "suffix (snd (fcgi_read_len b)) b" for b
    by (cases b) (auto simp: suffix_def split: list.splits)
qed

function fcgi_parse_params :: "bytes \<Rightarrow> (bytes \<rightharpoonup> bytes) \<Rightarrow> (bytes \<rightharpoonup> bytes)" where
  "fcgi_parse_params p out =
     (if p = [] then out
      else let (nlen, p1) = fcgi_read_len p;
               (vlen, p2) = fcgi_read_len p1
           in if length p2 = length p then out
              else if length p2 < unat nlen + unat vlen then out
              else fcgi_parse_params (drop (unat nlen + unat vlen) p2)
                     (out(take (unat nlen) p2 \<mapsto> take (unat vlen) (drop (unat nlen) p2))))"
  by pat_completeness auto
termination
proof (relation "measure (\<lambda>(p, out). length p)")
  fix p out x nlen p1 y vlen p2
  assume x: "x = fcgi_read_len p" "(nlen, p1) = x" and y: "y = fcgi_read_len p1" "(vlen, p2) = y"
    and ne: "length p2 \<noteq> length p"
  have "length p2 \<le> length p"
    using fcgi_len.rd_length [of p] fcgi_len.rd_length [of p1] x y by (metis le_trans snd_conv)
  then show "((drop (unat nlen + unat vlen) p2,
      out(take (unat nlen) p2 \<mapsto> take (unat vlen) (drop (unat nlen) p2))), (p, out))
      \<in> measure (\<lambda>(p, out). length p)"
    using ne by simp
qed simp

declare fcgi_parse_params.simps [simp del]

subsection \<open>Records on a connection\<close>

record fcgi_record =
  rec_type :: u8
  rec_id :: u16
  content :: bytes

definition fcgi_read_record :: "bytes \<Rightarrow> (fcgi_record \<times> bytes) option" where
  "fcgi_read_record s =
     (case raw_read 8 s of
        None \<Rightarrow> None
      | Some (hdr, s1) \<Rightarrow>
          let h = fcgi_decode_header hdr
          in case raw_read (unat (content_len h)) s1 of
               None \<Rightarrow> None
             | Some (c, s2) \<Rightarrow>
                 (case raw_read (unat (padding_len h)) s2 of
                    None \<Rightarrow> None
                  | Some (pad, s3) \<Rightarrow> Some (\<lparr>rec_type = rtype h, rec_id = req_id h, content = c\<rparr>, s3)))"

text \<open>One round of the writing loop: header, chunk and padding to a multiple of eight.\<close>

definition fcgi_frame :: "u8 \<Rightarrow> u16 \<Rightarrow> bytes \<Rightarrow> bytes" where
  "fcgi_frame ty rid d =
     (let chunk = length d; padding = (8 - chunk mod 8) mod 8
      in [1, ty, ucast (drop_bit 8 rid), ucast (rid AND 0xFF),
          word_of_nat (chunk div 256), word_of_nat (chunk mod 256), word_of_nat padding, 0] @
         d @ replicate padding 0)"

function fcgi_write_record :: "u8 \<Rightarrow> u16 \<Rightarrow> bytes \<Rightarrow> bytes" where
  "fcgi_write_record ty rid d =
     (let chunk = (if 65535 < length d then 65535 else length d)
      in fcgi_frame ty rid (take chunk d) @
         (if chunk < length d then fcgi_write_record ty rid (drop chunk d) else []))"
  by pat_completeness auto
termination
  by (relation "measure (\<lambda>(ty, rid, d). length d)") auto

declare fcgi_write_record.simps [simp del]

definition fcgi_write_stdout :: "u16 \<Rightarrow> bytes \<Rightarrow> bytes" where
  "fcgi_write_stdout rid d =
     (if d \<noteq> [] then fcgi_write_record (fcgi_type_code FCGI_STDOUT) rid d else []) @
     fcgi_write_record (fcgi_type_code FCGI_STDOUT) rid []"

definition fcgi_write_stderr :: "u16 \<Rightarrow> bytes \<Rightarrow> bytes" where
  "fcgi_write_stderr rid d =
     (if d \<noteq> [] then fcgi_write_record (fcgi_type_code FCGI_STDERR) rid d else []) @
     fcgi_write_record (fcgi_type_code FCGI_STDERR) rid []"

definition fcgi_end_request :: "u16 \<Rightarrow> u32 \<Rightarrow> bytes" where
  "fcgi_end_request rid app_status =
     fcgi_write_record (fcgi_type_code FCGI_END_REQUEST) rid
       [ucast (drop_bit 24 app_status), ucast (drop_bit 16 app_status), ucast (drop_bit 8 app_status),
        ucast (app_status AND 0xFF), fcgi_status_code FCGI_REQUEST_COMPLETE, 0, 0, 0]"

subsection \<open>Accepting a request\<close>

text \<open>What one record does in \<^verbatim>\<open>accept\<close>: the request is complete, the connection is cut, or the
  loop goes on with a new state. The bytes are those written to the connection.\<close>

datatype fcgi_next =
    Deliver FcgiRequest
  | CutOff FcgiRequest bytes
  | Continue FcgiRequest bool bytes

definition fcgi_step :: "nat \<Rightarrow> FcgiRequest \<Rightarrow> bool \<Rightarrow> fcgi_record \<Rightarrow> fcgi_next" where
  "fcgi_step max_body req in_request r =
     (if rec_type r = fcgi_type_code FCGI_BEGIN_REQUEST then
        (if 8 \<le> length (content r) then
           Continue (req\<lparr>fid := rec_id r, keep_conn := fcgi_begin_keep_conn (content r)\<rparr>) True []
         else Continue req in_request [])
      else if rec_type r = fcgi_type_code FCGI_PARAMS then
        (if in_request \<and> rec_id r = fid req \<and> content r \<noteq> [] then
           Continue (req\<lparr>params := fcgi_parse_params (content r) (params req)\<rparr>) in_request []
         else Continue req in_request [])
      else if rec_type r = fcgi_type_code FCGI_STDIN then
        (if in_request \<and> rec_id r = fid req then
           (if content r = [] then Deliver req
            else if max_body < length (body req) + length (content r) then
              CutOff req (fcgi_end_request (rec_id r) 1)
            else Continue (req\<lparr>body := body req @ content r\<rparr>) in_request [])
         else Continue req in_request [])
      else if rec_type r = fcgi_type_code FCGI_ABORT_REQUEST then
        Continue empty_request False (fcgi_end_request (rec_id r) 1)
      else if rec_type r = fcgi_type_code FCGI_GET_VALUES then
        Continue req in_request (fcgi_write_record (fcgi_type_code FCGI_GET_VALUES_RESULT) 0 [])
      else Continue req in_request [])"

lemma fcgi_read_record_length: "fcgi_read_record s = Some (r, s') \<Longrightarrow> length s' + 8 \<le> length s"
  by (auto simp: fcgi_read_record_def Let_def split: option.splits dest!: raw_read_SomeD)

text \<open>The loop of \<^verbatim>\<open>accept\<close>; the result is the return value, the request, the bytes left to
  read and the bytes written.\<close>

function fcgi_loop :: "nat \<Rightarrow> FcgiRequest \<Rightarrow> bool \<Rightarrow> bytes \<Rightarrow> bytes \<Rightarrow> bool \<times> FcgiRequest \<times> bytes \<times> bytes"
where
  "fcgi_loop max_body req in_request s w =
     (case fcgi_read_record s of
        None \<Rightarrow> (False, req, s, w)
      | Some (r, s') \<Rightarrow>
          (case fcgi_step max_body req in_request r of
             Deliver req' \<Rightarrow> (True, req', s', w)
           | CutOff req' out \<Rightarrow> (False, req', s', w @ out)
           | Continue req' in' out \<Rightarrow> fcgi_loop max_body req' in' s' (w @ out)))"
  by pat_completeness auto
termination
  by (relation "measure (\<lambda>(m, req, i, s, w). length s)") (auto dest!: fcgi_read_record_length)

declare fcgi_loop.simps [simp del]

definition fcgi_accept :: "nat \<Rightarrow> bytes \<Rightarrow> bool \<times> FcgiRequest \<times> bytes \<times> bytes" where
  "fcgi_accept max_body s = fcgi_loop max_body empty_request False s []"

subsection \<open>Name-value pairs\<close>

text \<open>The encoding of the FastCGI specification: a length below 128 in one byte, any other in four
  with the high bit set.\<close>

definition fcgi_enc_len :: "nat \<Rightarrow> bytes" where
  "fcgi_enc_len n =
     (if n < 128 then [word_of_nat n]
      else [word_of_nat (128 + n div 2 ^ 24), word_of_nat (n div 2 ^ 16 mod 256),
            word_of_nat (n div 2 ^ 8 mod 256), word_of_nat (n mod 256)])"

definition fcgi_enc_pair :: "bytes \<times> bytes \<Rightarrow> bytes" where
  "fcgi_enc_pair kv =
     fcgi_enc_len (length (fst kv)) @ fcgi_enc_len (length (snd kv)) @ fst kv @ snd kv"

definition fcgi_enc_params :: "(bytes \<times> bytes) list \<Rightarrow> bytes" where
  "fcgi_enc_params kvs = concat (map fcgi_enc_pair kvs)"

definition fcgi_pair_ok :: "bytes \<times> bytes \<Rightarrow> bool" where
  "fcgi_pair_ok kv \<longleftrightarrow> length (fst kv) < 2 ^ 31 \<and> length (snd kv) < 2 ^ 31"

lemma drop_bit_7_u8: "drop_bit 7 (b :: u8) = 0 \<longleftrightarrow> unat b < 128"
proof -
  have "drop_bit 7 b = 0 \<longleftrightarrow> unat (drop_bit 7 b) = 0" by (simp add: unsigned_eq_0_iff)
  then show ?thesis by (simp add: unat_drop_bit div_eq_0_iff)
qed

lemma unat_and_7F: "unat (b AND 0x7F :: u8) = unat b mod 128"
proof -
  have "b AND 0x7F = take_bit 7 b" by (simp add: take_bit_eq_mask mask_eq_exp_minus_1)
  moreover have "unat (take_bit 7 b) = take_bit 7 (unat b)" by (rule unsigned_take_bit_eq)
  moreover have "take_bit 7 (unat b) = unat b mod 2 ^ 7" by (rule take_bit_eq_mod)
  ultimately show ?thesis by simp
qed

lemma fcgi_read_enc_len:
  assumes "n < 2 ^ 31"
  shows "fcgi_read_len (fcgi_enc_len n @ r) = (word_of_nat n, r)"
proof (cases "n < 128")
  case True
  then have b: "unat (word_of_nat n :: u8) = n" by (simp add: unat_word_of_nat_u8)
  have "ucast (word_of_nat n :: u8) = (word_of_nat n :: u32)"
    by (metis b of_nat_unat)
  then show ?thesis using True b by (simp add: fcgi_enc_len_def drop_bit_7_u8)
next
  case False
  let ?b0 = "word_of_nat (128 + n div 2 ^ 24) :: u8"
  have "n div 2 ^ 24 < 128" using assms by (simp add: div_less_iff_less_mult)
  then have b0: "unat ?b0 = 128 + n div 2 ^ 24" by (subst unat_word_of_nat_u8) auto
  have "unat (be32 (?b0 AND 0x7F) (word_of_nat (n div 2 ^ 16 mod 256)) (word_of_nat (n div 2 ^ 8 mod 256))
      (word_of_nat (n mod 256))) = n"
    unfolding unat_be32 unat_and_7F b0
    using \<open>n div 2 ^ 24 < 128\<close> base256 [of n] by (simp add: unat_word_of_nat_u8)
  then have "be32 (?b0 AND 0x7F) (word_of_nat (n div 2 ^ 16 mod 256)) (word_of_nat (n div 2 ^ 8 mod 256))
      (word_of_nat (n mod 256)) = word_of_nat n"
    by (metis of_nat_unat ucast_id)
  then show ?thesis using False b0 by (simp add: fcgi_enc_len_def drop_bit_7_u8)
qed

lemma unat_word_of_nat_u32: "n < 2 ^ 31 \<Longrightarrow> unat (word_of_nat n :: u32) = n"
  by (simp add: unsigned_of_nat take_bit_nat_eq_self)

lemma fcgi_enc_len_ne [simp]: "fcgi_enc_len n \<noteq> []"
  by (simp add: fcgi_enc_len_def)

lemma fcgi_parse_pair:
  assumes "fcgi_pair_ok kv"
  shows "fcgi_parse_params (fcgi_enc_pair kv @ r) out = fcgi_parse_params r (out(fst kv \<mapsto> snd kv))"
proof -
  let ?k = "fst kv" and ?v = "snd kv"
  have k: "length ?k < 2 ^ 31" and v: "length ?v < 2 ^ 31" using assms by (auto simp: fcgi_pair_ok_def)
  let ?tail = "?k @ ?v @ r"
  let ?p = "fcgi_enc_len (length ?k) @ fcgi_enc_len (length ?v) @ ?tail"
  have p: "fcgi_enc_pair kv @ r = ?p" by (simp add: fcgi_enc_pair_def)
  show ?thesis
    unfolding p fcgi_parse_params.simps [of ?p]
    by (simp add: fcgi_read_enc_len [OF k] fcgi_read_enc_len [OF v]
        unat_word_of_nat_u32 [OF k] unat_word_of_nat_u32 [OF v])
qed

lemma fcgi_parse_enc_params:
  "list_all fcgi_pair_ok kvs \<Longrightarrow> fcgi_parse_params (fcgi_enc_params kvs) out = out ++ map_of (rev kvs)"
proof (induction kvs arbitrary: out)
  case Nil
  show ?case by (simp add: fcgi_enc_params_def fcgi_parse_params.simps)
next
  case (Cons kv kvs)
  have "fcgi_parse_params (fcgi_enc_params (kv # kvs)) out =
      fcgi_parse_params (fcgi_enc_params kvs) (out(fst kv \<mapsto> snd kv))"
    using fcgi_parse_pair [of kv "fcgi_enc_params kvs" out] Cons.prems by (simp add: fcgi_enc_params_def)
  then show ?case
    using Cons by (simp add: map_add_def fun_eq_iff split: option.splits)
qed

subsection \<open>Records\<close>

lemma fcgi_read_frame:
  assumes "length d \<le> 65535"
  shows "fcgi_read_record (fcgi_frame ty rid d @ s) = Some (\<lparr>rec_type = ty, rec_id = rid, content = d\<rparr>, s)"
proof -
  let ?pad = "(8 - length d mod 8) mod 8"
  let ?hdr = "[1, ty, ucast (drop_bit 8 rid), ucast (rid AND 0xFF), word_of_nat (length d div 256),
      word_of_nat (length d mod 256), word_of_nat ?pad, 0] :: bytes"
  have f: "fcgi_frame ty rid d @ s = ?hdr @ d @ replicate ?pad 0 @ s"
    by (simp add: fcgi_frame_def Let_def)
  have "length d div 256 < 256" using assms by (simp add: div_less_iff_less_mult)
  then have len: "unat (be16 (word_of_nat (length d div 256)) (word_of_nat (length d mod 256))) = length d"
    by (simp add: unat_be16 unat_word_of_nat_u8)
  have pad: "unat (word_of_nat ?pad :: u8) = ?pad"
    by (rule unat_word_of_nat_u8) (simp add: less_le_trans [OF mod_less_divisor])
  have "fcgi_decode_header ?hdr = \<lparr>version = 1, rtype = ty, req_id = rid,
      content_len = be16 (word_of_nat (length d div 256)) (word_of_nat (length d mod 256)),
      padding_len = word_of_nat ?pad\<rparr>"
    by (simp add: fcgi_decode_header_def be16_split)
  moreover have "raw_read 8 (?hdr @ d @ replicate ?pad 0 @ s) = Some (?hdr, d @ replicate ?pad 0 @ s)"
    by (rule raw_read_append) simp
  ultimately show ?thesis
    unfolding f fcgi_read_record_def by (simp add: len pad raw_read_append)
qed

fun fcgi_records :: "nat \<Rightarrow> bytes \<Rightarrow> fcgi_record list \<times> bytes" where
  "fcgi_records 0 s = ([], s)"
| "fcgi_records (Suc n) s =
     (case fcgi_read_record s of
        None \<Rightarrow> ([], s)
      | Some (r, s') \<Rightarrow> (let (rs, s'') = fcgi_records n s' in (r # rs, s'')))"

lemma fcgi_write_read_records:
  "\<exists>n rs. fcgi_records n (fcgi_write_record ty rid d @ s) = (rs, s) \<and> rs \<noteq> [] \<and>
     concat (map content rs) = d \<and>
     list_all (\<lambda>r. rec_type r = ty \<and> rec_id r = rid \<and> length (content r) \<le> 65535) rs"
proof (induction ty rid d arbitrary: s rule: fcgi_write_record.induct)
  case (1 ty rid d)
  show ?case
  proof (cases "65535 < length d")
    case False
    then have w: "fcgi_write_record ty rid d = fcgi_frame ty rid d"
      by (simp add: fcgi_write_record.simps [of ty rid d])
    show ?thesis
      using fcgi_read_frame [of d ty rid s] False
      by (intro exI [of _ "Suc 0"] exI [of _ "[\<lparr>rec_type = ty, rec_id = rid, content = d\<rparr>]"]) (simp add: w)
  next
    case True
    let ?d = "take 65535 d" and ?e = "drop 65535 d"
    have w: "fcgi_write_record ty rid d = fcgi_frame ty rid ?d @ fcgi_write_record ty rid ?e"
      using True by (simp add: fcgi_write_record.simps [of ty rid d])
    obtain n rs where n: "fcgi_records n (fcgi_write_record ty rid ?e @ s) = (rs, s)"
      "concat (map content rs) = ?e"
      "list_all (\<lambda>r. rec_type r = ty \<and> rec_id r = rid \<and> length (content r) \<le> 65535) rs"
      using "1.IH" [of 65535 s] True by auto
    have "fcgi_read_record (fcgi_write_record ty rid d @ s) =
        Some (\<lparr>rec_type = ty, rec_id = rid, content = ?d\<rparr>, fcgi_write_record ty rid ?e @ s)"
      using fcgi_read_frame [of ?d] by (simp add: w)
    then show ?thesis
      using n by (intro exI [of _ "Suc n"] exI [of _ "\<lparr>rec_type = ty, rec_id = rid, content = ?d\<rparr> # rs"]) simp
  qed
qed

subsection \<open>The accept loop\<close>

lemma fcgi_loop_frame:
  assumes "length d \<le> 65535"
  shows "fcgi_loop m req i (fcgi_frame ty rid d @ s) w =
     (case fcgi_step m req i \<lparr>rec_type = ty, rec_id = rid, content = d\<rparr> of
        Deliver req' \<Rightarrow> (True, req', s, w)
      | CutOff req' out \<Rightarrow> (False, req', s, w @ out)
      | Continue req' i' out \<Rightarrow> fcgi_loop m req' i' s (w @ out))"
  using fcgi_read_frame [OF assms] by (simp add: fcgi_loop.simps)

lemma fcgi_write_small: "length d \<le> 65535 \<Longrightarrow> fcgi_write_record ty rid d = fcgi_frame ty rid d"
  by (simp add: fcgi_write_record.simps)

lemma fcgi_loop_body:
  assumes "d \<noteq> []" and "length (body req) + length d \<le> m"
  shows "fcgi_loop m req True (fcgi_write_record 5 (fid req) d @ s) w =
     fcgi_loop m (req\<lparr>body := body req @ d\<rparr>) True s w"
  using assms
proof (induction "5 :: u8" "fid req" d arbitrary: req rule: fcgi_write_record.induct)
  case (1 d)
  show ?case
  proof (cases "65535 < length d")
    case False
    then show ?thesis
      using 1 by (simp add: fcgi_write_small fcgi_loop_frame fcgi_step_def)
  next
    case True
    let ?d = "take 65535 d" and ?e = "drop 65535 d"
    have w: "fcgi_write_record 5 (fid req) d = fcgi_frame 5 (fid req) ?d @ fcgi_write_record 5 (fid req) ?e"
      using True by (simp add: fcgi_write_record.simps [of 5 "fid req" d])
    have "fcgi_loop m req True (fcgi_write_record 5 (fid req) d @ s) w =
        fcgi_loop m (req\<lparr>body := body req @ ?d\<rparr>) True (fcgi_write_record 5 (fid req) ?e @ s) w"
      using True 1 by (simp add: w fcgi_loop_frame fcgi_step_def)
    also have "\<dots> = fcgi_loop m (req\<lparr>body := body req @ d\<rparr>) True s w"
      using "1.hyps" [of 65535 "req\<lparr>body := body req @ ?d\<rparr>"] True "1.prems" by simp
    finally show ?thesis .
  qed
qed

text \<open>The records a web server sends for one request.\<close>

definition fcgi_client_request :: "u16 \<Rightarrow> u8 \<Rightarrow> (bytes \<times> bytes) list \<Rightarrow> bytes \<Rightarrow> bytes" where
  "fcgi_client_request rid flags kvs d =
     fcgi_write_record (fcgi_type_code FCGI_BEGIN_REQUEST) rid [0, 1, flags, 0, 0, 0, 0, 0] @
     fcgi_write_record (fcgi_type_code FCGI_PARAMS) rid (fcgi_enc_params kvs) @
     fcgi_write_record (fcgi_type_code FCGI_PARAMS) rid [] @
     (if d \<noteq> [] then fcgi_write_record (fcgi_type_code FCGI_STDIN) rid d else []) @
     fcgi_write_record (fcgi_type_code FCGI_STDIN) rid []"

lemma fcgi_parse_empty: "fcgi_parse_params [] out = out"
  by (simp add: fcgi_parse_params.simps)

lemma fcgi_loop_begin:
  "fcgi_loop m req i (fcgi_write_record 1 rid [0, 1, flags, 0, 0, 0, 0, 0] @ s) w =
     fcgi_loop m (req\<lparr>fid := rid, keep_conn := (flags AND 1 \<noteq> 0)\<rparr>) True s w"
  by (simp add: fcgi_write_small fcgi_loop_frame fcgi_step_def fcgi_begin_keep_conn_def)

lemma fcgi_loop_params:
  "length p \<le> 65535 \<Longrightarrow>
     fcgi_loop m req True (fcgi_write_record 4 (fid req) p @ s) w =
     fcgi_loop m (req\<lparr>params := fcgi_parse_params p (params req)\<rparr>) True s w"
  by (simp add: fcgi_write_small fcgi_loop_frame fcgi_step_def fcgi_parse_empty)

lemma fcgi_loop_end:
  "fcgi_loop m req True (fcgi_write_record 5 (fid req) [] @ s) w = (True, req, s, w)"
  by (simp add: fcgi_write_small fcgi_loop_frame fcgi_step_def)

lemma fcgi_loop_body_cap:
  "fcgi_loop m req i s w = (True, req', s', w') \<Longrightarrow> length (body req) \<le> m \<Longrightarrow> length (body req') \<le> m"
proof (induction m req i s w rule: fcgi_loop.induct)
  case (1 m req i s w)
  obtain r s1 where r: "fcgi_read_record s = Some (r, s1)"
    using "1.prems"(1) by (cases "fcgi_read_record s") (auto simp: fcgi_loop.simps [of m req i s w])
  show ?case
  proof (cases "fcgi_step m req i r")
    case (Continue req1 i1 out)
    then have "length (body req1) \<le> m"
      using "1.prems"(2) by (auto simp: fcgi_step_def empty_request_def split: if_splits)
    moreover have "fcgi_loop m req1 i1 s1 (w @ out) = (True, req', s', w')"
      using "1.prems"(1) r Continue by (simp add: fcgi_loop.simps [of m req i s w])
    ultimately show ?thesis using "1.IH" r Continue by blast
  qed (use "1.prems" r in \<open>auto simp: fcgi_loop.simps [of m req i s w] fcgi_step_def split: if_splits\<close>)
qed

lemma fcgi_accept_client:
  assumes "list_all fcgi_pair_ok kvs" and "length (fcgi_enc_params kvs) \<le> 65535" and "length d \<le> max_body"
  shows "fcgi_accept max_body (fcgi_client_request rid flags kvs d @ rest) =
     (True, \<lparr>fid = rid, keep_conn = (flags AND 1 \<noteq> 0), params = map_of (rev kvs), body = d\<rparr>, rest, [])"
proof -
  let ?r = "\<lparr>fid = rid, keep_conn = (flags AND 1 \<noteq> 0), params = map_of (rev kvs), body = []\<rparr>"
  let ?tail = "(if d \<noteq> [] then fcgi_write_record 5 (fid ?r) d else []) @ fcgi_write_record 5 (fid ?r) [] @ rest"
  have "fcgi_accept max_body (fcgi_client_request rid flags kvs d @ rest) =
      fcgi_loop max_body ?r True ?tail []"
    using fcgi_loop_params [of "fcgi_enc_params kvs" max_body "\<lparr>fid = rid, keep_conn = flags AND 1 \<noteq> 0, params = Map.empty, body = []\<rparr>"]
      fcgi_loop_params [of "[]" max_body ?r] assms(1,2)
    by (simp add: fcgi_accept_def fcgi_client_request_def fcgi_loop_begin empty_request_def
        fcgi_parse_enc_params fcgi_parse_empty)
  also have "\<dots> = fcgi_loop max_body (?r\<lparr>body := d\<rparr>) True (fcgi_write_record 5 (fid ?r) [] @ rest) []"
    using fcgi_loop_body [of d ?r max_body] assms(3) by simp
  also have "\<dots> = (True, ?r\<lparr>body := d\<rparr>, rest, [])"
    using fcgi_loop_end [of max_body "?r\<lparr>body := d\<rparr>"] by simp
  finally show ?thesis by simp
qed

subsection \<open>Properties\<close>



text \<open>C30: Whatever a peer sends, a request is never delivered with a body above the limit.\<close>

theorem fcgi_body_capped:
  assumes "fcgi_accept max_body s = (True, req, s', w)"
  shows "length (body req) \<le> max_body"
  using assms fcgi_loop_body_cap unfolding fcgi_accept_def by (fastforce simp: empty_request_def)

theorem fcgi_body_capped_witness:
  "fst (fcgi_accept 10 (fcgi_client_request 7 1 [] [1, 2, 3])) \<and>
   length (body (fst (snd (fcgi_accept 10 (fcgi_client_request 7 1 [] [1, 2, 3]))))) \<le> 10"
proof -
  let ?a = "fcgi_accept 10 (fcgi_client_request 7 1 [] [1, 2, 3])"
  have "fst ?a"
    using fcgi_accept_client [of "[]" "[1, 2, 3]" 10 7 1 "[]"]
    by (simp add: fcgi_enc_params_def)
  then show ?thesis using fcgi_body_capped [of 10 _ "fst (snd ?a)"] by (metis prod.collapse)
qed

text \<open>Output of any length is cut into records that the reader puts together again: the contents
  of the records are the data, each record carries the request and at most 65535 bytes, and the
  padding leaves the stream at the next record.\<close>

theorem fcgi_records_roundtrip:
  "\<exists>n rs. fcgi_records n (fcgi_write_record ty rid d @ s) = (rs, s) \<and> rs \<noteq> [] \<and>
     concat (map content rs) = d \<and>
     list_all (\<lambda>r. rec_type r = ty \<and> rec_id r = rid \<and> length (content r) \<le> 65535) rs"
  by (rule fcgi_write_read_records)

text \<open>CGI variables that arrive in two PARAMS records are parsed record by record, so a pair that
  crosses the boundary is lost, although the variables form one stream.\<close>

theorem fcgi_split_params_lost:
  "fcgi_parse_params [1, 2, 65, 66, 67] Map.empty = [[65] \<mapsto> [66, 67]] \<and>
   fcgi_parse_params [66, 67] (fcgi_parse_params [1, 2, 65] Map.empty) = Map.empty"
  by (simp add: fcgi_parse_params.simps drop_bit_7_u8)

end
