(* ===== verification/Db_Wire.thy ===== *)
theory Db_Wire
  imports Wire
begin

text \<open>
  The database wire readers: length-encoded integers and strings and the packet reassembly of
  \<^verbatim>\<open>mysql_wire_parse.h\<close>, \<^verbatim>\<open>send_packet\<close> of \<^verbatim>\<open>mysql_client.cpp\<close>, and the error message
  parser of \<^verbatim>\<open>pg_parse.h\<close>. A \<^verbatim>\<open>memcpy\<close> into an integer reads little-endian, as on
  every platform the program is built for.
\<close>

subsection \<open>Little-endian integers\<close>

fun le_nat :: "bytes \<Rightarrow> nat" where
  "le_nat [] = 0"
| "le_nat (b # bs) = unat b + 256 * le_nat bs"

fun nat_le :: "nat \<Rightarrow> nat \<Rightarrow> bytes" where
  "nat_le 0 n = []"
| "nat_le (Suc k) n = word_of_nat (n mod 256) # nat_le k (n div 256)"

lemma length_nat_le [simp]: "length (nat_le k n) = k"
  by (induction k arbitrary: n) auto

lemma le_nat_bound: "le_nat bs < 256 ^ length bs"
proof (induction bs)
  case (Cons b bs)
  have "unat b < 256" by (rule unat_u8_less)
  then show ?case using Cons by simp
qed simp

lemma le_nat_nat_le: "n < 256 ^ k \<Longrightarrow> le_nat (nat_le k n) = n"
proof (induction k arbitrary: n)
  case (Suc k)
  have "n div 256 < 256 ^ k" using Suc.prems by (simp add: div_less_iff_less_mult mult.commute)
  then show ?case using Suc.IH by (simp add: unat_word_of_nat_u8)
qed simp

subsection \<open>Readers\<close>

definition mysql_read_u16 :: "bytes \<Rightarrow> u16 \<times> bytes" where
  "mysql_read_u16 p = (ucast (p ! 0) OR push_bit 8 (ucast (p ! 1)), drop 2 p)"

definition mysql_read_u32 :: "bytes \<Rightarrow> u32 \<times> bytes" where
  "mysql_read_u32 p = (word_of_nat (le_nat (take 4 p)), drop 4 p)"

definition mysql_read_u64 :: "bytes \<Rightarrow> u64 \<times> bytes" where
  "mysql_read_u64 p = (word_of_nat (le_nat (take 8 p)), drop 8 p)"

fun mysql_read_lenenc :: "bytes \<Rightarrow> u64 \<times> bytes" where
  "mysql_read_lenenc [] = (0, [])"
| "mysql_read_lenenc (first # p) =
     (if first < 0xFB then (ucast first, p)
      else if first = 0xFC \<and> 2 \<le> length p then
        (ucast (p ! 0) OR push_bit 8 (ucast (p ! 1)), drop 2 p)
      else if first = 0xFD \<and> 3 \<le> length p then
        (ucast (p ! 0) OR push_bit 8 (ucast (p ! 1)) OR push_bit 16 (ucast (p ! 2)), drop 3 p)
      else if first = 0xFE \<and> 8 \<le> length p then mysql_read_u64 p
      else (0, p))"

definition mysql_read_lenenc_str :: "bytes \<Rightarrow> bytes \<times> bytes" where
  "mysql_read_lenenc_str p =
     (if p = [] then ([], [])
      else if hd p = 0xFB then ([], tl p)
      else let (len, p1) = mysql_read_lenenc p;
               avail = length p1;
               n = (if avail < unat len then avail else unat len)
           in (take n p1, drop n p1))"

interpretation mysql_int: bounded_reader mysql_read_lenenc
proof
  show "suffix (snd (mysql_read_lenenc b)) b" for b
    by (cases b) (auto simp: mysql_read_u64_def intro: suffix_ConsI suffix_drop)
qed

interpretation mysql_str: bounded_reader mysql_read_lenenc_str
proof
  fix b
  have "suffix (drop n (snd (mysql_read_lenenc b))) b" for n
    by (rule mysql_int.rd_then) (rule suffix_drop)
  moreover have "\<exists>n. snd (mysql_read_lenenc_str b) = drop n (snd (mysql_read_lenenc b))"
    if "b \<noteq> []" "hd b \<noteq> 0xFB"
    using that by (auto simp: mysql_read_lenenc_str_def Let_def split: prod.splits)
  moreover have "suffix (snd (mysql_read_lenenc_str b)) b" if "b = [] \<or> hd b = 0xFB"
    using that by (cases b) (auto simp: mysql_read_lenenc_str_def suffix_ConsI)
  ultimately show "suffix (snd (mysql_read_lenenc_str b)) b" by metis
qed

subsection \<open>Packets\<close>

datatype mysql_error = ConnectionLost | SizeLimit | PayloadLost

definition mysql_packet_len :: "bytes \<Rightarrow> u32" where
  "mysql_packet_len hdr =
     ucast (hdr ! 0) OR push_bit 8 (ucast (hdr ! 1)) OR push_bit 16 (ucast (hdr ! 2))"

function mysql_reassemble :: "nat \<Rightarrow> bytes \<Rightarrow> bytes \<Rightarrow> mysql_error + bytes \<times> u8 \<times> bytes" where
  "mysql_reassemble max_recv payload s =
     (case raw_read 4 s of
        None \<Rightarrow> Inl ConnectionLost
      | Some (hdr, s1) \<Rightarrow>
          let len = unat (mysql_packet_len hdr)
          in if max_recv < length payload + len then Inl SizeLimit
             else case raw_read len s1 of
                    None \<Rightarrow> Inl PayloadLost
                  | Some (d, s2) \<Rightarrow>
                      if len < 0xFFFFFF then Inr (payload @ d, hdr ! 3, s2)
                      else mysql_reassemble max_recv (payload @ d) s2)"
  by pat_completeness auto
termination
  by (relation "measure (\<lambda>(m, p, s). length s)") (auto dest!: raw_read_SomeD)

declare mysql_reassemble.simps [simp del]

definition mysql_header :: "nat \<Rightarrow> u8 \<Rightarrow> bytes" where
  "mysql_header n seq =
     (let len = word_of_nat n :: u32
      in [ucast len, ucast (drop_bit 8 len), ucast (drop_bit 16 len), seq])"

definition mysql_send_packet :: "bytes \<Rightarrow> u8 \<Rightarrow> bytes" where
  "mysql_send_packet d seq = mysql_header (length d) seq @ d"

subsection \<open>PostgreSQL error messages\<close>

text \<open>A field type byte and a NUL-terminated value, repeated; a NUL type ends the message.\<close>

function pg_error_scan :: "bytes \<Rightarrow> bytes option" where
  "pg_error_scan [] = None"
| "pg_error_scan (ft # p) =
     (if ft = 0 then None
      else let fv = takeWhile (\<lambda>b. b \<noteq> 0) p; p1 = dropWhile (\<lambda>b. b \<noteq> 0) p;
               p2 = (if p1 \<noteq> [] then tl p1 else p1)
           in if ft = 77 then Some fv else pg_error_scan p2)"
  by pat_completeness auto
termination
  by (relation "measure length")
     (auto simp: less_Suc_eq_le length_dropWhile_le intro: le_trans [OF diff_le_self length_dropWhile_le])

declare pg_error_scan.simps(2) [simp del]

definition pg_parse_error :: "bytes \<Rightarrow> bytes" where
  "pg_parse_error b =
     (case pg_error_scan b of
        None \<Rightarrow> map (\<lambda>c. word_of_nat (code_of c)) ''unknown error'' | Some m \<Rightarrow> m)"

subsection \<open>Reading back what was written\<close>

lemma unat_shift_u8:
  assumes "n + 8 \<le> LENGTH('a :: len)"
  shows "unat (push_bit n (ucast (b :: u8)) :: 'a word) = push_bit n (unat b)"
proof -
  have "push_bit n (unat b) < 2 ^ (n + 8)"
    using unat_u8_less [of b] by (simp add: push_bit_eq_mult power_add)
  also have "\<dots> \<le> (2 :: nat) ^ LENGTH('a)" using assms by (simp add: power_increasing)
  finally have "push_bit n (unat b) < 2 ^ LENGTH('a)" .
  moreover have "unat b < 2 ^ LENGTH('a)"
    using unat_u8_less [of b] assms power_increasing [of 8 "LENGTH('a)" "2 :: nat"] by simp
  ultimately show ?thesis
    by (simp add: unsigned_push_bit_eq unsigned_ucast_eq take_bit_nat_eq_self)
qed

lemma unat_ucast_u8: "8 \<le> LENGTH('a :: len) \<Longrightarrow> unat (ucast (b :: u8) :: 'a word) = unat b"
  using unat_shift_u8 [of 0 b, where 'a = 'a] by simp

lemma le_pair:
  assumes "16 \<le> LENGTH('a :: len)"
  shows "unat (ucast (a :: u8) OR push_bit 8 (ucast (b :: u8)) :: 'a word) = unat a + 256 * unat b"
  using nat_or_shift [of "unat a" 8 "unat b"] unat_u8_less [of a] assms
  by (simp add: unsigned_or_eq unat_shift_u8 unat_ucast_u8 or.commute)

lemma le_triple:
  assumes "24 \<le> LENGTH('a :: len)"
  shows "unat (ucast (a :: u8) OR push_bit 8 (ucast (b :: u8)) OR push_bit 16 (ucast (c :: u8)) :: 'a word) =
     unat a + 256 * unat b + 65536 * unat c"
proof -
  have "unat (ucast a OR push_bit 8 (ucast b) :: 'a word) = unat a + 256 * unat b"
    using assms by (intro le_pair) simp
  moreover have "unat a + 256 * unat b < 2 ^ 16" using unat_u8_less [of a] unat_u8_less [of b] by simp
  moreover have "(ucast a OR push_bit 8 (ucast b) OR push_bit 16 (ucast c) :: 'a word) =
      push_bit 16 (ucast c) OR (ucast a OR push_bit 8 (ucast b))"
    by (simp add: or.commute or.left_commute)
  ultimately show ?thesis
    using nat_or_shift [of "unat a + 256 * unat b" 16 "unat c"] assms
      unsigned_or_eq [of "push_bit 16 (ucast c) :: 'a word" "ucast a OR push_bit 8 (ucast b)", where 'a = nat]
    by (simp add: unat_shift_u8)
qed

lemma word_of_nat_eqI: "unat (w :: 'a :: len word) = n \<Longrightarrow> w = word_of_nat n"
  by (metis of_nat_unat ucast_id)

definition mysql_lenenc :: "nat \<Rightarrow> bytes" where
  "mysql_lenenc n =
     (if n < 251 then [word_of_nat n]
      else if n < 2 ^ 16 then 0xFC # nat_le 2 n
      else if n < 2 ^ 24 then 0xFD # nat_le 3 n
      else 0xFE # nat_le 8 n)"

lemma list_2: "length l = 2 \<Longrightarrow> l = [l ! 0, l ! 1]"
  by (cases l; cases "tl l") auto

lemma list_3: "length l = 3 \<Longrightarrow> l = [l ! 0, l ! 1, l ! 2]"
  by (cases l; cases "tl l"; cases "tl (tl l)") auto

lemma le_nat_2: "length l = 2 \<Longrightarrow> le_nat l = unat (l ! 0) + 256 * unat (l ! 1)"
  by (subst list_2) auto

lemma le_nat_3: "length l = 3 \<Longrightarrow> le_nat l = unat (l ! 0) + 256 * unat (l ! 1) + 65536 * unat (l ! 2)"
  by (subst list_3) auto

lemma mysql_lenenc_roundtrip:
  assumes "n < 2 ^ 64"
  shows "mysql_read_lenenc (mysql_lenenc n @ r) = (word_of_nat n, r)"
proof -
  consider "n < 251" | "251 \<le> n" "n < 2 ^ 16" | "2 ^ 16 \<le> n" "n < 2 ^ 24" | "2 ^ 24 \<le> n" by linarith
  then show ?thesis
  proof cases
    case 1
    then have u: "unat (word_of_nat n :: u8) = n" by (simp add: unat_word_of_nat_u8)
    moreover have "ucast (word_of_nat n :: u8) = (word_of_nat n :: u64)"
      by (rule word_of_nat_eqI) (simp add: unat_ucast_u8 u)
    ultimately show ?thesis using 1 by (simp add: mysql_lenenc_def word_less_nat_alt)
  next
    case 2
    let ?l = "nat_le 2 n"
    have "le_nat ?l = n" using 2 by (intro le_nat_nat_le) simp
    then have "unat (ucast (?l ! 0) OR push_bit 8 (ucast (?l ! 1)) :: u64) = n"
      by (subst le_pair) (simp_all add: le_nat_2)
    note this [THEN word_of_nat_eqI]
    then show ?thesis using 2
      by (simp add: mysql_lenenc_def nth_append)
  next
    case 3
    let ?l = "nat_le 3 n"
    have "le_nat ?l = n" using 3 by (intro le_nat_nat_le) simp
    then have "unat (ucast (?l ! 0) OR push_bit 8 (ucast (?l ! 1)) OR push_bit 16 (ucast (?l ! 2)) :: u64) = n"
      by (subst le_triple) (simp_all add: le_nat_3)
    note this [THEN word_of_nat_eqI]
    then show ?thesis using 3
      by (simp add: mysql_lenenc_def nth_append)
  next
    case 4
    have "le_nat (nat_le 8 n) = n" using assms by (intro le_nat_nat_le) simp
    then show ?thesis using 4 by (simp add: mysql_lenenc_def mysql_read_u64_def)
  qed
qed

lemma mysql_str_roundtrip:
  assumes "length s < 2 ^ 64"
  shows "mysql_read_lenenc_str (mysql_lenenc (length s) @ s @ r) = (s, r)"
proof -
  have "mysql_lenenc (length s) \<noteq> []" and "hd (mysql_lenenc (length s)) \<noteq> 0xFB"
  proof -
    show "mysql_lenenc (length s) \<noteq> []" by (simp add: mysql_lenenc_def)
    have "(word_of_nat n :: u8) \<noteq> 0xFB" if "n < 251" for n
    proof
      assume "(word_of_nat n :: u8) = 0xFB"
      then have "unat (word_of_nat n :: u8) = unat (0xFB :: u8)" by (rule arg_cong)
      then show False using that by (simp add: unat_word_of_nat_u8)
    qed
    then show "hd (mysql_lenenc (length s)) \<noteq> 0xFB" by (simp add: mysql_lenenc_def)
  qed
  moreover have "unat (word_of_nat (length s) :: u64) = length s"
    using assms by (simp add: unsigned_of_nat take_bit_nat_eq_self)
  ultimately show ?thesis
    by (simp add: mysql_read_lenenc_str_def mysql_lenenc_roundtrip [OF assms])
qed

subsection \<open>Packet framing\<close>

lemma mysql_packet_len_header:
  "unat (mysql_packet_len (mysql_header n seq)) = n mod 2 ^ 24"
proof -
  let ?w = "word_of_nat n :: u32"
  have b: "unat (ucast (drop_bit k ?w) :: u8) = unat ?w div 2 ^ k mod 256" for k
  proof -
    have "unat (ucast (drop_bit k ?w) :: u8) = take_bit 8 (unat (drop_bit k ?w))"
      by (simp add: unsigned_ucast_eq)
    then show ?thesis by (simp add: unat_drop_bit take_bit_eq_mod)
  qed
  have b0: "unat (ucast ?w :: u8) = unat ?w mod 256" using b [of 0] by simp
  have w: "unat ?w = n mod 2 ^ 32" by (simp add: unsigned_of_nat take_bit_eq_mod)
  have "unat (mysql_packet_len (mysql_header n seq)) =
      unat ?w mod 256 + 256 * (unat ?w div 2 ^ 8 mod 256) + 65536 * (unat ?w div 2 ^ 16 mod 256)"
    unfolding mysql_packet_len_def mysql_header_def Let_def
    by (simp add: le_triple b b0 del: unat_ucast_u8)
  also have "\<dots> = unat ?w mod 2 ^ 24"
    using mod_mult2_eq [of "unat ?w" 256 "256 * 256"] mod_mult2_eq [of "unat ?w div 256" 256 256]
    by (simp flip: div_mult2_eq)
  also have "\<dots> = n mod 2 ^ 24" by (simp add: w mod_mod_cancel)
  finally show ?thesis .
qed

text \<open>How a server splits a payload: full packets of 0xFFFFFF bytes and a shorter last one.\<close>

abbreviation MAX_PACKET :: nat where "MAX_PACKET \<equiv> 0xFFFFFF"

function mysql_frames :: "u8 \<Rightarrow> bytes \<Rightarrow> bytes" where
  "mysql_frames seq d =
     (if length d < MAX_PACKET then mysql_header (length d) seq @ d
      else mysql_header MAX_PACKET seq @ take MAX_PACKET d @ mysql_frames (seq + 1) (drop MAX_PACKET d))"
  by pat_completeness auto
termination by (relation "measure (\<lambda>(seq, d). length d)") auto

declare mysql_frames.simps [simp del]

lemma mysql_header_seq: "mysql_header n seq ! 3 = seq" "length (mysql_header n seq) = 4"
  by (simp_all add: mysql_header_def Let_def)

lemma mysql_reassemble_packet:
  assumes "length d = n" "n \<le> MAX_PACKET" "length payload + n \<le> max_recv"
  shows "mysql_reassemble max_recv payload (mysql_header n seq @ d @ s) =
     (if n < MAX_PACKET then Inr (payload @ d, seq, s) else mysql_reassemble max_recv (payload @ d) s)"
proof -
  have "unat (mysql_packet_len (mysql_header n seq)) = n"
    using assms(2) by (simp add: mysql_packet_len_header)
  then show ?thesis
    using assms mysql_header_seq
    by (simp add: mysql_reassemble.simps [of _ _ "mysql_header n seq @ d @ s"] raw_read_append)
qed

lemma mysql_reassemble_frames:
  "length payload + length d \<le> max_recv \<Longrightarrow>
     \<exists>last. mysql_reassemble max_recv payload (mysql_frames seq d @ s) = Inr (payload @ d, last, s)"
proof (induction seq d arbitrary: payload rule: mysql_frames.induct)
  case (1 seq d)
  show ?case
  proof (cases "length d < MAX_PACKET")
    case True
    then show ?thesis
      using mysql_reassemble_packet [of d "length d"] "1.prems" by (simp add: mysql_frames.simps [of seq d])
  next
    case False
    let ?c = "take MAX_PACKET d" and ?r = "drop MAX_PACKET d"
    have "\<exists>last. mysql_reassemble max_recv (payload @ ?c) (mysql_frames (seq + 1) ?r @ s) = Inr (payload @ d, last, s)"
      using "1.IH" [OF False, of "payload @ ?c"] "1.prems" False by simp
    moreover have "mysql_reassemble max_recv payload (mysql_frames seq d @ s) =
        mysql_reassemble max_recv (payload @ ?c) (mysql_frames (seq + 1) ?r @ s)"
      using mysql_reassemble_packet [of ?c MAX_PACKET payload max_recv seq "mysql_frames (seq + 1) ?r @ s"]
        False "1.prems" by (simp add: mysql_frames.simps [of seq d])
    ultimately show ?thesis by simp
  qed
qed

lemma mysql_reassemble_capped:
  "mysql_reassemble max_recv payload s = Inr (d, seq, s') \<Longrightarrow> length d \<le> max_recv"
proof (induction max_recv payload s rule: mysql_reassemble.induct)
  case (1 m payload s)
  note unfolded = mysql_reassemble.simps [of m payload s]
  obtain hdr s1 where h: "raw_read 4 s = Some (hdr, s1)"
    using "1.prems" unfolded by (cases "raw_read 4 s") auto
  let ?n = "unat (mysql_packet_len hdr)"
  have le: "\<not> m < length payload + ?n" using "1.prems" unfolded h by (auto simp: Let_def split: if_splits)
  obtain c s2 where c: "raw_read ?n s1 = Some (c, s2)"
    using "1.prems" unfolded h le by (cases "raw_read ?n s1") (auto simp: Let_def)
  show ?case
  proof (cases "?n < 0xFFFFFF")
    case True
    then show ?thesis using "1.prems" unfolded h le c by (auto dest: raw_read_SomeD)
  next
    case False
    then show ?thesis
      using "1.prems" unfolded h le c "1.IH" [OF h refl refl le c refl False] by simp
  qed
qed

lemma pg_error_scan_field:
  "ft \<noteq> 0 \<Longrightarrow> 0 \<notin> set fv \<Longrightarrow>
     pg_error_scan (ft # fv @ 0 # p) = (if ft = 77 then Some fv else pg_error_scan p)"
proof -
  assume "ft \<noteq> 0" and fv: "0 \<notin> set fv"
  have "takeWhile (\<lambda>b. b \<noteq> 0) (fv @ 0 # p) = fv" "dropWhile (\<lambda>b. b \<noteq> 0) (fv @ 0 # p) = 0 # p"
    using fv by (induction fv) auto
  then show ?thesis using \<open>ft \<noteq> 0\<close> by (simp add: pg_error_scan.simps(2))
qed

subsection \<open>Properties\<close>

text \<open>Every length-encoded integer and every length-encoded string of the MySQL protocol is read
  back as written, with the rest of the packet left in place.\<close>

theorem mysql_lenenc_reads_back:
  assumes "n < 2 ^ 64" and "length s < 2 ^ 64"
  shows "mysql_read_lenenc (mysql_lenenc n @ r) = (word_of_nat n, r) \<and>
     mysql_read_lenenc_str (mysql_lenenc (length s) @ s @ r) = (s, r)"
  using assms by (simp only: mysql_lenenc_roundtrip mysql_str_roundtrip conj_absorb)

theorem mysql_lenenc_reads_back_witness:
  "mysql_read_lenenc (mysql_lenenc 70000 @ [5]) = (70000, [5]) \<and>
   mysql_read_lenenc_str (mysql_lenenc (length [1, 2, 3]) @ [1, 2, 3] @ [4]) = ([1, 2, 3], [4])"
  using mysql_lenenc_reads_back [of 70000 "[1, 2, 3]"] by simp

text \<open>Whatever bytes a server sends, the length-encoded readers stay inside the packet: what they
  leave is a suffix of it, and a string is at most as long as what was there.\<close>

theorem mysql_readers_bounded:
  "suffix (snd (mysql_read_lenenc p)) p \<and> suffix (snd (mysql_read_lenenc_str p)) p \<and>
   length (fst (mysql_read_lenenc_str p)) + length (snd (mysql_read_lenenc_str p)) \<le> length p"
proof -
  have "length (fst (mysql_read_lenenc_str p)) + length (snd (mysql_read_lenenc_str p)) \<le> length p"
    using mysql_int.rd_length [of p]
    by (auto simp: mysql_read_lenenc_str_def Let_def split: prod.splits)
  then show ?thesis using mysql_int.rd_suffix mysql_str.rd_suffix by blast
qed

text \<open>A payload that a server splits into packets of 0xFFFFFF bytes is put together again,
  whatever its size up to the limit, and the stream stays at the next packet.\<close>

theorem mysql_reassembles_payload:
  assumes "length d \<le> max_recv"
  shows "\<exists>last. mysql_reassemble max_recv [] (mysql_frames seq d @ s) = Inr (d, last, s)"
  using mysql_reassemble_frames [of "[]" d max_recv seq s] assms by simp

theorem mysql_reassembles_payload_witness:
  "\<exists>last. mysql_reassemble 100 [] (mysql_frames 1 [7, 8, 9] @ [4]) = Inr ([7, 8, 9], last, [4])"
  by (rule mysql_reassembles_payload) simp

text \<open>No stream of packets, however long it goes on, makes the client hold more than the limit.\<close>

theorem mysql_payload_capped:
  assumes "mysql_reassemble max_recv [] s = Inr (d, seq, s')"
  shows "length d \<le> max_recv"
  using assms by (rule mysql_reassemble_capped)

theorem mysql_payload_capped_witness: "length [7 :: u8, 8, 9] \<le> 5"
proof (rule mysql_payload_capped)
  show "mysql_reassemble 5 [] [3, 0, 0, 1, 7, 8, 9] = Inr ([7, 8, 9], 1, [])"
    by (simp add: mysql_reassemble.simps raw_read_def mysql_packet_len_def)
qed

text \<open>The sender does not split: a packet of 2^24 bytes goes out with a length field of zero, so
  the receiver reads an empty packet and takes the data for packet headers.\<close>

theorem mysql_send_truncates_length:
  "mysql_reassemble max_recv [] (mysql_send_packet (replicate (2 ^ 24) b) seq) =
     Inr ([], seq, replicate (2 ^ 24) b)"
proof -
  have "unat (mysql_packet_len (mysql_header (2 ^ 24) seq)) = 0"
    by (simp only: mysql_packet_len_header mod_self)
  then show ?thesis
    unfolding mysql_send_packet_def length_replicate
    by (subst mysql_reassemble.simps)
       (simp add: raw_read_append mysql_header_seq)
qed

text \<open>The message of a PostgreSQL error is its first field of type M, whatever fields come
  before it; without one the text is the fixed fallback.\<close>

theorem pg_error_message_found:
  assumes "list_all (\<lambda>(ft, fv). ft \<noteq> 0 \<and> 0 \<notin> set fv) kvs"
  shows "pg_error_scan (concat (map (\<lambda>(ft, fv). ft # fv @ [0]) kvs) @ 0 # junk) = map_of kvs 77"
  using assms pg_error_scan.simps(2) [of 0] by (induction kvs) (auto simp: pg_error_scan_field)

theorem pg_error_message_found_witness:
  "pg_error_scan (concat (map (\<lambda>(ft, fv). ft # fv @ [0]) [(83, [1 :: u8]), (77, [2, 3])]) @ 0 # [9]) = Some [2, 3]"
  by (subst pg_error_message_found) simp_all

end
