(* ===== verification/Http_Parse.thy ===== *)
theory Http_Parse
  imports Prelude
begin

text \<open>
  The HTTP/1.1 request parser of \<^verbatim>\<open>http_parse.h\<close> with the request of \<^verbatim>\<open>http_server.h\<close>. It sees
  the bytes of anyone on the network, before any authentication; a request on which a front end
  could disagree (bare CR or LF, folded lines, space before the colon, two different
  Content-Lengths) is refused. The scanning position is the suffix it denotes together with the
  number of bytes left up to the end of the header block.
\<close>

abbreviation CRLF :: string where "CRLF \<equiv> [CR, NL]"

record HttpRequest =
  "method" :: string
  path :: string
  query_string :: string
  version :: string
  headers :: "string \<rightharpoonup> string"
  body :: string
  remote_addr :: string
  upgrade_websocket :: bool
  ws_key :: string
  upgrade_sse :: bool

definition empty_request :: HttpRequest where
  "empty_request = \<lparr>method = [], path = [], query_string = [], version = [], headers = Map.empty,
     body = [], remote_addr = [], upgrade_websocket = False, ws_key = [], upgrade_sse = False\<rparr>"

definition blank :: "char \<Rightarrow> bool" where
  "blank c \<longleftrightarrow> c = CHR '' '' \<or> c = TAB"

definition trim_value :: "string \<Rightarrow> string" where
  "trim_value v = rev (dropWhile blank (rev (dropWhile blank v)))"

definition split_query :: "string \<Rightarrow> string \<times> string" where
  "split_query full_path =
     (case find_char (CHR ''?'') full_path of
        Some qpos \<Rightarrow> (take qpos full_path, drop (Suc qpos) full_path)
      | None \<Rightarrow> (full_path, []))"

text \<open>Request line: method, path, query string, version.\<close>

definition parse_request_line :: "string \<Rightarrow> (string \<times> string \<times> string \<times> string) option" where
  "parse_request_line req_line =
     (case (find_char (CHR '' '') req_line, rfind_char (CHR '' '') req_line) of
        (Some s1, Some s2) \<Rightarrow>
          if s1 = s2 then None
          else let full_path = substr (Suc s1) (s2 - s1 - 1) req_line;
                   (p, q) = split_query full_path
               in Some (take s1 req_line, p, q, drop (Suc s2) req_line)
      | _ \<Rightarrow> None)"

text \<open>The strict CRLF check on the first \<open>n\<close> bytes; \<open>p\<close> is the byte before.\<close>

fun crlf_ok :: "char option \<Rightarrow> nat \<Rightarrow> string \<Rightarrow> bool" where
  "crlf_ok p (Suc n) (c # s) =
     (if c = CR then s \<noteq> [] \<and> hd s = NL \<and> crlf_ok (Some c) n s
      else if c = NL then p = Some CR \<and> crlf_ok (Some c) n s
      else crlf_ok (Some c) n s)"
| "crlf_ok p n s = True"

definition header_line :: "string \<Rightarrow> (string \<rightharpoonup> string) \<Rightarrow> (string \<rightharpoonup> string) option" where
  "header_line line h =
     (if line \<noteq> [] \<and> blank (hd line) then None
      else case find_char (CHR '':'') line of
             None \<Rightarrow> Some h
           | Some colon \<Rightarrow>
               let key0 = take colon line; val = trim_value (drop (Suc colon) line)
               in if key0 \<noteq> [] \<and> blank (last key0) then None
                  else let key = map tolower key0
                       in if key = ''content-length'' \<and> h ''content-length'' \<noteq> None \<and>
                             h ''content-length'' \<noteq> Some val then None
                          else Some (h(key \<mapsto> val)))"

function header_loop :: "nat \<Rightarrow> string \<Rightarrow> (string \<rightharpoonup> string) \<Rightarrow> (string \<rightharpoonup> string) option" where
  "header_loop n s h =
     (if n = 0 then Some h
      else case find_str CRLF s of
             None \<Rightarrow> Some h
           | Some e \<Rightarrow>
               if n < e then Some h
               else case header_line (take e s) h of
                      None \<Rightarrow> None
                    | Some h' \<Rightarrow> header_loop (n - (e + 2)) (drop (e + 2) s) h')"
  by pat_completeness auto
termination by (relation "measure (\<lambda>(n, s, h). n)") auto

declare header_loop.simps [simp del]

definition detect_upgrades :: "HttpRequest \<Rightarrow> HttpRequest" where
  "detect_upgrades req =
     (let req1 = (case headers req ''upgrade'' of
                    None \<Rightarrow> req
                  | Some up \<Rightarrow>
                      if find_str ''websocket'' (map tolower up) \<noteq> None then
                        (let r = req\<lparr>upgrade_websocket := True\<rparr>
                         in case headers req ''sec-websocket-key'' of
                              None \<Rightarrow> r | Some k \<Rightarrow> r\<lparr>ws_key := k\<rparr>)
                      else req)
      in case headers req ''accept'' of
           None \<Rightarrow> req1
         | Some acc \<Rightarrow>
             if find_str ''text/event-stream'' acc \<noteq> None then req1\<lparr>upgrade_sse := True\<rparr> else req1)"

definition http_parse_request :: "string \<Rightarrow> HttpRequest \<Rightarrow> HttpRequest option" where
  "http_parse_request raw req =
     (case find_str CRLF raw of
        None \<Rightarrow> None
      | Some line_end \<Rightarrow>
          (case parse_request_line (take line_end raw) of
             None \<Rightarrow> None
           | Some (m, p, q, v) \<Rightarrow>
               (case find_str (CRLF @ CRLF) raw of
                  None \<Rightarrow> None
                | Some header_end \<Rightarrow>
                    if \<not> crlf_ok None header_end raw then None
                    else case header_loop (header_end - (line_end + 2)) (drop (line_end + 2) raw) (headers req) of
                           None \<Rightarrow> None
                         | Some h \<Rightarrow>
                             Some (detect_upgrades
                               (req\<lparr>method := m, path := p, query_string := q, version := v, headers := h\<rparr>)))))"

subsection \<open>What an accepted request can hold\<close>

definition line_clean :: "string \<Rightarrow> bool" where
  "line_clean s \<longleftrightarrow> CR \<notin> set s \<and> NL \<notin> set s"

definition headers_clean :: "(string \<rightharpoonup> string) \<Rightarrow> bool" where
  "headers_clean h \<longleftrightarrow> (\<forall>k v. h k = Some v \<longrightarrow>
     line_clean k \<and> line_clean v \<and> map tolower k = k \<and> CHR '':'' \<notin> set k)"

lemma crlf_ok_line:
  "crlf_ok p n s \<Longrightarrow> p \<noteq> Some CR \<Longrightarrow> find_str CRLF s = Some e \<Longrightarrow> e \<le> n \<Longrightarrow>
     line_clean (take e s) \<and> crlf_ok (Some NL) (n - (e + 2)) (drop (e + 2) s)"
proof (induction s arbitrary: p n e)
  case (Cons c s)
  show ?case
  proof (cases "prefix CRLF (c # s)")
    case True
    then obtain s' where s: "c = CR" "s = NL # s'" by (cases s) auto
    show ?thesis
      using Cons.prems True s by (cases n; cases "n - 1") (auto simp: line_clean_def)
  next
    case False
    then obtain e' where e: "e = Suc e'" "find_str CRLF s = Some e'"
      using Cons.prems(3) by auto
    then obtain m where n: "n = Suc m" using Cons.prems(4) by (cases n) auto
    have "c \<noteq> CR" using Cons.prems(1) False n by (cases s) auto
    moreover have "c \<noteq> NL" using Cons.prems(1,2) n calculation by auto
    ultimately have "line_clean (take e' s) \<and> crlf_ok (Some NL) (m - (e' + 2)) (drop (e' + 2) s)"
      using Cons.IH [of "Some c" m e'] Cons.prems e n by auto
    then show ?thesis using e n \<open>c \<noteq> CR\<close> \<open>c \<noteq> NL\<close> by (auto simp: line_clean_def)
  qed
qed simp

lemma set_trim_value: "set (trim_value v) \<subseteq> set v"
  unfolding trim_value_def using set_dropWhileD by (metis (no_types, lifting) set_rev subsetI)

lemma line_clean_parts:
  "line_clean l \<Longrightarrow> line_clean (take n l) \<and> line_clean (trim_value (drop n l))"
  using set_trim_value [of "drop n l"] by (auto simp: line_clean_def dest: in_set_takeD in_set_dropD)

lemma tolower_not: "d \<in> {CR, NL, CHR '':''} \<Longrightarrow> tolower c = d \<longleftrightarrow> c = d"
proof -
  assume d: "d \<in> {CR, NL, CHR '':''}"
  show ?thesis
  proof (cases "65 \<le> code_of c \<and> code_of c \<le> 90")
    case True
    then have "code_of (tolower c) \<ge> 97" by (simp add: tolower_def code_of_char_of)
    then show ?thesis using d True by (auto simp: code_of_def)
  qed (auto simp: tolower_def)
qed

lemma lower_clean: "line_clean k \<Longrightarrow> line_clean (map tolower k)"
  by (auto simp: line_clean_def image_iff dest!: tolower_not [THEN iffD1, rotated, OF sym])

lemma header_line_clean:
  assumes "header_line l h = Some h'" "line_clean l" "headers_clean h"
  shows "headers_clean h'"
proof (cases "find_char (CHR '':'') l")
  case None
  then show ?thesis using assms by (auto simp: header_line_def split: if_splits)
next
  case (Some n)
  let ?k = "map tolower (take n l)" and ?v = "trim_value (drop (Suc n) l)"
  have "h' = h(?k \<mapsto> ?v)" using assms Some by (auto simp: header_line_def Let_def split: if_splits)
  moreover have "CHR '':'' \<notin> set ?k"
    using find_char_split [OF Some] tolower_not [of "CHR '':''"] by (auto simp: image_iff eq_commute)
  moreover have "line_clean ?k" "line_clean ?v"
    using assms(2) line_clean_parts lower_clean by blast+
  ultimately show ?thesis using assms(3) by (auto simp: headers_clean_def tolower_idem)
qed

lemma header_loop_clean:
  "header_loop n s h = Some h' \<Longrightarrow> crlf_ok (Some NL) n s \<Longrightarrow> headers_clean h \<Longrightarrow> headers_clean h'"
proof (induction n s h rule: header_loop.induct)
  case (1 n s h)
  note unfolded = header_loop.simps [of n s h]
  show ?case
  proof (cases "n = 0 \<or> find_str CRLF s = None \<or> n < the (find_str CRLF s)")
    case True
    then have "header_loop n s h = Some h" by (auto simp: unfolded split: option.splits)
    then show ?thesis using "1.prems" by simp
  next
    case False
    then obtain e where e: "n \<noteq> 0" "find_str CRLF s = Some e" "\<not> n < e" by auto
    then obtain h1 where h1: "header_line (take e s) h = Some h1"
      using "1.prems" unfolded by (cases "header_line (take e s) h") auto
    have "line_clean (take e s)" "crlf_ok (Some NL) (n - (e + 2)) (drop (e + 2) s)"
      using crlf_ok_line [OF "1.prems"(2) _ e(2)] e by auto
    then show ?thesis
      using "1.IH" [OF e(1,2,3) h1] "1.prems" unfolded e h1 header_line_clean by simp
  qed
qed

subsection \<open>Rendered requests\<close>

text \<open>A block of lines closed by an empty line, as a client writes it.\<close>

fun lines_text :: "string list \<Rightarrow> string" where
  "lines_text [] = CRLF"
| "lines_text (l # ls) = l @ CRLF @ lines_text ls"

text \<open>The number of bytes before the blank line.\<close>

fun block_len :: "string list \<Rightarrow> nat" where
  "block_len [] = 0"
| "block_len [l] = length l"
| "block_len (l # ls) = length l + 2 + block_len ls"

definition line_ok :: "string \<Rightarrow> bool" where
  "line_ok l \<longleftrightarrow> l \<noteq> [] \<and> line_clean l"

lemma find_crlf_line: "line_clean l \<Longrightarrow> find_str CRLF (l @ CR # NL # s) = Some (length l)"
  by (induction l) (auto simp: line_clean_def)

lemma find_blank_skip:
  assumes "line_clean l" "s = [] \<or> hd s \<noteq> CR"
  shows "find_str (CRLF @ CRLF) (l @ CR # NL # s) = map_option (\<lambda>n. length l + 2 + n) (find_str (CRLF @ CRLF) s)"
proof -
  have no: "\<not> prefix CRLF s" using assms(2) by (cases s) auto
  then have base: "find_str (CRLF @ CRLF) (CR # NL # s) = map_option (\<lambda>n. 2 + n) (find_str (CRLF @ CRLF) s)"
    by (cases "find_str (CRLF @ CRLF) s") simp_all
  show ?thesis
    using assms(1) by (induction l) (auto simp: line_clean_def base no map_option_case split: option.splits)
qed

lemma find_blank_lines:
  "ls \<noteq> [] \<Longrightarrow> list_all line_ok ls \<Longrightarrow>
     find_str (CRLF @ CRLF) (lines_text ls @ b) = Some (block_len ls)"
proof (induction ls rule: block_len.induct)
  case (2 l)
  then have "line_clean l" by (simp add: line_ok_def)
  then show ?case by (induction l) (auto simp: line_clean_def)
next
  case (3 l l' ls)
  have "lines_text (l' # ls) @ b \<noteq> [] \<and> hd (lines_text (l' # ls) @ b) \<noteq> CR"
    using "3.prems" by (cases l') (auto simp: line_ok_def line_clean_def)
  then show ?case
    using 3 find_blank_skip [of l "lines_text (l' # ls) @ b"] by (simp add: line_ok_def)
qed simp

lemma crlf_ok_lines:
  "list_all line_ok ls \<Longrightarrow> n \<le> length (lines_text ls) \<Longrightarrow> crlf_ok p n (lines_text ls @ b)"
proof (induction ls arbitrary: p n)
  case Nil
  then show ?case by (cases n; cases "n - 1"; cases "n - 2") auto
next
  case (Cons l ls)
  have "crlf_ok p n (l @ CR # NL # s)"
    if "line_clean l" "\<And>p. crlf_ok p (n - (length l + 2)) s" for l s and p :: "char option" and n
    using that
  proof (induction l arbitrary: p n)
    case Nil
    then show ?case by (cases n; cases "n - 1") auto
  next
    case (Cons c l)
    then show ?case by (cases n) (auto simp: line_clean_def)
  qed
  then show ?case using Cons by (simp add: line_ok_def)
qed

text \<open>Reading the lines one after the other.\<close>

fun header_lines :: "string list \<Rightarrow> (string \<rightharpoonup> string) \<Rightarrow> (string \<rightharpoonup> string) option" where
  "header_lines [] h = Some h"
| "header_lines (l # ls) h = (case header_line l h of None \<Rightarrow> None | Some h' \<Rightarrow> header_lines ls h')"

lemma header_loop_lines:
  "list_all line_ok ls \<Longrightarrow> header_loop (block_len ls) (lines_text ls @ b) h = header_lines ls h"
proof (induction ls arbitrary: h rule: block_len.induct)
  case 1
  show ?case by (simp add: header_loop.simps)
next
  case (2 l)
  then have l: "l \<noteq> []" "line_clean l" by (auto simp: line_ok_def)
  then show ?case
    using find_crlf_line [OF l(2), of "CRLF @ b"]
    by (simp add: header_loop.simps [of "length l"] header_loop.simps [of 0] split: option.splits)
next
  case (3 l l' ls)
  then have l: "l \<noteq> []" "line_clean l" by (auto simp: line_ok_def)
  then show ?case
    using 3 find_crlf_line [OF l(2), of "lines_text (l' # ls) @ b"]
    by (simp add: header_loop.simps [of "Suc (Suc _)"] split: option.splits)
qed

lemma parse_request_line_parts:
  assumes "CHR '' '' \<notin> set m" "CHR '' '' \<notin> set ver"
  shows "parse_request_line (m @ CHR '' '' # target @ CHR '' '' # ver) =
     Some (m, fst (split_query target), snd (split_query target), ver)"
proof -
  let ?l = "m @ CHR '' '' # target @ CHR '' '' # ver"
  have "find_char (CHR '' '') ?l = Some (length m)" using assms(1) by simp
  moreover have "rfind_char (CHR '' '') ?l = Some (length (m @ CHR '' '' # target))"
    using rfind_if_hit [of "\<lambda>x. x = CHR '' ''" "CHR '' ''" ver "m @ CHR '' '' # target"] assms(2) by auto
  moreover have "drop (Suc (length (m @ CHR '' '' # target))) ?l = ver"
    using drop_past [of "m @ CHR '' '' # target" "CHR '' ''" ver] by simp
  ultimately show ?thesis
    by (simp add: parse_request_line_def substr_def split: prod.splits)
qed

text \<open>A header field: a name without colon or surrounding space, and a value.\<close>

definition field_line :: "string \<times> string \<Rightarrow> string" where
  "field_line f = fst f @ CHR '':'' # snd f"

definition field_ok :: "string \<times> string \<Rightarrow> bool" where
  "field_ok f \<longleftrightarrow> fst f \<noteq> [] \<and> \<not> blank (hd (fst f)) \<and> \<not> blank (last (fst f)) \<and>
     CHR '':'' \<notin> set (fst f) \<and> line_clean (fst f) \<and> line_clean (snd f)"

definition field_entry :: "string \<times> string \<Rightarrow> string \<times> string" where
  "field_entry f = (map tolower (fst f), trim_value (snd f))"

definition cl_values :: "(string \<times> string) list \<Rightarrow> string set" where
  "cl_values fs = {v. (''content-length'', v) \<in> set (map field_entry fs)}"

lemma header_line_field:
  assumes "field_ok f"
  shows "header_line (field_line f) h =
     (let (k, v) = field_entry f
      in if k = ''content-length'' \<and> h k \<noteq> None \<and> h k \<noteq> Some v then None else Some (h(k \<mapsto> v)))"
proof -
  have "field_line f \<noteq> [] \<and> hd (field_line f) = hd (fst f)"
    using assms by (auto simp: field_ok_def field_line_def)
  moreover have "find_char (CHR '':'') (field_line f) = Some (length (fst f))"
    using assms by (simp add: field_ok_def field_line_def)
  moreover have "take (length (fst f)) (field_line f) = fst f" "drop (Suc (length (fst f))) (field_line f) = snd f"
    by (simp_all add: field_line_def)
  ultimately show ?thesis
    using assms by (auto simp: header_line_def Let_def field_entry_def field_ok_def)
qed

lemma cl_values_Cons:
  "cl_values (f # fs) =
     (if fst (field_entry f) = ''content-length'' then insert (snd (field_entry f)) (cl_values fs) else cl_values fs)"
  by (cases "field_entry f") (auto simp: cl_values_def)

lemma header_lines_fields:
  "list_all field_ok fs \<Longrightarrow>
     header_lines (map field_line fs) h =
     (if \<exists>c. set_option (h ''content-length'') \<union> cl_values fs \<subseteq> {c}
      then Some (h ++ map_of (rev (map field_entry fs))) else None)"
proof (induction fs arbitrary: h)
  case Nil
  show ?case by (cases "h ''content-length''") (auto simp: cl_values_def)
next
  case (Cons f fs)
  obtain k v where kv: "field_entry f = (k, v)" by (cases "field_entry f")
  let ?cl = "''content-length''"
  have ok: "field_ok f" "list_all field_ok fs" using Cons.prems by auto
  show ?case
  proof (cases "k = ?cl \<and> h k \<noteq> None \<and> h k \<noteq> Some v")
    case True
    then have "\<not> (\<exists>c. set_option (h ?cl) \<union> cl_values (f # fs) \<subseteq> {c})"
      using kv by (cases "h ?cl") (auto simp: cl_values_Cons)
    moreover have "header_line (field_line f) h = None"
      using header_line_field [OF ok(1), of h] kv True by auto
    ultimately show ?thesis by simp
  next
    case False
    have line: "header_line (field_line f) h = Some (h(k \<mapsto> v))"
      using header_line_field [OF ok(1), of h] kv False by simp
    have sets: "set_option ((h(k \<mapsto> v)) ?cl) \<union> cl_values fs = set_option (h ?cl) \<union> cl_values (f # fs)"
      using False kv by (cases "h ?cl") (auto simp: cl_values_Cons)
    have maps: "h(k \<mapsto> v) ++ map_of (rev (map field_entry fs)) = h ++ map_of (rev (map field_entry (f # fs)))"
      using kv by (auto simp: fun_eq_iff map_add_def split: option.splits)
    have "header_lines (map field_line (f # fs)) h = header_lines (map field_line fs) (h(k \<mapsto> v))"
      by (simp add: line)
    also note Cons.IH [OF ok(2), of "h(k \<mapsto> v)"]
    finally show ?thesis unfolding sets maps .
  qed
qed

lemma field_line_ok: "field_ok f \<Longrightarrow> line_ok (field_line f)"
  by (auto simp: field_ok_def field_line_def line_ok_def line_clean_def)

lemma block_len_bound: "block_len ls \<le> length (lines_text ls)"
  by (induction ls rule: block_len.induct) auto

lemma block_len_Cons: "block_len (l # ls) - (length l + 2) = block_len ls"
  by (cases ls) auto

subsection \<open>Properties\<close>

text \<open>C27: No accepted request carries a carriage return or line feed in a header name or value: every
  name is lower case and free of colons, so a second header can not hide in the value of the
  first.\<close>

theorem http_headers_clean:
  assumes "http_parse_request raw empty_request = Some req"
  shows "headers_clean (headers req)"
proof -
  obtain le m p q v he h where *: "find_str CRLF raw = Some le"
    "find_str (CRLF @ CRLF) raw = Some he" "crlf_ok None he raw"
    "header_loop (he - (le + 2)) (drop (le + 2) raw) Map.empty = Some h"
    and req: "req = detect_upgrades (empty_request\<lparr>method := m, path := p, query_string := q, version := v, headers := h\<rparr>)"
    using assms unfolding http_parse_request_def
    by (auto simp: empty_request_def split: option.splits if_splits prod.splits)
  have "le \<le> he"
    using find_str_first [OF *(1), of he] find_str_SomeD [OF *(2)] prefix_order.trans [of CRLF "CRLF @ CRLF"]
    by (meson linorder_not_less prefixI)
  then have "headers_clean h"
    using header_loop_clean [OF *(4)] crlf_ok_line [OF *(3) _ *(1)] by (auto simp: headers_clean_def)
  moreover have "headers req = h"
    unfolding req detect_upgrades_def Let_def by (auto split: option.splits)
  ultimately show ?thesis by simp
qed

theorem http_headers_clean_witness:
  "http_parse_request (''GET / H'' @ CRLF @ ''A: b'' @ CRLF @ CRLF) empty_request \<noteq> None \<and>
   headers_clean (headers (the (http_parse_request (''GET / H'' @ CRLF @ ''A: b'' @ CRLF @ CRLF) empty_request)))"
proof -
  let ?r = "http_parse_request (''GET / H'' @ CRLF @ ''A: b'' @ CRLF @ CRLF) empty_request"
  have "Option.is_none ?r = False" by code_simp
  then obtain q where "?r = Some q" by (cases ?r) auto
  then show ?thesis using http_headers_clean by simp
qed



end
