(* ===== verification/Sha256.thy ===== *)
theory Sha256
  imports Wire
begin

text \<open>
  SHA-256, HMAC-SHA256 and PBKDF2-HMAC-SHA256 of \<^verbatim>\<open>crypto_sha256.h\<close>, on machine words. The
  loops that push bytes and fill the message schedule are kept; the standard's own definitions
  (FIPS 180-4: a schedule given by recursion on the round and rotations) are stated beside them and proved
  equal.
\<close>

definition sha_K :: "u32 list" where
  "sha_K = concat
     [[0x428a2f98, 0x71374491, 0xb5c0fbcf, 0xe9b5dba5, 0x3956c25b, 0x59f111f1, 0x923f82a4, 0xab1c5ed5],
      [0xd807aa98, 0x12835b01, 0x243185be, 0x550c7dc3, 0x72be5d74, 0x80deb1fe, 0x9bdc06a7, 0xc19bf174],
      [0xe49b69c1, 0xefbe4786, 0x0fc19dc6, 0x240ca1cc, 0x2de92c6f, 0x4a7484aa, 0x5cb0a9dc, 0x76f988da],
      [0x983e5152, 0xa831c66d, 0xb00327c8, 0xbf597fc7, 0xc6e00bf3, 0xd5a79147, 0x06ca6351, 0x14292967],
      [0x27b70a85, 0x2e1b2138, 0x4d2c6dfc, 0x53380d13, 0x650a7354, 0x766a0abb, 0x81c2c92e, 0x92722c85],
      [0xa2bfe8a1, 0xa81a664b, 0xc24b8b70, 0xc76c51a3, 0xd192e819, 0xd6990624, 0xf40e3585, 0x106aa070],
      [0x19a4c116, 0x1e376c08, 0x2748774c, 0x34b0bcb5, 0x391c0cb3, 0x4ed8aa4a, 0x5b9cca4f, 0x682e6ff3],
      [0x748f82ee, 0x78a5636f, 0x84c87814, 0x8cc70208, 0x90befffa, 0xa4506ceb, 0xbef9a3f7, 0xc67178f2]]"

type_synonym sha_state = "u32 \<times> u32 \<times> u32 \<times> u32 \<times> u32 \<times> u32 \<times> u32 \<times> u32"

definition sha_init :: sha_state where
  "sha_init = (0x6a09e667, 0xbb67ae85, 0x3c6ef372, 0xa54ff53a,
               0x510e527f, 0x9b05688c, 0x1f83d9ab, 0x5be0cd19)"

text \<open>The number of zero bytes up to 56 modulo 64.\<close>

definition pad_gap :: "nat \<Rightarrow> nat" where
  "pad_gap n = (if n mod 64 \<le> 56 then 56 - n mod 64 else 120 - n mod 64)"

lemma pad_gap_Suc: "n mod 64 \<noteq> 56 \<Longrightarrow> pad_gap n = Suc (pad_gap (Suc n))"
  using mod_less_divisor [of 64 n] by (auto simp: pad_gap_def mod_Suc)

lemma pad_gap_total: "\<exists>q. n + pad_gap n = 64 * q + 56"
proof (cases "n mod 64 \<le> 56")
  case True
  have "n + (56 - n mod 64) = 64 * (n div 64) + 56"
    using True mult_div_mod_eq [of 64 n] by linarith
  then show ?thesis using True by (auto simp: pad_gap_def)
next
  case False
  have "n mod 64 < 64" by simp
  then have "120 - n mod 64 + n mod 64 = 120" by linarith
  then have "n + (120 - n mod 64) = 64 * (n div 64) + 120"
    using mult_div_mod_eq [of 64 n] by linarith
  then have "n + pad_gap n = 64 * Suc (n div 64) + 56" using False by (simp add: pad_gap_def)
  then show ?thesis ..
qed

function sha_pad_zeros :: "bytes \<Rightarrow> bytes" where
  "sha_pad_zeros msg = (if length msg mod 64 = 56 then msg else sha_pad_zeros (msg @ [0]))"
  by pat_completeness auto
termination
  by (relation "measure (\<lambda>msg. pad_gap (length msg))") (auto simp: pad_gap_Suc)

declare sha_pad_zeros.simps [simp del]

definition sha_pad :: "bytes \<Rightarrow> bytes" where
  "sha_pad data =
     (let bit_len = (word_of_nat (length data) :: u64) * 8
      in sha_pad_zeros (data @ [0x80]) @ map (\<lambda>i. ucast (drop_bit (i * 8) bit_len)) [7, 6, 5, 4, 3, 2, 1, 0])"

definition rotr :: "u32 \<Rightarrow> nat \<Rightarrow> u32" where
  "rotr x n = drop_bit n x OR push_bit (32 - n) x"

definition sha_words :: "bytes \<Rightarrow> u32 list" where
  "sha_words blk = map (\<lambda>j. be32 (blk ! (j * 4)) (blk ! (j * 4 + 1)) (blk ! (j * 4 + 2)) (blk ! (j * 4 + 3))) [0..<16]"

definition sha_extend :: "nat \<Rightarrow> u32 list \<Rightarrow> u32 list" where
  "sha_extend j w =
     (let s0 = rotr (w ! (j - 15)) 7 XOR rotr (w ! (j - 15)) 18 XOR drop_bit 3 (w ! (j - 15));
          s1 = rotr (w ! (j - 2)) 17 XOR rotr (w ! (j - 2)) 19 XOR drop_bit 10 (w ! (j - 2))
      in w @ [w ! (j - 16) + s0 + w ! (j - 7) + s1])"

definition sha_schedule :: "bytes \<Rightarrow> u32 list" where
  "sha_schedule blk = fold sha_extend [16..<64] (sha_words blk)"

fun sha_round :: "u32 \<times> u32 \<Rightarrow> sha_state \<Rightarrow> sha_state" where
  "sha_round (k, w) (a, b, c, d, e, f, g, hh) =
     (let S1 = rotr e 6 XOR rotr e 11 XOR rotr e 25;
          ch = (e AND f) XOR ((NOT e) AND g);
          t1 = hh + S1 + ch + k + w;
          S0 = rotr a 2 XOR rotr a 13 XOR rotr a 22;
          maj = (a AND b) XOR (a AND c) XOR (b AND c);
          t2 = S0 + maj
      in (t1 + t2, a, b, c, d + t1, e, f, g))"

fun sha_add :: "sha_state \<Rightarrow> sha_state \<Rightarrow> sha_state" where
  "sha_add (a, b, c, d, e, f, g, h) (a', b', c', d', e', f', g', h') =
     (a + a', b + b', c + c', d + d', e + e', f + f', g + g', h + h')"

definition sha_compress :: "sha_state \<Rightarrow> bytes \<Rightarrow> sha_state" where
  "sha_compress h blk = sha_add h (fold sha_round (zip sha_K (sha_schedule blk)) h)"

function sha_blocks :: "sha_state \<Rightarrow> bytes \<Rightarrow> sha_state" where
  "sha_blocks h msg = (if msg = [] then h else sha_blocks (sha_compress h (take 64 msg)) (drop 64 msg))"
  by pat_completeness auto
termination by (relation "measure (\<lambda>(h, msg). length msg)") auto

declare sha_blocks.simps [simp del]

definition word_bytes :: "u32 \<Rightarrow> bytes" where
  "word_bytes h = [ucast (drop_bit 24 h AND 0xFF), ucast (drop_bit 16 h AND 0xFF),
     ucast (drop_bit 8 h AND 0xFF), ucast (h AND 0xFF)]"

fun sha_digest :: "sha_state \<Rightarrow> bytes" where
  "sha_digest (a, b, c, d, e, f, g, h) = concat (map word_bytes [a, b, c, d, e, f, g, h])"

definition sha256 :: "bytes \<Rightarrow> bytes" where
  "sha256 data = sha_digest (sha_blocks sha_init (sha_pad data))"

definition resize :: "nat \<Rightarrow> bytes \<Rightarrow> bytes" where
  "resize n b = take n b @ replicate (n - length b) 0"

definition hmac_sha256 :: "bytes \<Rightarrow> bytes \<Rightarrow> bytes" where
  "hmac_sha256 key msg =
     (let k = resize 64 (if 64 < length key then sha256 key else key);
          o_key = map (\<lambda>b. b XOR 0x5c) k;
          i_key = map (\<lambda>b. b XOR 0x36) k
      in sha256 (o_key @ sha256 (i_key @ msg)))"

definition xor_into :: "bytes \<Rightarrow> bytes \<Rightarrow> bytes" where
  "xor_into f u = map2 (\<lambda>a b. a XOR b) f u"

fun pbkdf2_iterate :: "bytes \<Rightarrow> nat \<Rightarrow> bytes \<Rightarrow> bytes \<Rightarrow> bytes" where
  "pbkdf2_iterate pwd 0 u f = f"
| "pbkdf2_iterate pwd (Suc n) u f =
     (let u' = hmac_sha256 pwd u in pbkdf2_iterate pwd n u' (xor_into f u'))"

definition pbkdf2_block :: "bytes \<Rightarrow> bytes \<Rightarrow> u32 \<Rightarrow> u32 \<Rightarrow> bytes" where
  "pbkdf2_block pwd salt iterations block =
     (let u = hmac_sha256 pwd (salt @ word_bytes block)
      in pbkdf2_iterate pwd (unat iterations - 1) u u)"

definition pbkdf2_sha256 :: "bytes \<Rightarrow> bytes \<Rightarrow> u32 \<Rightarrow> u32 \<Rightarrow> bytes" where
  "pbkdf2_sha256 pwd salt iterations dk_len =
     (let blocks = unat ((dk_len + 31) div 32)
      in resize (unat dk_len)
           (concat (map (\<lambda>b. pbkdf2_block pwd salt iterations (word_of_nat b)) [1..<Suc blocks])))"

subsection \<open>FIPS 180-4\<close>

definition Sigma0 :: "u32 \<Rightarrow> u32" where
  "Sigma0 x = word_rotr 2 x XOR word_rotr 13 x XOR word_rotr 22 x"

definition Sigma1 :: "u32 \<Rightarrow> u32" where
  "Sigma1 x = word_rotr 6 x XOR word_rotr 11 x XOR word_rotr 25 x"

definition sigma0 :: "u32 \<Rightarrow> u32" where
  "sigma0 x = word_rotr 7 x XOR word_rotr 18 x XOR drop_bit 3 x"

definition sigma1 :: "u32 \<Rightarrow> u32" where
  "sigma1 x = word_rotr 17 x XOR word_rotr 19 x XOR drop_bit 10 x"

definition Ch :: "u32 \<Rightarrow> u32 \<Rightarrow> u32 \<Rightarrow> u32" where
  "Ch x y z = (x AND y) XOR (NOT x AND z)"

definition Maj :: "u32 \<Rightarrow> u32 \<Rightarrow> u32 \<Rightarrow> u32" where
  "Maj x y z = (x AND y) XOR (x AND z) XOR (y AND z)"

fun fips_W :: "bytes \<Rightarrow> nat \<Rightarrow> u32" where
  "fips_W blk t =
     (if t < 16 then be32 (blk ! (4 * t)) (blk ! (4 * t + 1)) (blk ! (4 * t + 2)) (blk ! (4 * t + 3))
      else sigma1 (fips_W blk (t - 2)) + fips_W blk (t - 7) + sigma0 (fips_W blk (t - 15)) + fips_W blk (t - 16))"

declare fips_W.simps [simp del]

fun fips_rounds :: "bytes \<Rightarrow> nat \<Rightarrow> sha_state \<Rightarrow> sha_state" where
  "fips_rounds blk 0 s = s"
| "fips_rounds blk (Suc t) s =
     (let (a, b, c, d, e, f, g, h) = fips_rounds blk t s;
          T1 = h + Sigma1 e + Ch e f g + sha_K ! t + fips_W blk t;
          T2 = Sigma0 a + Maj a b c
      in (T1 + T2, a, b, c, d + T1, e, f, g))"

fun fips_blocks :: "nat \<Rightarrow> bytes \<Rightarrow> sha_state" where
  "fips_blocks 0 msg = sha_init"
| "fips_blocks (Suc i) msg =
     (let H = fips_blocks i msg in sha_add H (fips_rounds (take 64 (drop (64 * i) msg)) 64 H))"

text \<open>Padding: the message, a one bit, zeros up to 448 modulo 512 and the length in 64 bits.\<close>

definition fips_pad :: "bytes \<Rightarrow> bytes" where
  "fips_pad m = m @ 0x80 # replicate (pad_gap (Suc (length m))) 0 @
     map (\<lambda>i. word_of_nat (8 * length m div 256 ^ i)) [7, 6, 5, 4, 3, 2, 1, 0]"

definition fips_sha256 :: "bytes \<Rightarrow> bytes" where
  "fips_sha256 m = sha_digest (fips_blocks (length (fips_pad m) div 64) (fips_pad m))"

subsection \<open>The code computes the standard\<close>

lemma rotr_eq: "0 < n \<Longrightarrow> n < 32 \<Longrightarrow> rotr x n = word_rotr n x"
proof (rule bit_word_eqI)
  fix m assume n: "0 < n" "n < 32" and "m < LENGTH(32)"
  then have m: "m < 32" by simp
  have bx: "bit x k \<Longrightarrow> k < 32" for k using bit_imp_le_length [of x k] by simp
  have "(m + n) mod 32 = (if m + n < 32 then m + n else m + n - 32)"
    using n m by (simp add: mod_if)
  then show "bit (rotr x n) m = bit (word_rotr n x) m"
    using n m bx
    by (auto simp: rotr_def bit_word_rotr_iff bit_or_iff bit_drop_bit_eq bit_push_bit_iff add.commute)
qed

lemma sha_pad_zeros_eq: "sha_pad_zeros msg = msg @ replicate (pad_gap (length msg)) 0"
proof (induction msg rule: sha_pad_zeros.induct)
  case (1 msg)
  show ?case
  proof (cases "length msg mod 64 = 56")
    case True
    then show ?thesis by (simp add: sha_pad_zeros.simps [of msg] pad_gap_def)
  next
    case False
    then show ?thesis using 1 [OF False] by (simp add: sha_pad_zeros.simps [of msg] pad_gap_Suc)
  qed
qed

lemma length_byte:
  "(ucast (drop_bit (i * 8) (word_of_nat n * 8 :: u64)) :: u8) = word_of_nat (8 * n div 256 ^ i)" if "n < 2 ^ 61"
proof -
  have "(word_of_nat n * 8 :: u64) = word_of_nat (8 * n)" by simp
  then have u: "unat (word_of_nat n * 8 :: u64) = 8 * n"
    using that by (simp add: unsigned_of_nat take_bit_nat_eq_self del: of_nat_mult)
  have "unat (ucast (drop_bit (i * 8) (word_of_nat n * 8 :: u64)) :: u8) = take_bit 8 (8 * n div 2 ^ (i * 8))"
    by (simp only: unsigned_ucast_eq unat_drop_bit u) simp
  also have "(2 :: nat) ^ (i * 8) = 256 ^ i" by (simp add: power_mult mult.commute [of i])
  also have "take_bit 8 (8 * n div 256 ^ i) = unat (word_of_nat (8 * n div 256 ^ i) :: u8)"
    by (simp add: unsigned_of_nat)
  finally show ?thesis by (metis of_nat_unat ucast_id)
qed

lemma sha_pad_eq: "length m < 2 ^ 61 \<Longrightarrow> sha_pad m = fips_pad m"
proof -
  assume m: "length m < 2 ^ 61"
  have "map (\<lambda>i. ucast (drop_bit (i * 8) (word_of_nat (length m) * 8 :: u64))) is =
      map (\<lambda>i. word_of_nat (8 * length m div 256 ^ i) :: u8) is" for "is" :: "nat list"
    by (simp only: length_byte [OF m])
  then show ?thesis by (simp only: sha_pad_def fips_pad_def Let_def sha_pad_zeros_eq) simp
qed

lemma length_fold_extend: "length (fold sha_extend js w) = length w + length js"
  by (induction js arbitrary: w) (auto simp: sha_extend_def Let_def)

lemma sha_extend_step:
  assumes "w = map (fips_W blk) [0..<j]" "16 \<le> j"
  shows "sha_extend j w = map (fips_W blk) [0..<Suc j]"
proof -
  have n: "w ! i = fips_W blk i" if "i < j" for i using assms that by simp
  have "fips_W blk j = fips_W blk (j - 16) + sigma0 (fips_W blk (j - 15)) + fips_W blk (j - 7) + sigma1 (fips_W blk (j - 2))"
    using assms(2) by (simp add: fips_W.simps [of blk j])
  then show ?thesis
    using assms by (simp add: sha_extend_def Let_def n rotr_eq sigma0_def sigma1_def)
qed

lemma sha_schedule_prefix:
  "16 \<le> n \<Longrightarrow> fold sha_extend [16..<n] (sha_words blk) = map (fips_W blk) [0..<n]"
proof (induction n rule: dec_induct)
  case base
  show ?case by (simp add: sha_words_def fips_W.simps mult.commute)
next
  case (step n)
  then show ?case using sha_extend_step [OF step.IH step.hyps(1)] by simp
qed

lemma sha_schedule_eq: "sha_schedule blk = map (fips_W blk) [0..<64]"
  unfolding sha_schedule_def by (rule sha_schedule_prefix) simp

lemma sha_round_eq:
  "sha_round (k, w) (a, b, c, d, e, f, g, h) =
     (let T1 = h + Sigma1 e + Ch e f g + k + w; T2 = Sigma0 a + Maj a b c
      in (T1 + T2, a, b, c, d + T1, e, f, g))"
  by (simp add: Let_def rotr_eq Sigma0_def Sigma1_def Ch_def Maj_def)

lemma fips_rounds_fold:
  "fips_rounds blk n s = fold sha_round (map (\<lambda>t. (sha_K ! t, fips_W blk t)) [0..<n]) s"
proof (induction n)
  case (Suc n)
  show ?case
    by (simp add: Suc [symmetric] sha_round_eq Let_def del: sha_round.simps split: prod.splits)
qed simp

lemma sha_compress_eq: "sha_compress h blk = sha_add h (fips_rounds blk 64 h)"
proof -
  have "length sha_K = 64" by (simp add: sha_K_def)
  then have "zip sha_K (map (fips_W blk) [0..<64]) = map (\<lambda>t. (sha_K ! t, fips_W blk t)) [0..<64]"
    by (intro nth_equalityI) simp_all
  then show ?thesis by (simp only: sha_compress_def sha_schedule_eq fips_rounds_fold)
qed

lemma sha_blocks_snoc:
  "length msg mod 64 = 0 \<Longrightarrow> length blk = 64 \<Longrightarrow> sha_blocks h (msg @ blk) = sha_compress (sha_blocks h msg) blk"
proof (induction h msg rule: sha_blocks.induct)
  case (1 h msg)
  show ?case
  proof (cases "msg = []")
    case True
    then show ?thesis using "1.prems" by (auto simp: sha_blocks.simps [of h] sha_blocks.simps [of _ "[]"])
  next
    case False
    then have "64 \<le> length msg" using "1.prems"(1) by (metis mod_less not_le length_0_conv)
    moreover have "length (drop 64 msg) mod 64 = 0" using "1.prems"(1) by (simp add: \<open>64 \<le> length msg\<close> le_mod_geq)
    ultimately show ?thesis
      using 1 False by (simp add: sha_blocks.simps [of h "msg @ blk"] sha_blocks.simps [of h msg])
  qed
qed

lemma sha_blocks_eq:
  "64 * n \<le> length msg \<Longrightarrow> sha_blocks sha_init (take (64 * n) msg) = fips_blocks n msg"
proof (induction n)
  case 0
  show ?case by (simp add: sha_blocks.simps)
next
  case (Suc n)
  let ?blk = "take 64 (drop (64 * n) msg)"
  have "take (64 * n + 64) msg = take (64 * n) msg @ ?blk" by (rule take_add)
  then have "take (64 * Suc n) msg = take (64 * n) msg @ ?blk" by (simp add: add.commute)
  then show ?case
    using Suc sha_blocks_snoc [of "take (64 * n) msg" ?blk sha_init] by (simp add: sha_compress_eq Let_def)
qed

lemma fips_pad_length: "length (fips_pad m) mod 64 = 0"
proof -
  obtain q where "Suc (length m) + pad_gap (Suc (length m)) = 64 * q + 56"
    using pad_gap_total by blast
  then have "length (fips_pad m) = 64 * (q + 1)" by (simp add: fips_pad_def)
  then show ?thesis by simp
qed

lemma sha256_eq_fips: "length m < 2 ^ 61 \<Longrightarrow> sha256 m = fips_sha256 m"
proof -
  assume "length m < 2 ^ 61"
  then have "sha_pad m = fips_pad m" by (rule sha_pad_eq)
  moreover have "64 * (length (fips_pad m) div 64) = length (fips_pad m)"
    using fips_pad_length [of m] by (metis mult_div_mod_eq add.right_neutral)
  ultimately show ?thesis
    using sha_blocks_eq [of "length (fips_pad m) div 64" "fips_pad m"]
    by (simp add: sha256_def fips_sha256_def)
qed

subsection \<open>HMAC and PBKDF2\<close>

lemma length_word_bytes [simp]: "length (word_bytes w) = 4"
  by (simp add: word_bytes_def)

lemma length_sha256 [simp]: "length (sha256 m) = 32"
proof -
  have "length (sha_digest s) = 32" for s by (cases s rule: sha_digest.cases) simp
  then show ?thesis by (simp add: sha256_def)
qed

lemma length_hmac [simp]: "length (hmac_sha256 k m) = 32"
  by (simp add: hmac_sha256_def Let_def)

lemma length_resize [simp]: "length (resize n b) = n"
  by (simp add: resize_def)

lemma length_xor_into [simp]: "length (xor_into f u) = min (length f) (length u)"
  by (simp add: xor_into_def)

text \<open>RFC 2104: the key is brought to the block length, xored with the inner and the outer pad.\<close>

definition rfc_hmac :: "bytes \<Rightarrow> bytes \<Rightarrow> bytes" where
  "rfc_hmac K m =
     (let K0 = (if length K \<le> 64 then K @ replicate (64 - length K) 0 else fips_sha256 K @ replicate 32 0)
      in fips_sha256 (xor_into K0 (replicate 64 0x5c) @
           fips_sha256 (xor_into K0 (replicate 64 0x36) @ m)))"

lemma xor_into_replicate: "length k = n \<Longrightarrow> xor_into k (replicate n c) = map (\<lambda>b. b XOR c) k"
  by (induction k arbitrary: n) (auto simp: xor_into_def)

lemma hmac_eq_rfc:
  assumes "length K < 2 ^ 61" "length m < 2 ^ 60"
  shows "hmac_sha256 K m = rfc_hmac K m"
proof -
  let ?k = "resize 64 (if 64 < length K then sha256 K else K)"
  let ?K0 = "if length K \<le> 64 then K @ replicate (64 - length K) 0 else fips_sha256 K @ replicate 32 0"
  have k: "?k = ?K0"
    using sha256_eq_fips [OF assms(1)] length_sha256 [of K] by (auto simp: resize_def)
  have s: "sha256 x = fips_sha256 x" if "length x < 2 ^ 61" for x
    using that by (rule sha256_eq_fips)
  have len: "length ?K0 = 64" unfolding k [symmetric] by (rule length_resize)
  have inner: "sha256 (map (\<lambda>b. b XOR 0x36) ?K0 @ m) = fips_sha256 (xor_into ?K0 (replicate 64 0x36) @ m)"
    using assms(2) by (subst s) (simp_all only: xor_into_replicate [OF len] length_append length_map len, simp)
  have "sha256 (map (\<lambda>b. b XOR 0x5c) ?K0 @ sha256 x) = fips_sha256 (xor_into ?K0 (replicate 64 0x5c) @ sha256 x)" for x
    by (subst s) (simp_all only: xor_into_replicate [OF len] length_append length_map len length_sha256, simp)
  then show ?thesis unfolding hmac_sha256_def rfc_hmac_def Let_def k inner [symmetric] by simp
qed

text \<open>RFC 8018: \<open>U\<close> are the iterated authentication codes, a block is their exclusive or.\<close>

definition rfc_U :: "bytes \<Rightarrow> bytes \<Rightarrow> nat \<Rightarrow> nat \<Rightarrow> bytes" where
  "rfc_U P S i j = ((hmac_sha256 P) ^^ j) (hmac_sha256 P (S @ word_bytes (word_of_nat i)))"

definition rfc_F :: "bytes \<Rightarrow> bytes \<Rightarrow> nat \<Rightarrow> nat \<Rightarrow> bytes" where
  "rfc_F P S c i = foldl xor_into (rfc_U P S i 0) (map (rfc_U P S i) [1..<c])"

lemma pbkdf2_iterate_eq:
  "pbkdf2_iterate P n (((hmac_sha256 P) ^^ j) u) f =
     foldl xor_into f (map (\<lambda>k. ((hmac_sha256 P) ^^ k) u) [Suc j..<Suc j + n])"
proof (induction n arbitrary: j f)
  case (Suc n)
  have "[Suc j..<Suc j + Suc n] = Suc j # [Suc (Suc j)..<Suc (Suc j) + n]"
    by (simp add: upt_conv_Cons)
  then show ?case using Suc [of "Suc j"] by (simp add: Let_def)
qed simp

lemma pbkdf2_block_eq: "pbkdf2_block P S c (word_of_nat i) = rfc_F P S (unat c) i"
proof -
  have "rfc_U P S i = (\<lambda>j. ((hmac_sha256 P) ^^ j) (hmac_sha256 P (S @ word_bytes (word_of_nat i))))"
    by (simp add: fun_eq_iff rfc_U_def)
  then show ?thesis
    using pbkdf2_iterate_eq [of P "unat c - 1" 0]
    by (cases "unat c") (simp_all add: pbkdf2_block_def rfc_F_def Let_def)
qed

lemma length_foldl_xor: "length f = 32 \<Longrightarrow> \<forall>u \<in> set us. length u = 32 \<Longrightarrow> length (foldl xor_into f us) = 32"
  by (induction us arbitrary: f) auto

lemma length_rfc_F [simp]: "length (rfc_F P S c i) = 32"
proof -
  have "length (rfc_U P S i j) = 32" for j by (cases j) (simp_all add: rfc_U_def)
  then show ?thesis unfolding rfc_F_def by (intro length_foldl_xor) auto
qed

lemma blocks_cover:
  assumes "unat (dk_len :: u32) + 31 < 2 ^ 32"
  shows "unat dk_len \<le> 32 * unat ((dk_len + 31) div 32)"
proof -
  have "unat (dk_len + 31) = unat dk_len + 31"
    using assms by (simp add: unat_word_ariths)
  then have "unat ((dk_len + 31) div 32) = (unat dk_len + 31) div 32"
    by (simp add: unat_div_distrib)
  then show ?thesis by simp
qed

subsection \<open>Properties\<close>

text \<open>C35: The code computes SHA-256 as FIPS 180-4 defines it, for every message of less than 2^61
  bytes: padding, message schedule, rounds and digest.\<close>

theorem sha256_is_fips:
  assumes "length m < 2 ^ 61"
  shows "sha256 m = fips_sha256 m"
  using assms by (rule sha256_eq_fips)

theorem sha256_is_fips_witness: "sha256 [97, 98, 99] = fips_sha256 [97, 98, 99]"
  by (rule sha256_is_fips) simp

text \<open>HMAC-SHA256 is the RFC 2104 construction over that hash, for keys shorter and longer than
  a block.\<close>

theorem hmac_is_rfc2104:
  assumes "length K < 2 ^ 61" "length m < 2 ^ 60"
  shows "hmac_sha256 K m = rfc_hmac K m"
  using assms by (rule hmac_eq_rfc)

theorem hmac_is_rfc2104_witness: "hmac_sha256 [1] [2] = rfc_hmac [1] [2]"
  by (rule hmac_is_rfc2104) simp_all

text \<open>C36: PBKDF2 is the RFC 8018 construction: the derived key is the first \<^verbatim>\<open>dk_len\<close> bytes of the
  blocks F(1), F(2), ..., each the exclusive or of the iterated codes, and it has exactly
  \<^verbatim>\<open>dk_len\<close> bytes, as long as the block count does not wrap around.\<close>

theorem pbkdf2_is_rfc8018:
  assumes "unat dk_len + 31 < 2 ^ 32"
  shows "pbkdf2_sha256 P S c dk_len =
     take (unat dk_len) (concat (map (rfc_F P S (unat c)) [1..<Suc (unat ((dk_len + 31) div 32))])) \<and>
     length (pbkdf2_sha256 P S c dk_len) = unat dk_len"
proof -
  let ?n = "unat ((dk_len + 31) div 32)"
  let ?b = "concat (map (rfc_F P S (unat c)) [1..<Suc ?n])"
  have "length ?b = 32 * ?n" by (simp add: length_concat comp_def sum_list_triv del: upt_Suc)
  then have "unat dk_len \<le> length ?b" using blocks_cover [OF assms] by simp
  then show ?thesis
    by (simp add: pbkdf2_sha256_def Let_def pbkdf2_block_eq resize_def del: upt_Suc)
qed

theorem pbkdf2_is_rfc8018_witness: "length (pbkdf2_sha256 [1] [2] 1000 40) = 40"
proof -
  have "unat (40 :: u32) + 31 < 2 ^ 32" by simp
  from pbkdf2_is_rfc8018 [OF this, of "[1]" "[2]" 1000, THEN conjunct2] show ?thesis by simp
qed

end
