(* ===== verification/Session_Files.thy ===== *)
theory Session_Files
  imports Session_Esc
begin

text \<open>
  The file-backed session driver of \<^verbatim>\<open>session_files.h\<close> (POSIX branch): the checks on the session
  directory, reading, atomic writing and removal of session files, and the garbage collection that
  all processes share through a stamp file.

  The file system is a map from path names to entries. What the operating system decides is part
  of the world: the effective user, the clock, the environment, which paths can not be looked up
  or created, whether the stamp lock is free and whether a thread can be started. How a write
  ends (which call fails, after how many bytes) is an argument of the write.
\<close>

subsection \<open>The world\<close>

datatype fkind = Reg | Dir | Lnk string | Special

record inode =
  kind :: fkind
  uid :: nat
  mode :: u16
  nlink :: nat
  mtime :: int
  content :: string

record world =
  fs :: "string \<rightharpoonup> inode"
  euid :: nat
  now :: int
  env :: "string \<rightharpoonup> string"
  denied :: "string \<Rightarrow> bool"
  creatable :: "string \<Rightarrow> bool"
  lock_free :: bool
  stamp_io :: bool
  thread_ok :: bool
  ok_dir :: string
  gc_last :: int
  gc_running :: bool
  gc_short_lived :: bool
  gc_pending_ttl :: int
  gc_thread :: "int option"

datatype errno = ENOENT | EEXIST | EACCES

definition lstat :: "world \<Rightarrow> string \<Rightarrow> errno + inode" where
  "lstat w p = (if denied w p then Inl EACCES else case fs w p of None \<Rightarrow> Inl ENOENT | Some i \<Rightarrow> Inr i)"

text \<open>\<^verbatim>\<open>stat\<close> follows symbolic links, up to the limit of the system.\<close>

fun stat_follow :: "nat \<Rightarrow> world \<Rightarrow> string \<Rightarrow> inode option" where
  "stat_follow 0 w p = None"
| "stat_follow (Suc n) w p =
     (case lstat w p of
        Inl e \<Rightarrow> None
      | Inr i \<Rightarrow> (case kind i of Lnk t \<Rightarrow> stat_follow n w t | _ \<Rightarrow> Some i))"

definition mkdir :: "world \<Rightarrow> string \<Rightarrow> errno option \<times> world" where
  "mkdir w p =
     (if fs w p \<noteq> None then (Some EEXIST, w)
      else if \<not> creatable w p then (Some EACCES, w)
      else (None, w\<lparr>fs := (fs w)(p \<mapsto> \<lparr>kind = Dir, uid = euid w, mode = 0x1C0, nlink = 2,
              mtime = now w, content = []\<rparr>)\<rparr>))"

definition loose :: "u16 \<Rightarrow> bool" where
  "loose m \<longleftrightarrow> m AND 0x3F \<noteq> 0"

subsection \<open>The directory\<close>

datatype dir_problem = NotAccessible errno | CannotCreate errno | IsSymlink | NotADirectory
  | WrongOwner nat | LooseMode u16

fun dir_inode_problem :: "world \<Rightarrow> inode \<Rightarrow> dir_problem option" where
  "dir_inode_problem w st =
     (case kind st of
        Lnk t \<Rightarrow> Some IsSymlink
      | Dir \<Rightarrow>
          if uid st \<noteq> euid w then Some (WrongOwner (uid st))
          else if loose (mode st) then Some (LooseMode (mode st AND 0xFFF))
          else None
      | _ \<Rightarrow> Some NotADirectory)"

text \<open>\<^term>\<open>None\<close> is the answer true; otherwise the reason that goes into the message.\<close>

definition session_dir_ok :: "world \<Rightarrow> string \<Rightarrow> bool \<Rightarrow> dir_problem option \<times> world" where
  "session_dir_ok w dir create =
     (case lstat w dir of
        Inr st \<Rightarrow> (dir_inode_problem w st, w)
      | Inl e \<Rightarrow>
          if e \<noteq> ENOENT \<or> \<not> create then (Some (NotAccessible e), w)
          else let (r, w') = mkdir w dir
               in if r \<noteq> None \<and> r \<noteq> Some EEXIST then (Some (CannotCreate (the r)), w')
                  else case lstat w' dir of
                         Inl e' \<Rightarrow> (Some (NotAccessible e'), w')
                       | Inr st \<Rightarrow> (dir_inode_problem w' st, w'))"

definition session_dir_owned :: "world \<Rightarrow> string \<Rightarrow> bool" where
  "session_dir_owned w p =
     (p \<noteq> [] \<and> (case stat_follow 40 w p of None \<Rightarrow> False | Some st \<Rightarrow> kind st = Dir \<and> uid st = euid w))"

definition nonempty_env :: "world \<Rightarrow> string \<Rightarrow> string option" where
  "nonempty_env w k = (case env w k of Some v \<Rightarrow> if v = [] then None else Some v | None \<Rightarrow> None)"

definition session_dir_path :: "world \<Rightarrow> string" where
  "session_dir_path w =
     (case nonempty_env w ''LOOK_SESSION_DIR'' of
        Some e \<Rightarrow> e
      | None \<Rightarrow>
          (let state = (case nonempty_env w ''STATE_DIRECTORY'' of
                          None \<Rightarrow> None
                        | Some s \<Rightarrow>
                            (let first = (case find_char (CHR '':'') s of None \<Rightarrow> s | Some n \<Rightarrow> take n s)
                             in if session_dir_owned w first then Some (first @ ''/sessions'') else None));
               owned = (\<lambda>var sub. case env w var of
                          None \<Rightarrow> None
                        | Some x \<Rightarrow> if session_dir_owned w x then Some (x @ sub) else None)
           in case state of
                Some d \<Rightarrow> d
              | None \<Rightarrow>
                  (case owned ''XDG_RUNTIME_DIR'' ''/look-sessions'' of
                     Some d \<Rightarrow> d
                   | None \<Rightarrow>
                       (case owned ''HOME'' ''/.look/sessions'' of
                          Some d \<Rightarrow> d
                        | None \<Rightarrow>
                            (case nonempty_env w ''TMPDIR'' of None \<Rightarrow> ''/tmp'' | Some t \<Rightarrow> t) @
                            ''/look-sessions-'' @ nat_str (euid w)))))"

text \<open>The proper parents of a path: its prefixes before each slash but a leading one.\<close>

definition parent_paths :: "string \<Rightarrow> string list" where
  "parent_paths dir = map (\<lambda>p. take p dir) (filter (\<lambda>p. dir ! p = CHR ''/'') [1..<length dir])"

definition session_dir_make_parents :: "world \<Rightarrow> string \<Rightarrow> world" where
  "session_dir_make_parents w dir = fold (\<lambda>p w. snd (mkdir w p)) (parent_paths dir) w"

datatype session_error = BadDir dir_problem | WriteFailed

definition session_dir :: "world \<Rightarrow> (session_error + string) \<times> world" where
  "session_dir w =
     (if ok_dir w \<noteq> [] then (Inr (ok_dir w), w)
      else let dir = session_dir_path w;
               (why, w') = session_dir_ok (session_dir_make_parents w dir) dir True
           in case why of
                Some r \<Rightarrow> (Inl (BadDir r), w')
              | None \<Rightarrow> (Inr dir, w'\<lparr>ok_dir := dir\<rparr>))"

definition sess_path :: "string \<Rightarrow> string \<Rightarrow> string" where
  "sess_path dir sid = dir @ ''/look_sess_'' @ sid"

definition session_file :: "world \<Rightarrow> string \<Rightarrow> (session_error + string) \<times> world" where
  "session_file w sid =
     (case session_dir w of
        (Inl e, w') \<Rightarrow> (Inl e, w')
      | (Inr d, w') \<Rightarrow> (Inr (sess_path d sid), w'))"

subsection \<open>Session files\<close>

definition own_session_inode :: "world \<Rightarrow> inode \<Rightarrow> bool" where
  "own_session_inode w st \<longleftrightarrow> kind st = Reg \<and> uid st = euid w \<and> \<not> loose (mode st) \<and> nlink st = 1"

definition unlink :: "world \<Rightarrow> string \<Rightarrow> world" where
  "unlink w p = w\<lparr>fs := (fs w)(p := None)\<rparr>"

text \<open>The body of the read once the path is known: the content and the \<^verbatim>\<open>foreign\<close> flag.\<close>

definition read_path :: "world \<Rightarrow> string \<Rightarrow> int \<Rightarrow> (string \<times> bool) \<times> world" where
  "read_path w path ttl_sec =
     (case lstat w path of
        Inl e \<Rightarrow> (([], False), w)
      | Inr st \<Rightarrow>
          (case kind st of
             Lnk t \<Rightarrow> (([], True), w)
           | _ \<Rightarrow>
               if \<not> own_session_inode w st then (([], True), w)
               else if 0 < ttl_sec \<and> ttl_sec < now w - mtime st then (([], False), unlink w path)
               else ((content st, False), w)))"

definition session_file_read :: "world \<Rightarrow> string \<Rightarrow> int \<Rightarrow> (session_error + string \<times> bool) \<times> world" where
  "session_file_read w sid ttl_sec =
     (case session_file w sid of
        (Inl e, w') \<Rightarrow> (Inl e, w')
      | (Inr path, w') \<Rightarrow> (case read_path w' path ttl_sec of (r, w'') \<Rightarrow> (Inr r, w'')))"

datatype write_outcome = Done | MkstempFails | WriteFails nat | RenameFails

definition new_session_inode :: "world \<Rightarrow> string \<Rightarrow> inode" where
  "new_session_inode w blob =
     \<lparr>kind = Reg, uid = euid w, mode = 0x180, nlink = 1, mtime = now w, content = blob\<rparr>"

definition write_path :: "world \<Rightarrow> string \<Rightarrow> string \<Rightarrow> string \<Rightarrow> write_outcome \<Rightarrow> (session_error + unit) \<times> world" where
  "write_path w path tmpl blob oc =
     (case oc of
        MkstempFails \<Rightarrow> (Inl WriteFailed, w)
      | WriteFails k \<Rightarrow>
          (let w1 = w\<lparr>fs := (fs w)(tmpl \<mapsto> new_session_inode w (take k blob))\<rparr>
           in (Inl WriteFailed, unlink w1 tmpl))
      | RenameFails \<Rightarrow>
          (let w1 = w\<lparr>fs := (fs w)(tmpl \<mapsto> new_session_inode w blob)\<rparr>
           in (Inl WriteFailed, unlink w1 tmpl))
      | Done \<Rightarrow>
          (let w1 = w\<lparr>fs := (fs w)(tmpl \<mapsto> new_session_inode w blob)\<rparr>
           in (Inr (), w1\<lparr>fs := (fs w1)(path := fs w1 tmpl, tmpl := None)\<rparr>)))"

text \<open>\<open>sfx\<close> stands for the six characters \<^verbatim>\<open>mkstemp\<close> chooses.\<close>

definition session_file_write ::
    "world \<Rightarrow> string \<Rightarrow> string \<Rightarrow> string \<Rightarrow> write_outcome \<Rightarrow> (session_error + unit) \<times> world" where
  "session_file_write w sid blob sfx oc =
     (case session_file w sid of
        (Inl e, w') \<Rightarrow> (Inl e, w')
      | (Inr path, w') \<Rightarrow> write_path w' path (path @ ''.'' @ sfx) blob oc)"

definition session_file_remove :: "world \<Rightarrow> string \<Rightarrow> (session_error + unit) \<times> world" where
  "session_file_remove w sid =
     (case session_file w sid of
        (Inl e, w') \<Rightarrow> (Inl e, w')
      | (Inr path, w') \<Rightarrow> (Inr (), unlink w' path))"

subsection \<open>Garbage collection\<close>

definition stamp_path :: "string \<Rightarrow> string" where
  "stamp_path dir = dir @ ''/.gc-stamp''"

definition session_gc_claim :: "world \<Rightarrow> string \<Rightarrow> int \<Rightarrow> int \<Rightarrow> bool \<times> world" where
  "session_gc_claim w dir every t =
     (let stamp = stamp_path dir;
          fresh = \<lparr>kind = Reg, uid = euid w, mode = 0x180, nlink = 1, mtime = now w, content = []\<rparr>
      in if denied w stamp \<or> (fs w stamp = None \<and> \<not> creatable w stamp) then (False, w)
         else let w1 = (if fs w stamp = None then w\<lparr>fs := (fs w)(stamp \<mapsto> fresh)\<rparr> else w);
                  st = (case fs w1 stamp of Some i \<Rightarrow> i | None \<Rightarrow> fresh)
              in if \<not> lock_free w \<or> kind st \<noteq> Reg \<or> uid st \<noteq> euid w \<or>
                    (content st \<noteq> [] \<and> t - mtime st < every) then (False, w1)
                 else if \<not> stamp_io w then (False, w1)
                 else (True, w1\<lparr>fs := (fs w1)(stamp \<mapsto>
                         st\<lparr>mtime := now w, content := CHR ''1'' # drop 1 (content st)\<rparr>)\<rparr>))"

definition sess_entry :: "string \<Rightarrow> string \<Rightarrow> string option" where
  "sess_entry dir p =
     (if prefix (dir @ ''/look_sess_'') p \<and> CHR ''/'' \<notin> set (drop (length dir + 1) p)
      then Some (drop (length dir + 1) p) else None)"

definition gc_expired :: "world \<Rightarrow> int \<Rightarrow> int \<Rightarrow> string \<Rightarrow> inode \<Rightarrow> bool" where
  "gc_expired w ttl_sec t name st =
     (kind st = Reg \<and> uid st = euid w \<and>
      (let tmp = CHR ''.'' \<in> set name; age = t - mtime st
       in (if tmp then (if 3600 < ttl_sec then ttl_sec else 3600) else ttl_sec) < age))"

definition session_gc_sweep :: "world \<Rightarrow> string \<Rightarrow> int \<Rightarrow> int \<Rightarrow> world" where
  "session_gc_sweep w dir ttl_sec t =
     w\<lparr>fs := (\<lambda>p. case (sess_entry dir p, fs w p) of
                    (Some name, Some st) \<Rightarrow> if gc_expired w ttl_sec t name st then None else Some st
                  | (_, i) \<Rightarrow> i)\<rparr>"

definition session_gc_run :: "world \<Rightarrow> int \<Rightarrow> world" where
  "session_gc_run w ttl_sec =
     (let t = now w; every = (if ttl_sec < 300 then ttl_sec else 300)
      in case session_dir w of
           (Inl e, w') \<Rightarrow> w'
         | (Inr dir, w') \<Rightarrow>
             (case session_gc_claim w' dir every t of
                (False, w'') \<Rightarrow> w''
              | (True, w'') \<Rightarrow> session_gc_sweep w'' dir ttl_sec t))"

text \<open>A started thread is recorded in \<open>gc_thread\<close> and runs later as \<open>session_gc_job\<close>.\<close>

definition session_gc_job :: "world \<Rightarrow> world" where
  "session_gc_job w =
     (case gc_thread w of
        None \<Rightarrow> w
      | Some ttl \<Rightarrow> (session_gc_run (w\<lparr>gc_thread := None\<rparr>) ttl)\<lparr>gc_running := False\<rparr>)"

definition session_files_gc :: "world \<Rightarrow> int \<Rightarrow> world" where
  "session_files_gc w ttl_sec =
     (if ttl_sec \<le> 0 then w
      else let every = (if ttl_sec < 300 then ttl_sec else 300)
           in if now w - gc_last w < every then w
              else let w1 = w\<lparr>gc_last := now w\<rparr>
                   in if gc_short_lived w1 then w1\<lparr>gc_pending_ttl := ttl_sec\<rparr>
                      else if gc_running w1 then w1
                      else if thread_ok w1 then w1\<lparr>gc_running := True, gc_thread := Some ttl_sec\<rparr>
                      else (session_gc_run (w1\<lparr>gc_running := True\<rparr>) ttl_sec)\<lparr>gc_running := False\<rparr>)"

definition session_gc_run_pending :: "world \<Rightarrow> world" where
  "session_gc_run_pending w =
     (let ttl = gc_pending_ttl w; w1 = w\<lparr>gc_pending_ttl := 0\<rparr>
      in if 0 < ttl then session_gc_run w1 ttl else w1)"

definition set_gc_short_lived :: "world \<Rightarrow> bool \<Rightarrow> world" where
  "set_gc_short_lived w on = w\<lparr>gc_short_lived := on\<rparr>"

definition session_dir_startup_problem :: "world \<Rightarrow> dir_problem option \<times> world" where
  "session_dir_startup_problem w =
     (if env w ''LOOK_SESSION_DRIVER'' = Some ''redis'' then (None, w)
      else case nonempty_env w ''LOOK_SESSION_DIR'' of
             None \<Rightarrow> (None, w)
           | Some e \<Rightarrow> session_dir_ok (session_dir_make_parents w e) e True)"

subsection \<open>Reading\<close>

lemma session_file_cached: "ok_dir w \<noteq> [] \<Longrightarrow> session_file w sid = (Inr (sess_path (ok_dir w) sid), w)"
  by (simp add: session_file_def session_dir_def)

lemma sess_path_inject [simp]: "sess_path d s = sess_path d t \<longleftrightarrow> s = t"
  by (simp add: sess_path_def)

text \<open>What a session identifier denotes: the content of its file when the file is this user's own
  and not expired.\<close>

definition session_lookup :: "world \<Rightarrow> int \<Rightarrow> string \<Rightarrow> string option" where
  "session_lookup w ttl sid =
     (let p = sess_path (ok_dir w) sid
      in if denied w p then None
         else case fs w p of
                None \<Rightarrow> None
              | Some st \<Rightarrow> if own_session_inode w st \<and> \<not> (0 < ttl \<and> ttl < now w - mtime st)
                            then Some (content st) else None)"

lemma read_path_lookup:
  "fst (fst (read_path w (sess_path (ok_dir w) sid) ttl)) =
     (case session_lookup w ttl sid of None \<Rightarrow> [] | Some s \<Rightarrow> s)"
  by (auto simp: read_path_def session_lookup_def lstat_def Let_def own_session_inode_def
      split: option.splits fkind.splits if_splits)

lemma session_file_read_lookup:
  assumes "ok_dir w \<noteq> []"
  shows "\<exists>foreign w'. session_file_read w sid ttl =
     (Inr (case session_lookup w ttl sid of None \<Rightarrow> [] | Some s \<Rightarrow> s, foreign), w')"
  using read_path_lookup [of w sid ttl] assms
  by (auto simp: session_file_read_def session_file_cached split: prod.splits)

subsection \<open>Writing\<close>

definition session_put :: "world \<Rightarrow> string \<Rightarrow> string \<Rightarrow> string \<Rightarrow> world" where
  "session_put sfx_world sfx sid blob = snd (session_file_write sfx_world sid blob sfx Done)"

definition sess_world_ok :: "string \<Rightarrow> int \<Rightarrow> world \<Rightarrow> bool" where
  "sess_world_ok d ttl w \<longleftrightarrow> d \<noteq> [] \<and> ok_dir w = d \<and> 0 \<le> ttl \<and> (\<forall>p. \<not> denied w p)"

lemma new_session_inode_own: "own_session_inode w (new_session_inode w' b) \<longleftrightarrow> euid w = euid w'"
  by (auto simp: own_session_inode_def new_session_inode_def loose_def)

lemma write_done_fs:
  "tmpl \<noteq> path \<Longrightarrow> fs (snd (write_path w path tmpl blob Done)) =
     (fs w)(path \<mapsto> new_session_inode w blob, tmpl := None)"
  by (auto simp: write_path_def Let_def)

text \<open>A session identifier is hexadecimal, so no temporary name of one session is the file of
  another.\<close>

lemma valid_sid_no_dot: "valid_sid s \<Longrightarrow> CHR ''.'' \<notin> set s"
  by (auto simp: valid_sid_def list_all_iff sid_hex_char_def code_of_def)

lemma valid_sid_no_slash: "valid_sid s \<Longrightarrow> CHR ''/'' \<notin> set s"
  by (auto simp: valid_sid_def list_all_iff sid_hex_char_def code_of_def)

lemma session_put_lookup:
  assumes "ok_dir w \<noteq> []" "\<not> denied w (sess_path (ok_dir w) sid)" "CHR ''.'' \<notin> set sid'" "0 \<le> ttl"
  shows "session_lookup (session_put w sfx sid blob) ttl sid' =
     (if sid' = sid then Some blob else session_lookup w ttl sid')"
proof -
  let ?p = "sess_path (ok_dir w) sid" and ?t = "sess_path (ok_dir w) sid @ ''.'' @ sfx"
  have put: "session_put w sfx sid blob = snd (write_path w ?p ?t blob Done)"
    using assms(1) by (simp add: session_put_def session_file_write_def session_file_cached)
  have "sid' \<noteq> sid @ ''.'' @ sfx" using assms(3) by auto
  then have t: "?t \<noteq> sess_path (ok_dir w) sid'" by (simp add: sess_path_def)
  have w: "snd (write_path w ?p ?t blob Done) =
      w\<lparr>fs := (fs w)(?p \<mapsto> new_session_inode w blob, ?t := None)\<rparr>"
    by (auto simp: write_path_def Let_def)
  show ?thesis
    using assms(2,4) t unfolding put w
    by (auto simp: session_lookup_def Let_def own_session_inode_def new_session_inode_def loose_def
        split: option.splits)
qed

lemma session_put_world_ok: "sess_world_ok d ttl w \<Longrightarrow> sess_world_ok d ttl (session_put w sfx sid b)"
  by (auto simp: sess_world_ok_def session_put_def session_file_write_def session_file_cached
      write_path_def Let_def unlink_def)

text \<open>The identifiers the program admits, and the files of a session directory as a key-value
  store over them.\<close>

typedef hex_sid = "{s. valid_sid s}"
proof
  show "replicate 32 (CHR ''0'') \<in> {s. valid_sid s}"
    by (simp add: valid_sid_def list_all_iff sid_hex_char_def code_of_def)
qed

lemma Rep_hex_sid_valid [simp]: "valid_sid (Rep_hex_sid s)"
  using Rep_hex_sid [of s] by simp

interpretation session_store: kv_store "sess_world_ok d ttl"
    "\<lambda>w sid. session_lookup w ttl (Rep_hex_sid sid)"
    "\<lambda>w sid b. session_put w sfx (Rep_hex_sid sid) b" for d ttl sfx
proof
  fix s k v k'
  assume "sess_world_ok d ttl s"
  then show "session_lookup (session_put s sfx (Rep_hex_sid k) v) ttl (Rep_hex_sid k') =
      (if k' = k then Some v else session_lookup s ttl (Rep_hex_sid k'))"
    using session_put_lookup [of s "Rep_hex_sid k" "Rep_hex_sid k'" ttl sfx v] valid_sid_no_dot
    by (auto simp: sess_world_ok_def Rep_hex_sid_inject)
next
  fix s k v
  assume "sess_world_ok d ttl s"
  then show "sess_world_ok d ttl (session_put s sfx (Rep_hex_sid k) v)"
    by (rule session_put_world_ok)
qed

lemma write_failure_fs:
  assumes "ok_dir w \<noteq> []" "oc \<noteq> Done" "fs w (sess_path (ok_dir w) sid @ ''.'' @ sfx) = None"
  shows "fst (session_file_write w sid blob sfx oc) = Inl WriteFailed \<and>
     fs (snd (session_file_write w sid blob sfx oc)) = fs w"
  using assms
  by (cases oc) (auto simp: session_file_write_def session_file_cached write_path_def Let_def unlink_def fun_eq_iff)

subsection \<open>Collecting\<close>

lemma sess_entry_sid:
  "valid_sid sid \<Longrightarrow> sess_entry d (sess_path d sid) = Some (''look_sess_'' @ sid)"
  using valid_sid_no_slash [of sid] by (simp add: sess_entry_def sess_path_def)

lemma sweep_lookup:
  assumes "valid_sid sid" "ok_dir w = d" "0 < ttl"
  shows "session_lookup (session_gc_sweep w d ttl (now w)) ttl sid = session_lookup w ttl sid"
proof -
  have "CHR ''.'' \<notin> set (''look_sess_'' @ sid)" using valid_sid_no_dot [OF assms(1)] by simp
  then show ?thesis
    using assms sess_entry_sid [OF assms(1), of d]
    by (auto simp: session_lookup_def session_gc_sweep_def Let_def gc_expired_def own_session_inode_def
        split: option.splits)
qed

lemma sweep_fs:
  "fs (session_gc_sweep w d ttl t) p =
     (if \<exists>name st. sess_entry d p = Some name \<and> fs w p = Some st \<and> gc_expired w ttl t name st
      then None else fs w p)"
  by (auto simp: session_gc_sweep_def split: option.splits)

lemma claim_stamped:
  assumes "session_gc_claim w d every t = (True, w')"
  shows "\<exists>st. fs w' (stamp_path d) = Some st \<and> mtime st = now w \<and> content st \<noteq> []"
  using assms by (auto simp: session_gc_claim_def Let_def split: if_splits)

lemma claim_refused:
  assumes "fs w (stamp_path d) = Some st" "content st \<noteq> []" "t - mtime st < every"
  shows "\<not> fst (session_gc_claim w d every t)"
  using assms by (auto simp: session_gc_claim_def Let_def)

subsection \<open>Properties\<close>

text \<open>C32: A planted file never becomes a session: what a read returns is the content of a regular
  file with a single link, owned by this user and closed to everyone else, written within the
  lifetime; anything else reads as an empty session.\<close>

theorem session_read_only_own:
  assumes "ok_dir w \<noteq> []" and "session_file_read w sid ttl = (Inr (s, foreign), w')" and "s \<noteq> []"
  shows "\<exists>st. fs w (sess_path (ok_dir w) sid) = Some st \<and> s = content st \<and> kind st = Reg \<and>
     uid st = euid w \<and> \<not> loose (mode st) \<and> nlink st = 1 \<and> (0 < ttl \<longrightarrow> now w - mtime st \<le> ttl)"
proof -
  have "s = (case session_lookup w ttl sid of None \<Rightarrow> [] | Some s \<Rightarrow> s)"
    using session_file_read_lookup [OF assms(1), of sid ttl] assms(2) by auto
  then have "session_lookup w ttl sid = Some s" using assms(3) by (auto split: option.splits)
  then show ?thesis
    by (auto simp: session_lookup_def Let_def own_session_inode_def split: option.splits if_splits)
qed

definition demo_world :: world where
  "demo_world = \<lparr>fs = [''/s/look_sess_ab'' \<mapsto> \<lparr>kind = Reg, uid = 7, mode = 0x180, nlink = 1, mtime = 50, content = ''x=1''\<rparr>],
     euid = 7, now = 60, env = Map.empty, denied = (\<lambda>p. False), creatable = (\<lambda>p. True), lock_free = True,
     stamp_io = True, thread_ok = True, ok_dir = ''/s'', gc_last = 0, gc_running = False,
     gc_short_lived = False, gc_pending_ttl = 0, gc_thread = None\<rparr>"

lemma demo_read: "session_file_read demo_world ''ab'' 100 = (Inr (''x=1'', False), demo_world)"
  by (simp add: session_file_read_def session_file_def session_dir_def read_path_def lstat_def
      sess_path_def demo_world_def own_session_inode_def loose_def)

theorem session_read_only_own_witness:
  "\<exists>st. fs demo_world (sess_path (ok_dir demo_world) ''ab'') = Some st \<and> ''x=1'' = content st \<and> kind st = Reg \<and>
     uid st = euid demo_world \<and> \<not> loose (mode st) \<and> nlink st = 1 \<and> now demo_world - mtime st \<le> 100"
proof -
  have "ok_dir demo_world \<noteq> []" by (simp add: demo_world_def)
  from session_read_only_own [OF this demo_read] show ?thesis by auto
qed



text \<open>C33: A write that fails at any point, the temporary file, any number of written bytes or the
  rename, reports the error and leaves every file as it was: a half-written session is never
  read.\<close>

theorem session_write_atomic:
  assumes "ok_dir w \<noteq> []" "oc \<noteq> Done" "fs w (sess_path (ok_dir w) sid @ ''.'' @ sfx) = None"
  shows "fst (session_file_write w sid blob sfx oc) = Inl WriteFailed \<and>
     fs (snd (session_file_write w sid blob sfx oc)) = fs w"
  using assms by (rule write_failure_fs)

theorem session_write_atomic_witness:
  "fst (session_file_write demo_world ''ab'' ''y=2'' ''Xy12ab'' (WriteFails 1)) = Inl WriteFailed \<and>
   fs (snd (session_file_write demo_world ''ab'' ''y=2'' ''Xy12ab'' (WriteFails 1))) = fs demo_world"
  by (rule session_write_atomic) (simp_all add: demo_world_def sess_path_def)

text \<open>Collecting garbage never changes what a session reads as: for every admitted identifier the
  sweep removes the file only if the read would refuse it as expired anyway.\<close>

theorem session_sweep_transparent:
  assumes "valid_sid sid" "ok_dir w = d" "0 < ttl"
  shows "session_lookup (session_gc_sweep w d ttl (now w)) ttl sid = session_lookup w ttl sid"
  using assms by (rule sweep_lookup)

theorem session_sweep_transparent_witness:
  "session_lookup (session_gc_sweep demo_world ''/s'' 5 (now demo_world)) 5 (replicate 32 CHR ''a'') =
   session_lookup demo_world 5 (replicate 32 CHR ''a'')"
  by (rule session_sweep_transparent)
     (simp_all add: demo_world_def valid_sid_def list_all_iff sid_hex_char_def code_of_def)

text \<open>Among all processes a sweep is claimed at most once per interval: after a claim at some
  time, every claim before the interval has passed is refused.\<close>

theorem session_gc_once_per_interval:
  assumes "session_gc_claim w d every t = (True, w')" and "fs w'' (stamp_path d) = fs w' (stamp_path d)"
    and "t' < now w + every"
  shows "\<not> fst (session_gc_claim w'' d every t')"
proof -
  obtain st where st: "fs w' (stamp_path d) = Some st" "mtime st = now w" "content st \<noteq> []"
    using claim_stamped [OF assms(1)] by blast
  show ?thesis by (rule claim_refused [of _ _ st]) (use st assms in auto)
qed

theorem session_gc_once_per_interval_witness:
  "\<not> fst (session_gc_claim (snd (session_gc_claim demo_world ''/s'' 300 60)) ''/s'' 300 200)"
proof (rule session_gc_once_per_interval [where w = demo_world and t = 60])
  show "session_gc_claim demo_world ''/s'' 300 60 = (True, snd (session_gc_claim demo_world ''/s'' 300 60))"
    by (simp add: session_gc_claim_def demo_world_def stamp_path_def Let_def)
qed (simp_all add: demo_world_def)

text \<open>The session directory is used only if it is a real directory of this user, closed to group
  and others; a symbolic link, another owner or a loose mode is refused with its reason, and a
  missing directory is created closed.\<close>

theorem session_dir_ok_iff:
  "fst (session_dir_ok w dir create) = None \<longleftrightarrow>
     \<not> denied w dir \<and>
     (case fs w dir of
        Some st \<Rightarrow> kind st = Dir \<and> uid st = euid w \<and> \<not> loose (mode st)
      | None \<Rightarrow> create \<and> creatable w dir)"
  by (auto simp: session_dir_ok_def lstat_def mkdir_def loose_def split: option.splits fkind.splits if_splits)

end
