(* ===== verification/Values.thy ===== *)
theory Values
  imports Int_Overflow Url_Safe
begin

text \<open>
  The dynamic value of the language (\<^verbatim>\<open>Value\<close> in \<^verbatim>\<open>interpreter.h\<close>) with its conversions,
  arithmetic, comparison and bitwise operators (\<^verbatim>\<open>interpreter.cpp\<close>). An integer is a 64-bit
  word read with \<^const>\<open>sint\<close>. Arrays, functions and handles are references (addresses) into a
  heap, strings are values: the copy-on-write of \<^verbatim>\<open>append_in_place\<close> makes sharing of string
  buffers unobservable. Floating point numbers are a type variable and their operations a
  record, so what is proved holds for every implementation of \<^verbatim>\<open>double\<close>.
\<close>

type_synonym addr = nat

datatype 'f Value = V_INT u64 | V_FLOAT 'f | V_STRING string | V_BOOL bool | V_FUNCTION addr | V_ARRAY addr
  | V_CHANNEL addr | V_WEBSOCKET addr | V_SSE_CONN addr | V_BYTECODE_FN addr | V_NONE

record 'f float_ops =
  f_of_int :: "int \<Rightarrow> 'f"
  f_to_int :: "'f \<Rightarrow> u64"
  f_parse :: "string \<Rightarrow> ('f \<times> nat) option"
  f_zero :: 'f
  f_one :: 'f
  f_neg :: "'f \<Rightarrow> 'f"
  f_add :: "'f \<Rightarrow> 'f \<Rightarrow> 'f"
  f_sub :: "'f \<Rightarrow> 'f \<Rightarrow> 'f"
  f_mul :: "'f \<Rightarrow> 'f \<Rightarrow> 'f"
  f_div :: "'f \<Rightarrow> 'f \<Rightarrow> 'f"
  f_pow :: "'f \<Rightarrow> 'f \<Rightarrow> 'f"
  f_eq :: "'f \<Rightarrow> 'f \<Rightarrow> bool"
  f_lt :: "'f \<Rightarrow> 'f \<Rightarrow> bool"
  f_le :: "'f \<Rightarrow> 'f \<Rightarrow> bool"

datatype value_error = NonNumeric | EmptyNumber | Bignum string | NotANumber string
  | DivisionByZero | ModuloByZero | Incomparable

subsection \<open>Conversions\<close>

text \<open>\<^verbatim>\<open>std::stoll\<close> in base ten: the value and the number of characters read, or one of the two
  exceptions.\<close>

datatype stoll_result = StollOk u64 nat | StollInvalid | StollRange

definition stoll :: "string \<Rightarrow> stoll_result" where
  "stoll s =
     (let s1 = dropWhile isspace s;
          neg = (s1 \<noteq> [] \<and> hd s1 = CHR ''-'');
          s2 = (if s1 \<noteq> [] \<and> (hd s1 = CHR ''-'' \<or> hd s1 = CHR ''+'') then tl s1 else s1);
          ds = takeWhile isdigit s2;
          n = (if neg then - digits_value 0 ds else digits_value 0 ds)
      in if ds = [] then StollInvalid
         else if \<not> fits_i64 n then StollRange
         else StollOk (word_of_int n) (length s - length s2 + length ds))"

definition to_int :: "'f float_ops \<Rightarrow> 'f Value \<Rightarrow> u64" where
  "to_int F v =
     (case v of
        V_INT i \<Rightarrow> i
      | V_FLOAT d \<Rightarrow> f_to_int F d
      | V_STRING s \<Rightarrow> (case stoll s of StollOk i n \<Rightarrow> i | _ \<Rightarrow> 0)
      | V_BOOL b \<Rightarrow> if b then 1 else 0
      | _ \<Rightarrow> 0)"

definition to_float :: "'f float_ops \<Rightarrow> 'f Value \<Rightarrow> 'f" where
  "to_float F v =
     (case v of
        V_INT i \<Rightarrow> f_of_int F (sint i)
      | V_FLOAT d \<Rightarrow> d
      | V_STRING s \<Rightarrow> (case f_parse F s of Some (d, n) \<Rightarrow> d | None \<Rightarrow> f_zero F)
      | V_BOOL b \<Rightarrow> if b then f_one F else f_zero F
      | _ \<Rightarrow> f_zero F)"

definition is_truthy :: "'f float_ops \<Rightarrow> (addr \<Rightarrow> 'f Value list) \<Rightarrow> 'f Value \<Rightarrow> bool" where
  "is_truthy F h v =
     (case v of
        V_BOOL b \<Rightarrow> b
      | V_INT i \<Rightarrow> i \<noteq> 0
      | V_FLOAT d \<Rightarrow> \<not> f_eq F d (f_zero F)
      | V_STRING s \<Rightarrow> s \<noteq> [] \<and> s \<noteq> ''0''
      | V_NONE \<Rightarrow> False
      | V_ARRAY a \<Rightarrow> h a \<noteq> []
      | _ \<Rightarrow> True)"

subsection \<open>Arithmetic\<close>

definition is_float :: "'f Value \<Rightarrow> bool" where
  "is_float v = (case v of V_FLOAT d \<Rightarrow> True | _ \<Rightarrow> False)"

definition arith_check_string :: "'f float_ops \<Rightarrow> string \<Rightarrow> value_error option" where
  "arith_check_string F s =
     (if s = [] then Some EmptyNumber
      else let as_float = (case f_parse F s of
                             Some (d, pos) \<Rightarrow> if pos = length s then None else Some (NotANumber s)
                           | None \<Rightarrow> Some (NotANumber s))
           in case stoll s of
                StollOk i pos \<Rightarrow> if pos = length s then None else as_float
              | StollRange \<Rightarrow> Some (Bignum s)
              | StollInvalid \<Rightarrow> as_float)"

definition arith_check :: "'f float_ops \<Rightarrow> 'f Value \<Rightarrow> value_error option" where
  "arith_check F v =
     (case v of
        V_INT i \<Rightarrow> None | V_FLOAT d \<Rightarrow> None | V_BOOL b \<Rightarrow> None
      | V_STRING s \<Rightarrow> arith_check_string F s
      | _ \<Rightarrow> Some NonNumeric)"

definition checked :: "'f float_ops \<Rightarrow> 'f Value \<Rightarrow> 'f Value \<Rightarrow> (value_error + 'f Value) \<Rightarrow> value_error + 'f Value" where
  "checked F a b r =
     (case arith_check F a of
        Some e \<Rightarrow> Inl e
      | None \<Rightarrow> (case arith_check F b of Some e \<Rightarrow> Inl e | None \<Rightarrow> r))"

definition val_add :: "'f float_ops \<Rightarrow> 'f Value \<Rightarrow> 'f Value \<Rightarrow> value_error + 'f Value" where
  "val_add F x y = checked F x y
     (if is_float x \<or> is_float y then Inr (V_FLOAT (f_add F (to_float F x) (to_float F y)))
      else let a = to_int F x; b = to_int F y; (r, ovf) = i64_add_ovf a b
           in if ovf then Inr (V_FLOAT (f_add F (f_of_int F (sint a)) (f_of_int F (sint b)))) else Inr (V_INT r))"

definition val_sub :: "'f float_ops \<Rightarrow> 'f Value \<Rightarrow> 'f Value \<Rightarrow> value_error + 'f Value" where
  "val_sub F x y = checked F x y
     (if is_float x \<or> is_float y then Inr (V_FLOAT (f_sub F (to_float F x) (to_float F y)))
      else let a = to_int F x; b = to_int F y; (r, ovf) = i64_sub_ovf a b
           in if ovf then Inr (V_FLOAT (f_sub F (f_of_int F (sint a)) (f_of_int F (sint b)))) else Inr (V_INT r))"

definition val_mul :: "'f float_ops \<Rightarrow> 'f Value \<Rightarrow> 'f Value \<Rightarrow> value_error + 'f Value" where
  "val_mul F x y = checked F x y
     (if is_float x \<or> is_float y then Inr (V_FLOAT (f_mul F (to_float F x) (to_float F y)))
      else let a = to_int F x; b = to_int F y; (r, ovf) = i64_mul_ovf a b
           in if ovf then Inr (V_FLOAT (f_mul F (f_of_int F (sint a)) (f_of_int F (sint b)))) else Inr (V_INT r))"

definition val_div :: "'f float_ops \<Rightarrow> 'f Value \<Rightarrow> 'f Value \<Rightarrow> value_error + 'f Value" where
  "val_div F x y = checked F x y
     (let d = to_float F y
      in if f_eq F d (f_zero F) then Inl DivisionByZero
         else if is_float x \<or> is_float y then Inr (V_FLOAT (f_div F (to_float F x) d))
         else let i = sint (to_int F y); self_i = sint (to_int F x)
              in if i = -1 \<and> self_i = - (2 ^ 63) then Inr (V_FLOAT (f_neg F (f_of_int F self_i)))
                 else if i \<noteq> 0 \<and> self_i smod i = 0 then Inr (V_INT (word_of_int (self_i sdiv i)))
                 else Inr (V_FLOAT (f_div F (to_float F x) d)))"

definition val_mod :: "'f float_ops \<Rightarrow> 'f Value \<Rightarrow> 'f Value \<Rightarrow> value_error + 'f Value" where
  "val_mod F x y = checked F x y
     (let i = sint (to_int F y)
      in if i = 0 then Inl ModuloByZero
         else if i = -1 then Inr (V_INT 0)
         else Inr (V_INT (word_of_int (sint (to_int F x) smod i))))"

definition val_pow :: "'f float_ops \<Rightarrow> 'f Value \<Rightarrow> 'f Value \<Rightarrow> 'f Value" where
  "val_pow F x y = V_FLOAT (f_pow F (to_float F x) (to_float F y))"

subsection \<open>Comparison\<close>

definition val_is_number :: "'f Value \<Rightarrow> bool" where
  "val_is_number v = (case v of V_INT i \<Rightarrow> True | V_FLOAT d \<Rightarrow> True | _ \<Rightarrow> False)"

definition int_of_value :: "'f Value \<Rightarrow> u64 option" where
  "int_of_value v = (case v of V_INT i \<Rightarrow> Some i | _ \<Rightarrow> None)"

definition string_of_value :: "'f Value \<Rightarrow> string option" where
  "string_of_value v = (case v of V_STRING s \<Rightarrow> Some s | _ \<Rightarrow> None)"

definition val_eq :: "'f float_ops \<Rightarrow> 'f Value \<Rightarrow> 'f Value \<Rightarrow> bool" where
  "val_eq F v w =
     (if val_is_number v \<and> val_is_number w then
        (case (int_of_value v, int_of_value w) of
           (Some a, Some b) \<Rightarrow> a = b
         | _ \<Rightarrow> f_eq F (to_float F v) (to_float F w))
      else case v of
             V_STRING s \<Rightarrow> (case w of V_STRING t \<Rightarrow> s = t | _ \<Rightarrow> False)
           | V_BOOL x \<Rightarrow> (case w of V_BOOL y \<Rightarrow> x = y | _ \<Rightarrow> False)
           | V_NONE \<Rightarrow> (case w of V_NONE \<Rightarrow> True | _ \<Rightarrow> False)
           | V_FUNCTION a \<Rightarrow> (case w of V_FUNCTION b \<Rightarrow> a = b | _ \<Rightarrow> False)
           | V_CHANNEL a \<Rightarrow> (case w of V_CHANNEL b \<Rightarrow> a = b | _ \<Rightarrow> False)
           | V_WEBSOCKET a \<Rightarrow> (case w of V_WEBSOCKET b \<Rightarrow> a = b | _ \<Rightarrow> False)
           | V_SSE_CONN a \<Rightarrow> (case w of V_SSE_CONN b \<Rightarrow> a = b | _ \<Rightarrow> False)
           | V_BYTECODE_FN a \<Rightarrow> (case w of V_BYTECODE_FN b \<Rightarrow> a = b | _ \<Rightarrow> False)
           | _ \<Rightarrow> False)"

text \<open>Byte-wise order of \<^verbatim>\<open>std::string\<close>.\<close>

fun str_less :: "string \<Rightarrow> string \<Rightarrow> bool" where
  "str_less [] [] = False"
| "str_less [] (y # ys) = True"
| "str_less (x # xs) [] = False"
| "str_less (x # xs) (y # ys) = (code_of x < code_of y \<or> (x = y \<and> str_less xs ys))"

text \<open>The common shape of the four orderings: exact on two integers, through floats on two other
  numbers, byte-wise on two strings, an error on anything else.\<close>

definition val_order ::
    "'f float_ops \<Rightarrow> (int \<Rightarrow> int \<Rightarrow> bool) \<Rightarrow> ('f \<Rightarrow> 'f \<Rightarrow> bool) \<Rightarrow> (string \<Rightarrow> string \<Rightarrow> bool) \<Rightarrow>
       'f Value \<Rightarrow> 'f Value \<Rightarrow> value_error + bool" where
  "val_order F ri rf rs v w =
     (case (int_of_value v, int_of_value w) of
        (Some a, Some b) \<Rightarrow> Inr (ri (sint a) (sint b))
      | _ \<Rightarrow>
          if val_is_number v \<and> val_is_number w then Inr (rf (to_float F v) (to_float F w))
          else case (string_of_value v, string_of_value w) of
                 (Some s, Some t) \<Rightarrow> Inr (rs s t)
               | _ \<Rightarrow> Inl Incomparable)"

definition val_less :: "'f float_ops \<Rightarrow> 'f Value \<Rightarrow> 'f Value \<Rightarrow> value_error + bool" where
  "val_less F = val_order F (\<lambda>a b. a < b) (f_lt F) str_less"

definition val_less_eq :: "'f float_ops \<Rightarrow> 'f Value \<Rightarrow> 'f Value \<Rightarrow> value_error + bool" where
  "val_less_eq F = val_order F (\<lambda>a b. a \<le> b) (f_le F) (\<lambda>s t. str_less s t \<or> s = t)"

definition val_greater :: "'f float_ops \<Rightarrow> 'f Value \<Rightarrow> 'f Value \<Rightarrow> value_error + bool" where
  "val_greater F = val_order F (\<lambda>a b. a > b) (\<lambda>x y. f_lt F y x) (\<lambda>s t. str_less t s)"

definition val_greater_eq :: "'f float_ops \<Rightarrow> 'f Value \<Rightarrow> 'f Value \<Rightarrow> value_error + bool" where
  "val_greater_eq F = val_order F (\<lambda>a b. a \<ge> b) (\<lambda>x y. f_le F y x) (\<lambda>s t. str_less t s \<or> s = t)"

definition spaceship :: "'f float_ops \<Rightarrow> 'f Value \<Rightarrow> 'f Value \<Rightarrow> value_error + int" where
  "spaceship F v w =
     (if val_eq F v w then Inr 0
      else case val_less F v w of Inl e \<Rightarrow> Inl e | Inr b \<Rightarrow> Inr (if b then -1 else 1))"

subsection \<open>Bits\<close>

definition bitwise_and :: "'f float_ops \<Rightarrow> 'f Value \<Rightarrow> 'f Value \<Rightarrow> 'f Value" where
  "bitwise_and F x y = V_INT (to_int F x AND to_int F y)"

definition bitwise_or :: "'f float_ops \<Rightarrow> 'f Value \<Rightarrow> 'f Value \<Rightarrow> 'f Value" where
  "bitwise_or F x y = V_INT (to_int F x OR to_int F y)"

definition bitwise_xor :: "'f float_ops \<Rightarrow> 'f Value \<Rightarrow> 'f Value \<Rightarrow> 'f Value" where
  "bitwise_xor F x y = V_INT (to_int F x XOR to_int F y)"

definition bitwise_not :: "'f float_ops \<Rightarrow> 'f Value \<Rightarrow> 'f Value" where
  "bitwise_not F x = V_INT (NOT (to_int F x))"

definition shift_left :: "'f float_ops \<Rightarrow> 'f Value \<Rightarrow> 'f Value \<Rightarrow> 'f Value" where
  "shift_left F x y =
     (let n = sint (to_int F y)
      in if n < 0 \<or> 64 \<le> n then V_INT 0 else V_INT (push_bit (nat n) (to_int F x)))"

definition shift_right :: "'f float_ops \<Rightarrow> 'f Value \<Rightarrow> 'f Value \<Rightarrow> 'f Value" where
  "shift_right F x y =
     (let n = sint (to_int F y)
      in if n < 0 \<or> 64 \<le> n then V_INT 0 else V_INT (signed_drop_bit (nat n) (to_int F x)))"

subsection \<open>Integer results\<close>

lemma checked_ints [simp]: "checked F (V_INT a) (V_INT b) r = r"
  by (simp add: checked_def arith_check_def)

lemma int_ops [simp]: "to_int F (V_INT a) = a" "\<not> is_float (V_INT a)" "to_float F (V_INT a) = f_of_int F (sint a)"
  by (simp_all add: to_int_def is_float_def to_float_def)

lemma sint_of_fits: "fits_i64 k \<Longrightarrow> sint (word_of_int k :: u64) = k"
  by (simp add: signed_of_int signed_take_bit_63 wrap_in_range fits_i64_def)

lemma sint_eq_iff_word: "sint a = sint b \<longleftrightarrow> a = (b :: u64)"
  by (metis of_int_sint scast_id)

lemma smod_abs_less: "b \<noteq> 0 \<Longrightarrow> \<bar>a smod b\<bar> < \<bar>b :: int\<bar>"
  by (auto simp: signed_modulo_int_def abs_mult sgn_if)

lemma smod_zero_iff: "a smod b = 0 \<longleftrightarrow> (b :: int) dvd a"
  by (cases "a = 0") (auto simp: signed_modulo_int_def sgn_0_0 simp flip: dvd_eq_mod_eq_0)

lemma sdiv_exact: "b \<noteq> 0 \<Longrightarrow> (b :: int) dvd a \<Longrightarrow> b * (a sdiv b) = a"
  using mult_sdiv_smod_eq [of b a] smod_zero_iff [of a b] by simp

lemma sdiv_fits:
  assumes "fits_i64 a" "b \<noteq> 0" "b dvd a" "\<not> (b = -1 \<and> a = - (2 ^ 63))"
  shows "fits_i64 (a sdiv b)"
proof -
  let ?q = "a sdiv b"
  have q: "b * ?q = a" using assms(2,3) by (rule sdiv_exact)
  have "\<bar>a\<bar> = \<bar>b\<bar> * \<bar>?q\<bar>" using q by (metis abs_mult)
  moreover have "1 \<le> \<bar>b\<bar>" using assms(2) by linarith
  ultimately have qa: "\<bar>?q\<bar> \<le> \<bar>a\<bar>" by (metis abs_ge_zero mult_le_cancel_right1 mult_less_0_iff not_le)
  show ?thesis
  proof (cases "?q = 2 ^ 63")
    case True
    then have "2 ^ 63 \<le> \<bar>a\<bar>" using qa by simp
    then have "a = - (2 ^ 63)" using assms(1) by (auto simp: fits_i64_def)
    moreover have "b * 2 ^ 63 = a" using q unfolding True .
    ultimately have "b = -1" by simp
    with \<open>a = - (2 ^ 63)\<close> show ?thesis using assms(4) by simp
  next
    case False
    then show ?thesis using qa assms(1) by (auto simp: fits_i64_def)
  qed
qed

lemma word_of_sint_add: "(word_of_int (sint a + sint b) :: u64) = a + b"
  by simp

lemma str_less_trichotomy: "str_less s t \<or> s = t \<or> str_less t s"
  by (induction s t rule: str_less.induct) (auto simp: code_of_inject nat_neq_iff dest: code_of_inject [THEN iffD1])

lemma str_less_asym: "str_less s t \<Longrightarrow> \<not> str_less t s"
  by (induction s t rule: str_less.induct) auto

lemma str_less_irrefl: "\<not> str_less s s"
  using str_less_asym by blast

lemmas val_order_simps = val_less_def val_less_eq_def val_greater_def val_greater_eq_def
  val_order_def int_of_value_def string_of_value_def val_is_number_def

subsection \<open>Properties\<close>


text \<open>Integer division and remainder are the truncating ones of the integers, with no trap for
  any operands: a quotient that is not an integer or does not fit becomes a float, a zero
  divisor an error, and the remainder is exact.\<close>

theorem int_division_exact:
  assumes "\<And>k. f_eq F (f_of_int F k) (f_zero F) \<longleftrightarrow> k = 0"
  shows "val_div F (V_INT a) (V_INT b) =
     (if b = 0 then Inl DivisionByZero
      else if sint b dvd sint a \<and> fits_i64 (sint a sdiv sint b) then Inr (V_INT (word_of_int (sint a sdiv sint b)))
      else if sint b dvd sint a then Inr (V_FLOAT (f_neg F (f_of_int F (sint a))))
      else Inr (V_FLOAT (f_div F (f_of_int F (sint a)) (f_of_int F (sint b))))) \<and>
   val_mod F (V_INT a) (V_INT b) =
     (if b = 0 then Inl ModuloByZero else Inr (V_INT (word_of_int (sint a smod sint b))))"
proof -
  have b0: "sint b = 0 \<longleftrightarrow> b = 0" using sint_eq_iff_word [of b 0] by simp
  have min: "\<not> fits_i64 (- (2 ^ 63) sdiv -1)" by (simp add: fits_i64_def signed_divide_int_def)
  have m1: "sint a smod -1 = 0" by (simp add: smod_zero_iff)
  have "val_div F (V_INT a) (V_INT b) =
     (if b = 0 then Inl DivisionByZero
      else if sint b dvd sint a \<and> fits_i64 (sint a sdiv sint b) then Inr (V_INT (word_of_int (sint a sdiv sint b)))
      else if sint b dvd sint a then Inr (V_FLOAT (f_neg F (f_of_int F (sint a))))
      else Inr (V_FLOAT (f_div F (f_of_int F (sint a)) (f_of_int F (sint b)))))"
    using assms [of "sint b"] min sdiv_fits [OF fits_sint [of a], of "sint b"] b0
    by (auto simp: val_div_def Let_def smod_zero_iff)
  moreover have "val_mod F (V_INT a) (V_INT b) =
     (if b = 0 then Inl ModuloByZero else Inr (V_INT (word_of_int (sint a smod sint b))))"
    using m1 b0 by (auto simp: val_mod_def Let_def)
  ultimately show ?thesis by blast
qed

text \<open>A trivial number type, to evaluate the operators on concrete values.\<close>

definition int_floats :: "int float_ops" where
  "int_floats = \<lparr>f_of_int = id, f_to_int = word_of_int, f_parse = (\<lambda>s. None), f_zero = 0, f_one = 1,
     f_neg = uminus, f_add = (+), f_sub = (-), f_mul = (*), f_div = (div), f_pow = (\<lambda>x y. x ^ nat y),
     f_eq = (=), f_lt = (<), f_le = (\<le>)\<rparr>"

theorem int_division_exact_witness:
  "val_div int_floats (V_INT (- 6)) (V_INT 3) = Inr (V_INT (- 2)) \<and> val_mod int_floats (V_INT (- 7)) (V_INT 3) = Inr (V_INT (- 1))"
  using int_division_exact [of int_floats "- 6" 3] int_division_exact [of int_floats "- 7" 3]
  by (simp add: int_floats_def signed_divide_int_def signed_modulo_int_def fits_i64_def)


text \<open>Text enters arithmetic only when all of it is a number: a string that is accepted was read
  to its end as a 64-bit integer or as a float, so garbage and identifiers too large for 64 bits
  never turn into zero.\<close>

theorem arith_accepts_only_numbers:
  assumes "arith_check F (V_STRING s) = None"
  shows "s \<noteq> [] \<and> ((\<exists>i. stoll s = StollOk i (length s)) \<or> (\<exists>d. f_parse F s = Some (d, length s) \<and> stoll s \<noteq> StollRange))"
  using assms by (auto simp: arith_check_def arith_check_string_def Let_def split: if_splits stoll_result.splits option.splits)

theorem arith_accepts_only_numbers_witness:
  "\<exists>i. stoll ''-12'' = StollOk i (length ''-12'')"
proof -
  have "arith_check int_floats (V_STRING ''-12'') = None" by code_simp
  then show ?thesis using arith_accepts_only_numbers [of int_floats "''-12''"] by (auto simp: int_floats_def)
qed

end
