(* ===== verification/Value_Heap.thy ===== *)
theory Value_Heap
  imports Values
begin

text \<open>
  Arrays live on the heap and are shared by reference: a \<^verbatim>\<open>shared_ptr<vector<Value>>\<close> is an index
  into the list of arrays, an allocation appends to it. This theory has \<^verbatim>\<open>deep_clone\<close> and
  \<^verbatim>\<open>clone_for_thread\<close> of \<^verbatim>\<open>interpreter.h\<close> (the copies that isolate requests and
  threads) and \<^verbatim>\<open>look_count\<close> of
  \<^verbatim>\<open>array_count.h\<close>. The cloners for closures, which other files register as hooks, are
  arguments; without a hook a closure is shared, as in the source.
\<close>

type_synonym 'f arrays = "'f Value list list"

type_synonym 'f clone_hook = "('f Value \<Rightarrow> addr list \<Rightarrow> 'f arrays \<Rightarrow> 'f Value \<times> 'f arrays) option"

definition run_hook :: "'f clone_hook \<Rightarrow> 'f Value \<Rightarrow> addr list \<Rightarrow> 'f arrays \<Rightarrow> 'f Value \<times> 'f arrays" where
  "run_hook hk v vis A = (case hk of None \<Rightarrow> (v, A) | Some f \<Rightarrow> f v vis A)"

text \<open>\<open>n\<close> is the number of arrays when the copy starts: everything reachable lies below it.\<close>

function (sequential) deep_clone_impl ::
    "'f clone_hook \<Rightarrow> nat \<Rightarrow> addr list \<Rightarrow> 'f Value \<Rightarrow> 'f arrays \<Rightarrow> 'f Value \<times> 'f arrays"
  and deep_clone_elems ::
    "'f clone_hook \<Rightarrow> nat \<Rightarrow> addr list \<Rightarrow> 'f Value list \<Rightarrow> 'f arrays \<Rightarrow> 'f Value list \<times> 'f arrays" where
  "deep_clone_impl bc n vis (V_ARRAY a) A =
     (if a \<in> set vis \<or> n \<le> a then (V_NONE, A)
      else let (vs, A') = deep_clone_elems bc n (a # vis) (A ! a) A
           in (V_ARRAY (length A'), A' @ [vs]))"
| "deep_clone_impl bc n vis (V_BYTECODE_FN c) A = run_hook bc (V_BYTECODE_FN c) vis A"
| "deep_clone_impl bc n vis v A = (v, A)"
| "deep_clone_elems bc n vis [] A = ([], A)"
| "deep_clone_elems bc n vis (v # vs) A =
     (let (v', A1) = deep_clone_impl bc n vis v A;
          (vs', A2) = deep_clone_elems bc n vis vs A1
      in (v' # vs', A2))"
  by pat_completeness auto

lemma visited_measure:
  "(a :: nat) \<notin> set vis \<Longrightarrow> a < n \<Longrightarrow> card ({..<n} - set (a # vis)) < card ({..<n} - set vis)"
  by (rule psubset_card_mono) auto

termination deep_clone_impl
proof (relation "measures
    [\<lambda>x. case x of Inl (bc, n, vis, v, A) \<Rightarrow> card ({..<n} - set vis) | Inr (bc, n, vis, vs, A) \<Rightarrow> card ({..<n} - set vis),
     \<lambda>x. case x of Inl (bc, n, vis, v, A) \<Rightarrow> 0 | Inr (bc, n, vis, vs, A) \<Rightarrow> Suc (length vs)]")
  fix bc :: "'f clone_hook" and n a :: nat and vis and A :: "'f arrays"
  assume "\<not> (a \<in> set vis \<or> n \<le> a)"
  then have "card ({..<n} - set (a # vis)) < card ({..<n} - set vis)" by (intro visited_measure) auto
  then show "(Inr (bc, n, a # vis, A ! a, A), Inl (bc, n, vis, V_ARRAY a, A)) \<in> measures
    [\<lambda>x. case x of Inl (bc, n, vis, v, A) \<Rightarrow> card ({..<n} - set vis) | Inr (bc, n, vis, vs, A) \<Rightarrow> card ({..<n} - set vis),
     \<lambda>x. case x of Inl (bc, n, vis, v, A) \<Rightarrow> 0 | Inr (bc, n, vis, vs, A) \<Rightarrow> Suc (length vs)]"
    by simp
qed auto

definition deep_clone :: "'f clone_hook \<Rightarrow> 'f Value \<Rightarrow> 'f arrays \<Rightarrow> 'f Value \<times> 'f arrays" where
  "deep_clone bc v A = deep_clone_impl bc (length A) [] v A"

function (sequential) clone_for_thread_impl ::
    "'f clone_hook \<Rightarrow> 'f clone_hook \<Rightarrow> nat \<Rightarrow> addr list \<Rightarrow> 'f Value \<Rightarrow> 'f arrays \<Rightarrow> 'f Value \<times> 'f arrays"
  and clone_for_thread_elems ::
    "'f clone_hook \<Rightarrow> 'f clone_hook \<Rightarrow> nat \<Rightarrow> addr list \<Rightarrow> 'f Value list \<Rightarrow> 'f arrays \<Rightarrow> 'f Value list \<times> 'f arrays" where
  "clone_for_thread_impl bc fn n vis (V_ARRAY a) A =
     (if a \<in> set vis \<or> n \<le> a then (V_NONE, A)
      else let (vs, A') = clone_for_thread_elems bc fn n (a # vis) (A ! a) A
           in (V_ARRAY (length A'), A' @ [vs]))"
| "clone_for_thread_impl bc fn n vis (V_BYTECODE_FN c) A = run_hook bc (V_BYTECODE_FN c) vis A"
| "clone_for_thread_impl bc fn n vis (V_FUNCTION c) A = run_hook fn (V_FUNCTION c) vis A"
| "clone_for_thread_impl bc fn n vis v A = (v, A)"
| "clone_for_thread_elems bc fn n vis [] A = ([], A)"
| "clone_for_thread_elems bc fn n vis (v # vs) A =
     (let (v', A1) = clone_for_thread_impl bc fn n vis v A;
          (vs', A2) = clone_for_thread_elems bc fn n vis vs A1
      in (v' # vs', A2))"
  by pat_completeness auto

termination clone_for_thread_impl
proof (relation "measures
    [\<lambda>x. case x of Inl (bc, fn, n, vis, v, A) \<Rightarrow> card ({..<n} - set vis) | Inr (bc, fn, n, vis, vs, A) \<Rightarrow> card ({..<n} - set vis),
     \<lambda>x. case x of Inl (bc, fn, n, vis, v, A) \<Rightarrow> 0 | Inr (bc, fn, n, vis, vs, A) \<Rightarrow> Suc (length vs)]")
  fix bc fn :: "'f clone_hook" and n a :: nat and vis and A :: "'f arrays"
  assume "\<not> (a \<in> set vis \<or> n \<le> a)"
  then have "card ({..<n} - set (a # vis)) < card ({..<n} - set vis)" by (intro visited_measure) auto
  then show "(Inr (bc, fn, n, a # vis, A ! a, A), Inl (bc, fn, n, vis, V_ARRAY a, A)) \<in> measures
    [\<lambda>x. case x of Inl (bc, fn, n, vis, v, A) \<Rightarrow> card ({..<n} - set vis) | Inr (bc, fn, n, vis, vs, A) \<Rightarrow> card ({..<n} - set vis),
     \<lambda>x. case x of Inl (bc, fn, n, vis, v, A) \<Rightarrow> 0 | Inr (bc, fn, n, vis, vs, A) \<Rightarrow> Suc (length vs)]"
    by simp
qed auto

definition clone_for_thread :: "'f clone_hook \<Rightarrow> 'f clone_hook \<Rightarrow> 'f Value \<Rightarrow> 'f arrays \<Rightarrow> 'f Value \<times> 'f arrays" where
  "clone_for_thread bc fn v A = clone_for_thread_impl bc fn (length A) [] v A"

definition look_count :: "'f arrays \<Rightarrow> 'f Value \<Rightarrow> nat" where
  "look_count A v =
     (case v of
        V_ARRAY a \<Rightarrow>
          (let arr = A ! a
           in if arr \<noteq> [] \<and> hd arr = V_STRING ''__assoc__'' then (length arr - 1) div 2 else length arr)
      | V_STRING s \<Rightarrow> length s
      | _ \<Rightarrow> 0)"

subsection \<open>Data\<close>

text \<open>A heap of data: no closures, and every reference points into the heap.\<close>

definition data_value :: "nat \<Rightarrow> 'f Value \<Rightarrow> bool" where
  "data_value n v = (case v of V_ARRAY a \<Rightarrow> a < n | V_BYTECODE_FN c \<Rightarrow> False | V_FUNCTION c \<Rightarrow> False | _ \<Rightarrow> True)"

definition data_heap :: "'f arrays \<Rightarrow> bool" where
  "data_heap A \<longleftrightarrow> list_all (list_all (data_value (length A))) A"

text \<open>References of a value that all lie at or above \<open>n\<close>: the value shares nothing with the first
  \<open>n\<close> arrays.\<close>

definition above :: "nat \<Rightarrow> 'f Value \<Rightarrow> bool" where
  "above n v = (case v of V_ARRAY a \<Rightarrow> n \<le> a | _ \<Rightarrow> True)"

definition fresh_part :: "nat \<Rightarrow> 'f arrays \<Rightarrow> bool" where
  "fresh_part n A \<longleftrightarrow> list_all (list_all (above n)) (drop n A)"

lemma data_elems: "data_heap A \<Longrightarrow> a < length A \<Longrightarrow> list_all (data_value (length A)) (A ! a)"
  by (auto simp: data_heap_def list_all_length)

lemma fresh_part_snoc: "n \<le> length A \<Longrightarrow> fresh_part n (A @ [vs]) \<longleftrightarrow> fresh_part n A \<and> list_all (above n) vs"
  by (simp add: fresh_part_def)

lemma clone_isolated:
  fixes A0 :: "'f arrays"
  assumes "data_heap A0" "n = length A0"
  shows "\<lbrakk>deep_clone_impl bc n vis v A = (v', A'); data_value n v; prefix A0 A; fresh_part n A\<rbrakk>
      \<Longrightarrow> prefix A A' \<and> fresh_part n A' \<and> above n v'"
    and "\<lbrakk>deep_clone_elems bc n vis vs A = (vs', A'); list_all (data_value n) vs; prefix A0 A; fresh_part n A\<rbrakk>
      \<Longrightarrow> prefix A A' \<and> fresh_part n A' \<and> list_all (above n) vs'"
  using assms(2)
proof (induction bc n vis v A and bc n vis vs A arbitrary: v' A' and vs' A'
    rule: deep_clone_impl_deep_clone_elems.induct)
  case (1 bc n vis a A)
  show ?case
  proof (cases "a \<in> set vis \<or> n \<le> a")
    case True
    then show ?thesis using 1 by (auto simp: above_def)
  next
    case False
    obtain vs B where e: "deep_clone_elems bc n (a # vis) (A ! a) A = (vs, B)" by fastforce
    have "A ! a = A0 ! a" using "1.prems" False by (auto simp: prefix_def nth_append)
    then have "list_all (data_value n) (A ! a)" using data_elems [OF assms(1), of a] "1.prems" False by simp
    then have "prefix A B" "fresh_part n B" "list_all (above n) vs"
      using "1.IH" [OF False e] "1.prems" by auto
    moreover have "n \<le> length B" using prefix_length_le [OF \<open>prefix A B\<close>] prefix_length_le [OF "1.prems"(3)] "1.prems"(5) by simp
    ultimately show ?thesis
      using "1.prems" e False by (auto simp: fresh_part_snoc above_def)
  qed
next
  case (5 bc n vis v vs A)
  obtain w B where e: "deep_clone_impl bc n vis v A = (w, B)" by fastforce
  obtain ws C where f: "deep_clone_elems bc n vis vs B = (ws, C)" by fastforce
  have w: "prefix A B" "fresh_part n B" "above n w" using "5.IH"(1) [OF e] "5.prems" by auto
  have "prefix A0 B" using w(1) "5.prems"(3) prefix_order.trans by blast
  then have "prefix B C" "fresh_part n C" "list_all (above n) ws"
    using "5.IH"(2) [OF e [symmetric] refl f] "5.prems" w by auto
  then show ?case using "5.prems" e f w prefix_order.trans [of A B C] by auto
qed (auto simp: above_def data_value_def)

text \<open>On data the thread copy is the deep copy.\<close>

lemma clone_for_thread_data:
  fixes A0 :: "'f arrays"
  assumes "data_heap A0" "n = length A0"
  shows "\<lbrakk>data_value n v; prefix A0 A; fresh_part n A\<rbrakk> \<Longrightarrow>
      clone_for_thread_impl bc fn n vis v A = deep_clone_impl bc n vis v A"
    and "\<lbrakk>list_all (data_value n) vs; prefix A0 A; fresh_part n A\<rbrakk> \<Longrightarrow>
      clone_for_thread_elems bc fn n vis vs A = deep_clone_elems bc n vis vs A"
  using assms(2)
proof (induction bc n vis v A and bc n vis vs A rule: deep_clone_impl_deep_clone_elems.induct)
  case (1 bc n vis a A)
  have "A ! a = A0 ! a" if "a < n" using "1.prems" that by (auto simp: prefix_def nth_append)
  then have "list_all (data_value n) (A ! a)" if "a < n"
    using data_elems [OF assms(1), of a] "1.prems" that by simp
  then show ?case using 1 by (auto split: prod.splits)
next
  case (5 bc n vis v vs A)
  obtain w B where e: "deep_clone_impl bc n vis v A = (w, B)" by fastforce
  have w: "prefix A B" "fresh_part n B"
    using clone_isolated(1) [OF assms(1) "5.prems"(4) e] "5.prems" by auto
  have "prefix A0 B" using w(1) "5.prems"(2) prefix_order.trans by blast
  then show ?case using 5 e w by (auto split: prod.splits)
qed (auto simp: data_value_def)

subsection \<open>What a value denotes\<close>

text \<open>The finite tree a value unfolds to; a value on a cycle unfolds to none.\<close>

datatype 'f vtree = Leaf "'f Value" | Node "'f vtree list"

inductive denotes :: "'f arrays \<Rightarrow> 'f Value \<Rightarrow> 'f vtree \<Rightarrow> bool" for A where
  leaf: "\<forall>a. v \<noteq> V_ARRAY a \<Longrightarrow> denotes A v (Leaf v)"
| node: "a < length A \<Longrightarrow> list_all2 (denotes A) (A ! a) ts \<Longrightarrow> denotes A (V_ARRAY a) (Node ts)"

inductive_cases denotes_LeafE: "denotes A v (Leaf w)"
inductive_cases denotes_NodeE: "denotes A v (Node ts)"
inductive_cases denotes_ArrayE: "denotes A (V_ARRAY a) t"

lemma denotes_unique: "denotes A v t \<Longrightarrow> denotes A v t' \<Longrightarrow> t = t'"
proof (induction v t arbitrary: t' rule: denotes.induct)
  case (leaf v)
  then show ?case by (auto elim: denotes.cases)
next
  case (node a ts)
  from node.prems obtain us where us: "t' = Node us" "list_all2 (denotes A) (A ! a) us"
    by (auto elim: denotes_ArrayE)
  have "ts = us"
    using node.IH us(2) by (auto simp: list_all2_conv_all_nth intro!: nth_equalityI)
  then show ?case using us by simp
qed

lemma denotes_prefix: "denotes A v t \<Longrightarrow> prefix A B \<Longrightarrow> denotes B v t"
proof (induction v t rule: denotes.induct)
  case (leaf v)
  then show ?case by (simp add: denotes.leaf)
next
  case (node a ts)
  have "B ! a = A ! a" "a < length B" using node.hyps node.prems by (auto simp: prefix_def nth_append)
  moreover have "list_all2 (denotes B) (A ! a) ts"
    using node.IH node.prems by (auto elim: list_all2_mono)
  ultimately show ?case by (metis denotes.node)
qed

text \<open>The visited arrays are ancestors of the value: they denote larger trees.\<close>

definition ancestors :: "'f arrays \<Rightarrow> addr list \<Rightarrow> nat \<Rightarrow> bool" where
  "ancestors A vis k \<longleftrightarrow> (\<forall>a \<in> set vis. \<exists>t. denotes A (V_ARRAY a) t \<and> k < size t)"

lemma size_list_elem: "i < length ts \<Longrightarrow> size (ts ! i) < size (Node ts)"
  using size_list_estimation' [of "ts ! i" ts "size (ts ! i)" size] by simp

lemma clone_denotes:
  fixes A0 :: "'f arrays"
  assumes "data_heap A0" "n = length A0"
  shows "\<lbrakk>deep_clone_impl bc n vis v A = (v', A'); data_value n v; prefix A0 A; fresh_part n A;
      denotes A0 v t; ancestors A0 vis (size t)\<rbrakk> \<Longrightarrow> denotes A' v' t"
    and "\<lbrakk>deep_clone_elems bc n vis vs A = (vs', A'); list_all (data_value n) vs; prefix A0 A; fresh_part n A;
      list_all2 (denotes A0) vs ts; \<forall>t \<in> set ts. ancestors A0 vis (size t)\<rbrakk> \<Longrightarrow> list_all2 (denotes A') vs' ts"
  using assms(2)
proof (induction bc n vis v A and bc n vis vs A arbitrary: v' A' t and vs' A' ts
    rule: deep_clone_impl_deep_clone_elems.induct)
  case (1 bc n vis a A)
  obtain ts where t: "t = Node ts" "a < length A0" "list_all2 (denotes A0) (A0 ! a) ts"
    using "1.prems"(5) by (auto elim: denotes_ArrayE)
  have "a \<notin> set vis"
    using "1.prems"(5,6) denotes_unique by (fastforce simp: ancestors_def)
  then have nv: "\<not> (a \<in> set vis \<or> n \<le> a)" using t "1.prems"(7) by simp
  obtain vs B where e: "deep_clone_elems bc n (a # vis) (A ! a) A = (vs, B)" by fastforce
  have el: "A ! a = A0 ! a" using "1.prems"(3) t(2) by (auto simp: prefix_def nth_append)
  have dl: "list_all (data_value n) (A ! a)" using data_elems [OF assms(1) t(2)] el "1.prems"(7) by simp
  have "ancestors A0 (a # vis) (size u)" if "u \<in> set ts" for u
  proof -
    have "size u < size t" using that size_list_elem t(1) by (metis in_set_conv_nth)
    then show ?thesis using "1.prems"(5,6) by (auto simp: ancestors_def intro: less_trans)
  qed
  then have "list_all2 (denotes B) vs ts"
    using "1.IH" [OF nv e dl "1.prems"(3,4)] t(3) el "1.prems"(7) by simp
  then have "list_all2 (denotes (B @ [vs])) vs ts"
    by (rule list_all2_mono) (auto intro: denotes_prefix)
  then have "denotes (B @ [vs]) (V_ARRAY (length B)) (Node ts)"
    by (intro denotes.node) simp_all
  then show ?case using "1.prems"(1) nv e t(1) by auto
next
  case (5 bc n vis v vs A)
  obtain u us where ts: "ts = u # us" "denotes A0 v u" "list_all2 (denotes A0) vs us"
    using "5.prems"(5) by (auto simp: list_all2_Cons1)
  obtain w B where e: "deep_clone_impl bc n vis v A = (w, B)" by fastforce
  obtain ws C where f: "deep_clone_elems bc n vis vs B = (ws, C)" by fastforce
  have d: "data_value n v" "list_all (data_value n) vs" using "5.prems"(2) by auto
  have w: "prefix A B" "fresh_part n B"
    using clone_isolated(1) [OF assms(1) "5.prems"(7) e d(1) "5.prems"(3,4)] by auto
  have p: "prefix A0 B" using w(1) "5.prems"(3) prefix_order.trans by blast
  have "denotes B w u" using "5.IH"(1) [OF e d(1) "5.prems"(3,4) ts(2)] "5.prems"(6,7) ts(1) by simp
  moreover have "prefix B C" using clone_isolated(2) [OF assms(1) "5.prems"(7) f d(2) p w(2)] by simp
  moreover have "list_all2 (denotes C) ws us"
    using "5.IH"(2) [OF e [symmetric] refl f d(2) p w(2) ts(3)] "5.prems"(6,7) ts(1) by simp
  ultimately show ?case using "5.prems"(1) e f ts(1) denotes_prefix by auto
qed (auto elim: denotes.cases intro: denotes.leaf simp: data_value_def)

subsection \<open>Properties\<close>



text \<open>A deep copy denotes the same data: whatever tree the original unfolds to, the copy unfolds
  to it as well, in the extended heap.\<close>

theorem clone_same_data:
  assumes "data_heap A" "data_value (length A) v" "denotes A v t"
  shows "denotes (snd (deep_clone bc v A)) (fst (deep_clone bc v A)) t"
proof -
  obtain v' A' where e: "deep_clone_impl bc (length A) [] v A = (v', A')" by fastforce
  have "fresh_part (length A) A" by (simp add: fresh_part_def)
  then show ?thesis
    using clone_denotes(1) [OF assms(1) refl e assms(2) _ _ assms(3)] e
    by (simp add: deep_clone_def ancestors_def)
qed

lemma demo_denotes:
  "denotes [[V_INT 1], [V_ARRAY 0, V_ARRAY 0 :: int Value]] (V_ARRAY 1)
     (Node [Node [Leaf (V_INT 1)], Node [Leaf (V_INT 1)]])"
proof -
  let ?A = "[[V_INT 1], [V_ARRAY 0, V_ARRAY 0 :: int Value]]"
  have "denotes ?A (V_ARRAY 0) (Node [Leaf (V_INT 1)])"
    by (intro denotes.node) (simp_all add: denotes.leaf)
  then show ?thesis by (intro denotes.node) simp_all
qed

theorem clone_same_data_witness:
  "denotes (snd (deep_clone None (V_ARRAY 1) [[V_INT 1], [V_ARRAY 0, V_ARRAY 0 :: int Value]]))
     (fst (deep_clone None (V_ARRAY 1) [[V_INT 1], [V_ARRAY 0, V_ARRAY 0]]))
     (Node [Node [Leaf (V_INT 1)], Node [Leaf (V_INT 1)]])"
  by (rule clone_same_data [OF _ _ demo_denotes]) (simp_all add: data_heap_def data_value_def)

end
