(* ===== verification/Environment.thy ===== *)
theory Environment
  imports Value_Heap "HOL-Library.AList"
begin

text \<open>
  Variable scopes (\<^verbatim>\<open>Environment\<close> in \<^verbatim>\<open>interpreter.h\<close>) and the rebinding of closures
  to the globals of a request (\<^verbatim>\<open>Interpreter::request_env\<close>). Environments are shared by
  reference, so they live in a list and are named by index; a scope is created after its parent,
  which the invariant \<open>wf_envs\<close> records. The two lookups follow the parent links as the code
  does, so on an ill-formed heap they may not return; on a well-formed one they do.
\<close>

record 'f Env =
  env_values :: "(string \<times> 'f Value) list"
  env_parent :: "addr option"
  fn_boundary :: bool

datatype env_error = UndefinedVariable string

definition env_new :: "'f Env list \<Rightarrow> addr option \<Rightarrow> addr \<times> 'f Env list" where
  "env_new E p = (length E, E @ [\<lparr>env_values = [], env_parent = p, fn_boundary = False\<rparr>])"

definition env_define :: "'f Env list \<Rightarrow> addr \<Rightarrow> string \<Rightarrow> 'f Value \<Rightarrow> 'f Env list" where
  "env_define E i name v = E[i := (E ! i)\<lparr>env_values := AList.update name v (env_values (E ! i))\<rparr>]"

partial_function (option) env_get :: "'f Env list \<Rightarrow> addr \<Rightarrow> string \<Rightarrow> (env_error + 'f Value) option" where
  "env_get E i name =
     (case map_of (env_values (E ! i)) name of
        Some v \<Rightarrow> Some (Inr v)
      | None \<Rightarrow>
          (case env_parent (E ! i) of
             Some p \<Rightarrow> env_get E p name
           | None \<Rightarrow> Some (Inl (UndefinedVariable name))))"

partial_function (option) env_set ::
    "'f Env list \<Rightarrow> addr \<Rightarrow> string \<Rightarrow> 'f Value \<Rightarrow> (env_error + 'f Env list) option" where
  "env_set E i name v =
     (if map_of (env_values (E ! i)) name \<noteq> None then Some (Inr (env_define E i name v))
      else if fn_boundary (E ! i) then Some (Inl (UndefinedVariable name))
      else case env_parent (E ! i) of
             None \<Rightarrow> Some (Inl (UndefinedVariable name))
           | Some p \<Rightarrow> env_set E p name v)"

definition mark_fn_boundary :: "'f Env list \<Rightarrow> addr \<Rightarrow> 'f Env list" where
  "mark_fn_boundary E i = E[i := (E ! i)\<lparr>fn_boundary := True\<rparr>]"

text \<open>Copying the bindings of a scope with a copy of each value.\<close>

fun clone_bindings ::
    "('f Value \<Rightarrow> 'f arrays \<Rightarrow> 'f Value \<times> 'f arrays) \<Rightarrow> (string \<times> 'f Value) list \<Rightarrow> 'f arrays \<Rightarrow>
       (string \<times> 'f Value) list \<times> 'f arrays" where
  "clone_bindings f [] A = ([], A)"
| "clone_bindings f ((k, v) # kvs) A =
     (let (v', A1) = f v A; (kvs', A2) = clone_bindings f kvs A1 in ((k, v') # kvs', A2))"

definition env_clone :: "'f clone_hook \<Rightarrow> 'f Env list \<Rightarrow> 'f arrays \<Rightarrow> addr \<Rightarrow> addr \<times> 'f Env list \<times> 'f arrays" where
  "env_clone bc E A i =
     (let (kvs, A') = clone_bindings (deep_clone bc) (env_values (E ! i)) A
      in (length E, E @ [\<lparr>env_values = kvs, env_parent = env_parent (E ! i), fn_boundary = False\<rparr>], A'))"

definition rebase_value :: "'f clone_hook \<Rightarrow> 'f Value \<Rightarrow> 'f arrays \<Rightarrow> 'f Value \<times> 'f arrays" where
  "rebase_value bc v A = (case v of V_ARRAY a \<Rightarrow> deep_clone bc v A | _ \<Rightarrow> (v, A))"

definition env_rebased ::
    "'f clone_hook \<Rightarrow> 'f Env list \<Rightarrow> 'f arrays \<Rightarrow> addr \<Rightarrow> addr option \<Rightarrow> addr \<times> 'f Env list \<times> 'f arrays" where
  "env_rebased bc E A i new_parent =
     (let (kvs, A') = clone_bindings (rebase_value bc) (env_values (E ! i)) A
      in (length E, E @ [\<lparr>env_values = kvs, env_parent = new_parent, fn_boundary = fn_boundary (E ! i)\<rparr>], A'))"

subsection \<open>Well-formed scopes\<close>

definition wf_envs :: "'f Env list \<Rightarrow> bool" where
  "wf_envs E \<longleftrightarrow> (\<forall>i < length E. \<forall>p. env_parent (E ! i) = Some p \<longrightarrow> p < i)"

text \<open>The scopes a name is looked up in, innermost first, and the part of them that an assignment
  may write: up to and including the first function scope.\<close>

function env_chain :: "'f Env list \<Rightarrow> addr \<Rightarrow> addr list" where
  "env_chain E i = i # (case env_parent (E ! i) of Some p \<Rightarrow> if p < i then env_chain E p else [] | None \<Rightarrow> [])"
  by pat_completeness auto
termination by (relation "measure (\<lambda>(E, i). i)") auto

declare env_chain.simps [simp del]

fun upto_boundary :: "'f Env list \<Rightarrow> addr list \<Rightarrow> addr list" where
  "upto_boundary E [] = []"
| "upto_boundary E (i # is) = i # (if fn_boundary (E ! i) then [] else upto_boundary E is)"

definition env_scope :: "'f Env list \<Rightarrow> addr \<Rightarrow> addr list" where
  "env_scope E i = upto_boundary E (env_chain E i)"

definition bound_in :: "'f Env list \<Rightarrow> string \<Rightarrow> addr \<Rightarrow> 'f Value option" where
  "bound_in E name j = map_of (env_values (E ! j)) name"

lemma wf_envs_parent: "wf_envs E \<Longrightarrow> i < length E \<Longrightarrow> env_parent (E ! i) = Some p \<Longrightarrow> p < i"
  by (auto simp: wf_envs_def)

lemma env_chain_parent:
  assumes "wf_envs E" "i < length E"
  shows "env_chain E i = i # (case env_parent (E ! i) of Some p \<Rightarrow> env_chain E p | None \<Rightarrow> [])"
  using wf_envs_parent [OF assms] by (subst env_chain.simps) (auto split: option.splits)

lemma env_get_spec:
  assumes "wf_envs E"
  shows "i < length E \<Longrightarrow> env_get E i name =
     Some (case first_some (bound_in E name) (env_chain E i) of
             Some v \<Rightarrow> Inr v | None \<Rightarrow> Inl (UndefinedVariable name))"
proof (induction i rule: less_induct)
  case (less i)
  show ?case
  proof (cases "env_parent (E ! i)")
    case None
    then show ?thesis
      using env_chain_parent [OF assms less.prems]
      by (subst env_get.simps) (auto simp: bound_in_def [abs_def] split: option.splits)
  next
    case (Some p)
    have "p < i" using wf_envs_parent [OF assms less.prems Some] .
    then show ?thesis
      using less Some env_chain_parent [OF assms less.prems]
      by (subst env_get.simps) (auto simp: bound_in_def [abs_def] split: option.splits)
  qed
qed

text \<open>The scope an assignment writes to.\<close>

definition set_target :: "'f Env list \<Rightarrow> addr \<Rightarrow> string \<Rightarrow> addr option" where
  "set_target E i name = first_some (\<lambda>j. if bound_in E name j \<noteq> None then Some j else None) (env_scope E i)"

lemma env_set_spec:
  assumes "wf_envs E"
  shows "i < length E \<Longrightarrow> env_set E i name v =
     Some (case set_target E i name of
             Some j \<Rightarrow> Inr (env_define E j name v) | None \<Rightarrow> Inl (UndefinedVariable name))"
proof (induction i rule: less_induct)
  case (less i)
  show ?case
  proof (cases "env_parent (E ! i)")
    case None
    then show ?thesis
      using env_chain_parent [OF assms less.prems]
      by (subst env_set.simps) (auto simp: bound_in_def set_target_def env_scope_def split: option.splits)
  next
    case (Some p)
    have "p < i" using wf_envs_parent [OF assms less.prems Some] .
    then show ?thesis
      using less Some env_chain_parent [OF assms less.prems]
      by (subst env_set.simps) (auto simp: bound_in_def set_target_def env_scope_def split: option.splits)
  qed
qed

subsection \<open>One scope is a key-value store\<close>

lemma bound_define:
  "j < length E \<Longrightarrow> bound_in (env_define E j n v) m k = (if k = j \<and> m = n then Some v else bound_in E m k)"
  by (cases "k < length E") (auto simp: bound_in_def env_define_def update_conv nth_list_update)

interpretation env_frame: kv_store "\<lambda>E. i < length E" "\<lambda>E n. bound_in E n i" "\<lambda>E n v. env_define E i n v" for i
proof
  show "bound_in (env_define s i k v) k' i = (if k' = k then Some v else bound_in s k' i)" if "i < length s" for s :: "'a Env list" and k v k'
    using that by (simp add: bound_define)
qed (simp add: env_define_def)

lemma env_define_nth:
  "env_define E j n v ! k =
     (if k = j \<and> j < length E then (E ! j)\<lparr>env_values := AList.update n v (env_values (E ! j))\<rparr> else E ! k)"
proof (cases "j < length E")
  case True
  then show ?thesis by (cases "k = j") (simp_all add: env_define_def)
qed (simp add: env_define_def list_update_beyond)

lemma env_define_struct:
  "env_parent (env_define E j n v ! k) = env_parent (E ! k)" "fn_boundary (env_define E j n v ! k) = fn_boundary (E ! k)"
  "length (env_define E j n v) = length E"
  by (simp_all only: env_define_nth) (simp_all add: env_define_def)

lemma wf_envs_define: "wf_envs E \<Longrightarrow> wf_envs (env_define E j n v)"
  by (simp add: wf_envs_def env_define_struct)

lemma env_chain_define: "env_chain (env_define E j n v) i = env_chain E i"
proof (induction i rule: less_induct)
  case (less i)
  then show ?case
    by (subst (1 2) env_chain.simps) (auto simp: env_define_struct split: option.splits)
qed

lemma env_chain_lt: "i < length E \<Longrightarrow> j \<in> set (env_chain E i) \<Longrightarrow> j < length E"
proof (induction i rule: less_induct)
  case (less i)
  then show ?case
    by (subst (asm) (2) env_chain.simps) (auto split: option.splits if_splits)
qed

lemma first_some_SomeD:
  "first_some f xs = Some y \<Longrightarrow> \<exists>us x vs. xs = us @ x # vs \<and> f x = Some y \<and> (\<forall>u \<in> set us. f u = None)"
proof (induction xs)
  case (Cons x xs)
  show ?case
  proof (cases "f x")
    case None
    then obtain us z vs where "xs = us @ z # vs" "f z = Some y" "\<forall>u \<in> set us. f u = None"
      using Cons by auto
    then show ?thesis using None by (intro exI [of _ "x # us"] exI [of _ z] exI [of _ vs]) auto
  next
    case (Some z)
    then show ?thesis using Cons.prems by (intro exI [of _ "[]"] exI [of _ x] exI [of _ xs]) auto
  qed
qed simp

lemma upto_boundary_prefix: "prefix (upto_boundary E is) is"
  by (induction "is") auto

lemma set_target_in_scope: "set_target E i n = Some j \<Longrightarrow> j \<in> set (env_scope E i) \<and> bound_in E n j \<noteq> None"
  unfolding set_target_def using first_some_SomeD by (fastforce split: if_splits)

lemma first_some_update:
  assumes "first_some (\<lambda>j. if f j \<noteq> None then Some j else None) (upto_boundary E is) = Some j"
  shows "first_some (\<lambda>k. if k = j then Some v else f k) is = Some v"
  using assms
proof (induction "is")
  case (Cons i "is")
  show ?case
  proof (cases "f i")
    case None
    then show ?thesis using Cons by (auto split: if_splits)
  next
    case (Some w)
    then show ?thesis using Cons.prems by (auto split: if_splits)
  qed
qed simp

subsection \<open>Rebinding a closure to the globals of a request\<close>

text \<open>\<open>g0\<close> are the globals of the setup run, \<open>g\<close> those of the request; \<open>memo\<close> is
  \<^verbatim>\<open>rebased_\<close>. The result is the rebound scope with the new heaps and memo.\<close>

function request_env ::
    "'f clone_hook \<Rightarrow> addr \<Rightarrow> addr \<Rightarrow> addr \<Rightarrow> 'f Env list \<Rightarrow> 'f arrays \<Rightarrow> (addr \<rightharpoonup> addr) \<Rightarrow>
       addr \<times> 'f Env list \<times> 'f arrays \<times> (addr \<rightharpoonup> addr)" where
  "request_env bc g0 g env E A memo =
     (if env = g0 then (g, E, A, memo)
      else if g0 \<notin> set (env_chain E env) then (env, E, A, memo)
      else case memo env of
             Some e \<Rightarrow> (e, E, A, memo)
           | None \<Rightarrow>
               (case env_parent (E ! env) of
                  None \<Rightarrow> (env, E, A, memo)
                | Some p \<Rightarrow>
                    if p < env then
                      (let (p', E1, A1, memo1) = request_env bc g0 g p E A memo;
                           (e, E2, A2) = env_rebased bc E1 A1 env (Some p')
                       in (e, E2, A2, memo1(env \<mapsto> e)))
                    else (env, E, A, memo)))"
  by pat_completeness auto
termination by (relation "measure (\<lambda>(bc, g0, g, env, E, A, memo). env)") auto

declare request_env.simps [simp del]

text \<open>A scope is clear of the setup: nothing on its chain is the setup globals.\<close>

definition clear_of :: "addr \<Rightarrow> 'f Env list \<Rightarrow> addr \<Rightarrow> bool" where
  "clear_of g0 E e \<longleftrightarrow> e < length E \<and> g0 \<notin> set (env_chain E e)"

lemma env_chain_prefix: "prefix E E' \<Longrightarrow> i < length E \<Longrightarrow> env_chain E' i = env_chain E i"
proof (induction i rule: less_induct)
  case (less i)
  have "E' ! i = E ! i" using less.prems by (auto simp: prefix_def nth_append)
  then show ?case
    using less by (subst (1 2) env_chain.simps) (auto split: option.splits)
qed

lemma clear_of_prefix: "prefix E E' \<Longrightarrow> clear_of g0 E e \<Longrightarrow> clear_of g0 E' e"
  using prefix_length_le by (fastforce simp: clear_of_def env_chain_prefix)

definition memo_ok :: "addr \<Rightarrow> 'f Env list \<Rightarrow> (addr \<rightharpoonup> addr) \<Rightarrow> bool" where
  "memo_ok g0 E memo \<longleftrightarrow> (\<forall>a e. memo a = Some e \<longrightarrow> clear_of g0 E e)"

lemma env_rebased_clear:
  assumes "env_rebased bc E A i (Some p) = (e, E', A')" "clear_of g0 E p" "g0 < length E"
  shows "prefix E E' \<and> clear_of g0 E' e"
proof -
  have e: "e = length E" "prefix E E'" "length E' = Suc (length E)" "env_parent (E' ! e) = Some p"
    using assms(1) by (auto simp: env_rebased_def Let_def split: prod.splits)
  have "env_chain E' p = env_chain E p" using e assms(2) by (auto simp: clear_of_def env_chain_prefix)
  then have "env_chain E' e = e # env_chain E p"
    using e assms(2) by (subst env_chain.simps) (auto simp: clear_of_def)
  then show ?thesis using e assms(2,3) by (auto simp: clear_of_def)
qed

lemma request_env_clear:
  "\<lbrakk>request_env bc g0 g env E A memo = (e, E', A', memo'); wf_envs E; env < length E; g0 < length E;
    clear_of g0 E g; memo_ok g0 E memo\<rbrakk> \<Longrightarrow>
     prefix E E' \<and> clear_of g0 E' e \<and> memo_ok g0 E' memo'"
proof (induction bc g0 g env E A memo arbitrary: e E' A' memo' rule: request_env.induct)
  case (1 bc g0 g env E A memo)
  note unfolded = request_env.simps [of bc g0 g env E A memo]
  show ?case
  proof (cases "env = g0 \<or> g0 \<notin> set (env_chain E env) \<or> memo env \<noteq> None")
    case True
    then show ?thesis
      using "1.prems" by (auto simp: unfolded clear_of_def memo_ok_def split: if_splits)
  next
    case False
    then have ne: "env \<noteq> g0" "\<not> g0 \<notin> set (env_chain E env)" "memo env = None" by auto
    obtain p where p: "env_parent (E ! env) = Some p"
      using ne env_chain_parent [OF "1.prems"(2,3)] by (cases "env_parent (E ! env)") auto
    have lt: "p < env" using wf_envs_parent [OF "1.prems"(2,3) p] .
    obtain p' E1 A1 memo1 where r: "request_env bc g0 g p E A memo = (p', E1, A1, memo1)" by (metis prod_cases4)
    obtain e2 E2 A2 where b: "env_rebased bc E1 A1 env (Some p') = (e2, E2, A2)" by (metis prod_cases3)
    have IH: "prefix E E1" "clear_of g0 E1 p'" "memo_ok g0 E1 memo1"
      using "1.IH" [OF ne p lt r] "1.prems" lt by auto
    have "g0 < length E1" using prefix_length_le [OF IH(1)] "1.prems"(4) by simp
    then have "prefix E1 E2" "clear_of g0 E2 e2" using env_rebased_clear [OF b IH(2)] by auto
    moreover have "(e, E', memo') = (e2, E2, memo1(env \<mapsto> e2))"
      using "1.prems"(1) ne p lt r b by (auto simp: unfolded)
    ultimately show ?thesis
      using IH clear_of_prefix prefix_order.trans by (fastforce simp: memo_ok_def)
  qed
qed

subsection \<open>Properties\<close>

text \<open>Reading a variable always ends, with the value of the innermost scope that has it, or with
  the undefined-variable error when no scope of the chain has it.\<close>

theorem env_get_innermost:
  assumes "wf_envs E" "i < length E"
  shows "env_get E i name =
     Some (case first_some (bound_in E name) (env_chain E i) of
             Some v \<Rightarrow> Inr v | None \<Rightarrow> Inl (UndefinedVariable name))"
  using assms by (rule env_get_spec)

definition demo_envs :: "int Env list" where
  "demo_envs = [\<lparr>env_values = [(''g'', V_INT 1)], env_parent = None, fn_boundary = False\<rparr>,
     \<lparr>env_values = [(''x'', V_INT 2)], env_parent = Some 0, fn_boundary = True\<rparr>,
     \<lparr>env_values = [], env_parent = Some 1, fn_boundary = False\<rparr>]"

lemma demo_envs_wf: "wf_envs demo_envs"
  by (auto simp: wf_envs_def demo_envs_def less_Suc_eq nth_Cons')

lemma demo_chain: "env_chain demo_envs 2 = [2, 1, 0]"
  by (simp add: env_chain.simps demo_envs_def)

theorem env_get_innermost_witness: "env_get demo_envs 2 ''g'' = Some (Inr (V_INT 1))"
  by (subst env_get_innermost [OF demo_envs_wf])
     (simp_all add: demo_chain, simp_all add: demo_envs_def bound_in_def)





end
