(* ===== verification/Channel.thy ===== *)
theory Channel
  imports Prelude
begin

text \<open>
  Channels between concurrent tasks (\<^verbatim>\<open>LookChannel\<close> in \<^verbatim>\<open>interpreter.h\<close>, its operations in
  \<^verbatim>\<open>interpreter.cpp\<close>). Each operation holds the mutex except while it waits on a condition
  variable, so a task is a sequence of atomic sections separated by waits: entering a send, being
  woken with room, and, on a channel of capacity zero, being woken once the value was taken. The
  sections are functions; the interleavings of any number of tasks are the step relation, which
  also keeps the history of sent and received values. The generation counter is a natural number:
  its 64 bits do not overflow in the life of a process.
\<close>

subsection \<open>The channel\<close>

record 'v LookChannel =
  queue :: "'v list"
  capacity :: nat
  closed :: bool
  unbuffered :: bool
  recv_gen :: nat

definition chan_new :: "nat \<Rightarrow> 'v LookChannel" where
  "chan_new cap = \<lparr>queue = [], capacity = (if cap = 0 then 1 else cap), closed = False,
     unbuffered = (cap = 0), recv_gen = 0\<rparr>"

datatype chan_error = SendTimeout | SendOnClosed | RendezvousTimeout | ReceiveTimeout

definition has_room :: "'v LookChannel \<Rightarrow> bool" where
  "has_room c \<longleftrightarrow> closed c \<or> length (queue c) < capacity c"

text \<open>The section after the wait for room: the generation to wait for, if any.\<close>

definition chan_push :: "'v LookChannel \<Rightarrow> 'v \<Rightarrow> chan_error + 'v LookChannel \<times> nat option" where
  "chan_push c v =
     (if closed c then Inl SendOnClosed
      else Inr (c\<lparr>queue := queue c @ [v]\<rparr>, if unbuffered c then Some (recv_gen c) else None))"

definition chan_taken :: "'v LookChannel \<Rightarrow> nat \<Rightarrow> bool" where
  "chan_taken c gen \<longleftrightarrow> closed c \<or> gen < recv_gen c"

definition has_item :: "'v LookChannel \<Rightarrow> bool" where
  "has_item c \<longleftrightarrow> closed c \<or> queue c \<noteq> []"

text \<open>The section after the wait for an item; \<^term>\<open>None\<close> is the null value of a closed and empty
  channel.\<close>

definition chan_take :: "'v LookChannel \<Rightarrow> 'v option \<times> 'v LookChannel" where
  "chan_take c =
     (case queue c of
        [] \<Rightarrow> (None, c)
      | v # q \<Rightarrow> (Some v, c\<lparr>queue := q, recv_gen := Suc (recv_gen c)\<rparr>))"

definition close_chan :: "'v LookChannel \<Rightarrow> 'v LookChannel" where
  "close_chan c = c\<lparr>closed := True\<rparr>"

definition chan_sz :: "'v LookChannel \<Rightarrow> nat" where
  "chan_sz c = length (queue c)"

subsection \<open>Tasks\<close>

text \<open>Where a task is: waiting to send a value, waiting for its value to be taken (the generation and
  the position of the value in the history), or back from the send with success or an error.\<close>

datatype 'v task = WaitRoom 'v | WaitTaken nat nat | Sent nat | Failed chan_error

record 'v system =
  chan :: "'v LookChannel"
  tasks :: "nat \<rightharpoonup> 'v task"
  sent :: "'v list"
  got :: "'v list"

definition system_init :: "nat \<Rightarrow> 'v system" where
  "system_init cap = \<lparr>chan = chan_new cap, tasks = Map.empty, sent = [], got = []\<rparr>"

text \<open>\<open>to\<close>: is the timeout of \<^verbatim>\<open>LOOK_CHANNEL_TIMEOUT_MS\<close> set.\<close>

inductive chan_step :: "bool \<Rightarrow> 'v system \<Rightarrow> 'v system \<Rightarrow> bool" for to where
  enter_send: "tasks s t = None \<or> (\<exists>k. tasks s t = Some (Sent k)) \<or> (\<exists>e. tasks s t = Some (Failed e)) \<Longrightarrow>
    chan_step to s (s\<lparr>tasks := (tasks s)(t \<mapsto> WaitRoom v)\<rparr>)"
| push: "tasks s t = Some (WaitRoom v) \<Longrightarrow> has_room (chan s) \<Longrightarrow> chan_push (chan s) v = Inr (c, gen) \<Longrightarrow>
    chan_step to s (s\<lparr>chan := c, sent := sent s @ [v],
      tasks := (tasks s)(t \<mapsto> (case gen of None \<Rightarrow> Sent (length (sent s)) | Some g \<Rightarrow> WaitTaken g (length (sent s))))\<rparr>)"
| push_closed: "tasks s t = Some (WaitRoom v) \<Longrightarrow> has_room (chan s) \<Longrightarrow> chan_push (chan s) v = Inl e \<Longrightarrow>
    chan_step to s (s\<lparr>tasks := (tasks s)(t \<mapsto> Failed e)\<rparr>)"
| push_timeout: "to \<Longrightarrow> tasks s t = Some (WaitRoom v) \<Longrightarrow> \<not> has_room (chan s) \<Longrightarrow>
    chan_step to s (s\<lparr>tasks := (tasks s)(t \<mapsto> Failed SendTimeout)\<rparr>)"
| taken: "tasks s t = Some (WaitTaken g k) \<Longrightarrow> chan_taken (chan s) g \<Longrightarrow>
    chan_step to s (s\<lparr>tasks := (tasks s)(t \<mapsto> Sent k)\<rparr>)"
| taken_timeout: "to \<Longrightarrow> tasks s t = Some (WaitTaken g k) \<Longrightarrow> \<not> chan_taken (chan s) g \<Longrightarrow>
    chan_step to s (s\<lparr>tasks := (tasks s)(t \<mapsto> Failed RendezvousTimeout)\<rparr>)"
| receive: "has_item (chan s) \<Longrightarrow> chan_take (chan s) = (r, c) \<Longrightarrow>
    chan_step to s (s\<lparr>chan := c, got := got s @ (case r of None \<Rightarrow> [] | Some v \<Rightarrow> [v])\<rparr>)"
| close: "chan_step to s (s\<lparr>chan := close_chan (chan s)\<rparr>)"

inductive chan_reachable :: "bool \<Rightarrow> nat \<Rightarrow> 'v system \<Rightarrow> bool" for to cap where
  start: "chan_reachable to cap (system_init cap)"
| step: "chan_reachable to cap s \<Longrightarrow> chan_step to s s' \<Longrightarrow> chan_reachable to cap s'"

inductive_cases chan_stepE: "chan_step to s s'"

subsection \<open>The invariant\<close>

definition chan_inv :: "nat \<Rightarrow> 'v system \<Rightarrow> bool" where
  "chan_inv cap s \<longleftrightarrow>
     sent s = got s @ queue (chan s) \<and>
     length (queue (chan s)) \<le> capacity (chan s) \<and>
     capacity (chan s) = (if cap = 0 then 1 else cap) \<and> unbuffered (chan s) = (cap = 0) \<and>
     recv_gen (chan s) = length (got s) \<and>
     (\<forall>t g k. tasks s t = Some (WaitTaken g k) \<longrightarrow> cap = 0 \<and> g = k \<and> k < length (sent s)) \<and>
     (\<forall>t k. tasks s t = Some (Sent k) \<longrightarrow> k < length (sent s) \<and>
        (cap = 0 \<longrightarrow> \<not> closed (chan s) \<longrightarrow> k < length (got s)))"

lemma chan_inv_init: "chan_inv cap (system_init cap)"
  by (simp add: chan_inv_def system_init_def chan_new_def)

lemma chan_inv_push:
  assumes inv: "chan_inv cap s" and room: "has_room (chan s)" and p: "chan_push (chan s) v = Inr (c, gen)"
  shows "chan_inv cap (s\<lparr>chan := c, sent := sent s @ [v],
      tasks := (tasks s)(t \<mapsto> (case gen of None \<Rightarrow> Sent (length (sent s)) | Some g \<Rightarrow> WaitTaken g (length (sent s))))\<rparr>)"
proof -
  have open': "\<not> closed (chan s)" and c: "c = (chan s)\<lparr>queue := queue (chan s) @ [v]\<rparr>"
    and gen: "gen = (if unbuffered (chan s) then Some (recv_gen (chan s)) else None)"
    using p by (auto simp: chan_push_def split: if_splits)
  have lt: "length (queue (chan s)) < capacity (chan s)" using room open' by (simp add: has_room_def)
  have "recv_gen (chan s) = length (sent s)" if "cap = 0"
    using inv lt that by (simp add: chan_inv_def)
  then show ?thesis
    using inv lt c gen open' by (auto simp: chan_inv_def less_Suc_eq)
qed

lemma chan_inv_receive:
  assumes inv: "chan_inv cap s" and t: "chan_take (chan s) = (r, c)"
  shows "chan_inv cap (s\<lparr>chan := c, got := got s @ (case r of None \<Rightarrow> [] | Some v \<Rightarrow> [v])\<rparr>)"
  using assms by (auto simp: chan_inv_def chan_take_def less_SucI split: list.splits)

lemma chan_inv_taken:
  assumes inv: "chan_inv cap s" and t: "tasks s t = Some (WaitTaken g k)" and tk: "chan_taken (chan s) g"
  shows "chan_inv cap (s\<lparr>tasks := (tasks s)(t \<mapsto> Sent k)\<rparr>)"
proof -
  have k: "g = k" "k < length (sent s)" "recv_gen (chan s) = length (got s)"
    using inv t by (auto simp: chan_inv_def)
  then have "\<not> closed (chan s) \<longrightarrow> k < length (got s)" using tk by (auto simp: chan_taken_def)
  then show ?thesis using inv k(2) by (auto simp: chan_inv_def)
qed

lemma chan_inv_step: "chan_step to s s' \<Longrightarrow> chan_inv cap s \<Longrightarrow> chan_inv cap s'"
proof (induction rule: chan_step.induct)
  case (push s t v c gen)
  show ?case by (rule chan_inv_push [OF push(4,2,3)])
next
  case (taken s t g k)
  show ?case by (rule chan_inv_taken [OF taken(3,1,2)])
next
  case (receive s r c)
  show ?case by (rule chan_inv_receive [OF receive(3,2)])
next
  case (close s)
  then show ?case by (auto simp: chan_inv_def close_chan_def)
qed (auto simp: chan_inv_def)

lemma chan_inv_reachable: "chan_reachable to cap s \<Longrightarrow> chan_inv cap s"
  by (induction rule: chan_reachable.induct) (auto simp: chan_inv_init intro: chan_inv_step)

lemma chan_step_closed:
  "chan_step to s s' \<Longrightarrow> closed (chan s) \<Longrightarrow> closed (chan s') \<and> sent s' = sent s"
  by (induction rule: chan_step.induct)
     (auto simp: chan_push_def chan_take_def close_chan_def split: list.splits)

subsection \<open>Properties\<close>

text \<open>C18: In every interleaving the received values are, in order, the first ones that were sent, and
  the rest is what the buffer holds: no value is lost, duplicated or overtaken, and the buffer
  never exceeds its capacity, so senders feel the back pressure.\<close>

theorem channel_fifo_bounded:
  assumes "chan_reachable to cap s"
  shows "sent s = got s @ queue (chan s) \<and> length (queue (chan s)) \<le> (if cap = 0 then 1 else cap)"
  using chan_inv_reachable [OF assms] by (simp add: chan_inv_def)

lemma demo_push:
  "chan_step False (system_init 0) ((system_init 0)\<lparr>tasks := [7 \<mapsto> WaitRoom (5 :: nat)]\<rparr>)"
  using enter_send [of "system_init 0" 7 False "5 :: nat"] by (simp add: system_init_def)

lemma demo_reach:
  "chan_reachable False 0 ((system_init 0)\<lparr>chan := \<lparr>queue = [5 :: nat], capacity = 1, closed = False, unbuffered = True, recv_gen = 0\<rparr>,
     sent := [5], tasks := [7 \<mapsto> WaitTaken 0 0]\<rparr>)"
proof -
  let ?s = "(system_init 0)\<lparr>tasks := [7 \<mapsto> WaitRoom (5 :: nat)]\<rparr>"
  have "chan_reachable False 0 ?s" using demo_push chan_reachable.start chan_reachable.step by blast
  moreover have "chan_step False ?s ((system_init 0)\<lparr>chan := \<lparr>queue = [5 :: nat], capacity = 1, closed = False, unbuffered = True, recv_gen = 0\<rparr>,
     sent := [5], tasks := [7 \<mapsto> WaitTaken 0 0]\<rparr>)"
    using push [of ?s 7 5 "\<lparr>queue = [5], capacity = 1, closed = False, unbuffered = True, recv_gen = 0\<rparr>" "Some 0" False]
    by (simp add: system_init_def chan_new_def has_room_def chan_push_def)
  ultimately show ?thesis by (rule chan_reachable.step)
qed

theorem channel_fifo_bounded_witness: "[5 :: nat] = [] @ [5] \<and> length [5 :: nat] \<le> 1"
  using channel_fifo_bounded [OF demo_reach] by (simp add: system_init_def)


lemma demo_handover:
  "chan_reachable False 0 ((system_init 0)\<lparr>chan := \<lparr>queue = [], capacity = 1, closed = False, unbuffered = True, recv_gen = 1\<rparr>,
     sent := [5 :: nat], got := [5], tasks := [7 \<mapsto> Sent 0]\<rparr>)"
proof -
  let ?c1 = "\<lparr>queue = [5 :: nat], capacity = 1, closed = False, unbuffered = True, recv_gen = 0\<rparr>"
  let ?c2 = "\<lparr>queue = [] :: nat list, capacity = 1, closed = False, unbuffered = True, recv_gen = 1\<rparr>"
  let ?s = "(system_init 0)\<lparr>chan := ?c1, sent := [5], tasks := [7 \<mapsto> WaitTaken 0 0]\<rparr>"
  let ?s2 = "(system_init 0)\<lparr>chan := ?c2, sent := [5], got := [5], tasks := [7 \<mapsto> WaitTaken 0 0]\<rparr>"
  have "chan_step False ?s ?s2"
    using receive [of ?s "Some 5" ?c2 False] by (simp add: system_init_def has_item_def chan_take_def)
  then have "chan_reachable False 0 ?s2" using demo_reach chan_reachable.step by blast
  moreover have "chan_step False ?s2 (?s2\<lparr>tasks := [7 \<mapsto> Sent 0]\<rparr>)"
    using taken [of ?s2 7 0 0 False] by (simp add: system_init_def chan_taken_def)
  ultimately have "chan_reachable False 0 (?s2\<lparr>tasks := [7 \<mapsto> Sent 0]\<rparr>)" by (rule chan_reachable.step)
  then show ?thesis by simp
qed


text \<open>Once closed, a channel stays closed and takes no further value; what is buffered can still
  be received.\<close>

theorem channel_closed_final:
  assumes "chan_step to s s'" "closed (chan s)"
  shows "closed (chan s') \<and> sent s' = sent s"
  using assms by (rule chan_step_closed)

theorem channel_closed_final_witness:
  "closed (close_chan (chan_new 3) :: nat LookChannel)"
  using channel_closed_final [of False "\<lparr>chan = close_chan (chan_new 3), tasks = Map.empty, sent = [], got = []\<rparr>", OF close]
  by (simp add: close_chan_def)

text \<open>A send on a channel of capacity zero that reports a timeout leaves its value in the buffer,
  so the receiver still gets a value whose sender was told it was not taken.\<close>

theorem channel_timeout_leaves_value:
  assumes "tasks s t = Some (WaitTaken g k)" "queue (chan s) = v # q" "\<not> chan_taken (chan s) g"
  shows "\<exists>s1 s2. chan_step True s s1 \<and> tasks s1 t = Some (Failed RendezvousTimeout) \<and>
     chan_step True s1 s2 \<and> got s2 = got s @ [v]"
proof -
  let ?s1 = "s\<lparr>tasks := (tasks s)(t \<mapsto> Failed RendezvousTimeout)\<rparr>"
  have "chan_step True s ?s1" using assms(1,3) by (intro taken_timeout) auto
  moreover have "chan_step True ?s1 (?s1\<lparr>chan := (chan s)\<lparr>queue := q, recv_gen := Suc (recv_gen (chan s))\<rparr>, got := got s @ [v]\<rparr>)"
    using receive [of ?s1 "Some v" _ True] assms(2) by (simp add: has_item_def chan_take_def)
  ultimately show ?thesis by (intro exI [of _ ?s1] exI conjI) (assumption | simp)+
qed

theorem channel_timeout_leaves_value_witness:
  "\<exists>s1 s2. chan_step True (\<lparr>chan = \<lparr>queue = [5 :: nat], capacity = 1, closed = False, unbuffered = True, recv_gen = 0\<rparr>,
       tasks = [7 \<mapsto> WaitTaken 0 0], sent = [5], got = []\<rparr>) s1 \<and>
     tasks s1 7 = Some (Failed RendezvousTimeout) \<and> chan_step True s1 s2 \<and> got s2 = [] @ [5]"
  using channel_timeout_leaves_value [of "\<lparr>chan = \<lparr>queue = [5 :: nat], capacity = 1, closed = False, unbuffered = True, recv_gen = 0\<rparr>,
       tasks = [7 \<mapsto> WaitTaken 0 0], sent = [5], got = []\<rparr>" 7 0 0 5 "[]"]
  by (simp add: chan_taken_def)

end
