(* ===== verification/Reg_Alloc.thy ===== *)
theory Reg_Alloc
  imports Prelude
begin

text \<open>
  The register allocator of the bytecode compiler (\<^verbatim>\<open>RegisterAllocator\<close> in
  \<^verbatim>\<open>compiler.h\<close>): temporaries and locals of a function share 255 registers; freed ones go to
  a pool, a call needs a run of consecutive ones. Registers are natural numbers; the invariant
  keeps all of them below 256, so the 8-bit fields never wrap around. The pool is a stack with its
  top first.
\<close>

subsection \<open>Model\<close>

record reg_alloc =
  locals_end :: nat
  next_reg :: nat
  max_reg :: nat
  free_pool :: "nat list"
  in_free :: "nat \<Rightarrow> bool"
  in_seq :: "nat \<Rightarrow> bool"
  pinned :: "nat \<Rightarrow> bool"

definition ra_new :: "nat \<Rightarrow> reg_alloc" where
  "ra_new n = \<lparr>locals_end = n, next_reg = n, max_reg = n, free_pool = [],
     in_free = (\<lambda>r. False), in_seq = (\<lambda>r. False), pinned = (\<lambda>r. False)\<rparr>"

text \<open>\<^term>\<open>None\<close> is the compile error \<^verbatim>\<open>too_many\<close>.\<close>

definition ra_alloc :: "reg_alloc \<Rightarrow> (nat \<times> reg_alloc) option" where
  "ra_alloc s =
     (case free_pool s of
        r # fs \<Rightarrow>
          (let s1 = s\<lparr>free_pool := fs, in_free := (in_free s)(r := False)\<rparr>
           in Some (r, if max_reg s < r + 1 then s1\<lparr>max_reg := r + 1\<rparr> else s1))
      | [] \<Rightarrow>
          if next_reg s = 255 then None
          else let r = next_reg s; s1 = s\<lparr>next_reg := Suc r\<rparr>
               in Some (r, if max_reg s < r + 1 then s1\<lparr>max_reg := r + 1\<rparr> else s1))"

definition ra_free :: "reg_alloc \<Rightarrow> nat \<Rightarrow> reg_alloc" where
  "ra_free s r =
     (if locals_end s \<le> r \<and> \<not> pinned s r \<and> \<not> in_seq s r \<and> \<not> in_free s r
      then s\<lparr>free_pool := r # free_pool s, in_free := (in_free s)(r := True)\<rparr> else s)"

definition ra_alloc_local :: "reg_alloc \<Rightarrow> (nat \<times> reg_alloc) option" where
  "ra_alloc_local s =
     (case ra_alloc s of None \<Rightarrow> None | Some (r, s') \<Rightarrow> Some (r, s'\<lparr>pinned := (pinned s')(r := True)\<rparr>))"

definition ra_free_local :: "reg_alloc \<Rightarrow> nat \<Rightarrow> reg_alloc" where
  "ra_free_local s r = ra_free (s\<lparr>pinned := (pinned s)(r := False)\<rparr>) r"

text \<open>The number of consecutive free registers from \<open>b\<close> on, at most \<open>n\<close>.\<close>

fun run_len :: "(nat \<Rightarrow> bool) \<Rightarrow> nat \<Rightarrow> nat \<Rightarrow> nat" where
  "run_len f b 0 = 0"
| "run_len f b (Suc n) = (if f b then Suc (run_len f (Suc b) n) else 0)"

function seq_search :: "(nat \<Rightarrow> bool) \<Rightarrow> nat \<Rightarrow> nat \<Rightarrow> nat \<Rightarrow> nat option" where
  "seq_search f n nxt b =
     (if b + n \<le> nxt \<and> 0 < n then
        (let k = run_len f b n in if k = n then Some b else seq_search f n nxt (b + k + 1))
      else None)"
  by pat_completeness auto
termination by (relation "measure (\<lambda>(f, n, nxt, b). nxt - b)") auto

declare seq_search.simps [simp del]

definition mark :: "(nat \<Rightarrow> bool) \<Rightarrow> nat \<Rightarrow> nat \<Rightarrow> bool \<Rightarrow> nat \<Rightarrow> bool" where
  "mark f b n v r = (if b \<le> r \<and> r < b + n then v else f r)"

definition ra_alloc_seq :: "reg_alloc \<Rightarrow> nat \<Rightarrow> (nat \<times> reg_alloc) option" where
  "ra_alloc_seq s n =
     (if n = 0 then Some (next_reg s, s)
      else case seq_search (in_free s) n (next_reg s) (locals_end s) of
             Some base \<Rightarrow>
               Some (base, s\<lparr>in_free := mark (in_free s) base n False,
                  free_pool := filter (\<lambda>r. \<not> (base \<le> r \<and> r < base + n)) (free_pool s),
                  in_seq := mark (in_seq s) base n True\<rparr>)
           | None \<Rightarrow>
               if 255 < next_reg s + n then None
               else let base = next_reg s; s1 = s\<lparr>next_reg := base + n\<rparr>;
                        s2 = (if max_reg s < base + n then s1\<lparr>max_reg := base + n\<rparr> else s1)
                    in Some (base, s2\<lparr>in_seq := mark (in_seq s) base n True\<rparr>))"

fun ra_release_seq :: "reg_alloc \<Rightarrow> nat \<Rightarrow> nat \<Rightarrow> reg_alloc" where
  "ra_release_seq s base 0 = s"
| "ra_release_seq s base (Suc n) =
     ra_release_seq (ra_free (s\<lparr>in_seq := (in_seq s)(base := False)\<rparr>) base) (Suc base) n"

subsection \<open>The invariant\<close>

definition live :: "reg_alloc \<Rightarrow> nat set" where
  "live s = {r. locals_end s \<le> r \<and> r < next_reg s \<and> \<not> in_free s r}"

definition ra_inv :: "reg_alloc \<Rightarrow> bool" where
  "ra_inv s \<longleftrightarrow> locals_end s \<le> next_reg s \<and> next_reg s \<le> max_reg s \<and> max_reg s \<le> 255 \<and>
     distinct (free_pool s) \<and> (\<forall>r. in_free s r \<longleftrightarrow> r \<in> set (free_pool s)) \<and>
     (\<forall>r. in_free s r \<longrightarrow> locals_end s \<le> r \<and> r < next_reg s \<and> \<not> in_seq s r \<and> \<not> pinned s r) \<and>
     (\<forall>r. in_seq s r \<or> pinned s r \<longrightarrow> r < next_reg s)"

text \<open>The contract of an allocator: what it hands out was not in use and is now.\<close>

locale allocator =
  fixes inv :: "'s \<Rightarrow> bool" and used :: "'s \<Rightarrow> nat set" and get :: "'s \<Rightarrow> (nat \<times> 's) option"
  assumes get_inv: "inv s \<Longrightarrow> get s = Some (r, s') \<Longrightarrow> inv s'"
    and get_fresh: "inv s \<Longrightarrow> get s = Some (r, s') \<Longrightarrow> r \<notin> used s"
    and get_used: "inv s \<Longrightarrow> get s = Some (r, s') \<Longrightarrow> used s' = insert r (used s)"
begin

fun gets :: "nat \<Rightarrow> 's \<Rightarrow> (nat list \<times> 's) option" where
  "gets 0 s = Some ([], s)"
| "gets (Suc n) s =
     (case get s of
        None \<Rightarrow> None
      | Some (r, s1) \<Rightarrow> (case gets n s1 of None \<Rightarrow> None | Some (rs, s2) \<Rightarrow> Some (r # rs, s2)))"

lemma gets_distinct:
  "inv s \<Longrightarrow> gets n s = Some (rs, s') \<Longrightarrow>
     distinct rs \<and> set rs \<inter> used s = {} \<and> used s' = used s \<union> set rs \<and> inv s'"
proof (induction n arbitrary: s rs)
  case (Suc n)
  then obtain r s1 rs1 where *: "get s = Some (r, s1)" "gets n s1 = Some (rs1, s')" "rs = r # rs1"
    by (auto split: option.splits)
  then show ?case
    using Suc.IH [of s1 rs1] Suc.prems(1) get_inv [OF _ *(1)] get_fresh [OF _ *(1)] get_used [OF _ *(1)] by auto
qed simp

end

lemma ra_alloc_cases:
  assumes "ra_alloc s = Some (r, s')"
  obtains (pool) fs where "free_pool s = r # fs"
      "s' = s\<lparr>free_pool := fs, in_free := (in_free s)(r := False), max_reg := max (max_reg s) (Suc r)\<rparr>"
  | (bump) "free_pool s = []" "next_reg s \<noteq> 255" "r = next_reg s"
      "s' = s\<lparr>next_reg := Suc r, max_reg := max (max_reg s) (Suc r)\<rparr>"
  using assms
  by (cases "free_pool s") (auto simp: ra_alloc_def Let_def max_def less_Suc_eq split: if_splits)

lemma ra_invD:
  assumes "ra_inv s"
  shows "locals_end s \<le> next_reg s" "next_reg s \<le> max_reg s" "max_reg s \<le> 255" "distinct (free_pool s)"
    "in_free s r \<longleftrightarrow> r \<in> set (free_pool s)" "in_free s r \<Longrightarrow> locals_end s \<le> r"
    "in_free s r \<Longrightarrow> r < next_reg s" "in_free s r \<Longrightarrow> \<not> in_seq s r" "in_free s r \<Longrightarrow> \<not> pinned s r"
    "in_seq s r \<Longrightarrow> r < next_reg s" "pinned s r \<Longrightarrow> r < next_reg s"
  using assms unfolding ra_inv_def by blast+

lemma ra_alloc_inv:
  assumes "ra_inv s" "ra_alloc s = Some (r, s')"
  shows "ra_inv s'"
  using assms(2)
proof (cases rule: ra_alloc_cases)
  case (pool fs)
  have "r < next_reg s" using ra_invD(5,7) [OF assms(1), of r] pool(1) by simp
  then have "max (max_reg s) (Suc r) = max_reg s" using ra_invD(2) [OF assms(1)] by linarith
  then show ?thesis using assms(1) pool by (auto simp: ra_inv_def)
next
  case bump
  then show ?thesis using assms(1) by (auto simp: ra_inv_def less_Suc_eq)
qed

lemma ra_alloc_fresh:
  assumes "ra_inv s" "ra_alloc s = Some (r, s')"
  shows "r \<notin> live s" "live s' = insert r (live s)" "locals_end s \<le> r" "r < 255"
    "\<not> in_seq s r" "\<not> pinned s r"
  using assms(2) ra_invD(1-4) [OF assms(1)] ra_invD(5-) [OF assms(1), of r]
  by (cases rule: ra_alloc_cases; force simp: live_def)+

lemma ra_alloc_keeps:
  assumes "ra_alloc s = Some (r, s')"
  shows "pinned s' = pinned s" "in_seq s' = in_seq s" "locals_end s' = locals_end s" "next_reg s \<le> next_reg s'"
  using assms by (cases rule: ra_alloc_cases; simp)+

lemma ra_alloc_None: "ra_alloc s = None \<longleftrightarrow> free_pool s = [] \<and> next_reg s = 255"
  by (auto simp: ra_alloc_def Let_def split: list.splits)

interpretation regs: allocator ra_inv live ra_alloc
  by unfold_locales (use ra_alloc_inv ra_alloc_fresh in auto)

lemma ra_new_inv: "n \<le> 255 \<Longrightarrow> ra_inv (ra_new n)"
  by (simp add: ra_new_def ra_inv_def)

lemma ra_free_inv: "ra_inv s \<Longrightarrow> r < next_reg s \<Longrightarrow> ra_inv (ra_free s r)"
  by (auto simp: ra_inv_def ra_free_def)

lemma ra_free_live:
  "live (ra_free s r) = (if pinned s r \<or> in_seq s r then live s else live s - {r})"
  by (auto simp: live_def ra_free_def)

lemma run_len_le: "run_len f b n \<le> n"
  by (induction n arbitrary: b) auto

lemma run_len_full: "run_len f b n = n \<longleftrightarrow> (\<forall>k < n. f (b + k))"
proof (induction n arbitrary: b)
  case (Suc n)
  have "(\<forall>k < Suc n. f (b + k)) \<longleftrightarrow> f b \<and> (\<forall>k < n. f (Suc b + k))"
    by (simp add: All_less_Suc2)
  then show ?case using Suc [of "Suc b"] by auto
qed simp

lemma run_len_stop: "run_len f b n < n \<Longrightarrow> \<not> f (b + run_len f b n)"
proof (induction n arbitrary: b)
  case (Suc n)
  then show ?case using Suc.IH [of "Suc b"] by (auto split: if_splits)
qed simp

text \<open>Skipping past the first occupied register loses no free run.\<close>

lemma seq_search_Some:
  "seq_search f n nxt b = Some c \<Longrightarrow> b \<le> c \<and> c + n \<le> nxt \<and> 0 < n \<and> (\<forall>k < n. f (c + k))"
proof (induction f n nxt b rule: seq_search.induct)
  case (1 f n nxt b)
  show ?case
  proof (cases "run_len f b n = n")
    case True
    then show ?thesis using "1.prems" run_len_full [of f b n]
      by (simp add: seq_search.simps [of f n nxt b] Let_def split: if_splits)
  next
    case False
    then show ?thesis using 1 by (auto simp: seq_search.simps [of f n nxt b] Let_def split: if_splits)
  qed
qed

lemma seq_search_None:
  "seq_search f n nxt b = None \<Longrightarrow> 0 < n \<Longrightarrow> b \<le> c \<Longrightarrow> c + n \<le> nxt \<Longrightarrow> \<exists>k < n. \<not> f (c + k)"
proof (induction f n nxt b rule: seq_search.induct)
  case (1 f n nxt b)
  let ?k = "run_len f b n"
  have k: "?k < n" and step: "seq_search f n nxt (b + ?k + 1) = None"
    using 1 run_len_le [of f b n] by (auto simp: seq_search.simps [of f n nxt b] Let_def split: if_splits)
  show ?case
  proof (cases "c \<le> b + ?k")
    case True
    then have "\<not> f (c + (b + ?k - c))" using run_len_stop [OF k] by simp
    moreover have "b + ?k - c < n" using k "1.prems" by simp
    ultimately show ?thesis by blast
  next
    case False
    then show ?thesis using 1 k step by auto
  qed
qed

lemma ra_alloc_seq_cases:
  assumes "ra_alloc_seq s n = Some (b, s')" "0 < n"
  obtains (gap) "locals_end s \<le> b" "b + n \<le> next_reg s" "\<forall>k < n. in_free s (b + k)"
      "s' = s\<lparr>in_free := mark (in_free s) b n False,
              free_pool := filter (\<lambda>r. \<not> (b \<le> r \<and> r < b + n)) (free_pool s),
              in_seq := mark (in_seq s) b n True\<rparr>"
  | (top) "b = next_reg s" "next_reg s + n \<le> 255"
      "s' = s\<lparr>next_reg := b + n, max_reg := max (max_reg s) (b + n), in_seq := mark (in_seq s) b n True\<rparr>"
  using assms seq_search_Some [of "in_free s" n "next_reg s" "locals_end s"]
  by (auto simp: ra_alloc_seq_def Let_def max_def split: if_splits option.splits)

lemma mark_iff: "mark f b n v r \<longleftrightarrow> (if b \<le> r \<and> r < b + n then v else f r)"
  by (simp add: mark_def)

lemma in_run: "(\<forall>k < n. f (b + k)) \<Longrightarrow> b \<le> r \<Longrightarrow> r < b + n \<Longrightarrow> f (r::nat)"
  by (metis le_add_diff_inverse nat_add_left_cancel_less)

lemma ra_alloc_seq_inv:
  assumes "ra_inv s" "ra_alloc_seq s n = Some (b, s')"
  shows "ra_inv s'"
proof (cases "n = 0")
  case False
  then have "0 < n" by simp
  with assms(2) show ?thesis
  proof (cases rule: ra_alloc_seq_cases)
    case gap
    then show ?thesis using assms(1) in_run [OF gap(3)] by (auto simp: ra_inv_def mark_iff)
  next
    case top
    then show ?thesis using assms(1) by (auto simp: ra_inv_def mark_iff)
  qed
qed (use assms in \<open>simp add: ra_alloc_seq_def\<close>)

lemma ra_alloc_seq_fresh:
  assumes "ra_inv s" "ra_alloc_seq s n = Some (b, s')" "0 < n"
  shows "{b..<b + n} \<inter> live s = {} \<and> live s' = live s \<union> {b..<b + n} \<and> locals_end s \<le> b \<and> b + n \<le> 255"
  using assms(2,3)
proof (cases rule: ra_alloc_seq_cases)
  case gap
  note run = in_run [OF gap(3)]
  have "{b..<b + n} \<inter> live s = {}" using run by (auto simp: live_def)
  moreover have "live s' = live s \<union> {b..<b + n}" using gap run by (auto simp: live_def mark_iff)
  ultimately show ?thesis using gap ra_invD(2,3) [OF assms(1)] by auto
next
  case top
  have "{b..<b + n} \<inter> live s = {}" using top by (auto simp: live_def)
  moreover have "\<not> in_free s r" if "b \<le> r" for r using ra_invD(7) [OF assms(1), of r] top that by auto
  then have "live s' = live s \<union> {b..<b + n}" using top ra_invD(1) [OF assms(1)] by (auto simp: live_def)
  ultimately show ?thesis using top ra_invD(1) [OF assms(1)] by auto
qed

lemma ra_free_keeps [simp]:
  "next_reg (ra_free s r) = next_reg s" "locals_end (ra_free s r) = locals_end s"
  "pinned (ra_free s r) = pinned s" "in_seq (ra_free s r) = in_seq s"
  by (simp_all add: ra_free_def)

lemma ra_free_local_keeps:
  "locals_end (ra_free_local s r) = locals_end s" "pinned (ra_free_local s r) = (pinned s)(r := False)"
  "in_seq (ra_free_local s r) = in_seq s"
  by (simp_all add: ra_free_local_def)

lemma ra_release_seq_inv: "ra_inv s \<Longrightarrow> b + n \<le> next_reg s \<Longrightarrow> ra_inv (ra_release_seq s b n)"
proof (induction s b n rule: ra_release_seq.induct)
  case (2 s b n)
  have "ra_inv (s\<lparr>in_seq := (in_seq s)(b := False)\<rparr>)" using "2.prems" by (auto simp: ra_inv_def)
  then have "ra_inv (ra_free (s\<lparr>in_seq := (in_seq s)(b := False)\<rparr>) b)"
    by (rule ra_free_inv) (use "2.prems" in simp)
  then show ?case using 2 by simp
qed simp

lemma ra_release_seq_keeps:
  "pinned (ra_release_seq s b n) = pinned s"
  "in_seq (ra_release_seq s b n) r \<longleftrightarrow> in_seq s r \<and> \<not> (b \<le> r \<and> r < b + n)"
  "locals_end (ra_release_seq s b n) = locals_end s"
  by (induction s b n rule: ra_release_seq.induct) auto

subsection \<open>Sequences of allocator calls\<close>

text \<open>
  The calls of the compiler, each with the registers it hands out. A register is only freed after
  it was handed out, which is the guard of the freeing steps.
\<close>

datatype ra_op = Alloc | Free nat | Alloc_local | Free_local nat | Alloc_seq nat | Release_seq nat nat

inductive ra_step :: "reg_alloc \<Rightarrow> ra_op \<Rightarrow> nat list \<Rightarrow> reg_alloc \<Rightarrow> bool" where
  step_alloc: "ra_alloc s = Some (r, s') \<Longrightarrow> ra_step s Alloc [r] s'"
| step_free: "r < next_reg s \<Longrightarrow> ra_step s (Free r) [] (ra_free s r)"
| step_alloc_local: "ra_alloc_local s = Some (r, s') \<Longrightarrow> ra_step s Alloc_local [r] s'"
| step_free_local: "r < next_reg s \<Longrightarrow> ra_step s (Free_local r) [] (ra_free_local s r)"
| step_alloc_seq: "ra_alloc_seq s n = Some (b, s') \<Longrightarrow> ra_step s (Alloc_seq n) [b..<b + n] s'"
| step_release_seq: "b + n \<le> next_reg s \<Longrightarrow> ra_step s (Release_seq b n) [] (ra_release_seq s b n)"

inductive ra_steps :: "reg_alloc \<Rightarrow> ra_op list \<Rightarrow> nat list \<Rightarrow> reg_alloc \<Rightarrow> bool" where
  steps_nil: "ra_steps s [] [] s"
| steps_cons: "ra_step s c rs s1 \<Longrightarrow> ra_steps s1 cs qs s2 \<Longrightarrow> ra_steps s (c # cs) (rs @ qs) s2"

text \<open>The calls that end the protection of a register.\<close>

fun releases :: "ra_op \<Rightarrow> nat \<Rightarrow> bool" where
  "releases (Free_local q) r = (q = r)"
| "releases (Release_seq b n) r = (b \<le> r \<and> r < b + n)"
| "releases _ r = False"

definition guarded :: "reg_alloc \<Rightarrow> nat \<Rightarrow> bool" where
  "guarded s r \<longleftrightarrow> locals_end s \<le> r \<and> (pinned s r \<or> in_seq s r)"

lemma guarded_live: "ra_inv s \<Longrightarrow> guarded s r \<Longrightarrow> r \<in> live s"
  using ra_invD(8-11) [of s r] by (auto simp: guarded_def live_def)

lemma ra_alloc_local_cases:
  assumes "ra_alloc_local s = Some (r, s')"
  obtains s1 where "ra_alloc s = Some (r, s1)" "s' = s1\<lparr>pinned := (pinned s1)(r := True)\<rparr>"
  using assms by (auto simp: ra_alloc_local_def split: option.splits)

lemma ra_alloc_local_inv:
  assumes "ra_inv s" "ra_alloc_local s = Some (r, s')"
  shows "ra_inv s'"
proof -
  obtain s1 where s1: "ra_alloc s = Some (r, s1)" "s' = s1\<lparr>pinned := (pinned s1)(r := True)\<rparr>"
    using assms(2) by (rule ra_alloc_local_cases)
  have "r \<in> live s1" using ra_alloc_fresh(2) [OF assms(1) s1(1)] by simp
  then show ?thesis using ra_alloc_inv [OF assms(1) s1(1)] s1(2) by (auto simp: ra_inv_def live_def)
qed

lemma ra_free_local_inv: "ra_inv s \<Longrightarrow> r < next_reg s \<Longrightarrow> ra_inv (ra_free_local s r)"
  unfolding ra_free_local_def by (rule ra_free_inv) (auto simp: ra_inv_def)

lemma ra_step_inv:
  assumes "ra_step s c rs s'" "ra_inv s"
  shows "ra_inv s'"
  using assms(1)
proof (cases rule: ra_step.cases)
  case (step_alloc r) show ?thesis using assms(2) step_alloc(3) by (rule ra_alloc_inv)
next
  case (step_free r) then show ?thesis using ra_free_inv [OF assms(2)] by simp
next
  case (step_alloc_local r) show ?thesis using assms(2) step_alloc_local(3) by (rule ra_alloc_local_inv)
next
  case (step_free_local r) then show ?thesis using ra_free_local_inv [OF assms(2)] by simp
next
  case (step_alloc_seq n b) show ?thesis using assms(2) step_alloc_seq(3) by (rule ra_alloc_seq_inv)
next
  case (step_release_seq b n) then show ?thesis using ra_release_seq_inv [OF assms(2)] by simp
qed

lemma ra_step_handed:
  "ra_step s c rs s' \<Longrightarrow> ra_inv s \<Longrightarrow>
     distinct rs \<and> set rs \<inter> live s = {} \<and> (\<forall>r \<in> set rs. locals_end s \<le> r \<and> r < 255)"
proof (induction rule: ra_step.induct)
  case (step_alloc s r s')
  then show ?case using ra_alloc_fresh [OF step_alloc(2,1)] by auto
next
  case (step_alloc_local s r s')
  then obtain s1 where "ra_alloc s = Some (r, s1)" by (auto elim: ra_alloc_local_cases)
  then show ?case using ra_alloc_fresh [OF step_alloc_local(2)] by simp
next
  case (step_alloc_seq s n b s')
  then show ?case using ra_alloc_seq_fresh [OF step_alloc_seq(2,1)] by (cases "n = 0") auto
qed auto

lemma ra_step_guards:
  "ra_step s c rs s' \<Longrightarrow> \<not> releases c r \<Longrightarrow> guarded s r \<Longrightarrow> guarded s' r"
proof (induction rule: ra_step.induct)
  case (step_alloc s q s')
  then show ?case using ra_alloc_keeps [OF step_alloc(1)] by (simp add: guarded_def)
next
  case (step_alloc_local s q s')
  then obtain s1 where s1: "ra_alloc s = Some (q, s1)" "s' = s1\<lparr>pinned := (pinned s1)(q := True)\<rparr>"
    by (auto elim: ra_alloc_local_cases)
  then show ?case using step_alloc_local(3) ra_alloc_keeps [OF s1(1)] by (simp add: guarded_def)
next
  case (step_alloc_seq s n b s')
  show ?case
  proof (cases "n = 0")
    case False
    then have "0 < n" by simp
    with step_alloc_seq(1) show ?thesis
      by (cases rule: ra_alloc_seq_cases) (use step_alloc_seq in \<open>auto simp: guarded_def mark_iff\<close>)
  qed (use step_alloc_seq in \<open>simp add: ra_alloc_seq_def\<close>)
qed (auto simp: guarded_def ra_free_local_keeps ra_release_seq_keeps)

lemma ra_step_locals_end: "ra_step s c rs s' \<Longrightarrow> locals_end s' = locals_end s"
proof (induction rule: ra_step.induct)
  case (step_alloc_local s q s')
  then obtain s1 where s1: "ra_alloc s = Some (q, s1)" "s' = s1\<lparr>pinned := (pinned s1)(q := True)\<rparr>"
    by (auto elim: ra_alloc_local_cases)
  then show ?case using ra_alloc_keeps [OF s1(1)] by simp
next
  case (step_alloc_seq s n b s')
  show ?case
  proof (cases "n = 0")
    case False
    then have "0 < n" by simp
    with step_alloc_seq show ?thesis by (cases rule: ra_alloc_seq_cases) simp_all
  qed (use step_alloc_seq in \<open>simp add: ra_alloc_seq_def\<close>)
qed (simp_all add: ra_alloc_keeps ra_free_local_keeps ra_release_seq_keeps)

lemma ra_steps_safe:
  "ra_steps s cs rs s' \<Longrightarrow> ra_inv s \<Longrightarrow> guarded s r \<Longrightarrow> (\<forall>c \<in> set cs. \<not> releases c r) \<Longrightarrow>
     r \<notin> set rs \<and> guarded s' r"
proof (induction rule: ra_steps.induct)
  case (steps_cons s c rs s1 cs qs s2)
  have "r \<notin> set rs"
    using ra_step_handed [OF steps_cons(1)] steps_cons.prems guarded_live by blast
  moreover have "r \<notin> set qs \<and> guarded s2 r"
    using steps_cons.IH ra_step_inv [OF steps_cons(1)] ra_step_guards [OF steps_cons(1), of r] steps_cons.prems by auto
  ultimately show ?case by simp
qed simp

lemma ra_steps_inv:
  "ra_steps s cs rs s' \<Longrightarrow> ra_inv s \<Longrightarrow> ra_inv s' \<and> (\<forall>r \<in> set rs. locals_end s \<le> r \<and> r < 255)"
proof (induction rule: ra_steps.induct)
  case (steps_cons s c rs s1 cs qs s2)
  then show ?case
    using ra_step_inv [OF steps_cons(1)] ra_step_locals_end [OF steps_cons(1)] ra_step_handed [OF steps_cons(1)]
    by auto
qed simp

lemma ra_steps_locals_end: "ra_steps s cs rs s' \<Longrightarrow> locals_end s' = locals_end s"
  by (induction rule: ra_steps.induct) (simp_all add: ra_step_locals_end)

text \<open>C20: a register that holds a local variable, or that belongs to the argument block of a call being
  compiled, is never handed out again, whatever the compiler allocates and frees in between (including
  stray frees of that very register), until its own release; and every register that any sequence of
  calls hands out lies between the parameters of the function and 255.\<close>

theorem registers_protected:
  assumes "m \<le> 255" "ra_steps (ra_new m) cs rs s" "ra_steps s ds qs t"
    and "guarded s r" "\<forall>c \<in> set ds. \<not> releases c r"
  shows "r \<notin> set qs \<and> guarded t r \<and> (\<forall>q \<in> set (rs @ qs). m \<le> q \<and> q < 255)"
proof -
  note s = ra_steps_inv [OF assms(2) ra_new_inv [OF assms(1)]]
  have "locals_end s = m" using ra_steps_locals_end [OF assms(2)] by (simp add: ra_new_def)
  then show ?thesis
    using ra_steps_safe [OF assms(3) conjunct1 [OF s] assms(4,5)] s ra_steps_inv [OF assms(3) conjunct1 [OF s]]
    by (auto simp: ra_new_def)
qed

theorem registers_protected_witness:
  "\<exists>s t. ra_steps (ra_new 2) [Alloc_local] [2] s \<and> ra_steps s [Free 2, Alloc] [3] t \<and> guarded s 2 \<and> guarded t 2"
proof -
  let ?s = "(ra_new 2)\<lparr>next_reg := 3, max_reg := 3, pinned := (\<lambda>r. False)(2 := True)\<rparr>"
  let ?t = "?s\<lparr>next_reg := 4, max_reg := 4\<rparr>"
  have "ra_step (ra_new 2) Alloc_local [2] ?s"
    by (rule step_alloc_local) (simp add: ra_alloc_local_def ra_alloc_def ra_new_def)
  from steps_cons [OF this steps_nil] have s: "ra_steps (ra_new 2) [Alloc_local] [2] ?s" by simp
  have "ra_step ?s (Free 2) [] (ra_free ?s 2)" by (rule step_free) simp
  moreover have "ra_free ?s 2 = ?s" by (simp add: ra_free_def)
  ultimately have f: "ra_step ?s (Free 2) [] ?s" by simp
  have a: "ra_step ?s Alloc [3] ?t" by (rule step_alloc) (simp add: ra_alloc_def ra_new_def)
  have t: "ra_steps ?s [Free 2, Alloc] [3] ?t" using steps_cons [OF f steps_cons [OF a steps_nil]] by simp
  have g: "guarded ?s 2" by (simp add: guarded_def ra_new_def)
  have "guarded ?t 2" using registers_protected [OF _ s t g] by simp
  then show ?thesis using s t g by blast
qed

text \<open>C21: a request for \<open>n\<close> consecutive registers fails (the \<^verbatim>\<open>too_many\<close> compile error) only
  when no run of \<open>n\<close> free registers exists below the high-water mark and the run does not fit
  above it either; what it returns otherwise is a run of \<open>n\<close> registers none of which is in use,
  and it is in use from then on.\<close>

theorem alloc_seq_complete:
  assumes "ra_inv s" "0 < n"
  shows "(case ra_alloc_seq s n of
            None \<Rightarrow> 255 < next_reg s + n \<and>
              (\<forall>b. locals_end s \<le> b \<and> b + n \<le> next_reg s \<longrightarrow> {b..<b + n} \<inter> live s \<noteq> {})
          | Some (b, s') \<Rightarrow> b + n \<le> 255 \<and> {b..<b + n} \<inter> live s = {} \<and> live s' = live s \<union> {b..<b + n})"
proof (cases "ra_alloc_seq s n")
  case None
  then have none: "seq_search (in_free s) n (next_reg s) (locals_end s) = None" "255 < next_reg s + n"
    using assms(2) by (auto simp: ra_alloc_seq_def Let_def split: if_splits option.splits)
  have "{b..<b + n} \<inter> live s \<noteq> {}" if b: "locals_end s \<le> b" "b + n \<le> next_reg s" for b
  proof -
    obtain k where "k < n" "\<not> in_free s (b + k)" using seq_search_None [OF none(1) assms(2) b] by blast
    then have "b + k \<in> {b..<b + n} \<inter> live s" using b by (simp add: live_def)
    then show ?thesis by blast
  qed
  then show ?thesis using None none by simp
next
  case (Some p)
  then show ?thesis using ra_alloc_seq_fresh [OF assms(1) _ assms(2)] by (cases p) simp
qed

theorem alloc_seq_complete_witness:
  "ra_inv (ra_new 2) \<and> (case ra_alloc_seq (ra_new 2) 3 of None \<Rightarrow> False | Some (b, s') \<Rightarrow> b = 2 \<and> {2..<5} \<subseteq> live s')"
proof -
  have i: "ra_inv (ra_new 2)" by (rule ra_new_inv) simp
  have "fst (the (ra_alloc_seq (ra_new 2) 3)) = 2" "ra_alloc_seq (ra_new 2) 3 \<noteq> None"
    by (simp_all add: ra_alloc_seq_def ra_new_def seq_search.simps Let_def)
  then show ?thesis using i alloc_seq_complete [OF i, of 3] by (auto split: option.splits)
qed

text \<open>Successive allocations hand out different registers, none of them in use before.\<close>

lemma alloc_distinct:
  "ra_inv s \<Longrightarrow> regs.gets n s = Some (rs, s') \<Longrightarrow> distinct rs \<and> set rs \<inter> live s = {} \<and> live s' = live s \<union> set rs"
  using regs.gets_distinct by blast

end
