(* ===== verification/Lexer.thy ===== *)
theory Lexer
  imports Json_Str
begin

text \<open>
  The lexer of the Look language: the token types of \<^verbatim>\<open>token.h\<close> and the class
  \<^verbatim>\<open>Lexer\<close> of \<^verbatim>\<open>lexer.h\<close> / \<^verbatim>\<open>lexer.cpp\<close>, automatic semicolon insertion included.
  The read position \<^verbatim>\<open>current_\<close> is the unread suffix \<open>rest\<close> of the source, \<^verbatim>\<open>start_\<close>
  the suffix at which the current token began; exceptions are values of \<open>lex_error\<close>. Line and column
  counters are natural numbers (a source has fewer than \<open>2\<^sup>3\<^sup>1\<close> bytes).
\<close>

subsection \<open>Tokens\<close>

datatype (plugins only: size) TokenType =
    T_EOF_TOKEN | T_IDENT | T_STRING | T_NUMBER | T_FLOAT_NUM
  | T_SEMICOLON | T_LPAREN | T_RPAREN | T_LBRACE | T_RBRACE | T_LBRACKET | T_RBRACKET | T_COMMA | T_FAT_ARROW
  | T_COLON_COLON
  | T_ASSIGN | T_PLUS_ASSIGN | T_MINUS_ASSIGN | T_STAR_ASSIGN | T_SLASH_ASSIGN | T_PERCENT_ASSIGN
  | T_DOT_ASSIGN | T_AMP_ASSIGN | T_PIPE_ASSIGN | T_CARET_ASSIGN
  | T_PLUS | T_MINUS | T_STAR | T_SLASH | T_PERCENT | T_STAR_STAR
  | T_DOT
  | T_PLUS_PLUS | T_MINUS_MINUS
  | T_AMP | T_PIPE | T_CARET | T_TILDE | T_LESS_LESS | T_GREATER_GREATER
  | T_BANG | T_AMP_AMP | T_PIPE_PIPE
  | T_EQUAL_EQUAL | T_BANG_EQUAL | T_GREATER | T_GREATER_EQUAL | T_LESS | T_LESS_EQUAL | T_SPACESHIP
  | T_QUESTION_QUESTION
  | T_QUESTION | T_COLON
  | T_ELLIPSIS
  | T_RETURN | T_FUNCTION | T_PRINT | T_WRITE | T_IF | T_ELSEIF | T_ELSE | T_WHILE | T_FOR | T_FOREACH | T_AS
  | T_BREAK | T_CONTINUE | T_TRUE_KW | T_FALSE_KW | T_NULL_TOKEN | T_USE | T_TRY | T_CATCH | T_FINALLY | T_THROW
  | T_GLOBAL | T_SWITCH | T_CASE | T_DEFAULT
  | T_STRUCT | T_CONST_KW | T_IOTA

record Token =
  tok_type :: TokenType
  lexeme :: string
  literal :: "string option"
  tok_line :: nat
  tok_column :: nat
  raw :: bool

definition keyword_table :: "(string \<times> TokenType) list" where
  "keyword_table =
     [(''if'', T_IF), (''else'', T_ELSE), (''while'', T_WHILE), (''for'', T_FOR), (''foreach'', T_FOREACH),
      (''as'', T_AS), (''break'', T_BREAK), (''continue'', T_CONTINUE), (''function'', T_FUNCTION),
      (''fn'', T_FUNCTION), (''return'', T_RETURN), (''print'', T_PRINT), (''write'', T_WRITE),
      (''elseif'', T_ELSEIF), (''true'', T_TRUE_KW), (''false'', T_FALSE_KW), (''null'', T_NULL_TOKEN),
      (''use'', T_USE), (''global'', T_GLOBAL), (''try'', T_TRY), (''catch'', T_CATCH),
      (''finally'', T_FINALLY), (''throw'', T_THROW), (''switch'', T_SWITCH), (''case'', T_CASE),
      (''default'', T_DEFAULT), (''struct'', T_STRUCT), (''const'', T_CONST_KW), (''iota'', T_IOTA)]"

subsection \<open>Lexer state\<close>

datatype lex_error =
    Unterminated_comment nat
  | Unterminated_string nat
  | Unterminated_raw_string nat
  | Unexpected_character char

record lexer =
  rest :: string
  tokens :: "Token list"
  line :: nat
  col :: nat
  last_token_type :: TokenType
  paren_depth :: int
  bracket_depth :: int
  brace_depth :: int
  paren_brace_stack :: "int list"

definition lexer_new :: "string \<Rightarrow> lexer" where
  "lexer_new source =
     \<lparr>rest = (if prefix [CHR 0xEF, CHR 0xBB, CHR 0xBF] source then drop 3 source else source),
      tokens = [], line = 1, col = 1, last_token_type = T_EOF_TOKEN,
      paren_depth = 0, bracket_depth = 0, brace_depth = 0, paren_brace_stack = []\<rparr>"

definition peek :: "string \<Rightarrow> char" where
  "peek s = (case s of [] \<Rightarrow> CHR 0x00 | c # _ \<Rightarrow> c)"

definition peek_next :: "string \<Rightarrow> char" where
  "peek_next s = (case s of _ # c # _ \<Rightarrow> c | _ \<Rightarrow> CHR 0x00)"

definition advance :: "nat \<Rightarrow> lexer \<Rightarrow> lexer" where
  "advance n l = l\<lparr>rest := drop n (rest l), col := col l + n\<rparr>"

definition add_token :: "string \<Rightarrow> nat \<Rightarrow> TokenType \<Rightarrow> string option \<Rightarrow> bool \<Rightarrow> lexer \<Rightarrow> lexer" where
  "add_token start start_col ty lit is_raw l =
     l\<lparr>tokens := tokens l @ [\<lparr>tok_type = ty, lexeme = take (length start - length (rest l)) start,
          literal = lit, tok_line = line l, tok_column = start_col, raw = is_raw\<rparr>],
       last_token_type := ty\<rparr>"

subsection \<open>Automatic semicolons\<close>

definition should_insert_semicolon :: "TokenType \<Rightarrow> bool" where
  "should_insert_semicolon t \<longleftrightarrow>
     t \<in> {T_IDENT, T_NUMBER, T_FLOAT_NUM, T_STRING, T_TRUE_KW, T_FALSE_KW, T_NULL_TOKEN, T_RPAREN, T_RBRACKET,
          T_RBRACE, T_PLUS_PLUS, T_MINUS_MINUS, T_BREAK, T_CONTINUE, T_RETURN}"

definition is_continuation_ahead :: "string \<Rightarrow> bool" where
  "is_continuation_ahead s =
     (let s1 = dropWhile (\<lambda>c. c \<noteq> NL \<and> (c = CHR '' '' \<or> c = TAB \<or> c = CR)) s;
          s2 = (if s1 \<noteq> [] \<and> hd s1 = NL then tl s1 else s1);
          s3 = dropWhile (\<lambda>c. c = CHR '' '' \<or> c = TAB) s2
      in s3 \<noteq> [] \<and> hd s3 \<in> set ''.+-*/%&|^?'')"

definition asi_ok :: "lexer \<Rightarrow> bool" where
  "asi_ok l \<longleftrightarrow>
     paren_depth l = 0 \<or> (paren_brace_stack l \<noteq> [] \<and> hd (paren_brace_stack l) < brace_depth l)"

definition insert_semicolon :: "lexer \<Rightarrow> lexer" where
  "insert_semicolon l =
     (if asi_ok l \<and> bracket_depth l = 0 \<and> should_insert_semicolon (last_token_type l) \<and>
         \<not> is_continuation_ahead (rest l)
      then l\<lparr>tokens := tokens l @ [\<lparr>tok_type = T_SEMICOLON, lexeme = '';'', literal = None,
              tok_line = line l, tok_column = col l, raw = False\<rparr>],
             last_token_type := T_SEMICOLON\<rparr>
      else l)"

subsection \<open>Operators and punctuation\<close>

text \<open>The token type, and how many bytes after \<open>c\<close> belong to it.\<close>

definition op_token :: "char \<Rightarrow> string \<Rightarrow> (TokenType \<times> nat) option" where
  "op_token c s =
     (if c = CHR '':'' then Some (if peek s = CHR '':'' then (T_COLON_COLON, 1) else (T_COLON, 0))
      else if c = CHR ''('' then Some (T_LPAREN, 0)
      else if c = CHR '')'' then Some (T_RPAREN, 0)
      else if c = CHR ''{'' then Some (T_LBRACE, 0)
      else if c = CHR ''}'' then Some (T_RBRACE, 0)
      else if c = CHR ''['' then Some (T_LBRACKET, 0)
      else if c = CHR '']'' then Some (T_RBRACKET, 0)
      else if c = CHR '','' then Some (T_COMMA, 0)
      else if c = CHR '';'' then Some (T_SEMICOLON, 0)
      else if c = CHR ''~'' then Some (T_TILDE, 0)
      else if c = CHR ''+'' then
        Some (if peek s = CHR ''='' then (T_PLUS_ASSIGN, 1) else if peek s = CHR ''+'' then (T_PLUS_PLUS, 1)
              else (T_PLUS, 0))
      else if c = CHR ''-'' then
        Some (if peek s = CHR ''='' then (T_MINUS_ASSIGN, 1) else if peek s = CHR ''-'' then (T_MINUS_MINUS, 1)
              else (T_MINUS, 0))
      else if c = CHR ''*'' then
        Some (if peek s = CHR ''='' then (T_STAR_ASSIGN, 1) else if peek s = CHR ''*'' then (T_STAR_STAR, 1)
              else (T_STAR, 0))
      else if c = CHR ''/'' then Some (if peek s = CHR ''='' then (T_SLASH_ASSIGN, 1) else (T_SLASH, 0))
      else if c = CHR ''%'' then Some (if peek s = CHR ''='' then (T_PERCENT_ASSIGN, 1) else (T_PERCENT, 0))
      else if c = CHR ''&'' then
        Some (if peek s = CHR ''&'' then (T_AMP_AMP, 1) else if peek s = CHR ''='' then (T_AMP_ASSIGN, 1)
              else (T_AMP, 0))
      else if c = CHR ''|'' then
        Some (if peek s = CHR ''|'' then (T_PIPE_PIPE, 1) else if peek s = CHR ''='' then (T_PIPE_ASSIGN, 1)
              else (T_PIPE, 0))
      else if c = CHR ''^'' then Some (if peek s = CHR ''='' then (T_CARET_ASSIGN, 1) else (T_CARET, 0))
      else if c = CHR ''='' then
        Some (if peek s = CHR ''='' then (T_EQUAL_EQUAL, 1) else if peek s = CHR ''>'' then (T_FAT_ARROW, 1)
              else (T_ASSIGN, 0))
      else if c = CHR ''!'' then Some (if peek s = CHR ''='' then (T_BANG_EQUAL, 1) else (T_BANG, 0))
      else if c = CHR ''<'' then
        Some (if peek s = CHR ''='' \<and> peek_next s = CHR ''>'' then (T_SPACESHIP, 2)
              else if peek s = CHR ''='' then (T_LESS_EQUAL, 1)
              else if peek s = CHR ''<'' then (T_LESS_LESS, 1) else (T_LESS, 0))
      else if c = CHR ''>'' then
        Some (if peek s = CHR ''='' then (T_GREATER_EQUAL, 1)
              else if peek s = CHR ''>'' then (T_GREATER_GREATER, 1) else (T_GREATER, 0))
      else if c = CHR ''?'' then Some (if peek s = CHR ''?'' then (T_QUESTION_QUESTION, 1) else (T_QUESTION, 0))
      else if c = CHR ''.'' then
        Some (if peek s = CHR ''.'' \<and> peek_next s = CHR ''.'' then (T_ELLIPSIS, 2)
              else if peek s = CHR ''='' then (T_DOT_ASSIGN, 1) else (T_DOT, 0))
      else None)"

text \<open>The nesting counters, which brackets change before their token is added.\<close>

definition nest :: "char \<Rightarrow> lexer \<Rightarrow> lexer" where
  "nest c l =
     (if c = CHR ''('' then
        l\<lparr>paren_brace_stack := brace_depth l # paren_brace_stack l, paren_depth := paren_depth l + 1\<rparr>
      else if c = CHR '')'' then
        l\<lparr>paren_brace_stack := drop 1 (paren_brace_stack l), paren_depth := paren_depth l - 1\<rparr>
      else if c = CHR ''{'' then l\<lparr>brace_depth := brace_depth l + 1\<rparr>
      else if c = CHR ''}'' then l\<lparr>brace_depth := brace_depth l - 1\<rparr>
      else if c = CHR ''['' then l\<lparr>bracket_depth := bracket_depth l + 1\<rparr>
      else if c = CHR '']'' then l\<lparr>bracket_depth := bracket_depth l - 1\<rparr>
      else l)"

subsection \<open>Comments\<close>

definition line_comment :: "lexer \<Rightarrow> lexer" where
  "line_comment l = advance (length (takeWhile (\<lambda>c. c \<noteq> NL) (rest l))) l"

text \<open>The unread text after \<^verbatim>\<open>*/\<close>, the line and the column; \<^term>\<open>None\<close> when it never comes.\<close>

fun block_comment :: "string \<Rightarrow> nat \<Rightarrow> nat \<Rightarrow> (string \<times> nat \<times> nat) option" where
  "block_comment [] n k = None"
| "block_comment (c # s) n k =
     (if c = CHR ''*'' \<and> peek s = CHR ''/'' then Some (drop 1 s, n, k + 2)
      else block_comment s (if c = NL then n + 1 else n) (k + 1))"

subsection \<open>Strings\<close>

definition lex_hex :: "char \<Rightarrow> nat option" where
  "lex_hex c =
     (if 48 \<le> code_of c \<and> code_of c \<le> 57 then Some (code_of c - 48)
      else if 97 \<le> code_of c \<and> code_of c \<le> 102 then Some (code_of c - 97 + 10)
      else if 65 \<le> code_of c \<and> code_of c \<le> 70 then Some (code_of c - 65 + 10)
      else None)"

definition lex_append_utf8 :: "u32 \<Rightarrow> string" where
  "lex_append_utf8 cp =
     (if cp < 0x80 then [chr cp]
      else if cp < 0x800 then [chr (0xC0 OR drop_bit 6 cp), chr (0x80 OR (cp AND 0x3F))]
      else if cp < 0x10000 then
        [chr (0xE0 OR drop_bit 12 cp), chr (0x80 OR (drop_bit 6 cp AND 0x3F)), chr (0x80 OR (cp AND 0x3F))]
      else
        [chr (0xF0 OR drop_bit 18 cp), chr (0x80 OR (drop_bit 12 cp AND 0x3F)),
         chr (0x80 OR (drop_bit 6 cp AND 0x3F)), chr (0x80 OR (cp AND 0x3F))])"

text \<open>Up to \<open>n\<close> hex digits: whether all were there, their value, and the text after those read.\<close>

fun hex_digits :: "nat \<Rightarrow> nat \<Rightarrow> string \<Rightarrow> bool \<times> nat \<times> string" where
  "hex_digits 0 cp s = (True, cp, s)"
| "hex_digits (Suc k) cp s =
     (case lex_hex (peek s) of None \<Rightarrow> (False, cp, s) | Some h \<Rightarrow> hex_digits k (cp * 16 + h) (drop 1 s))"

text \<open>After \<^verbatim>\<open>\u\<close>: what is appended to the value, and the unread text.\<close>

definition unicode_escape :: "string \<Rightarrow> string \<times> string" where
  "unicode_escape s =
     (case hex_digits 4 0 s of
        (False, _, s1) \<Rightarrow> ([BSL, CHR ''u''], s1)
      | (True, cp, s1) \<Rightarrow>
          if 0xD800 \<le> cp \<and> cp \<le> 0xDBFF \<and> peek s1 = BSL \<and> peek_next s1 = CHR ''u'' then
            (case hex_digits 4 0 (drop 2 s1) of
               (ok2, lo, s2) \<Rightarrow>
                 (lex_append_utf8 (word_of_nat
                    (if ok2 \<and> 0xDC00 \<le> lo \<and> lo \<le> 0xDFFF
                     then 0x10000 + (cp - 0xD800) * 2 ^ 10 + (lo - 0xDC00) else cp)), s2))
          else (lex_append_utf8 (word_of_nat cp), s1))"

definition simple_escape :: "char \<Rightarrow> string" where
  "simple_escape e =
     (if e = CHR ''n'' then [NL]
      else if e = CHR ''t'' then [TAB]
      else if e = CHR ''r'' then [CR]
      else if e = BSL then [BSL]
      else if e = DQ then [DQ]
      else if e = SQ then [SQ]
      else if e = CHR ''$'' then ''$''
      else if e = CHR ''b'' then [CHR 0x08]
      else if e = CHR ''f'' then [CHR 0x0C]
      else if e = CHR ''0'' then [CHR 0x00]
      else [BSL, e])"

lemma hex_digits_len: "hex_digits k cp s = (b, v, t) \<Longrightarrow> length t \<le> length s"
  by (induction k cp s rule: hex_digits.induct) (auto split: option.splits simp: le_diff_conv)

lemma unicode_escape_len: "unicode_escape s = (v, t) \<Longrightarrow> length t \<le> length s"
  by (auto simp: unicode_escape_def split: prod.splits bool.splits if_splits dest!: hex_digits_len)

text \<open>The loop of \<^verbatim>\<open>string\<close>: the value, the unread text at the closing quote, line and column; or
  the line at which the source ended.\<close>

function string_loop :: "char \<Rightarrow> string \<Rightarrow> nat \<Rightarrow> nat \<Rightarrow> string \<Rightarrow> nat + string \<times> string \<times> nat \<times> nat" where
  "string_loop q [] n k v = Inl n"
| "string_loop q (c # s) n k v =
     (if c = q then Inr (v, c # s, n, k)
      else let n' = (if c = NL then n + 1 else n) in
        if c = BSL then
          (case s of
             [] \<Rightarrow> Inl n'
           | e # t \<Rightarrow>
               if e = CHR ''u'' then
                 (case unicode_escape t of
                    (w, t') \<Rightarrow> string_loop q t' n' (k + 2 + (length t - length t')) (v @ w))
               else string_loop q t n' (k + 2) (v @ simple_escape e))
        else string_loop q s n' (k + 1) (v @ [c]))"
  by pat_completeness auto
termination
  by (relation "measure (\<lambda>(q, s, n, k, v). length s)") (auto dest!: unicode_escape_len [OF sym])

definition string_token :: "char \<Rightarrow> string \<Rightarrow> nat \<Rightarrow> lexer \<Rightarrow> lex_error + lexer" where
  "string_token q start start_col l =
     (case string_loop q (rest l) (line l) (col l) [] of
        Inl n \<Rightarrow> Inl (Unterminated_string n)
      | Inr (v, s, n, k) \<Rightarrow>
          Inr (add_token start start_col T_STRING (Some v) (q = SQ)
                 (l\<lparr>rest := drop 1 s, line := n, col := k + 1\<rparr>)))"

fun raw_loop :: "string \<Rightarrow> nat \<Rightarrow> nat \<Rightarrow> string \<Rightarrow> nat + string \<times> string \<times> nat \<times> nat" where
  "raw_loop [] n k v = Inl n"
| "raw_loop (c # s) n k v =
     (if c = CHR 0x60 then Inr (v, c # s, n, k)
      else raw_loop s (if c = NL then n + 1 else n) (k + 1) (v @ [c]))"

definition raw_string :: "string \<Rightarrow> nat \<Rightarrow> lexer \<Rightarrow> lex_error + lexer" where
  "raw_string start start_col l =
     (case raw_loop (rest l) (line l) (col l) [] of
        Inl n \<Rightarrow> Inl (Unterminated_raw_string n)
      | Inr (v, s, n, k) \<Rightarrow>
          Inr (add_token start start_col T_STRING (Some v) False (l\<lparr>rest := drop 1 s, line := n, col := k + 1\<rparr>)))"

subsection \<open>Numbers and identifiers\<close>

definition isxdigit :: "char \<Rightarrow> bool" where
  "isxdigit c \<longleftrightarrow> isdigit c \<or> (65 \<le> code_of c \<and> code_of c \<le> 70) \<or> (97 \<le> code_of c \<and> code_of c \<le> 102)"

definition span_len :: "(char \<Rightarrow> bool) \<Rightarrow> string \<Rightarrow> nat" where
  "span_len P s = length (takeWhile P s)"

text \<open>How many bytes a fraction or an exponent at \<open>s\<close> has (none: \<open>0\<close>), and how many the
  number at \<open>s\<close> has, with whether it is a float.\<close>

definition fraction_len :: "string \<Rightarrow> nat" where
  "fraction_len s =
     (if peek s = CHR ''.'' \<and> isdigit (peek_next s)
      then 1 + span_len (\<lambda>c. isdigit c \<or> c = CHR ''_'') (drop 1 s) else 0)"

definition exponent_len :: "string \<Rightarrow> nat" where
  "exponent_len s =
     (let c1 = peek_next s in
      if (peek s = CHR ''e'' \<or> peek s = CHR ''E'') \<and>
         (isdigit c1 \<or> ((c1 = CHR ''+'' \<or> c1 = CHR ''-'') \<and> isdigit (peek (drop 2 s))))
      then let m = (if c1 = CHR ''+'' \<or> c1 = CHR ''-'' then 2 else 1) in m + span_len isdigit (drop m s)
      else 0)"

definition number_len :: "string \<Rightarrow> nat \<times> bool" where
  "number_len s =
     (if peek s = CHR ''0'' \<and> (peek_next s = CHR ''x'' \<or> peek_next s = CHR ''X'') then
        (2 + span_len (\<lambda>c. isxdigit c \<or> c = CHR ''_'') (drop 2 s), False)
      else if peek s = CHR ''0'' \<and> (peek_next s = CHR ''b'' \<or> peek_next s = CHR ''B'') then
        (2 + span_len (\<lambda>c. c = CHR ''0'' \<or> c = CHR ''1'' \<or> c = CHR ''_'') (drop 2 s), False)
      else
        (let n1 = span_len (\<lambda>c. isdigit c \<or> c = CHR ''_'') s;
             f = fraction_len (drop n1 s);
             e = exponent_len (drop (n1 + f) s)
         in (n1 + f + e, 0 < f \<or> 0 < e)))"

text \<open>The first byte was consumed before and is given back by \<^verbatim>\<open>current_--\<close>; its column is not.\<close>

definition number :: "string \<Rightarrow> nat \<Rightarrow> lexer \<Rightarrow> lexer" where
  "number start start_col l =
     (case number_len start of
        (n, is_float) \<Rightarrow>
          add_token start start_col (if is_float then T_FLOAT_NUM else T_NUMBER) (Some (take n start)) False
            (l\<lparr>rest := drop n start, col := col l + n\<rparr>))"

definition ident_char :: "char \<Rightarrow> bool" where
  "ident_char c \<longleftrightarrow> isalnum c \<or> c = CHR ''_''"

definition ident_type :: "string \<Rightarrow> TokenType" where
  "ident_type text =
     (if hd text \<noteq> CHR ''$'' then (case map_of keyword_table text of Some ty \<Rightarrow> ty | None \<Rightarrow> T_IDENT) else T_IDENT)"

definition scan_identifier :: "string \<Rightarrow> nat \<Rightarrow> lexer \<Rightarrow> lexer" where
  "scan_identifier start start_col l =
     (let l1 = advance (span_len ident_char (rest l)) l;
          text = take (length start - length (rest l1)) start
      in add_token start start_col (ident_type text) None False l1)"

subsection \<open>Scanning\<close>

definition scan_token :: "lexer \<Rightarrow> lex_error + lexer" where
  "scan_token l =
     (let st = rest l; sc = col l; c = peek st; l1 = advance 1 l; s = rest l1 in
      if c = CHR ''/'' \<and> peek s = CHR ''/'' then Inr (line_comment l1)
      else if c = CHR ''/'' \<and> peek s = CHR ''*'' then
        (case block_comment (drop 1 s) (line l) (col l1 + 1) of
           None \<Rightarrow> Inl (Unterminated_comment (line l))
         | Some (t, n, k) \<Rightarrow> Inr (l1\<lparr>rest := t, line := n, col := k\<rparr>))
      else if c = CHR 0x60 then raw_string st sc l1
      else if c = CHR '' '' \<or> c = CR \<or> c = TAB then Inr l1
      else if c = NL then (let l2 = insert_semicolon l1 in Inr (l2\<lparr>line := line l2 + 1, col := 1\<rparr>))
      else if c = CHR ''#'' then Inr (line_comment l1)
      else if c = DQ then string_token DQ st sc l1
      else if c = SQ then string_token SQ st sc l1
      else if c = CHR ''$'' then Inr (scan_identifier st sc l1)
      else case op_token c s of
             Some (ty, k) \<Rightarrow> Inr (add_token st sc ty None False (advance k (nest c l1)))
           | None \<Rightarrow>
               if isdigit c then Inr (number st sc l1)
               else if isalpha c \<or> c = CHR ''_'' then Inr (scan_identifier st sc (l1\<lparr>rest := st\<rparr>))
               else Inl (Unexpected_character c))"

declare string_loop.simps [simp del] block_comment.simps [simp del]

subsection \<open>Every step consumes source text\<close>

lemma peek_eq: "peek s = c \<Longrightarrow> c \<noteq> CHR 0x00 \<Longrightarrow> \<exists>t. s = c # t"
  by (auto simp: peek_def split: list.splits)

lemma peek_next_eq: "peek_next s = c \<Longrightarrow> c \<noteq> CHR 0x00 \<Longrightarrow> \<exists>b t. s = b # c # t"
  by (auto simp: peek_next_def split: list.splits)

lemma peek_simps [simp]: "peek [] = CHR 0x00" "peek (c # s) = c" "peek_next (c # s) = peek s"
  by (simp_all add: peek_def peek_next_def split: list.split)

lemma lex_hex_NUL [simp]: "lex_hex (CHR 0x00) = None"
  by (simp add: lex_hex_def code_of_def)

lemma hex_digits_suffix: "hex_digits k cp s = (b, v, t) \<Longrightarrow> suffix t s"
proof (induction k cp s rule: hex_digits.induct)
  case (2 k cp s)
  then show ?case
    by (cases s) (auto split: option.splits intro: suffix_ConsI)
qed simp

lemma suffix_drop: "suffix (drop n s) s"
  by (metis append_take_drop_id suffixI)

lemma unicode_escape_suffix: "unicode_escape s = (v, t) \<Longrightarrow> suffix t s"
  using suffix_order.trans suffix_drop
  by (fastforce simp: unicode_escape_def split: prod.splits bool.splits if_splits dest!: hex_digits_suffix)

lemma string_loop_suffix:
  "string_loop q s n k v = Inr (v', t, n', k') \<Longrightarrow> suffix t s \<and> t \<noteq> []"
proof (induction q s n k v rule: string_loop.induct)
  case (2 q c s n k v)
  show ?case
  proof (cases "c = q")
    case False
    note step = "2.prems" [unfolded string_loop.simps(2) Let_def if_not_P [OF False]]
    show ?thesis
    proof (cases "c = BSL")
      case True
      then obtain e u where s: "s = e # u" using step by (cases s) auto
      show ?thesis
      proof (cases "e = CHR ''u''")
        case u: True
        obtain w u' where w: "unicode_escape u = (w, u')" by (cases "unicode_escape u")
        have "suffix t u' \<and> t \<noteq> []" using "2.IH"(1) [OF False refl True s u w [symmetric]] step True s u w by simp
        then show ?thesis using unicode_escape_suffix [OF w] s by (auto intro: suffix_order.trans suffix_ConsI)
      next
        case u: False
        have "suffix t u \<and> t \<noteq> []" using "2.IH"(2) [OF False refl True s u] step True s u by simp
        then show ?thesis using s by (auto intro: suffix_ConsI)
      qed
    next
      case b: False
      then show ?thesis using "2.IH"(3) [OF False refl b] step by (auto intro: suffix_ConsI)
    qed
  qed (use "2.prems" in \<open>auto simp: string_loop.simps\<close>)
qed (simp add: string_loop.simps)

lemma raw_loop_suffix: "raw_loop s n k v = Inr (v', t, n', k') \<Longrightarrow> suffix t s \<and> t \<noteq> []"
  by (induction s n k v rule: raw_loop.induct) (auto split: if_splits intro: suffix_ConsI)

lemma block_comment_split:
  "block_comment s n k = Some (t, n', k') \<Longrightarrow> \<exists>p. s = p @ ''*/'' @ t"
proof (induction s n k rule: block_comment.induct)
  case (2 c s n k)
  show ?case
  proof (cases "c = CHR ''*'' \<and> peek s = CHR ''/''")
    case True
    then obtain u where "s = CHR ''/'' # u" using peek_eq [of s "CHR ''/''"] by auto
    then show ?thesis using True "2.prems" by (simp add: block_comment.simps)
  next
    case False
    then obtain p where "s = p @ ''*/'' @ t" using 2 by (auto simp: block_comment.simps(2))
    then show ?thesis by (metis append_Cons)
  qed
qed (simp add: block_comment.simps)

lemma block_comment_None: "block_comment s n k = None \<longleftrightarrow> \<not> sublist ''*/'' s"
proof (induction s n k rule: block_comment.induct)
  case (2 c s n k)
  have "prefix ''*/'' (c # s) \<longleftrightarrow> c = CHR ''*'' \<and> peek s = CHR ''/''"
    using peek_eq [of s "CHR ''/''"] by (cases s) auto
  then show ?case using 2 by (auto simp: block_comment.simps(2) sublist_Cons_right)
qed (simp add: block_comment.simps)

lemma op_token_len:
  assumes "op_token c s = Some (ty, k)"
  shows "k \<le> length s"
proof -
  have 1: "peek s = d \<Longrightarrow> d \<noteq> CHR 0x00 \<Longrightarrow> 1 \<le> length s" for d by (cases s) auto
  have 2: "peek_next s = d \<Longrightarrow> d \<noteq> CHR 0x00 \<Longrightarrow> 2 \<le> length s" for d
    by (auto simp: peek_next_def split: list.splits)
  have "k = 0 \<or> (k = 1 \<and> peek s \<noteq> CHR 0x00) \<or> (k = 2 \<and> peek_next s \<noteq> CHR 0x00)"
    using assms unfolding op_token_def by (auto split: if_splits)
  then show ?thesis using 1 [OF refl] 2 [OF refl] by auto
qed

lemma nest_keeps [simp]: "rest (nest c l) = rest l" "tokens (nest c l) = tokens l"
  by (simp_all add: nest_def)

lemma insert_semicolon_rest [simp]: "rest (insert_semicolon l) = rest l"
  by (simp add: insert_semicolon_def)

lemma span_len_le: "span_len P s \<le> length s"
  by (simp add: span_len_def length_takeWhile_le)

lemma span_len_bound: "n \<le> length s \<Longrightarrow> n + span_len P (drop n s) \<le> length s"
  using span_len_le [of P "drop n s"] by simp

lemma peek_len: "peek s \<noteq> CHR 0x00 \<Longrightarrow> 1 \<le> length s" and peek_next_len: "peek_next s \<noteq> CHR 0x00 \<Longrightarrow> 2 \<le> length s"
  by (auto simp: peek_def peek_next_def split: list.splits)

lemma peek_drop1: "peek (drop (Suc 0) s) = peek_next s"
  by (cases s) (simp_all add: peek_next_def [of "[]"])

lemma isdigit_NUL [simp]: "\<not> isdigit (CHR 0x00)"
  by (simp add: isdigit_def code_of_def)

lemma fraction_len_le: "fraction_len s \<le> length s"
  using peek_len [of s] span_len_bound [of 1 s] by (auto simp: fraction_len_def)

lemma exponent_len_le: "exponent_len s \<le> length s"
proof -
  define m where "m = (if peek_next s = CHR ''+'' \<or> peek_next s = CHR ''-'' then 2 else 1 :: nat)"
  have "m \<le> length s" if "peek s = CHR ''e'' \<or> peek s = CHR ''E''"
    using that peek_len [of s] peek_next_len [of s] unfolding m_def by (auto split: if_splits)
  then show ?thesis
    using span_len_bound [of m s isdigit] unfolding exponent_len_def Let_def m_def [symmetric] by auto
qed

lemma number_len_le: "fst (number_len s) \<le> length s"
proof -
  let ?n = "span_len (\<lambda>c. isdigit c \<or> c = CHR ''_'') s"
  have "?n \<le> length s" by (rule span_len_le)
  moreover have "fraction_len (drop ?n s) \<le> length s - ?n" using fraction_len_le [of "drop ?n s"] by simp
  moreover have "exponent_len (drop (?n + fraction_len (drop ?n s)) s) \<le> length s - (?n + fraction_len (drop ?n s))"
    using exponent_len_le [of "drop (?n + fraction_len (drop ?n s)) s"] by simp
  moreover have "2 + span_len P (drop 2 s) \<le> length s" if "peek_next s \<noteq> CHR 0x00" for P
    using peek_next_len [OF that] by (rule span_len_bound)
  ultimately show ?thesis unfolding number_len_def Let_def by (auto split: if_splits)
qed

lemma number_len_pos:
  assumes "isdigit (peek s)" "number_len s = (n, f)"
  shows "0 < n"
proof -
  have "0 < span_len (\<lambda>c. isdigit c \<or> c = CHR ''_'') s"
    using assms(1) by (cases s) (auto simp: span_len_def)
  then show ?thesis using assms(2) by (auto simp: number_len_def Let_def split: if_splits)
qed

text \<open>Text that carries no token: a blank, or a comment.\<close>

definition trivia :: "string \<Rightarrow> bool" where
  "trivia p \<longleftrightarrow>
     (\<exists>c. p = [c] \<and> (c = CHR '' '' \<or> c = TAB \<or> c = CR \<or> c = NL)) \<or>
     (\<exists>t. p = CHR ''#'' # t \<and> NL \<notin> set t) \<or>
     (\<exists>t. p = ''//'' @ t \<and> NL \<notin> set t) \<or>
     (\<exists>t. p = ''/*'' @ t @ ''*/'')"

definition virtual_semicolon :: "Token \<Rightarrow> bool" where
  "virtual_semicolon t \<longleftrightarrow> tok_type t = T_SEMICOLON \<and> lexeme t = '';'' \<and> literal t = None"

text \<open>One step reads the text \<open>p\<close>: trivia, the text of the one token it adds, or a newline that
  adds a semicolon of its own.\<close>

definition step_reads :: "lexer \<Rightarrow> string \<Rightarrow> lexer \<Rightarrow> bool" where
  "step_reads l p l' \<longleftrightarrow> rest l = p @ rest l' \<and> p \<noteq> [] \<and>
     (trivia p \<and> tokens l' = tokens l \<or>
      trivia p \<and> (\<exists>t. virtual_semicolon t \<and> tokens l' = tokens l @ [t]) \<or>
      (\<exists>t. lexeme t = p \<and> tokens l' = tokens l @ [t]))"

lemma step_reads_token:
  assumes "rest l = p @ s" "p \<noteq> []" "rest l0 = s" "tokens l0 = tokens l"
  shows "step_reads l p (add_token (rest l) sc ty lit r l0)"
  using assms by (simp add: step_reads_def add_token_def)

lemma step_reads_trivia:
  assumes "rest l = p @ rest l'" "trivia p" "tokens l' = tokens l" "p \<noteq> []"
  shows "step_reads l p l'"
  using assms by (simp add: step_reads_def)

lemma advance_keeps [simp]: "rest (advance n l) = drop n (rest l)" "tokens (advance n l) = tokens l"
  by (simp_all add: advance_def)

lemma line_comment_reads:
  "rest l = p @ rest l1 \<Longrightarrow> tokens l1 = tokens l \<Longrightarrow> p = ''#'' \<or> p = ''/'' \<and> peek (rest l1) = CHR ''/'' \<Longrightarrow>
     \<exists>q. step_reads l q (line_comment l1)"
proof -
  assume a: "rest l = p @ rest l1" "tokens l1 = tokens l" "p = ''#'' \<or> p = ''/'' \<and> peek (rest l1) = CHR ''/''"
  let ?t = "takeWhile (\<lambda>c. c \<noteq> NL) (rest l1)"
  have t: "rest l1 = ?t @ drop (length ?t) (rest l1)"
    by (simp flip: dropWhile_eq_drop)
  have nl: "NL \<notin> set (takeWhile (\<lambda>c. c \<noteq> NL) u)" for u by (auto dest: set_takeWhileD)
  have "trivia (p @ ?t)"
  proof (cases "p = ''#''")
    case True
    then have "p @ ?t = CHR ''#'' # ?t" by simp
    then show ?thesis using nl unfolding trivia_def by blast
  next
    case False
    then obtain u where "rest l1 = CHR ''/'' # u" using a(3) peek_eq [of "rest l1" "CHR ''/''"] by auto
    then have "p @ ?t = ''//'' @ takeWhile (\<lambda>c. c \<noteq> NL) u" using a(3) False by simp
    then show ?thesis using nl unfolding trivia_def by blast
  qed
  then have "step_reads l (p @ ?t) (line_comment l1)"
    using a t by (intro step_reads_trivia) (auto simp: line_comment_def)
  then show ?thesis by blast
qed

lemma suffix_closing:
  assumes "suffix t s" "t \<noteq> []"
  obtains p where "c # s = p @ drop 1 t" "p \<noteq> []"
proof -
  obtain u where "s = u @ t" using assms(1) by (auto elim: suffixE)
  moreover obtain d w where "t = d # w" using assms(2) by (cases t) auto
  ultimately show ?thesis using that [of "c # u @ [d]"] by simp
qed

lemma string_token_reads:
  assumes "rest l = c # rest l1" "tokens l1 = tokens l" "string_token q (rest l) sc l1 = Inr l'"
  shows "\<exists>p. step_reads l p l'"
proof -
  obtain v t n k where loop: "string_loop q (rest l1) (line l1) (col l1) [] = Inr (v, t, n, k)"
    and l': "l' = add_token (rest l) sc T_STRING (Some v) (q = SQ) (l1\<lparr>rest := drop 1 t, line := n, col := k + 1\<rparr>)"
    using assms(3) unfolding string_token_def by (auto split: sum.splits)
  obtain p where "c # rest l1 = p @ drop 1 t" "p \<noteq> []"
    using string_loop_suffix [OF loop] by (blast elim: suffix_closing)
  then have "step_reads l p l'"
    unfolding l' by (intro step_reads_token [where s = "drop 1 t"]) (simp_all add: assms(1,2))
  then show ?thesis by blast
qed

lemma raw_string_reads:
  assumes "rest l = c # rest l1" "tokens l1 = tokens l" "raw_string (rest l) sc l1 = Inr l'"
  shows "\<exists>p. step_reads l p l'"
proof -
  obtain v t n k where loop: "raw_loop (rest l1) (line l1) (col l1) [] = Inr (v, t, n, k)"
    and l': "l' = add_token (rest l) sc T_STRING (Some v) False (l1\<lparr>rest := drop 1 t, line := n, col := k + 1\<rparr>)"
    using assms(3) unfolding raw_string_def by (auto split: sum.splits)
  obtain p where "c # rest l1 = p @ drop 1 t" "p \<noteq> []"
    using raw_loop_suffix [OF loop] by (blast elim: suffix_closing)
  then have "step_reads l p l'"
    unfolding l' by (intro step_reads_token [where s = "drop 1 t"]) (simp_all add: assms(1,2))
  then show ?thesis by blast
qed

lemma step_reads_take:
  assumes "0 < n" "rest l \<noteq> []" "rest l0 = drop n (rest l)" "tokens l0 = tokens l"
  shows "\<exists>p. step_reads l p (add_token (rest l) sc ty lit r l0)"
proof
  show "step_reads l (take n (rest l)) (add_token (rest l) sc ty lit r l0)"
    by (rule step_reads_token [where s = "drop n (rest l)"]) (use assms in simp_all)
qed

lemma identifier_reads:
  assumes "rest l = c # s" "tokens l1 = tokens l" "rest l1 = s \<or> rest l1 = c # s \<and> ident_char c"
  shows "\<exists>p. step_reads l p (scan_identifier (rest l) sc l1)"
proof -
  define l2 where "l2 = advance (span_len ident_char (rest l1)) l1"
  have "\<exists>n > 0. rest l2 = drop n (rest l)"
  proof (cases "rest l1 = s")
    case True
    then show ?thesis using assms(1) by (intro exI [of _ "Suc (span_len ident_char s)"]) (simp add: l2_def)
  next
    case False
    then show ?thesis using assms(1,3)
      by (intro exI [of _ "span_len ident_char (c # s)"]) (auto simp: l2_def span_len_def)
  qed
  then show ?thesis
    using step_reads_take [of _ l l2] assms(1,2)
    unfolding scan_identifier_def Let_def l2_def [symmetric] by (auto simp: l2_def)
qed

lemma newline_reads:
  assumes "rest l = NL # s" "rest l1 = s" "tokens l1 = tokens l"
  shows "step_reads l [NL] ((insert_semicolon l1)\<lparr>line := n, col := k\<rparr>)"
  using assms by (auto simp: step_reads_def insert_semicolon_def trivia_def virtual_semicolon_def)

lemma scan_token_unfold:
  assumes "rest l = c # s"
  shows "scan_token l =
    (let l1 = advance 1 l in
      if c = CHR ''/'' \<and> peek s = CHR ''/'' then Inr (line_comment l1)
      else if c = CHR ''/'' \<and> peek s = CHR ''*'' then
        (case block_comment (drop 1 s) (line l) (col l1 + 1) of
           None \<Rightarrow> Inl (Unterminated_comment (line l))
         | Some (t, n, k) \<Rightarrow> Inr (l1\<lparr>rest := t, line := n, col := k\<rparr>))
      else if c = CHR 0x60 then raw_string (rest l) (col l) l1
      else if c = CHR '' '' \<or> c = CR \<or> c = TAB then Inr l1
      else if c = NL then (let l2 = insert_semicolon l1 in Inr (l2\<lparr>line := line l2 + 1, col := 1\<rparr>))
      else if c = CHR ''#'' then Inr (line_comment l1)
      else if c = DQ then string_token DQ (rest l) (col l) l1
      else if c = SQ then string_token SQ (rest l) (col l) l1
      else if c = CHR ''$'' then Inr (scan_identifier (rest l) (col l) l1)
      else case op_token c s of
             Some (ty, k) \<Rightarrow> Inr (add_token (rest l) (col l) ty None False (advance k (nest c l1)))
           | None \<Rightarrow>
               if isdigit c then Inr (number (rest l) (col l) l1)
               else if isalpha c \<or> c = CHR ''_'' then Inr (scan_identifier (rest l) (col l) (l1\<lparr>rest := rest l\<rparr>))
               else Inl (Unexpected_character c))"
proof -
  have "peek (rest l) = c" "rest (advance 1 l) = s" using assms by simp_all
  then show ?thesis unfolding scan_token_def Let_def by (simp only:)
qed

lemma op_reads:
  assumes "rest l = c # s" "op_token c s = Some (ty, k)"
  shows "\<exists>p. step_reads l p (add_token (rest l) sc ty None False (advance k (nest c (advance 1 l))))"
  by (rule step_reads_take [of "Suc k"]) (use assms in simp_all)

lemma number_reads:
  assumes "rest l = c # s" "isdigit c"
  shows "\<exists>p. step_reads l p (number (rest l) sc (advance 1 l))"
proof -
  obtain n f where n: "number_len (rest l) = (n, f)" by (cases "number_len (rest l)")
  have "0 < n" using number_len_pos [OF _ n] assms by simp
  then show ?thesis unfolding number_def n prod.case using assms(1) by (intro step_reads_take [of n]) auto
qed

lemma block_comment_reads:
  assumes "rest l = CHR ''/'' # s" "peek s = CHR ''*''" "block_comment (drop 1 s) n k = Some (t, n', k')"
    and "rest l' = t" "tokens l' = tokens l"
  shows "\<exists>p. step_reads l p l'"
proof -
  obtain u where u: "s = CHR ''*'' # u" using peek_eq [OF assms(2)] by auto
  obtain p where p: "u = p @ ''*/'' @ t" using block_comment_split [OF assms(3)] u by auto
  have "trivia (''/*'' @ p @ ''*/'')" unfolding trivia_def by blast
  then have "step_reads l (''/*'' @ p @ ''*/'') l'" using assms u p by (intro step_reads_trivia) auto
  then show ?thesis by blast
qed

lemma blank_reads:
  assumes "rest l = c # s" "c = CHR '' '' \<or> c = CR \<or> c = TAB"
  shows "\<exists>p. step_reads l p (advance 1 l)"
proof -
  have "trivia [c]" using assms(2) unfolding trivia_def by blast
  then have "step_reads l [c] (advance 1 l)" using assms(1) by (intro step_reads_trivia) auto
  then show ?thesis by blast
qed

lemma scan_token_reads:
  assumes "scan_token l = Inr l'" "rest l \<noteq> []"
  shows "\<exists>p. step_reads l p l'"
proof -
  obtain c s where r: "rest l = c # s" using assms(2) by (cases "rest l") auto
  note eq = assms(1) [unfolded scan_token_unfold [OF r] Let_def]
  have l1: "rest (advance 1 l) = s" "tokens (advance 1 l) = tokens l" using r by simp_all
  show ?thesis
  proof (cases "c = CHR ''/'' \<and> (peek s = CHR ''/'' \<or> peek s = CHR ''*'')")
    case True
    then show ?thesis
    proof (cases "peek s = CHR ''/''")
      case sl: True
      then show ?thesis using eq True r l1 line_comment_reads [of l "''/''" "advance 1 l"] by simp
    next
      case False
      then obtain t n k where "block_comment (drop 1 s) (line l) (col (advance 1 l) + 1) = Some (t, n, k)"
        "l' = (advance 1 l)\<lparr>rest := t, line := n, col := k\<rparr>"
        using eq True by (auto split: option.splits)
      then show ?thesis using block_comment_reads [of l s] False True r l1 by simp
    qed
  next
    case nosl: False
    consider "c = CHR 0x60" | "c = CHR '' '' \<or> c = CR \<or> c = TAB" | "c = NL" | "c = CHR ''#''" | "c = DQ" | "c = SQ"
      | "c = CHR ''$''"
      | "c \<notin> {CHR 0x60, CHR '' '', CR, TAB, NL, CHR ''#'', DQ, SQ, CHR ''$''}" by blast
    then show ?thesis
    proof cases
      case 1 then show ?thesis using eq r l1 raw_string_reads [of l c "advance 1 l"] by simp
    next
      case 2 then show ?thesis using eq nosl blank_reads [OF r] by auto
    next
      case 3 then show ?thesis using eq r l1 newline_reads [of l s "advance 1 l"] by auto
    next
      case 4 then show ?thesis using eq r l1 line_comment_reads [of l "''#''" "advance 1 l"] by simp
    next
      case 5 then show ?thesis using eq r l1 string_token_reads [of l c "advance 1 l" DQ] by simp
    next
      case 6 then show ?thesis using eq r l1 string_token_reads [of l c "advance 1 l" SQ] by simp
    next
      case 7 then show ?thesis using eq r l1 identifier_reads [OF r, of "advance 1 l"] by auto
    next
      case 8
      then have n: "\<not> (c = CHR ''/'' \<and> peek s = CHR ''/'')" "\<not> (c = CHR ''/'' \<and> peek s = CHR ''*'')" "c \<noteq> CHR 0x60"
        "\<not> (c = CHR '' '' \<or> c = CR \<or> c = TAB)" "c \<noteq> NL" "c \<noteq> CHR ''#''" "c \<noteq> DQ" "c \<noteq> SQ" "c \<noteq> CHR ''$''"
        using nosl by blast+
      have e: "(case op_token c s of
             Some (ty, k) \<Rightarrow> Inr (add_token (rest l) (col l) ty None False (advance k (nest c (advance 1 l))))
           | None \<Rightarrow>
               if isdigit c then Inr (number (rest l) (col l) (advance 1 l))
               else if isalpha c \<or> c = CHR ''_'' then
                 Inr (scan_identifier (rest l) (col l) ((advance 1 l)\<lparr>rest := rest l\<rparr>))
               else Inl (Unexpected_character c)) = Inr l'"
        using eq by (simp only: n if_False)
      show ?thesis
      proof (cases "op_token c s")
        case (Some p)
        then show ?thesis using e op_reads [OF r] by (cases p) auto
      next
        case None
        then show ?thesis
          using e number_reads [OF r] identifier_reads [OF r, of "(advance 1 l)\<lparr>rest := rest l\<rparr>"] r
          by (auto simp: ident_char_def isalnum_def split: if_splits)
      qed
    qed
  qed
qed

subsection \<open>The whole scan\<close>

lemma scan_token_shrinks: "scan_token l = Inr l' \<Longrightarrow> rest l \<noteq> [] \<Longrightarrow> length (rest l') < length (rest l)"
  using scan_token_reads by (fastforce simp: step_reads_def)

function scan_loop :: "lexer \<Rightarrow> lex_error + lexer" where
  "scan_loop l =
     (if rest l = [] then Inr l else case scan_token l of Inl e \<Rightarrow> Inl e | Inr l' \<Rightarrow> scan_loop l')"
  by pat_completeness auto
termination by (relation "measure (\<lambda>l. length (rest l))") (auto dest: scan_token_shrinks)

definition scan_tokens :: "string \<Rightarrow> lex_error + Token list" where
  "scan_tokens source =
     (case scan_loop (lexer_new source) of
        Inl e \<Rightarrow> Inl e
      | Inr l \<Rightarrow>
          (let l1 = insert_semicolon l
           in Inr (tokens l1 @ [\<lparr>tok_type = T_EOF_TOKEN, lexeme = [], literal = None,
                tok_line = line l1, tok_column = col l1, raw = False\<rparr>])))"

declare scan_loop.simps [simp del]

text \<open>A source text read as a sequence of tokens with trivia between them; only semicolons may be added.\<close>

inductive reads_as :: "string \<Rightarrow> Token list \<Rightarrow> bool" where
  reads_nil: "reads_as [] []"
| reads_trivia: "reads_as s ts \<Longrightarrow> trivia p \<Longrightarrow> reads_as (s @ p) ts"
| reads_token: "reads_as s ts \<Longrightarrow> lexeme t = p \<Longrightarrow> p \<noteq> [] \<Longrightarrow> reads_as (s @ p) (ts @ [t])"
| reads_semicolon: "reads_as s ts \<Longrightarrow> virtual_semicolon t \<Longrightarrow> reads_as s (ts @ [t])"

lemma reads_as_step:
  assumes "reads_as s (tokens l)" "step_reads l p l'"
  shows "reads_as (s @ p) (tokens l')"
proof -
  consider "trivia p" "tokens l' = tokens l"
    | t where "trivia p" "virtual_semicolon t" "tokens l' = tokens l @ [t]"
    | t where "lexeme t = p" "p \<noteq> []" "tokens l' = tokens l @ [t]"
    using assms(2) unfolding step_reads_def by blast
  then show ?thesis
  proof cases
    case 1 then show ?thesis using reads_trivia [OF assms(1)] by simp
  next
    case (2 t) then show ?thesis using reads_semicolon [OF reads_trivia [OF assms(1)]] by simp
  next
    case (3 t) then show ?thesis using reads_token [OF assms(1) 3(1,2)] by simp
  qed
qed

lemma scan_loop_reads:
  "scan_loop l = Inr l' \<Longrightarrow> reads_as s (tokens l) \<Longrightarrow> reads_as (s @ rest l) (tokens l') \<and> rest l' = []"
proof (induction l arbitrary: s rule: scan_loop.induct)
  case (1 l)
  show ?case
  proof (cases "rest l = []")
    case True
    then show ?thesis using "1.prems" by (simp add: scan_loop.simps)
  next
    case False
    then obtain l1 where l1: "scan_token l = Inr l1" "scan_loop l1 = Inr l'"
      using "1.prems"(1) by (auto simp: scan_loop.simps [of l] split: sum.splits)
    obtain p where p: "step_reads l p l1" using scan_token_reads [OF l1(1) False] by blast
    have "reads_as ((s @ p) @ rest l1) (tokens l') \<and> rest l' = []"
      using "1.IH" [OF False l1 reads_as_step [OF "1.prems"(2) p]] .
    then show ?thesis using p by (simp add: step_reads_def)
  qed
qed

lemma insert_semicolon_reads: "reads_as s (tokens l) \<Longrightarrow> reads_as s (tokens (insert_semicolon l))"
  by (auto simp: insert_semicolon_def virtual_semicolon_def intro!: reads_semicolon)



subsection \<open>String literals\<close>

text \<open>A double-quoted literal for arbitrary bytes: only the quote and the backslash are escaped.\<close>

definition quote_char :: "char \<Rightarrow> string" where
  "quote_char c = (if c = DQ then [BSL, DQ] else if c = BSL then [BSL, BSL] else [c])"

definition lex_quote :: "string \<Rightarrow> string" where
  "lex_quote s = [DQ] @ concat (map quote_char s) @ [DQ]"

lemma string_loop_quoted:
  "\<exists>n' k'. string_loop DQ (concat (map quote_char s) @ DQ # t) n k v = Inr (v @ s, DQ # t, n', k')"
proof (induction s arbitrary: n k v)
  case Nil
  then show ?case by (simp add: string_loop.simps)
next
  case (Cons c s)
  show ?case
  proof (cases "c = DQ \<or> c = BSL")
    case True
    then have "string_loop DQ (concat (map quote_char (c # s)) @ DQ # t) n k v =
        string_loop DQ (concat (map quote_char s) @ DQ # t) n (k + 2) (v @ [c])"
      by (auto simp: quote_char_def string_loop.simps(2) [of DQ BSL] simple_escape_def)
    then show ?thesis using Cons.IH [of n "k + 2" "v @ [c]"] by simp
  next
    case False
    then have "string_loop DQ (concat (map quote_char (c # s)) @ DQ # t) n k v =
        string_loop DQ (concat (map quote_char s) @ DQ # t) (if c = NL then n + 1 else n) (k + 1) (v @ [c])"
      by (simp add: quote_char_def string_loop.simps(2) [of DQ c])
    then show ?thesis using Cons.IH [of "if c = NL then n + 1 else n" "k + 1" "v @ [c]"] by simp
  qed
qed

text \<open>every byte string can be written as a string literal and is lexed back to exactly that value:
  quoting it with backslashes before quotes and backslashes gives a source that lexes to that one string
  token (and the semicolon inserted at the end of the file).\<close>

theorem string_literal_roundtrip:
  "\<exists>t. scan_tokens (lex_quote v) = Inr t \<and>
     map (\<lambda>t. (tok_type t, lexeme t, literal t, raw t)) t =
       [(T_STRING, lex_quote v, Some v, False), (T_SEMICOLON, '';'', None, False), (T_EOF_TOKEN, [], None, False)]"
proof -
  let ?l = "lexer_new (lex_quote v)"
  have r: "rest ?l = DQ # concat (map quote_char v) @ [DQ]" by (simp add: lexer_new_def lex_quote_def)
  obtain n k where loop: "string_loop DQ (concat (map quote_char v) @ [DQ]) 1 2 [] = Inr (v, [DQ], n, k)"
    using string_loop_quoted [of v "[]" 1 2 "[]"] by auto
  define l1 where "l1 = add_token (rest ?l) 1 T_STRING (Some v) False ((advance 1 ?l)\<lparr>rest := [], line := n, col := k + 1\<rparr>)"
  have "string_token DQ (rest ?l) (col ?l) (advance 1 ?l) = Inr l1"
  proof -
    have "rest (advance 1 ?l) = concat (map quote_char v) @ [DQ]" using r by simp
    moreover have "line (advance 1 ?l) = 1" "col (advance 1 ?l) = 2" "col ?l = 1"
      by (simp_all add: advance_def lexer_new_def)
    ultimately show ?thesis using loop by (simp add: string_token_def l1_def)
  qed
  then have "scan_token ?l = Inr l1"
    unfolding scan_token_unfold [OF r] Let_def by simp
  moreover have "rest l1 = []" by (simp add: l1_def add_token_def)
  ultimately have "scan_loop ?l = Inr l1" using r by (simp add: scan_loop.simps [of ?l] scan_loop.simps [of l1])
  moreover have "insert_semicolon l1 = l1\<lparr>tokens := tokens l1 @ [\<lparr>tok_type = T_SEMICOLON, lexeme = '';'', literal = None,
              tok_line = line l1, tok_column = col l1, raw = False\<rparr>], last_token_type := T_SEMICOLON\<rparr>"
    by (simp add: insert_semicolon_def l1_def add_token_def advance_def lexer_new_def asi_ok_def
        should_insert_semicolon_def is_continuation_ahead_def)
  moreover have "tokens l1 = [\<lparr>tok_type = T_STRING, lexeme = lex_quote v, literal = Some v, tok_line = n,
      tok_column = 1, raw = False\<rparr>]"
    by (simp add: l1_def add_token_def lexer_new_def lex_quote_def advance_def)
  ultimately show ?thesis unfolding scan_tokens_def by simp
qed

text \<open>a block comment that is never closed does not swallow the rest of the program: the scan of a
  source whose comment has no end reports the line at which the comment began, and a comment with an end
  never fails.\<close>

theorem unterminated_comment_reported:
  "case scan_token (l\<lparr>rest := ''/*'' @ s\<rparr>) of
     Inl e \<Rightarrow> e = Unterminated_comment (line l) \<and> \<not> sublist ''*/'' s
   | Inr l' \<Rightarrow> \<exists>p. s = p @ ''*/'' @ rest l'"
proof -
  let ?l = "l\<lparr>rest := ''/*'' @ s\<rparr>"
  have r: "rest ?l = CHR ''/'' # CHR ''*'' # s" by simp
  have eq: "scan_token ?l = (case block_comment s (line l) (col (advance 1 ?l) + 1) of
       None \<Rightarrow> Inl (Unterminated_comment (line l))
     | Some (t, n, k) \<Rightarrow> Inr ((advance 1 ?l)\<lparr>rest := t, line := n, col := k\<rparr>))"
    unfolding scan_token_unfold [OF r] Let_def by (simp cong: option.case_cong)
  show ?thesis
  proof (cases "block_comment s (line l) (col (advance 1 ?l) + 1)")
    case None
    then show ?thesis unfolding eq using block_comment_None [of s] by simp
  next
    case (Some x)
    then obtain t n k where "block_comment s (line l) (col (advance 1 ?l) + 1) = Some (t, n, k)" by (cases x) auto
    then show ?thesis unfolding eq using block_comment_split by fastforce
  qed
qed

text \<open>An incomplete \<^verbatim>\<open>\u\<close> escape drops the hex digits it read: the literal
  \<^verbatim>\<open>"\u12z"\<close> has the value \<^verbatim>\<open>\uz\<close>.\<close>

theorem short_unicode_escape_drops_digits:
  "string_loop DQ ([BSL] @ ''u12z'' @ [DQ]) n k [] = Inr ([BSL] @ ''uz'', [DQ], n, k + 5)"
  by (simp add: string_loop.simps unicode_escape_def numeral_eq_Suc lex_hex_def code_of_def)

text \<open>A name or number counts one column too many: in \<^verbatim>\<open>a b\<close> the second name is reported at column 4
  although it is the third byte of its line.\<close>

theorem column_drifts_after_name:
  "\<exists>ts. scan_tokens ''a b'' = Inr ts \<and> lexeme (ts ! 1) = ''b'' \<and> tok_column (ts ! 1) = 4"
  by (simp add: scan_tokens_def scan_loop.simps lexer_new_def scan_token_def Let_def op_token_def
      add_token_def advance_def scan_identifier_def span_len_def ident_char_def isalnum_def isalpha_def isdigit_def
      code_of_def ident_type_def keyword_table_def insert_semicolon_def nth_append)

end
