(* ===== verification/Ast.thy ===== *)
theory Ast
  imports Lexer
begin

text \<open>
  The syntax trees of \<^verbatim>\<open>ast.h\<close>. The base classes \<^verbatim>\<open>Expression\<close> and \<^verbatim>\<open>Statement\<close>
  with their source location are the constructors \<open>Expr\<close> and \<open>Stmt\<close>; their subclasses are
  the constructors of \<open>expr_node\<close> and \<open>stmt_node\<close>, with the fields in the order of the source
  and a nullable pointer as an option. A field of type \<^verbatim>\<open>BlockStatement\<close> is the list of its statements
  (the location of such a block is never set). An integer literal is a 64-bit word. A float literal keeps the text
  that \<^verbatim>\<open>strtod\<close> reads, which determines its value.
\<close>

record SourceLocation =
  loc_file :: string
  loc_line :: nat
  loc_column :: nat

definition no_loc :: SourceLocation where
  "no_loc = \<lparr>loc_file = [], loc_line = 0, loc_column = 0\<rparr>"

datatype (plugins only: size) Expression = Expr SourceLocation expr_node
and expr_node =
    StringLiteral string bool
  | NumberLiteral u64
  | FloatLiteral string
  | BooleanLiteral bool
  | NullLiteral
  | ArrayLiteral "Expression list"
  | AssocArrayLiteral "(Expression \<times> Expression) list"
  | FunctionExpression "string list" "Expression option list" "string list" bool "Statement list"
  | Variable string
  | IndexExpression Expression Expression
  | UnaryExpression string Expression bool
  | BinaryExpression Expression string Expression
  | AssignmentExpression string string "Expression option" "Expression option" Expression
  | CallExpression Expression "Expression list"
  | TernaryExpression Expression Expression Expression
  | ScopeResolution string string
  | IotaExpression
  | MemberAccessExpression Expression string
  | StructLiteralExpression string "(string \<times> Expression) list"
and Statement = Stmt SourceLocation stmt_node
and stmt_node =
    ExpressionStatement Expression
  | PrintStatement "Expression list"
  | WriteStatement "Expression list"
  | ReturnStatement "Expression option"
  | ThrowStatement Expression
  | BreakStatement
  | ContinueStatement
  | UseStatement string string
  | UseFileStatement string
  | BlockStatement "Statement list"
  | IfStatement Expression "Statement list" "Statement list option"
  | WhileStatement Expression "Statement list"
  | ForStatement "Statement option" "Expression option" "Expression option" "Statement list"
  | ForeachStatement Expression string string "Statement list"
  | TryCatchStatement "Statement list" string "Statement list option" "Statement list option"
  | SwitchStatement Expression "(Expression list \<times> Statement list) list"
  | StructDeclaration string "(string \<times> Expression option) list"
  | ConstBlock "(string \<times> Expression option) list"
  | FunctionDeclaration string "string list" "Expression option list" bool "Statement list"

type_synonym Program = "Statement list"

end
