(* ===== verification/Parser.thy ===== *)
theory Parser
  imports Ast Values
begin

text \<open>
  The recursive-descent parser of \<^verbatim>\<open>parser.h\<close> / \<^verbatim>\<open>parser.cpp\<close>: one definition per member
  function. The read position is the list of unread tokens, of which the last one is the end-of-file token
  (at the end of the list the parser is at the end, too). A parse error is a value; the functions are composed with
  \<open>pbind\<close>, which passes the parser state on.

  The functions call each other in a cycle only after consuming a token. The calls that close the cycle go through
  the record \<open>procs\<close>, of which \<open>procs_at n\<close> is the version with recursion depth \<open>n\<close>;
  \<open>parse\<close> runs with one more level than there are tokens, and the theorem \<open>parser_terminates\<close> shows
  that this is always enough. Loops run at most as often as there are tokens, for the same reason.
\<close>

subsection \<open>State and errors\<close>

datatype parse_error = LookParseError string nat nat | Out_of_fuel

record parser =
  toks :: "Token list"
  prev :: Token
  scope_depth :: nat
  expr_depth :: nat
  stmt_depth :: nat
  binop_depth :: nat

type_synonym 'a pm = "parser \<Rightarrow> parse_error + 'a \<times> parser"

definition no_token :: Token where
  "no_token = \<lparr>tok_type = T_EOF_TOKEN, lexeme = [], literal = None, tok_line = 0, tok_column = 0, raw = False\<rparr>"

definition MAX_EXPR_DEPTH :: nat where "MAX_EXPR_DEPTH = 150"
definition MAX_STMT_DEPTH :: nat where "MAX_STMT_DEPTH = 150"
definition MAX_BINOP_CHAIN :: nat where "MAX_BINOP_CHAIN = 1000"

definition preturn :: "'a \<Rightarrow> 'a pm" where
  "preturn x st = Inr (x, st)"

definition pbind :: "'a pm \<Rightarrow> ('a \<Rightarrow> 'b pm) \<Rightarrow> 'b pm" where
  "pbind m f st = (case m st of Inl e \<Rightarrow> Inl e | Inr (x, st') \<Rightarrow> f x st')"

definition pget :: "(parser \<Rightarrow> 'a) \<Rightarrow> 'a pm" where
  "pget f st = Inr (f st, st)"

definition pput :: "(parser \<Rightarrow> parser) \<Rightarrow> unit pm" where
  "pput f st = Inr ((), f st)"

definition p_peek :: "parser \<Rightarrow> Token" where
  "p_peek st = (case toks st of [] \<Rightarrow> no_token | t # _ \<Rightarrow> t)"

definition p_at_end :: "parser \<Rightarrow> bool" where
  "p_at_end st \<longleftrightarrow> tok_type (p_peek st) = T_EOF_TOKEN"

definition p_check :: "TokenType \<Rightarrow> parser \<Rightarrow> bool" where
  "p_check ty st \<longleftrightarrow> \<not> p_at_end st \<and> tok_type (p_peek st) = ty"

definition p_advance :: "Token pm" where
  "p_advance st =
     (if p_at_end st then Inr (prev st, st)
      else let st' = st\<lparr>prev := p_peek st, toks := tl (toks st)\<rparr> in Inr (prev st', st'))"

definition pfail :: "string \<Rightarrow> 'a pm" where
  "pfail msg st = Inl (LookParseError msg (tok_line (p_peek st)) (tok_column (p_peek st)))"

definition got :: "string \<Rightarrow> parser \<Rightarrow> string" where
  "got msg st = msg @ '' (got '' @ [SQ] @ lexeme (p_peek st) @ [SQ] @ '')''"

definition p_consume :: "TokenType \<Rightarrow> string \<Rightarrow> Token pm" where
  "p_consume ty msg st = (if p_check ty st then p_advance st else pfail (got msg st) st)"

definition p_match :: "TokenType \<Rightarrow> bool pm" where
  "p_match ty st = (if p_check ty st then pbind p_advance (\<lambda>_. preturn True) st else Inr (False, st))"

definition p_consume_semi :: "unit pm" where
  "p_consume_semi st =
     (if p_check T_SEMICOLON st then pbind p_advance (\<lambda>_. preturn ()) st
      else if p_check T_RBRACE st \<or> p_at_end st then Inr ((), st)
      else pfail (got (''Expect '' @ [SQ] @ '';'' @ [SQ] @ ''.'') st) st)"

definition cur_loc :: "parser \<Rightarrow> SourceLocation" where
  "cur_loc st = (case toks st of [] \<Rightarrow> no_loc
     | t # _ \<Rightarrow> \<lparr>loc_file = [], loc_line = tok_line t, loc_column = tok_column t\<rparr>)"

text \<open>A loop \<^verbatim>\<open>while (c) body\<close>, with the number of unread tokens as its fuel.\<close>

fun p_while :: "nat \<Rightarrow> ('a \<Rightarrow> parser \<Rightarrow> bool) \<Rightarrow> ('a \<Rightarrow> 'a pm) \<Rightarrow> 'a \<Rightarrow> 'a pm" where
  "p_while 0 c body x st = (if c x st then Inl Out_of_fuel else Inr (x, st))"
| "p_while (Suc n) c body x st = (if c x st then pbind (body x) (p_while n c body) st else Inr (x, st))"

definition p_loop :: "('a \<Rightarrow> parser \<Rightarrow> bool) \<Rightarrow> ('a \<Rightarrow> 'a pm) \<Rightarrow> 'a \<Rightarrow> 'a pm" where
  "p_loop c body x st = p_while (length (toks st)) c body x st"

definition skip_semicolons :: "unit pm" where
  "skip_semicolons = p_loop (\<lambda>_. p_check T_SEMICOLON) (\<lambda>_. pbind p_advance (\<lambda>_. preturn ())) ()"

text \<open>The calls that close the recursion.\<close>

record procs =
  r_expression :: "Expression pm"
  r_assignment :: "Expression pm"
  r_ternary :: "Expression pm"
  r_power :: "Expression pm"
  r_unary :: "Expression pm"
  r_statement :: "Statement pm"
  r_if_statement :: "stmt_node pm"

definition mk :: "expr_node \<Rightarrow> Expression" where
  "mk e = Expr no_loc e"

definition mks :: "stmt_node \<Rightarrow> Statement" where
  "mks s = Stmt no_loc s"

text \<open>A \<^verbatim>\<open>DepthGuard\<close> on \<^verbatim>\<open>expr_depth_\<close> around \<open>m\<close>.\<close>

definition nested_too_deep :: string where
  "nested_too_deep = ''Expression nested too deep (max 150)''"

definition guarded_depth :: "'a pm \<Rightarrow> 'a pm" where
  "guarded_depth m =
     pbind (pput (\<lambda>st. st\<lparr>expr_depth := expr_depth st + 1\<rparr>)) (\<lambda>_.
     pbind (pget expr_depth) (\<lambda>d.
       if MAX_EXPR_DEPTH < d then pfail nested_too_deep
       else pbind m (\<lambda>x.
            pbind (pput (\<lambda>st. st\<lparr>expr_depth := expr_depth st - 1\<rparr>)) (\<lambda>_. preturn x))))"

subsection \<open>Blocks, arguments and parameters\<close>

definition block :: "procs \<Rightarrow> Statement list pm" where
  "block r =
     pbind (p_loop (\<lambda>_ st. \<not> p_check T_RBRACE st \<and> \<not> p_at_end st)
       (\<lambda>blk. pbind skip_semicolons (\<lambda>_.
          pbind (pget (\<lambda>st. p_check T_RBRACE st \<or> p_at_end st)) (\<lambda>stop.
            if stop then preturn blk else pbind (r_statement r) (\<lambda>s. preturn (blk @ [s]))))) [])
       (\<lambda>blk. pbind (p_consume T_RBRACE ''Expect '}' after block.'') (\<lambda>_. preturn blk))"

definition argument_list :: "procs \<Rightarrow> Expression list pm" where
  "argument_list r st =
     (if p_check T_RPAREN st then Inr ([], st)
      else pbind (r_expression r) (\<lambda>e.
             p_loop (\<lambda>_. p_check T_COMMA) (\<lambda>es.
               pbind p_advance (\<lambda>_. pbind (r_expression r) (\<lambda>e. preturn (es @ [e])))) [e]) st)"

text \<open>One parameter: its name, default and whether it is the variadic one, appended to those before.\<close>

definition parameter :: "procs \<Rightarrow> string list \<times> Expression option list \<times> bool \<Rightarrow>
    (string list \<times> Expression option list \<times> bool) pm" where
  "parameter r acc =
     (case acc of (params, defaults, variadic) \<Rightarrow>
        pbind (p_match T_ELLIPSIS) (\<lambda>el.
          if el then
            pbind (p_consume T_IDENT ''Expect parameter name after '...'.'') (\<lambda>p.
              preturn (params @ [lexeme p], defaults @ [None], True))
          else
            pbind (p_consume T_IDENT ''Expect parameter name.'') (\<lambda>p.
            pbind (p_match T_ASSIGN) (\<lambda>asg.
              if asg then
                pbind (r_assignment r) (\<lambda>e. preturn (params @ [lexeme p], defaults @ [Some e], variadic))
              else preturn (params @ [lexeme p], defaults @ [None], variadic)))))"

definition parameters :: "procs \<Rightarrow> (string list \<times> Expression option list \<times> bool) pm" where
  "parameters r st =
     (if p_check T_RPAREN st then Inr (([], [], False), st)
      else pbind (parameter r ([], [], False))
             (p_loop (\<lambda>acc st. \<not> snd (snd acc) \<and> p_check T_COMMA st)
               (\<lambda>acc. pbind p_advance (\<lambda>_. parameter r acc))) st)"

definition captures :: "string list pm" where
  "captures =
     pbind (p_match T_USE) (\<lambda>u.
       if u then
         pbind (p_consume T_LPAREN ''Expect '(' after 'use'.'') (\<lambda>_.
         pbind (pget (p_check T_RPAREN)) (\<lambda>none.
         pbind (if none then preturn []
                else pbind (p_consume T_IDENT ''Expect variable name in use(...).'') (\<lambda>c.
                       p_loop (\<lambda>_. p_check T_COMMA) (\<lambda>cs.
                         pbind p_advance (\<lambda>_.
                         pbind (p_consume T_IDENT ''Expect variable name in use(...).'') (\<lambda>c.
                           preturn (cs @ [lexeme c])))) [lexeme c])) (\<lambda>cs.
         pbind (p_consume T_RPAREN ''Expect ')' after use(...).'') (\<lambda>_. preturn cs))))
       else preturn [])"

subsection \<open>Primary expressions\<close>

definition strip_underscores :: "string \<Rightarrow> string" where
  "strip_underscores s = filter (\<lambda>c. c \<noteq> CHR ''_'') s"

text \<open>\<^verbatim>\<open>std::stoull\<close> in base 2 or 16: \<^term>\<open>None\<close> is an exception (no digit, or out of range).\<close>

definition stoull :: "nat \<Rightarrow> string \<Rightarrow> u64 option" where
  "stoull base s =
     (let ds = takeWhile (\<lambda>c. case lex_hex c of Some d \<Rightarrow> d < base | None \<Rightarrow> False) s;
          v = foldl (\<lambda>v c. v * base + the (lex_hex c)) 0 ds
      in if ds = [] \<or> 2 ^ 64 \<le> v then None else Some (word_of_nat v))"

definition number_literal :: "string \<Rightarrow> expr_node" where
  "number_literal text =
     (let lit = strip_underscores text;
          based = 2 < length lit \<and> lit ! 0 = CHR ''0'';
          v = (if based \<and> (lit ! 1 = CHR ''x'' \<or> lit ! 1 = CHR ''X'') then stoull 16 (drop 2 lit)
               else if based \<and> (lit ! 1 = CHR ''b'' \<or> lit ! 1 = CHR ''B'') then stoull 2 (drop 2 lit)
               else case stoll lit of StollOk i n \<Rightarrow> Some i | _ \<Rightarrow> None)
      in case v of Some i \<Rightarrow> NumberLiteral i | None \<Rightarrow> FloatLiteral lit)"

definition literal_text :: "Token \<Rightarrow> string" where
  "literal_text t = (case literal t of Some s \<Rightarrow> s | None \<Rightarrow> [])"

definition function_expression :: "procs \<Rightarrow> Expression pm" where
  "function_expression r =
     pbind (p_consume T_LPAREN ''Expect '(' after 'function'.'') (\<lambda>_.
     pbind (parameters r) (\<lambda>(params, defaults, variadic).
     pbind (p_consume T_RPAREN ''Expect ')' after parameters.'') (\<lambda>_.
     pbind captures (\<lambda>caps.
     pbind (p_match T_FAT_ARROW) (\<lambda>arrow.
     pbind (if arrow then pbind (r_expression r) (\<lambda>e. preturn [mks (ReturnStatement (Some e))])
            else
              pbind (p_consume T_LBRACE ''Expect '{' or '=>' before function body.'') (\<lambda>_.
              pbind (pput (\<lambda>st. st\<lparr>scope_depth := scope_depth st + 1\<rparr>)) (\<lambda>_.
              pbind (block r) (\<lambda>body.
              pbind (pput (\<lambda>st. st\<lparr>scope_depth := scope_depth st - 1\<rparr>)) (\<lambda>_. preturn body))))) (\<lambda>body.
       preturn (mk (FunctionExpression params defaults caps variadic body))))))))"

definition array_literal :: "procs \<Rightarrow> Expression pm" where
  "array_literal r =
     pbind (p_match T_RBRACKET) (\<lambda>empty.
       if empty then preturn (mk (ArrayLiteral []))
       else
         pbind (r_expression r) (\<lambda>first.
         pbind (p_match T_FAT_ARROW) (\<lambda>assoc.
           if assoc then
             pbind (r_expression r) (\<lambda>val.
             pbind (p_loop (\<lambda>_. p_check T_COMMA) (\<lambda>ps.
               pbind p_advance (\<lambda>_.
               pbind (pget (p_check T_RBRACKET)) (\<lambda>stop.
                 if stop then preturn ps
                 else pbind (r_expression r) (\<lambda>k.
                      pbind (p_consume T_FAT_ARROW ''Expect '=>' in associative array.'') (\<lambda>_.
                      pbind (r_expression r) (\<lambda>v. preturn (ps @ [(k, v)]))))))) [(first, val)]) (\<lambda>ps.
             pbind (p_consume T_RBRACKET ''Expect ']' after array.'') (\<lambda>_.
               preturn (mk (AssocArrayLiteral ps)))))
           else
             pbind (p_loop (\<lambda>_. p_check T_COMMA) (\<lambda>es.
               pbind p_advance (\<lambda>_.
               pbind (pget (p_check T_RBRACKET)) (\<lambda>stop.
                 if stop then preturn es
                 else pbind (r_expression r) (\<lambda>e. preturn (es @ [e]))))) [first]) (\<lambda>es.
             pbind (p_consume T_RBRACKET ''Expect ']' after array elements.'') (\<lambda>_.
               preturn (mk (ArrayLiteral es)))))))"

definition struct_literal :: "procs \<Rightarrow> string \<Rightarrow> Expression pm" where
  "struct_literal r name =
     pbind (p_loop (\<lambda>_ st. \<not> p_check T_RBRACE st \<and> \<not> p_at_end st) (\<lambda>fs.
       pbind (p_consume T_IDENT ''Expect field name in struct literal.'') (\<lambda>f.
       pbind (p_consume T_COLON ''Expect ':' after field name in struct literal.'') (\<lambda>_.
       pbind (r_expression r) (\<lambda>val.
       pbind (p_match T_COMMA) (\<lambda>_. preturn (fs @ [(lexeme f, val)])))))) []) (\<lambda>fs.
     pbind (p_consume T_RBRACE ''Expect '}' after struct literal.'') (\<lambda>_.
       preturn (mk (StructLiteralExpression name fs))))"

definition identifier_expression :: "procs \<Rightarrow> Token \<Rightarrow> Expression pm" where
  "identifier_expression r t =
     (let name = lexeme t in
      pbind (pget (p_check T_LBRACE)) (\<lambda>brace.
        if take 1 name \<noteq> ''$'' \<and> brace then pbind p_advance (\<lambda>_. struct_literal r name)
        else
          pbind (p_match T_COLON_COLON) (\<lambda>sc.
            if sc then
              pbind (p_consume T_IDENT ''Expect member name after '::'.'') (\<lambda>m.
                preturn (mk (ScopeResolution name (lexeme m))))
            else preturn (Expr \<lparr>loc_file = [], loc_line = tok_line t, loc_column = tok_column t\<rparr> (Variable name)))))"

definition primary :: "procs \<Rightarrow> Expression pm" where
  "primary r st =
     (if p_check T_IOTA st then pbind p_advance (\<lambda>_. preturn (mk IotaExpression)) st
      else if p_check T_TRUE_KW st then pbind p_advance (\<lambda>_. preturn (mk (BooleanLiteral True))) st
      else if p_check T_FALSE_KW st then pbind p_advance (\<lambda>_. preturn (mk (BooleanLiteral False))) st
      else if p_check T_NULL_TOKEN st then pbind p_advance (\<lambda>_. preturn (mk NullLiteral)) st
      else if p_check T_NUMBER st then
        pbind p_advance (\<lambda>t. preturn (mk (number_literal (literal_text t)))) st
      else if p_check T_FLOAT_NUM st then
        pbind p_advance (\<lambda>t. preturn (mk (FloatLiteral (strip_underscores (literal_text t))))) st
      else if p_check T_STRING st then
        pbind p_advance (\<lambda>t. preturn (mk (StringLiteral (literal_text t) (raw t)))) st
      else if p_check T_FUNCTION st then pbind p_advance (\<lambda>_. function_expression r) st
      else if p_check T_LBRACKET st then pbind p_advance (\<lambda>_. array_literal r) st
      else if p_check T_IDENT st then pbind p_advance (\<lambda>t. identifier_expression r t) st
      else if p_check T_LPAREN st then
        pbind p_advance (\<lambda>_. pbind (r_expression r) (\<lambda>e.
          pbind (p_consume T_RPAREN ''Expect ')' after expression.'') (\<lambda>_. preturn e))) st
      else pfail (''Unexpected token: '' @ [SQ] @ lexeme (p_peek st) @ [SQ]) st)"

subsection \<open>Calls, unary and binary operators\<close>

definition finish_call :: "procs \<Rightarrow> Expression \<Rightarrow> Expression pm" where
  "finish_call r callee =
     pbind (argument_list r) (\<lambda>args.
     pbind (p_consume T_RPAREN ''Expect ')' after arguments.'') (\<lambda>_. preturn (mk (CallExpression callee args))))"

fun is_container :: "Expression \<Rightarrow> bool" where
  "is_container (Expr l (Variable x)) = True"
| "is_container (Expr l (IndexExpression e i)) = True"
| "is_container (Expr l (CallExpression f es)) = True"
| "is_container (Expr l (MemberAccessExpression e f)) = True"
| "is_container _ = False"

definition member_ahead :: "Expression \<Rightarrow> parser \<Rightarrow> bool" where
  "member_ahead e st \<longleftrightarrow> p_check T_DOT st \<and>
     (case toks st of
        _ # t1 # ts \<Rightarrow>
          tok_type t1 = T_IDENT \<and> lexeme t1 \<noteq> [] \<and> hd (lexeme t1) \<noteq> CHR ''$'' \<and>
          \<not> (case ts of t2 # _ \<Rightarrow> tok_type t2 = T_LPAREN \<or> tok_type t2 = T_COLON_COLON | [] \<Rightarrow> False)
      | _ \<Rightarrow> False) \<and> is_container e"

definition call_step :: "procs \<Rightarrow> Expression \<Rightarrow> Expression pm" where
  "call_step r e st =
     (if p_check T_LPAREN st then pbind p_advance (\<lambda>_. finish_call r e) st
      else if p_check T_LBRACKET st then
        pbind p_advance (\<lambda>_. pbind (r_expression r) (\<lambda>i.
          pbind (p_consume T_RBRACKET ''Expect ']' after index.'') (\<lambda>_. preturn (mk (IndexExpression e i))))) st
      else
        pbind p_advance (\<lambda>_. pbind (p_consume T_IDENT ''Expect field name after '.'.'') (\<lambda>f.
          preturn (mk (MemberAccessExpression e (lexeme f))))) st)"

definition call_expr :: "procs \<Rightarrow> Expression pm" where
  "call_expr r =
     pbind (primary r)
       (p_loop (\<lambda>e st. p_check T_LPAREN st \<or> p_check T_LBRACKET st \<or> member_ahead e st) (call_step r))"

definition postfix_expr :: "procs \<Rightarrow> Expression pm" where
  "postfix_expr r =
     pbind (call_expr r) (\<lambda>e.
     pbind (p_match T_PLUS_PLUS) (\<lambda>inc.
       if inc then preturn (mk (UnaryExpression ''++'' e False))
       else pbind (p_match T_MINUS_MINUS) (\<lambda>dec.
              if dec then preturn (mk (UnaryExpression ''--'' e False)) else preturn e)))"

definition unary :: "procs \<Rightarrow> Expression pm" where
  "unary r = guarded_depth (\<lambda>st.
     if p_check T_PLUS_PLUS st then
       pbind p_advance (\<lambda>_. pbind (primary r) (\<lambda>e. preturn (mk (UnaryExpression ''++'' e True)))) st
     else if p_check T_MINUS_MINUS st then
       pbind p_advance (\<lambda>_. pbind (primary r) (\<lambda>e. preturn (mk (UnaryExpression ''--'' e True)))) st
     else if p_check T_BANG st then
       pbind p_advance (\<lambda>_. pbind (r_unary r) (\<lambda>e. preturn (mk (UnaryExpression ''!'' e True)))) st
     else if p_check T_TILDE st then
       pbind p_advance (\<lambda>_. pbind (r_unary r) (\<lambda>e. preturn (mk (UnaryExpression ''~'' e True)))) st
     else if p_check T_MINUS st then
       pbind p_advance (\<lambda>_. pbind (r_unary r) (\<lambda>e. preturn (mk (UnaryExpression ''-'' e True)))) st
     else postfix_expr r st)"

definition power_expr :: "procs \<Rightarrow> Expression pm" where
  "power_expr r = guarded_depth
     (pbind (unary r) (\<lambda>e.
      pbind (p_match T_STAR_STAR) (\<lambda>pow.
        if pow then pbind (r_power r) (\<lambda>e'. preturn (mk (BinaryExpression e ''**'' e'))) else preturn e)))"

definition check_binop_chain :: "unit pm" where
  "check_binop_chain =
     pbind (pput (\<lambda>st. st\<lparr>binop_depth := binop_depth st + 1\<rparr>)) (\<lambda>_.
     pbind (pget binop_depth) (\<lambda>d.
       if MAX_BINOP_CHAIN < d then pfail ''Expression chain too long (max 1000 consecutive binary operators)''
       else preturn ()))"

text \<open>A level of left-associative operators: \<open>ops\<close> are its tokens, \<open>name\<close> the operator stored in the
  tree, \<open>sub\<close> the next tighter level.\<close>

definition at_op :: "TokenType list \<Rightarrow> parser \<Rightarrow> bool" where
  "at_op ops st \<longleftrightarrow> list_ex (\<lambda>ty. p_check ty st) ops"

definition binop_level :: "TokenType list \<Rightarrow> (Token \<Rightarrow> string) \<Rightarrow> Expression pm \<Rightarrow> Expression pm" where
  "binop_level ops name sub =
     pbind sub
       (p_loop (\<lambda>_. at_op ops) (\<lambda>e.
          pbind p_advance (\<lambda>t.
          pbind check_binop_chain (\<lambda>_.
          pbind sub (\<lambda>e'. preturn (mk (BinaryExpression e (name t) e')))))))"

definition multiplication :: "procs \<Rightarrow> Expression pm" where
  "multiplication r = binop_level [T_STAR, T_SLASH, T_PERCENT] lexeme (power_expr r)"

definition addition :: "procs \<Rightarrow> Expression pm" where
  "addition r = binop_level [T_PLUS, T_MINUS] lexeme (multiplication r)"

definition concatenation :: "procs \<Rightarrow> Expression pm" where
  "concatenation r = binop_level [T_DOT] (\<lambda>_. ''.'') (addition r)"

definition shift :: "procs \<Rightarrow> Expression pm" where
  "shift r = binop_level [T_LESS_LESS, T_GREATER_GREATER] lexeme (concatenation r)"

definition comparison :: "procs \<Rightarrow> Expression pm" where
  "comparison r = binop_level [T_SPACESHIP, T_GREATER, T_GREATER_EQUAL, T_LESS, T_LESS_EQUAL] lexeme (shift r)"

definition equality :: "procs \<Rightarrow> Expression pm" where
  "equality r = binop_level [T_EQUAL_EQUAL, T_BANG_EQUAL] lexeme (comparison r)"

definition bitwise_and_expr :: "procs \<Rightarrow> Expression pm" where
  "bitwise_and_expr r = binop_level [T_AMP] (\<lambda>_. ''&'') (equality r)"

definition bitwise_xor_expr :: "procs \<Rightarrow> Expression pm" where
  "bitwise_xor_expr r = binop_level [T_CARET] (\<lambda>_. ''^'') (bitwise_and_expr r)"

definition bitwise_or_expr :: "procs \<Rightarrow> Expression pm" where
  "bitwise_or_expr r = binop_level [T_PIPE] (\<lambda>_. ''|'') (bitwise_xor_expr r)"

definition logical_and :: "procs \<Rightarrow> Expression pm" where
  "logical_and r = binop_level [T_AMP_AMP] (\<lambda>_. ''&&'') (bitwise_or_expr r)"

definition logical_or :: "procs \<Rightarrow> Expression pm" where
  "logical_or r = binop_level [T_PIPE_PIPE] (\<lambda>_. ''||'') (logical_and r)"

definition null_coalescing :: "procs \<Rightarrow> Expression pm" where
  "null_coalescing r = binop_level [T_QUESTION_QUESTION] (\<lambda>_. ''??'') (logical_or r)"

definition ternary :: "procs \<Rightarrow> Expression pm" where
  "ternary r =
     pbind (null_coalescing r) (\<lambda>c.
     pbind (p_match T_QUESTION) (\<lambda>q.
       if q then
         pbind (r_ternary r) (\<lambda>a.
         pbind (p_consume T_COLON (CHR 0x27 # '':' expected in the ternary operator'')) (\<lambda>_.
         pbind (r_ternary r) (\<lambda>b. preturn (mk (TernaryExpression c a b)))))
       else preturn c))"

definition assign_ops :: "TokenType list" where
  "assign_ops = [T_ASSIGN, T_PLUS_ASSIGN, T_MINUS_ASSIGN, T_STAR_ASSIGN, T_SLASH_ASSIGN, T_PERCENT_ASSIGN,
     T_DOT_ASSIGN, T_AMP_ASSIGN, T_PIPE_ASSIGN, T_CARET_ASSIGN]"

text \<open>The assignment to the target \<open>e\<close>, if it can be one.\<close>

fun var_name :: "Expression \<Rightarrow> string option" where
  "var_name (Expr l (Variable x)) = Some x"
| "var_name _ = None"

definition assign_element :: "Expression \<Rightarrow> Expression \<Rightarrow> string \<Rightarrow> Expression \<Rightarrow> expr_node" where
  "assign_element obj idx op val =
     (case var_name obj of
        Some x \<Rightarrow> AssignmentExpression x op None (Some idx) val
      | None \<Rightarrow> AssignmentExpression [] op (Some obj) (Some idx) val)"

definition assign_to :: "Expression \<Rightarrow> string \<Rightarrow> Expression \<Rightarrow> expr_node option" where
  "assign_to e op val =
     (case e of Expr _ n \<Rightarrow>
        (case n of
           IndexExpression obj idx \<Rightarrow> Some (assign_element obj idx op val)
         | MemberAccessExpression obj f \<Rightarrow> Some (assign_element obj (mk (StringLiteral f False)) op val)
         | Variable x \<Rightarrow> Some (AssignmentExpression x op None None val)
         | _ \<Rightarrow> None))"

definition assignment :: "procs \<Rightarrow> Expression pm" where
  "assignment r =
     pbind (ternary r) (\<lambda>e.
     pbind (pget (at_op assign_ops)) (\<lambda>asg.
       if asg then
         pbind p_advance (\<lambda>t.
         pbind (r_assignment r) (\<lambda>val.
           (case assign_to e (lexeme t) val of
              Some n \<Rightarrow> preturn (mk n)
            | None \<Rightarrow> (\<lambda>st. Inl (LookParseError ''Invalid assignment target.'' (tok_line (prev st)) (tok_column (prev st)))))))
       else preturn e))"

fun set_loc :: "SourceLocation \<Rightarrow> Expression \<Rightarrow> Expression" where
  "set_loc l (Expr _ n) = Expr l n"

definition expression :: "procs \<Rightarrow> Expression pm" where
  "expression r = guarded_depth
     (pbind (pput (\<lambda>st. if expr_depth st = 1 then st\<lparr>binop_depth := 0\<rparr> else st)) (\<lambda>_.
      pbind (pget cur_loc) (\<lambda>l.
      pbind (assignment r) (\<lambda>e. preturn (set_loc l e)))))"

subsection \<open>Statements\<close>

definition switch_values :: "procs \<Rightarrow> Expression list pm" where
  "switch_values r =
     pbind (p_match T_DEFAULT) (\<lambda>d.
       if d then pbind (p_consume T_COLON ''Expect ':' after 'default'.'') (\<lambda>_. preturn [])
       else
         pbind (p_consume T_CASE ''Expect 'case' or 'default' in switch.'') (\<lambda>_.
         pbind (r_expression r) (\<lambda>v.
         pbind (p_loop (\<lambda>_. p_check T_COMMA) (\<lambda>vs.
           pbind p_advance (\<lambda>_. pbind (r_expression r) (\<lambda>v. preturn (vs @ [v])))) [v]) (\<lambda>vs.
         pbind (p_consume T_COLON ''Expect ':' after case value.'') (\<lambda>_. preturn vs)))))"

definition switch_case :: "procs \<Rightarrow> (Expression list \<times> Statement list) pm" where
  "switch_case r =
     pbind (switch_values r) (\<lambda>vs.
     pbind (p_loop (\<lambda>_ st. \<not> p_check T_CASE st \<and> \<not> p_check T_DEFAULT st \<and> \<not> p_check T_RBRACE st \<and> \<not> p_at_end st)
       (\<lambda>ss. pbind (r_statement r) (\<lambda>s. preturn (ss @ [s]))) []) (\<lambda>ss. preturn (vs, ss)))"

definition switch_statement :: "procs \<Rightarrow> stmt_node pm" where
  "switch_statement r =
     pbind (p_consume T_LPAREN ''Expect '(' after 'switch'.'') (\<lambda>_.
     pbind (r_expression r) (\<lambda>subject.
     pbind (p_consume T_RPAREN ''Expect ')' after switch value.'') (\<lambda>_.
     pbind (p_consume T_LBRACE ''Expect '{' after switch(...).'') (\<lambda>_.
     pbind (p_loop (\<lambda>_ st. \<not> p_check T_RBRACE st \<and> \<not> p_at_end st)
       (\<lambda>cs. pbind (switch_case r) (\<lambda>c. preturn (cs @ [c]))) []) (\<lambda>cs.
     pbind (p_consume T_RBRACE ''Expect '}' after switch body.'') (\<lambda>_.
       preturn (SwitchStatement subject cs)))))))"

definition try_statement :: "procs \<Rightarrow> stmt_node pm" where
  "try_statement r =
     pbind (p_consume T_LBRACE ''Expect '{' after 'try'.'') (\<lambda>_.
     pbind (block r) (\<lambda>tb.
     pbind skip_semicolons (\<lambda>_.
     pbind (p_match T_CATCH) (\<lambda>c.
     pbind (if c then
              pbind (p_consume T_LPAREN ''Expect '(' after 'catch'.'') (\<lambda>_.
              pbind (p_consume T_IDENT ''Expect variable name in catch.'') (\<lambda>var.
              pbind (p_consume T_RPAREN ''Expect ')' after catch variable.'') (\<lambda>_.
              pbind (p_consume T_LBRACE ''Expect '{' after catch(...).'') (\<lambda>_.
              pbind (block r) (\<lambda>cb. preturn (lexeme var, Some cb))))))
            else preturn ([], None)) (\<lambda>(cv, cb).
     pbind skip_semicolons (\<lambda>_.
     pbind (p_match T_FINALLY) (\<lambda>f.
     pbind (if f then
              pbind (p_consume T_LBRACE ''Expect '{' after 'finally'.'') (\<lambda>_.
              pbind (block r) (\<lambda>fb. preturn (Some fb)))
            else preturn None) (\<lambda>fb.
       preturn (TryCatchStatement tb cv cb fb)))))))))"

definition output_statement :: "procs \<Rightarrow> string \<Rightarrow> (Expression list \<Rightarrow> stmt_node) \<Rightarrow> stmt_node pm" where
  "output_statement r w f =
     pbind (p_consume T_LPAREN (''Expect '(' after '' @ [SQ] @ w @ [SQ] @ ''.'')) (\<lambda>_.
     pbind (argument_list r) (\<lambda>es.
     pbind (p_consume T_RPAREN (''Expect ')' after '' @ w @ '' arguments.'')) (\<lambda>_.
     pbind p_consume_semi (\<lambda>_. preturn (f es)))))"

definition print_stmt :: "procs \<Rightarrow> stmt_node pm" where
  "print_stmt r = output_statement r ''print'' PrintStatement"

definition write_stmt :: "procs \<Rightarrow> stmt_node pm" where
  "write_stmt r = output_statement r ''write'' WriteStatement"

definition expression_statement :: "procs \<Rightarrow> stmt_node pm" where
  "expression_statement r =
     pbind (expression r) (\<lambda>e. pbind p_consume_semi (\<lambda>_. preturn (ExpressionStatement e)))"

definition use_statement :: "stmt_node pm" where
  "use_statement =
     pbind (pget (p_check T_STRING)) (\<lambda>file.
       if file then
         pbind (pget scope_depth) (\<lambda>d.
           if 0 < d then
             pfail (''use '' @ [DQ] @ ''file'' @ [DQ] @ '' is only allowed at top-level scope, not inside a function or closure'')
           else
             pbind p_advance (\<lambda>t.
             pbind p_consume_semi (\<lambda>_.
               preturn (UseFileStatement (case literal t of Some p \<Rightarrow> p | None \<Rightarrow> lexeme t)))))
       else
         pbind (p_consume T_IDENT ''Expect module name after 'use'.'') (\<lambda>name.
         pbind (p_match T_AS) (\<lambda>a.
         pbind (if a then pbind (p_consume T_IDENT ''Expect alias name after 'as'.'') (\<lambda>al. preturn (lexeme al))
                else preturn []) (\<lambda>alias.
         pbind p_consume_semi (\<lambda>_. preturn (UseStatement (lexeme name) alias))))))"

definition if_statement :: "procs \<Rightarrow> stmt_node pm" where
  "if_statement r =
     pbind (p_consume T_LPAREN ''Expect '(' after 'if'.'') (\<lambda>_.
     pbind (r_expression r) (\<lambda>c.
     pbind (p_consume T_RPAREN ''Expect ')' after if condition.'') (\<lambda>_.
     pbind (p_consume T_LBRACE ''Expect '{' after if condition.'') (\<lambda>_.
     pbind (block r) (\<lambda>tb.
     pbind skip_semicolons (\<lambda>_.
     pbind (p_match T_ELSEIF) (\<lambda>elif.
     pbind (if elif then pbind (r_if_statement r) (\<lambda>n. preturn (Some [mks n]))
            else
              pbind (p_match T_ELSE) (\<lambda>els.
                if els then
                  pbind (p_match T_IF) (\<lambda>i.
                    if i then pbind (r_if_statement r) (\<lambda>n. preturn (Some [mks n]))
                    else
                      pbind (p_consume T_LBRACE ''Expect '{' after else.'') (\<lambda>_.
                      pbind (block r) (\<lambda>b. preturn (Some b))))
                else preturn None)) (\<lambda>eb.
       preturn (IfStatement c tb eb)))))))))"

definition while_statement :: "procs \<Rightarrow> stmt_node pm" where
  "while_statement r =
     pbind (p_consume T_LPAREN ''Expect '(' after 'while'.'') (\<lambda>_.
     pbind (r_expression r) (\<lambda>c.
     pbind (p_consume T_RPAREN ''Expect ')' after while condition.'') (\<lambda>_.
     pbind (p_consume T_LBRACE ''Expect '{' after while condition.'') (\<lambda>_.
     pbind (block r) (\<lambda>b. preturn (WhileStatement c b))))))"

definition unless_at :: "TokenType \<Rightarrow> 'a pm \<Rightarrow> 'a option pm" where
  "unless_at ty m st = (if p_check ty st then Inr (None, st) else pbind m (\<lambda>x. preturn (Some x)) st)"

definition for_statement :: "procs \<Rightarrow> stmt_node pm" where
  "for_statement r =
     pbind (p_consume T_LPAREN ''Expect '(' after 'for'.'') (\<lambda>_.
     pbind (pget (p_check T_SEMICOLON)) (\<lambda>no_init.
     pbind (if no_init then pbind (p_consume T_SEMICOLON ''Expect ';'.'') (\<lambda>_. preturn None)
            else pbind (expression_statement r) (\<lambda>n. preturn (Some (mks n)))) (\<lambda>init.
     pbind (unless_at T_SEMICOLON (expression r)) (\<lambda>c.
     pbind (p_consume T_SEMICOLON ''Expect ';' after for condition.'') (\<lambda>_.
     pbind (unless_at T_RPAREN (expression r)) (\<lambda>post.
     pbind (p_consume T_RPAREN ''Expect ')' after for clauses.'') (\<lambda>_.
     pbind (p_consume T_LBRACE ''Expect '{' after for.'') (\<lambda>_.
     pbind (block r) (\<lambda>b. preturn (ForStatement init c post b))))))))))"

definition foreach_statement :: "procs \<Rightarrow> stmt_node pm" where
  "foreach_statement r =
     pbind (p_consume T_LPAREN ''Expect '(' after 'foreach'.'') (\<lambda>_.
     pbind (r_expression r) (\<lambda>it.
     pbind (p_consume T_AS ''Expect 'as' in foreach.'') (\<lambda>_.
     pbind (p_consume T_IDENT ''Expect variable name in foreach.'') (\<lambda>first.
     pbind (p_match T_FAT_ARROW) (\<lambda>arrow.
     pbind (if arrow then
              pbind (p_consume T_IDENT ''Expect value variable after '=>'.'') (\<lambda>v. preturn (lexeme first, lexeme v))
            else preturn ([], lexeme first)) (\<lambda>(k, v).
     pbind (p_consume T_RPAREN ''Expect ')' after foreach.'') (\<lambda>_.
     pbind (p_consume T_LBRACE ''Expect '{' after foreach.'') (\<lambda>_.
     pbind (block r) (\<lambda>b. preturn (ForeachStatement it k v b))))))))))"

text \<open>The items of a \<^verbatim>\<open>struct\<close> or \<^verbatim>\<open>const\<close> block: names with optional values after \<open>sep\<close>.\<close>

definition item_list :: "procs \<Rightarrow> TokenType \<Rightarrow> string \<Rightarrow> (string \<times> Expression option) list pm" where
  "item_list r sep msg =
     p_loop (\<lambda>_ st. \<not> p_check T_RBRACE st \<and> \<not> p_at_end st) (\<lambda>its.
       pbind skip_semicolons (\<lambda>_.
       pbind (pget (\<lambda>st. p_check T_RBRACE st \<or> p_at_end st)) (\<lambda>stop.
         if stop then preturn its
         else
           pbind (p_consume T_IDENT msg) (\<lambda>name.
           pbind (p_match sep) (\<lambda>has.
           pbind (if has then pbind (r_expression r) (\<lambda>e. preturn (Some e)) else preturn None) (\<lambda>v.
           pbind (p_match T_COMMA) (\<lambda>_. preturn (its @ [(lexeme name, v)])))))))) []"

definition struct_declaration :: "procs \<Rightarrow> stmt_node pm" where
  "struct_declaration r =
     pbind (p_consume T_IDENT ''Expect struct name after 'struct'.'') (\<lambda>name.
     pbind (p_consume T_LBRACE ''Expect '{' after struct name.'') (\<lambda>_.
     pbind (item_list r T_COLON ''Expect field name.'') (\<lambda>fs.
     pbind (p_consume T_RBRACE ''Expect '}' after struct fields.'') (\<lambda>_.
       preturn (StructDeclaration (lexeme name) fs)))))"

definition const_block :: "procs \<Rightarrow> stmt_node pm" where
  "const_block r =
     pbind (p_consume T_LBRACE ''Expect '{' after 'const'.'') (\<lambda>_.
     pbind (item_list r T_ASSIGN ''Expect constant name.'') (\<lambda>its.
     pbind (p_consume T_RBRACE ''Expect '}' after const block.'') (\<lambda>_. preturn (ConstBlock its))))"

definition function_declaration :: "procs \<Rightarrow> stmt_node pm" where
  "function_declaration r =
     pbind (p_consume T_IDENT ''Expect function name.'') (\<lambda>name.
     pbind (p_consume T_LPAREN ''Expect '(' after function name.'') (\<lambda>_.
     pbind (parameters r) (\<lambda>(params, defaults, variadic).
     pbind (p_consume T_RPAREN ''Expect ')' after parameters.'') (\<lambda>_.
     pbind (p_consume T_LBRACE ''Expect '{' before function body.'') (\<lambda>_.
     pbind (pput (\<lambda>st. st\<lparr>scope_depth := scope_depth st + 1\<rparr>)) (\<lambda>_.
     pbind (block r) (\<lambda>body.
     pbind (pput (\<lambda>st. st\<lparr>scope_depth := scope_depth st - 1\<rparr>)) (\<lambda>_.
       preturn (FunctionDeclaration (lexeme name) params defaults variadic body)))))))))"

definition no_value_ahead :: "parser \<Rightarrow> bool" where
  "no_value_ahead st \<longleftrightarrow> p_check T_SEMICOLON st \<or> p_check T_RBRACE st \<or> p_at_end st"

definition return_statement :: "procs \<Rightarrow> stmt_node pm" where
  "return_statement r =
     pbind (pget no_value_ahead) (\<lambda>none.
     pbind (if none then preturn None else pbind (expression r) (\<lambda>e. preturn (Some e))) (\<lambda>v.
     pbind p_consume_semi (\<lambda>_. preturn (ReturnStatement v))))"

definition throw_statement :: "procs \<Rightarrow> stmt_node pm" where
  "throw_statement r =
     pbind (pget no_value_ahead) (\<lambda>none.
       if none then pfail ''an expression is required after throw''
       else pbind (expression r) (\<lambda>v. pbind p_consume_semi (\<lambda>_. preturn (ThrowStatement v))))"

text \<open>The statement forms that start with a token of their own, in the order they are tried.\<close>

definition statement_forms :: "procs \<Rightarrow> (TokenType \<times> stmt_node pm) list" where
  "statement_forms r =
     [(T_USE, use_statement), (T_PRINT, print_stmt r), (T_WRITE, write_stmt r), (T_IF, if_statement r),
      (T_WHILE, while_statement r), (T_FOR, for_statement r), (T_FOREACH, foreach_statement r),
      (T_RETURN, return_statement r), (T_THROW, throw_statement r), (T_FUNCTION, function_declaration r),
      (T_TRY, try_statement r), (T_SWITCH, switch_statement r), (T_STRUCT, struct_declaration r),
      (T_CONST_KW, const_block r),
      (T_BREAK, pbind p_consume_semi (\<lambda>_. preturn BreakStatement)),
      (T_CONTINUE, pbind p_consume_semi (\<lambda>_. preturn ContinueStatement)),
      (T_LBRACE, pbind (block r) (\<lambda>b. preturn (BlockStatement b)))]"

definition statement_body :: "procs \<Rightarrow> stmt_node pm" where
  "statement_body r st =
     (case find (\<lambda>(ty, m). p_check ty st) (statement_forms r) of
        Some (ty, m) \<Rightarrow> pbind p_advance (\<lambda>_. m) st
      | None \<Rightarrow> expression_statement r st)"

definition statement :: "procs \<Rightarrow> Statement pm" where
  "statement r =
     pbind (pput (\<lambda>st. st\<lparr>stmt_depth := stmt_depth st + 1\<rparr>)) (\<lambda>_.
     pbind (pget stmt_depth) (\<lambda>d.
       if MAX_STMT_DEPTH < d then pfail ''Expression/block nested too deep (max 150)''
       else
         pbind (pget cur_loc) (\<lambda>l.
         pbind (statement_body r) (\<lambda>n.
         pbind (pput (\<lambda>st. st\<lparr>stmt_depth := stmt_depth st - 1\<rparr>)) (\<lambda>_. preturn (Stmt l n))))))"

subsection \<open>The parser\<close>

definition out_of_fuel :: "'a pm" where
  "out_of_fuel st = Inl Out_of_fuel"

primrec procs_at :: "nat \<Rightarrow> procs" where
  "procs_at 0 = \<lparr>r_expression = out_of_fuel, r_assignment = out_of_fuel, r_ternary = out_of_fuel,
     r_power = out_of_fuel, r_unary = out_of_fuel, r_statement = out_of_fuel, r_if_statement = out_of_fuel\<rparr>"
| "procs_at (Suc n) = \<lparr>r_expression = expression (procs_at n), r_assignment = assignment (procs_at n),
     r_ternary = ternary (procs_at n), r_power = power_expr (procs_at n), r_unary = unary (procs_at n),
     r_statement = statement (procs_at n), r_if_statement = if_statement (procs_at n)\<rparr>"

lemma procs_at_code [code]:
  "procs_at 0 = \<lparr>r_expression = out_of_fuel, r_assignment = out_of_fuel, r_ternary = out_of_fuel, r_power = out_of_fuel,
     r_unary = out_of_fuel, r_statement = out_of_fuel, r_if_statement = out_of_fuel\<rparr>"
  "procs_at (Suc n) = (let p = procs_at n in \<lparr>r_expression = expression p, r_assignment = assignment p, r_ternary = ternary p,
     r_power = power_expr p, r_unary = unary p, r_statement = statement p, r_if_statement = if_statement p\<rparr>)"
  by (simp_all add: Let_def)

definition parser_new :: "Token list \<Rightarrow> parser" where
  "parser_new ts = \<lparr>toks = ts, prev = no_token, scope_depth = 0, expr_depth = 0, stmt_depth = 0, binop_depth = 0\<rparr>"

definition parse_program :: "procs \<Rightarrow> Program pm" where
  "parse_program r =
     p_loop (\<lambda>_ st. \<not> p_at_end st) (\<lambda>prog.
       pbind skip_semicolons (\<lambda>_.
       pbind (pget p_at_end) (\<lambda>stop.
         if stop then preturn prog else pbind (statement r) (\<lambda>s. preturn (prog @ [s]))))) []"

definition parse :: "Token list \<Rightarrow> parse_error + Program" where
  "parse ts =
     (case parse_program (procs_at (length ts)) (parser_new ts) of
        Inl e \<Rightarrow> Inl e
      | Inr (prog, st) \<Rightarrow> Inr prog)"

subsection \<open>Progress\<close>

text \<open>\<open>shrinks k m st\<close>: from \<open>st\<close>, the parser \<open>m\<close> does not run out of fuel and, when it succeeds, has consumed at
  least \<open>k\<close> tokens (only \<open>0\<close> and \<open>1\<close> are used).\<close>

definition shrinks :: "nat \<Rightarrow> 'a pm \<Rightarrow> parser \<Rightarrow> bool" where
  "shrinks k m st \<longleftrightarrow>
     (case m st of Inl e \<Rightarrow> e \<noteq> Out_of_fuel | Inr (x, st') \<Rightarrow> length (toks st') + k \<le> length (toks st))"

named_theorems shr \<open>rules that reduce the progress of a parser to that of its parts\<close>

lemma shrinks_bind:
  assumes "shrinks d m st" "k \<le> d + e"
    and "\<And>x st'. m st = Inr (x, st') \<Longrightarrow> length (toks st') + d \<le> length (toks st) \<Longrightarrow> shrinks e (f x) st'"
  shows "shrinks k (pbind m f) st"
proof (cases "m st")
  case (Inl e)
  then show ?thesis using assms(1) by (simp add: shrinks_def pbind_def)
next
  case (Inr p)
  obtain x st' where p: "p = (x, st')" by (cases p)
  have l: "length (toks st') + d \<le> length (toks st)" using assms(1) Inr p by (simp add: shrinks_def)
  have "shrinks e (f x) st'" using assms(3) Inr p l by blast
  then show ?thesis using Inr p l assms(2) by (auto simp: shrinks_def pbind_def split: sum.splits)
qed

lemma shrinks_bind1:
  assumes "shrinks 1 m st" "\<And>x st'. length (toks st') < length (toks st) \<Longrightarrow> shrinks 0 (f x) st'"
  shows "shrinks 1 (pbind m f) st" "shrinks 0 (pbind m f) st"
  by (rule shrinks_bind [OF assms(1), where e = 0]; use assms(2) in simp)+

lemma shrinks_bind0:
  assumes "shrinks 0 m st" "\<And>x st'. length (toks st') \<le> length (toks st) \<Longrightarrow> shrinks k (f x) st'"
  shows "shrinks k (pbind m f) st"
  by (rule shrinks_bind [OF assms(1), where e = k]) (use assms(2) in simp_all)

lemma shrinks_01: "shrinks 1 m st \<Longrightarrow> shrinks 0 m st"
  by (auto simp: shrinks_def split: sum.splits)

lemma shrinks_return [shr]: "shrinks 0 (preturn x) st"
  by (simp add: shrinks_def preturn_def)

lemma shrinks_fail [shr]: "shrinks k (pfail msg) st"
  by (simp add: shrinks_def pfail_def)

lemma shrinks_get [shr]: "shrinks k (f (g st)) st \<Longrightarrow> shrinks k (pbind (pget g) f) st"
  by (simp add: shrinks_def pbind_def pget_def)

lemma shrinks_put [shr]:
  assumes "toks (g st) = toks st" "\<And>st'. length (toks st') \<le> length (toks st) \<Longrightarrow> shrinks k (f ()) st'"
  shows "shrinks k (pbind (pput g) f) st"
  by (rule shrinks_bind0) (use assms in \<open>simp_all add: shrinks_def pput_def\<close>)

lemma shrinks_if [shr]: "(b \<Longrightarrow> shrinks k m st) \<Longrightarrow> (\<not> b \<Longrightarrow> shrinks k m' st) \<Longrightarrow> shrinks k (if b then m else m') st"
  by simp

lemma shrinks_st_if [shr]:
  "(c st \<Longrightarrow> shrinks k m st) \<Longrightarrow> (\<not> c st \<Longrightarrow> shrinks k m' st) \<Longrightarrow> shrinks k (\<lambda>st. if c st then m st else m' st) st"
  by (simp add: shrinks_def)

lemma shrinks_ret_st [shr]: "shrinks 0 (\<lambda>st. Inr (x, st)) st"
  by (simp add: shrinks_def)

lemma p_at_end_toks: "\<not> p_at_end st \<Longrightarrow> toks st \<noteq> []"
  by (auto simp: p_at_end_def p_peek_def no_token_def)

lemma check_not_end: "p_check ty st \<Longrightarrow> \<not> p_at_end st"
  by (simp add: p_check_def)

lemma advance_shrinks: "\<not> p_at_end st \<Longrightarrow> shrinks 1 p_advance st"
  using p_at_end_toks [of st] by (cases "toks st") (auto simp: shrinks_def p_advance_def)

lemma consume_shrinks: "shrinks 1 (p_consume ty msg) st"
proof (cases "p_check ty st")
  case True
  from advance_shrinks [OF check_not_end [OF this]] show ?thesis using True by (simp add: shrinks_def p_consume_def)
qed (simp add: shrinks_def p_consume_def pfail_def)

lemma shrinks_advance:
  assumes "\<not> p_at_end st" "\<And>x st'. length (toks st') < length (toks st) \<Longrightarrow> shrinks 0 (f x) st'"
  shows "shrinks 1 (pbind p_advance f) st" "shrinks 0 (pbind p_advance f) st"
  using shrinks_bind1 [OF advance_shrinks [OF assms(1)]] assms(2) by blast+

lemmas shrinks_consume [shr] = shrinks_bind1 [OF consume_shrinks]

lemma shrinks_match [shr]:
  assumes "\<And>st'. length (toks st') < length (toks st) \<Longrightarrow> shrinks 0 (f True) st'"
  shows "shrinks 1 (f False) st \<Longrightarrow> shrinks 1 (pbind (p_match ty) f) st"
    and "shrinks 0 (f False) st \<Longrightarrow> shrinks 0 (pbind (p_match ty) f) st"
proof -
  have t: "pbind (p_match ty) f st = pbind p_advance (\<lambda>_. f True) st" if "p_check ty st"
    using that by (auto simp: p_match_def pbind_def preturn_def split: sum.splits)
  have f: "pbind (p_match ty) f st = f False st" if "\<not> p_check ty st"
    using that by (simp add: p_match_def pbind_def)
  note a = shrinks_advance [of st "\<lambda>_. f True", OF check_not_end assms]
  show "shrinks 1 (f False) st \<Longrightarrow> shrinks 1 (pbind (p_match ty) f) st"
    using t f a(1) by (cases "p_check ty st") (simp_all add: shrinks_def)
  show "shrinks 0 (f False) st \<Longrightarrow> shrinks 0 (pbind (p_match ty) f) st"
    using t f a(2) by (cases "p_check ty st") (simp_all add: shrinks_def)
qed

lemma p_while_shrinks:
  assumes "\<And>x st'. length (toks st') \<le> length (toks st) \<Longrightarrow> c x st' \<Longrightarrow> shrinks 1 (body x) st'"
    and "\<And>x st'. c x st' \<Longrightarrow> \<not> p_at_end st'"
    and "length (toks st') \<le> n" "length (toks st') \<le> length (toks st)"
  shows "shrinks 0 (p_while n c body x) st'"
  using assms(3,4)
proof (induction n arbitrary: x st')
  case 0
  then have "\<not> c x st'" using assms(2) p_at_end_toks [of st'] by auto
  then show ?case by (simp add: shrinks_def)
next
  case (Suc n)
  show ?case
  proof (cases "c x st'")
    case True
    have "shrinks 0 (pbind (body x) (p_while n c body)) st'"
      by (rule shrinks_bind1(2) [OF assms(1) [OF Suc.prems(2) True]]) (use Suc in auto)
    then show ?thesis using True by (simp add: shrinks_def)
  qed (simp add: shrinks_def)
qed

lemma loop_shrinks [shr]:
  assumes "\<And>x st'. length (toks st') \<le> length (toks st) \<Longrightarrow> c x st' \<Longrightarrow> shrinks 1 (body x) st'"
    and "\<And>x st'. c x st' \<Longrightarrow> \<not> p_at_end st'"
  shows "shrinks 0 (p_loop c body x) st"
  using p_while_shrinks [of st c body st "length (toks st)" x] assms by (simp add: shrinks_def p_loop_def)

lemma shrinks_loop [shr]:
  assumes "\<And>x st'. length (toks st') \<le> length (toks st) \<Longrightarrow> c x st' \<Longrightarrow> shrinks 1 (body x) st'"
    and "\<And>x st'. c x st' \<Longrightarrow> \<not> p_at_end st'"
    and "\<And>x st'. length (toks st') \<le> length (toks st) \<Longrightarrow> shrinks k (f x) st'"
  shows "shrinks k (pbind (p_loop c body x) f) st"
  by (rule shrinks_bind0 [OF loop_shrinks]) (use assms in auto)

lemma pbind_assoc: "pbind (pbind m f) g = pbind m (\<lambda>x. pbind (f x) g)"
  by (rule ext) (simp add: pbind_def split: sum.splits)

lemma pbind_return: "pbind (preturn x) f = f x"
  by (rule ext) (simp add: pbind_def preturn_def)

lemma pbind_fail: "pbind (pfail msg) f = pfail msg"
  by (rule ext) (simp add: pbind_def pfail_def)

lemma pbind_if: "pbind (if b then m else m') f = (if b then pbind m f else pbind m' f)"
  by simp

lemmas pm_laws = pbind_assoc pbind_return pbind_fail pbind_if

text \<open>The recursive calls make progress on fewer than \<open>n\<close> tokens.\<close>

definition good :: "procs \<Rightarrow> nat \<Rightarrow> bool" where
  "good r n \<longleftrightarrow> (\<forall>st. length (toks st) < n \<longrightarrow>
     shrinks 1 (r_expression r) st \<and> shrinks 1 (r_assignment r) st \<and> shrinks 1 (r_ternary r) st \<and>
     shrinks 1 (r_power r) st \<and> shrinks 1 (r_unary r) st \<and> shrinks 1 (r_statement r) st \<and>
     shrinks 1 (r_if_statement r) st)"

lemma goodD:
  assumes "good r n" "length (toks st) < n"
  shows "shrinks 1 (r_expression r) st" "shrinks 1 (r_assignment r) st" "shrinks 1 (r_ternary r) st"
    "shrinks 1 (r_power r) st" "shrinks 1 (r_unary r) st" "shrinks 1 (r_statement r) st"
    "shrinks 1 (r_if_statement r) st"
  using assms by (simp_all add: good_def)

lemmas good_bind = goodD [THEN shrinks_bind1(1)] goodD [THEN shrinks_bind1(2)]

lemma good_mono: "good r n \<Longrightarrow> m \<le> n \<Longrightarrow> good r m"
  by (auto simp: good_def)

lemma skip_semicolons_shrinks: "shrinks 0 skip_semicolons st"
  unfolding skip_semicolons_def
  by (intro shr shrinks_advance) (auto dest: check_not_end)

lemmas shrinks_skip [shr] = shrinks_bind0 [OF skip_semicolons_shrinks]

lemma consume_semi_shrinks: "shrinks 0 p_consume_semi st"
  using shrinks_advance(2) [of st "\<lambda>_. preturn ()", OF check_not_end shrinks_return]
  by (auto simp: shrinks_def p_consume_semi_def pfail_def)

lemmas shrinks_semi [shr] = shrinks_bind0 [OF consume_semi_shrinks]

lemma advance_unit_shrinks: "p_check ty st \<Longrightarrow> shrinks 1 (pbind p_advance (\<lambda>_. preturn ())) st"
  by (rule shrinks_advance) (auto intro: shrinks_return dest: check_not_end)

lemma skip_semicolons_moves:
  assumes "skip_semicolons st = Inr (u, st')"
  shows "st' = st \<or> length (toks st') < length (toks st)"
proof (cases "p_check T_SEMICOLON st")
  case False
  then show ?thesis using assms by (cases "toks st") (auto simp: skip_semicolons_def p_loop_def)
next
  case True
  obtain n where n: "length (toks st) = Suc n" using p_at_end_toks [OF check_not_end [OF True]] by (cases "toks st") auto
  let ?body = "\<lambda>_ :: unit. pbind p_advance (\<lambda>_. preturn ())"
  have "shrinks 1 (pbind (?body ()) (p_while n (\<lambda>_. p_check T_SEMICOLON) ?body)) st"
    unfolding pm_laws
  proof (rule shrinks_advance(1) [OF check_not_end [OF True]])
    fix t :: Token and st1 :: parser
    assume l: "length (toks st1) < length (toks st)"
    show "shrinks 0 (p_while n (\<lambda>_. p_check T_SEMICOLON) ?body ()) st1"
      by (rule p_while_shrinks [where st = st1], erule advance_unit_shrinks)
        (use l n in \<open>simp_all add: check_not_end\<close>)
  qed
  then show ?thesis using assms True n by (simp add: skip_semicolons_def p_loop_def shrinks_def)
qed

lemma shrinks_skip_stop:
  assumes "\<not> stop st" "\<And>st'. length (toks st') < length (toks st) \<Longrightarrow> shrinks 0 (f True) st'"
    and "\<And>st'. length (toks st') \<le> length (toks st) \<Longrightarrow> \<not> stop st' \<Longrightarrow> shrinks 1 (f False) st'"
  shows "shrinks 1 (pbind skip_semicolons (\<lambda>_. pbind (pget stop) f)) st"
proof (cases "skip_semicolons st")
  case (Inl e)
  then show ?thesis using skip_semicolons_shrinks [of st] by (simp add: shrinks_def pbind_def)
next
  case (Inr p)
  obtain u st' where p: "p = (u, st')" by (cases p)
  have moved: "st' = st \<or> length (toks st') < length (toks st)"
    using skip_semicolons_moves Inr p by simp
  have l: "length (toks st') \<le> length (toks st)" using skip_semicolons_shrinks [of st] Inr p by (simp add: shrinks_def)
  have run: "pbind skip_semicolons (\<lambda>_. pbind (pget stop) f) st = f (stop st') st'"
    using Inr p by (simp add: pbind_def pget_def)
  show ?thesis
  proof (cases "stop st'")
    case True
    then have "length (toks st') < length (toks st)" using moved assms(1) by auto
    then show ?thesis using assms(2) [of st'] True run by (auto simp: shrinks_def split: sum.splits)
  next
    case False
    then show ?thesis using assms(3) [OF l False] run l by (auto simp: shrinks_def split: sum.splits)
  qed
qed

lemma block_shrinks:
  assumes "good r n" "length (toks st) < n"
  shows "shrinks 1 (block r) st"
  unfolding block_def pm_laws
  by (intro shrinks_loop shrinks_skip_stop shr good_bind [OF assms(1)]) (use assms(2) in auto)

lemma argument_list_shrinks:
  assumes "good r n" "length (toks st) < n"
  shows "shrinks 0 (argument_list r) st"
  unfolding argument_list_def [abs_def] pm_laws
  by (intro shr good_bind [OF assms(1)] shrinks_advance) (use assms(2) in \<open>auto dest: check_not_end\<close>)

lemmas shrinks_block = block_shrinks [THEN shrinks_bind1(1)] block_shrinks [THEN shrinks_bind1(2)]
lemmas shrinks_args = argument_list_shrinks [THEN shrinks_bind0]

lemma parameter_shrinks:
  assumes "good r n" "length (toks st) < n"
  shows "shrinks 1 (parameter r acc) st"
  unfolding parameter_def pm_laws split_beta
  by (intro shr good_bind [OF assms(1)]) (use assms(2) in auto)

lemmas shrinks_param = parameter_shrinks [THEN shrinks_bind1(1)] parameter_shrinks [THEN shrinks_bind1(2)]

lemma parameters_shrinks:
  assumes "good r n" "length (toks st) < n"
  shows "shrinks 0 (parameters r) st"
  unfolding parameters_def [abs_def] pm_laws
  by (intro shr shrinks_param [OF assms(1)] shrinks_advance parameter_shrinks [OF assms(1), THEN shrinks_01])
    (use assms(2) in \<open>auto dest: check_not_end\<close>)

lemmas shrinks_params = parameters_shrinks [THEN shrinks_bind0]

lemma captures_shrinks: "shrinks 0 captures st"
  unfolding captures_def pm_laws
  by (intro shr shrinks_advance) (auto dest: check_not_end)

lemmas shrinks_caps [shr] = shrinks_bind0 [OF captures_shrinks]

lemma function_expression_shrinks:
  assumes "good r n" "length (toks st) < n"
  shows "shrinks 1 (function_expression r) st"
  unfolding function_expression_def pm_laws split_beta
  by (intro shr good_bind [OF assms(1)] shrinks_block [OF assms(1)] shrinks_params [OF assms(1)]) (use assms(2) in auto)

lemma array_literal_shrinks:
  assumes "good r n" "length (toks st) < n"
  shows "shrinks 0 (array_literal r) st"
  unfolding array_literal_def pm_laws
  by (intro shr good_bind [OF assms(1)] shrinks_advance) (use assms(2) in \<open>auto dest: check_not_end\<close>)

lemma struct_literal_shrinks:
  assumes "good r n" "length (toks st) < n"
  shows "shrinks 0 (struct_literal r name) st"
  unfolding struct_literal_def pm_laws
  by (intro shr good_bind [OF assms(1)]) (use assms(2) in auto)

lemma identifier_expression_shrinks:
  assumes "good r n" "length (toks st) < n"
  shows "shrinks 0 (identifier_expression r t) st"
  unfolding identifier_expression_def pm_laws Let_def
  by (intro shr shrinks_advance struct_literal_shrinks [OF assms(1)]) (use assms(2) in \<open>auto dest: check_not_end\<close>)

lemma primary_shrinks:
  assumes "good r (length (toks st))"
  shows "shrinks 1 (primary r) st"
  unfolding primary_def [abs_def] pm_laws
  by (intro shr shrinks_advance good_bind [OF assms(1)] function_expression_shrinks [OF assms(1), THEN shrinks_01]
      array_literal_shrinks [OF assms(1)] identifier_expression_shrinks [OF assms(1)])
    (auto dest: check_not_end simp: pfail_def shrinks_def)

lemma finish_call_shrinks:
  assumes "good r n" "length (toks st) < n"
  shows "shrinks 1 (finish_call r e) st"
  unfolding finish_call_def pm_laws
  by (intro shr shrinks_args [OF assms(1)]) (use assms(2) in auto)

lemma call_step_shrinks:
  assumes "good r n" "length (toks st) \<le> n" "\<not> p_at_end st"
  shows "shrinks 1 (call_step r e) st"
  unfolding call_step_def [abs_def] pm_laws
  by (intro shr shrinks_advance good_bind [OF assms(1)] finish_call_shrinks [OF assms(1), THEN shrinks_01])
    (use assms(2,3) in auto)

lemma at_op_not_end: "at_op ops st \<Longrightarrow> \<not> p_at_end st"
  by (auto simp: at_op_def list_ex_iff dest: check_not_end)

lemma call_expr_shrinks:
  assumes "good r (length (toks st))"
  shows "shrinks 1 (call_expr r) st"
  unfolding call_expr_def
  by (rule shrinks_bind1 [OF primary_shrinks [OF assms]], intro loop_shrinks call_step_shrinks [OF assms])
    (auto simp: member_ahead_def dest: check_not_end)

lemma postfix_expr_shrinks:
  assumes "good r (length (toks st))"
  shows "shrinks 1 (postfix_expr r) st"
  unfolding postfix_expr_def pm_laws
  by (intro shrinks_bind1(1) [OF call_expr_shrinks [OF assms]] shr)

lemma guarded_depth_shrinks:
  assumes "\<And>st'. length (toks st') \<le> length (toks st) \<Longrightarrow> shrinks 1 m st'"
  shows "shrinks 1 (guarded_depth m) st"
  unfolding guarded_depth_def
  by (intro shr shrinks_bind1(1) [OF assms]) auto

lemma unary_shrinks:
  assumes "good r (length (toks st))"
  shows "shrinks 1 (unary r) st"
  unfolding unary_def pm_laws
proof (rule guarded_depth_shrinks, goal_cases)
  case (1 st')
  note g = good_mono [OF assms 1]
  show ?case
    by (intro shr shrinks_advance good_bind [OF g] postfix_expr_shrinks [OF g]
        primary_shrinks [OF good_mono [OF g], THEN shrinks_bind1(2)])
      (auto dest: check_not_end)
qed

lemma power_shrinks:
  assumes "good r (length (toks st))"
  shows "shrinks 1 (power_expr r) st"
  unfolding power_expr_def pm_laws
proof (rule guarded_depth_shrinks, goal_cases)
  case (1 st')
  note g = good_mono [OF assms 1]
  show ?case
    by (intro shrinks_bind1(1) [OF unary_shrinks [OF g]] shr good_bind [OF g]) auto
qed

lemma check_binop_chain_shrinks: "shrinks 0 check_binop_chain st"
  unfolding check_binop_chain_def by (intro shr) auto

lemmas shrinks_chain [shr] = shrinks_bind0 [OF check_binop_chain_shrinks]

lemma binop_level_shrinks:
  assumes "\<And>st. good r (length (toks st)) \<Longrightarrow> shrinks 1 sub st" "good r (length (toks st))"
  shows "shrinks 1 (binop_level ops name sub) st"
  unfolding binop_level_def
  by (intro shrinks_bind1(1) [OF assms(1) [OF assms(2)]] shr shrinks_advance
      shrinks_bind1(2) [OF assms(1) [OF good_mono [OF assms(2)]]])
    (auto dest: at_op_not_end)

lemmas level_defs = multiplication_def addition_def concatenation_def shift_def comparison_def equality_def
  bitwise_and_expr_def bitwise_xor_expr_def bitwise_or_expr_def logical_and_def logical_or_def null_coalescing_def

lemma null_coalescing_shrinks:
  assumes "good r (length (toks st))"
  shows "shrinks 1 (null_coalescing r) st"
  unfolding level_defs
  using assms by (intro binop_level_shrinks power_shrinks)

lemma ternary_shrinks:
  assumes "good r (length (toks st))"
  shows "shrinks 1 (ternary r) st"
  unfolding ternary_def
  by (intro shrinks_bind1(1) [OF null_coalescing_shrinks [OF assms]] shr good_bind [OF assms]) auto

lemma assignment_shrinks:
  assumes "good r (length (toks st))"
  shows "shrinks 1 (assignment r) st"
proof -
  have target: "shrinks 0 (case assign_to e op v of Some n \<Rightarrow> preturn (mk n)
      | None \<Rightarrow> \<lambda>st. Inl (LookParseError msg (f st) (g st))) st'" for e op v msg f g st'
    by (simp add: shrinks_def preturn_def split: option.splits)
  show ?thesis
    unfolding assignment_def
    by (intro shrinks_bind1(1) [OF ternary_shrinks [OF assms]] shr shrinks_advance good_bind [OF assms] target)
      (auto dest: at_op_not_end)
qed

lemma expression_shrinks:
  assumes "good r (length (toks st))"
  shows "shrinks 1 (expression r) st"
  unfolding expression_def
proof (rule guarded_depth_shrinks, goal_cases)
  case (1 st')
  show ?case
    by (intro shr shrinks_bind1(1) [OF assignment_shrinks [OF good_mono [OF assms]]]) (use 1 in auto)
qed

lemma expression_bind:
  assumes "good r n" "length (toks st) \<le> n" "\<And>x st'. length (toks st') < length (toks st) \<Longrightarrow> shrinks 0 (f x) st'"
  shows "shrinks 1 (pbind (expression r) f) st" "shrinks 0 (pbind (expression r) f) st"
  using shrinks_bind1 [OF expression_shrinks [OF good_mono [OF assms(1,2)]], of f] assms(3) by blast+

subsection \<open>Progress of statements\<close>

lemma switch_case_shrinks:
  assumes "good r n" "length (toks st) < n"
  shows "shrinks 1 (switch_case r) st"
  unfolding switch_case_def switch_values_def pm_laws
  by (intro shr shrinks_advance good_bind [OF assms(1)]) (use assms(2) in \<open>auto dest: check_not_end\<close>)

lemma switch_statement_shrinks:
  assumes "good r n" "length (toks st) < n"
  shows "shrinks 0 (switch_statement r) st"
  unfolding switch_statement_def pm_laws
  by (intro shr good_bind [OF assms(1)] shrinks_bind1(1) [OF switch_case_shrinks [OF assms(1)]])
    (use assms(2) in auto)

lemma try_statement_shrinks:
  assumes "good r n" "length (toks st) < n"
  shows "shrinks 0 (try_statement r) st"
  unfolding try_statement_def pm_laws split_beta
  by (intro shr shrinks_block [OF assms(1)]) (use assms(2) in auto)

lemma output_statement_shrinks:
  assumes "good r n" "length (toks st) < n"
  shows "shrinks 0 (output_statement r w f) st"
  unfolding output_statement_def
  by (intro shr shrinks_args [OF assms(1)]) (use assms(2) in auto)

lemma expression_statement_shrinks:
  assumes "good r (length (toks st))"
  shows "shrinks 1 (expression_statement r) st"
  unfolding expression_statement_def
  by (intro expression_bind [OF assms] shr) auto

lemma use_statement_shrinks: "shrinks 0 use_statement st"
  unfolding use_statement_def pm_laws
  by (intro shr shrinks_advance) (auto dest: check_not_end)

lemma if_statement_shrinks:
  assumes "good r (length (toks st))"
  shows "shrinks 1 (if_statement r) st"
  unfolding if_statement_def pm_laws
  by (intro shr good_bind [OF assms] shrinks_block [OF assms]) auto

lemma while_statement_shrinks:
  assumes "good r n" "length (toks st) < n"
  shows "shrinks 0 (while_statement r) st"
  unfolding while_statement_def
  by (intro shr good_bind [OF assms(1)] shrinks_block [OF assms(1)]) (use assms(2) in auto)

lemma unless_at_shrinks: "(\<And>st'. length (toks st') \<le> length (toks st) \<Longrightarrow> shrinks 0 m st') \<Longrightarrow> shrinks 0 (unless_at ty m) st"
  unfolding unless_at_def [abs_def]
  by (intro shr shrinks_bind0) auto

lemma for_statement_shrinks:
  assumes "good r n" "length (toks st) < n"
  shows "shrinks 0 (for_statement r) st"
  unfolding for_statement_def pm_laws
  by (intro shr shrinks_block [OF assms(1)] shrinks_bind0 [OF unless_at_shrinks]
      expression_shrinks [OF good_mono [OF assms(1)], THEN shrinks_01]
      shrinks_bind1(2) [OF expression_statement_shrinks [OF good_mono [OF assms(1)]]])
    (use assms(2) in auto)

lemma foreach_statement_shrinks:
  assumes "good r n" "length (toks st) < n"
  shows "shrinks 0 (foreach_statement r) st"
  unfolding foreach_statement_def pm_laws split_beta
  by (intro shr good_bind [OF assms(1)] shrinks_block [OF assms(1)]) (use assms(2) in auto)

lemma item_list_shrinks:
  assumes "good r n" "length (toks st) < n"
  shows "shrinks 0 (item_list r sep msg) st"
  unfolding item_list_def pm_laws
  by (intro loop_shrinks shrinks_skip_stop shr good_bind [OF assms(1)]) (use assms(2) in auto)

lemmas shrinks_items = item_list_shrinks [THEN shrinks_bind0]

lemma declaration_shrinks:
  assumes "good r n" "length (toks st) < n"
  shows "shrinks 0 (struct_declaration r) st" "shrinks 0 (const_block r) st" "shrinks 0 (function_declaration r) st"
  unfolding struct_declaration_def const_block_def function_declaration_def split_beta
  by (intro shr shrinks_items [OF assms(1)] shrinks_params [OF assms(1)] shrinks_block [OF assms(1)]; use assms(2) in auto)+

lemma return_shrinks:
  assumes "good r n" "length (toks st) < n"
  shows "shrinks 0 (return_statement r) st" "shrinks 0 (throw_statement r) st"
  unfolding return_statement_def throw_statement_def pm_laws
  by (intro shr expression_bind [OF assms(1)]; use assms(2) in auto)+

lemma statement_forms_shrink:
  assumes "good r n" "length (toks st) < n" "(ty, m) \<in> set (statement_forms r)"
  shows "shrinks 0 m st"
proof -
  note g = assms(1,2)
  have "shrinks 0 (pbind p_consume_semi (\<lambda>_. preturn x)) st" for x :: stmt_node by (intro shr)
  moreover have "shrinks 0 (pbind (block r) (\<lambda>b. preturn (BlockStatement b))) st"
    by (intro shrinks_block [OF g] shr)
  ultimately show ?thesis
    using assms(3) use_statement_shrinks output_statement_shrinks [OF g] while_statement_shrinks [OF g]
      for_statement_shrinks [OF g] foreach_statement_shrinks [OF g] return_shrinks [OF g] declaration_shrinks [OF g]
      try_statement_shrinks [OF g] switch_statement_shrinks [OF g]
      shrinks_01 [OF if_statement_shrinks [OF good_mono [OF g(1) less_imp_le [OF g(2)]]]]
    unfolding statement_forms_def print_stmt_def write_stmt_def by auto
qed

lemma statement_body_shrinks:
  assumes "good r (length (toks st))"
  shows "shrinks 1 (statement_body r) st"
proof (cases "find (\<lambda>(ty, m). p_check ty st) (statement_forms r)")
  case None
  then show ?thesis using expression_statement_shrinks [OF assms] by (simp add: shrinks_def statement_body_def)
next
  case (Some p)
  obtain ty m where p: "p = (ty, m)" by (cases p)
  have in_forms: "(ty, m) \<in> set (statement_forms r)" and c: "p_check ty st"
    using Some p by (auto simp: find_Some_iff in_set_conv_nth)
  have "shrinks 1 (pbind p_advance (\<lambda>_. m)) st"
    by (rule shrinks_advance(1) [OF check_not_end [OF c]]) (rule statement_forms_shrink [OF assms _ in_forms])
  then show ?thesis using Some p by (simp add: shrinks_def statement_body_def)
qed

lemma statement_shrinks:
  assumes "good r (length (toks st))"
  shows "shrinks 1 (statement r) st"
  unfolding statement_def
  by (intro shr shrinks_bind1(1) [OF statement_body_shrinks [OF good_mono [OF assms]]]) auto

lemma procs_at_good: "good (procs_at n) n"
proof (induction n)
  case (Suc n)
  show ?case
    unfolding good_def
  proof (intro allI impI)
    fix st :: parser
    assume "length (toks st) < Suc n"
    then have g: "good (procs_at n) (length (toks st))" using good_mono [OF Suc] by simp
    show "shrinks 1 (r_expression (procs_at (Suc n))) st \<and> shrinks 1 (r_assignment (procs_at (Suc n))) st \<and>
        shrinks 1 (r_ternary (procs_at (Suc n))) st \<and> shrinks 1 (r_power (procs_at (Suc n))) st \<and>
        shrinks 1 (r_unary (procs_at (Suc n))) st \<and> shrinks 1 (r_statement (procs_at (Suc n))) st \<and>
        shrinks 1 (r_if_statement (procs_at (Suc n))) st"
      using expression_shrinks [OF g] assignment_shrinks [OF g] ternary_shrinks [OF g] power_shrinks [OF g]
        unary_shrinks [OF g] statement_shrinks [OF g] if_statement_shrinks [OF g] by simp
  qed
qed (simp add: good_def)

lemma parse_program_shrinks:
  assumes "good r (length (toks st))"
  shows "shrinks 0 (parse_program r) st"
  unfolding parse_program_def
  by (intro loop_shrinks shrinks_skip_stop shr shrinks_bind1(1) [OF statement_shrinks [OF good_mono [OF assms]]]) auto

text \<open>C12: the parser terminates on every token sequence, well-formed or not: no recursion goes deeper and no loop
  runs longer than there are tokens, so the result is a syntax tree or a parse error.\<close>

theorem parser_terminates: "parse ts \<noteq> Inl Out_of_fuel"
proof -
  have "shrinks 0 (parse_program (procs_at (length ts))) (parser_new ts)"
    by (rule parse_program_shrinks) (simp add: parser_new_def procs_at_good)
  then show ?thesis by (auto simp: shrinks_def parse_def split: sum.splits)
qed

end
