(* ===== verification/Precedence.thy ===== *)
theory Precedence
  imports Parser
begin

text \<open>
  Operator precedence. An expression tree without parentheses is printed as the sequence of its tokens, and the parser
  reads that sequence back as the same tree exactly when the tree respects the precedence table and left associativity
  of the binary operators. \<open>prec\<close> numbers the twelve levels of \<^verbatim>\<open>parser.cpp\<close> from the tightest
  (\<^verbatim>\<open>* / %\<close>) to the loosest (\<^verbatim>\<open>??\<close>).
\<close>

subsection \<open>The precedence table\<close>

definition level_ops :: "nat \<Rightarrow> TokenType list" where
  "level_ops j = [[T_STAR, T_SLASH, T_PERCENT], [T_PLUS, T_MINUS], [T_DOT], [T_LESS_LESS, T_GREATER_GREATER],
     [T_SPACESHIP, T_GREATER, T_GREATER_EQUAL, T_LESS, T_LESS_EQUAL], [T_EQUAL_EQUAL, T_BANG_EQUAL], [T_AMP], [T_CARET],
     [T_PIPE], [T_AMP_AMP], [T_PIPE_PIPE], [T_QUESTION_QUESTION]] ! j"

definition level_name :: "nat \<Rightarrow> Token \<Rightarrow> string" where
  "level_name j = [lexeme, lexeme, \<lambda>_. ''.'', lexeme, lexeme, lexeme, \<lambda>_. ''&'', \<lambda>_. ''^'', \<lambda>_. ''|'', \<lambda>_. ''&&'',
     \<lambda>_. ''||'', \<lambda>_. ''??''] ! j"

text \<open>The level of a token, counted from 1; 0 for a token that is no binary operator of the table.\<close>

definition prec :: "TokenType \<Rightarrow> nat" where
  "prec ty = (case find (\<lambda>j. ty \<in> set (level_ops j)) [0..<12] of Some j \<Rightarrow> Suc j | None \<Rightarrow> 0)"

primrec level_parser :: "procs \<Rightarrow> nat \<Rightarrow> Expression pm" where
  "level_parser r 0 = power_expr r"
| "level_parser r (Suc j) = binop_level (level_ops j) (level_name j) (level_parser r j)"

lemma null_coalescing_levels: "null_coalescing r = level_parser r 12"
  by (simp add: level_defs eval_nat_numeral level_ops_def level_name_def)

lemma upt_12: "[0..<12] = [0, 1, 2, 3, 4, 5, 6, 7, 8, 9, 10, 11 :: nat]"
  by (simp add: upt_rec)

lemma less_12: "j < 12 \<Longrightarrow> j \<in> {0, 1, 2, 3, 4, 5, 6, 7, 8, 9, 10, 11 :: nat}"
  by (simp, presburger)

lemma level_ops_simps [simp]:
  "level_ops 0 = [T_STAR, T_SLASH, T_PERCENT]" "level_ops (Suc 0) = [T_PLUS, T_MINUS]" "level_ops 2 = [T_DOT]"
  "level_ops 3 = [T_LESS_LESS, T_GREATER_GREATER]"
  "level_ops 4 = [T_SPACESHIP, T_GREATER, T_GREATER_EQUAL, T_LESS, T_LESS_EQUAL]"
  "level_ops 5 = [T_EQUAL_EQUAL, T_BANG_EQUAL]" "level_ops 6 = [T_AMP]" "level_ops 7 = [T_CARET]"
  "level_ops 8 = [T_PIPE]" "level_ops 9 = [T_AMP_AMP]" "level_ops 10 = [T_PIPE_PIPE]" "level_ops 11 = [T_QUESTION_QUESTION]"
  by (simp_all add: level_ops_def)

lemma prec_eq: 
  "prec ty =
    (if ty \<in> set (level_ops 0) then 1 else if ty \<in> set (level_ops 1) then 2 else if ty \<in> set (level_ops 2) then 3
     else if ty \<in> set (level_ops 3) then 4 else if ty \<in> set (level_ops 4) then 5 else if ty \<in> set (level_ops 5) then 6
     else if ty \<in> set (level_ops 6) then 7 else if ty \<in> set (level_ops 7) then 8 else if ty \<in> set (level_ops 8) then 9
     else if ty \<in> set (level_ops 9) then 10 else if ty \<in> set (level_ops 10) then 11
     else if ty \<in> set (level_ops 11) then 12 else 0)"
  unfolding prec_def upt_12 by simp

lemma prec_of [simp]:
  "prec T_STAR = 1" "prec T_SLASH = 1" "prec T_PERCENT = 1" "prec T_PLUS = 2" "prec T_MINUS = 2" "prec T_DOT = 3"
  "prec T_LESS_LESS = 4" "prec T_GREATER_GREATER = 4" "prec T_SPACESHIP = 5" "prec T_GREATER = 5"
  "prec T_GREATER_EQUAL = 5" "prec T_LESS = 5" "prec T_LESS_EQUAL = 5" "prec T_EQUAL_EQUAL = 6" "prec T_BANG_EQUAL = 6"
  "prec T_AMP = 7" "prec T_CARET = 8" "prec T_PIPE = 9" "prec T_AMP_AMP = 10" "prec T_PIPE_PIPE = 11"
  "prec T_QUESTION_QUESTION = 12"
  "prec T_LPAREN = 0" "prec T_LBRACKET = 0" "prec T_COLON_COLON = 0" "prec T_PLUS_PLUS = 0" "prec T_MINUS_MINUS = 0"
  "prec T_STAR_STAR = 0" "prec T_SEMICOLON = 0" "prec T_ASSIGN = 0" "prec T_EOF_TOKEN = 0"
  by (simp_all add: prec_eq)

lemma prec_iff:
  assumes "j < 12"
  shows "prec ty = Suc j \<longleftrightarrow> ty \<in> set (level_ops j)"
proof
  show "prec ty = Suc j \<Longrightarrow> ty \<in> set (level_ops j)"
    by (auto simp: prec_def find_Some_iff split: option.splits)
  show "ty \<in> set (level_ops j) \<Longrightarrow> prec ty = Suc j"
    using less_12 [OF assms] by (elim insertE emptyE; simp; elim disjE; simp)
qed

lemma prec_le: "prec ty \<le> 12"
  by (simp add: prec_eq)

subsection \<open>Trees and their text\<close>

datatype ptree = Leaf Token | Node ptree Token ptree

fun yield :: "ptree \<Rightarrow> Token list" where
  "yield (Leaf t) = [t]"
| "yield (Node l p r) = yield l @ p # yield r"

fun ops :: "ptree \<Rightarrow> Token list" where
  "ops (Leaf t) = []"
| "ops (Node l p r) = ops l @ p # ops r"

text \<open>Operands are literals and variables; a variable name starts with a dollar sign.\<close>

definition operand :: "Token \<Rightarrow> bool" where
  "operand t \<longleftrightarrow>
     tok_type t \<in> {T_IOTA, T_TRUE_KW, T_FALSE_KW, T_NULL_TOKEN, T_NUMBER, T_FLOAT_NUM, T_STRING} \<or>
     tok_type t = T_IDENT \<and> take 1 (lexeme t) = ''$''"

definition operand_expr :: "Token \<Rightarrow> Expression" where
  "operand_expr t =
     (case tok_type t of
        T_IOTA \<Rightarrow> mk IotaExpression
      | T_TRUE_KW \<Rightarrow> mk (BooleanLiteral True)
      | T_FALSE_KW \<Rightarrow> mk (BooleanLiteral False)
      | T_NULL_TOKEN \<Rightarrow> mk NullLiteral
      | T_NUMBER \<Rightarrow> mk (number_literal (literal_text t))
      | T_FLOAT_NUM \<Rightarrow> mk (FloatLiteral (strip_underscores (literal_text t)))
      | T_STRING \<Rightarrow> mk (StringLiteral (literal_text t) (raw t))
      | _ \<Rightarrow> Expr \<lparr>loc_file = [], loc_line = tok_line t, loc_column = tok_column t\<rparr> (Variable (lexeme t)))"

definition op_name :: "Token \<Rightarrow> string" where
  "op_name t = level_name (prec (tok_type t) - 1) t"

fun tree_expr :: "ptree \<Rightarrow> Expression" where
  "tree_expr (Leaf t) = operand_expr t"
| "tree_expr (Node l p r) = mk (BinaryExpression (tree_expr l) (op_name p) (tree_expr r))"

fun respects_prec :: "ptree \<Rightarrow> bool" where
  "respects_prec (Leaf t) = operand t"
| "respects_prec (Node l p r) =
     (respects_prec l \<and> respects_prec r \<and> 0 < prec (tok_type p) \<and>
      (\<forall>q \<in> set (ops l). prec (tok_type q) \<le> prec (tok_type p)) \<and>
      (\<forall>q \<in> set (ops r). prec (tok_type q) < prec (tok_type p)))"

text \<open>What may follow an operand without being part of it.\<close>

definition ends_operand :: "Token list \<Rightarrow> bool" where
  "ends_operand ts \<longleftrightarrow>
     (case ts of
        [] \<Rightarrow> True
      | t # ts' \<Rightarrow>
          tok_type t \<notin> {T_LPAREN, T_LBRACKET, T_COLON_COLON, T_PLUS_PLUS, T_MINUS_MINUS, T_STAR_STAR} \<and>
          (tok_type t = T_DOT \<longrightarrow> ts' \<noteq> [] \<and> operand (hd ts')))"

subsection \<open>Operands\<close>

lemma check_Cons [simp]: "toks st = t # ts \<Longrightarrow> p_check ty st \<longleftrightarrow> tok_type t \<noteq> T_EOF_TOKEN \<and> tok_type t = ty"
  by (simp add: p_check_def p_at_end_def p_peek_def)

lemma check_Nil [simp]: "toks st = [] \<Longrightarrow> \<not> p_check ty st"
  by (simp add: p_check_def p_at_end_def p_peek_def no_token_def)

lemma advance_Cons: "toks st = t # ts \<Longrightarrow> tok_type t \<noteq> T_EOF_TOKEN \<Longrightarrow> p_advance st = Inr (t, st\<lparr>prev := t, toks := ts\<rparr>)"
  by (simp add: p_advance_def p_at_end_def p_peek_def)

lemma no_match: "\<not> p_check ty st \<Longrightarrow> p_match ty st = Inr (False, st)"
  by (simp add: p_match_def)

lemma loop_stop: "\<not> c x st \<Longrightarrow> p_loop c body x st = Inr (x, st)"
  by (cases "toks st") (simp_all add: p_loop_def)

lemma primary_operand:
  assumes "toks st = t # ts" "operand t" "ends_operand ts"
  shows "primary r st = Inr (operand_expr t, st\<lparr>prev := t, toks := ts\<rparr>)"
proof (cases "tok_type t = T_IDENT")
  case True
  let ?st = "st\<lparr>prev := t, toks := ts\<rparr>"
  have name: "take 1 (lexeme t) = ''$''" using assms(2) True by (simp add: operand_def)
  have "\<not> p_check T_COLON_COLON ?st" using assms(3) by (cases ts) (auto simp: ends_operand_def)
  then have "identifier_expression r t ?st = Inr (operand_expr t, ?st)"
    using name True
    by (simp add: identifier_expression_def Let_def pbind_def pget_def no_match preturn_def operand_expr_def)
  then show ?thesis
    using assms(1) True by (simp add: primary_def pbind_def advance_Cons)
next
  case False
  then show ?thesis
    using assms(1,2)
    by (auto simp: operand_def primary_def pbind_def preturn_def advance_Cons operand_expr_def)
qed

lemma after_operand:
  assumes "ends_operand (toks st)"
  shows "\<not> p_check T_LPAREN st" "\<not> p_check T_LBRACKET st" "\<not> member_ahead e st" "\<not> p_check T_PLUS_PLUS st"
    "\<not> p_check T_MINUS_MINUS st" "\<not> p_check T_STAR_STAR st"
proof -
  show "\<not> p_check T_LPAREN st" "\<not> p_check T_LBRACKET st" "\<not> p_check T_PLUS_PLUS st"
    "\<not> p_check T_MINUS_MINUS st" "\<not> p_check T_STAR_STAR st"
    using assms by (cases "toks st"; auto simp: ends_operand_def)+
  show "\<not> member_ahead e st"
  proof (cases "toks st")
    case (Cons t ts)
    then show ?thesis using assms
      by (cases ts) (auto simp: member_ahead_def ends_operand_def operand_def take_Suc hd_conv_nth split: list.splits)
  qed (simp add: member_ahead_def)
qed

lemma call_operand:
  assumes "toks st = t # ts" "operand t" "ends_operand ts"
  shows "postfix_expr r st = Inr (operand_expr t, st\<lparr>prev := t, toks := ts\<rparr>)"
proof -
  let ?st = "st\<lparr>prev := t, toks := ts\<rparr>"
  note a = after_operand [of ?st, simplified, OF assms(3)]
  have "call_expr r st = Inr (operand_expr t, ?st)"
    using a by (simp add: call_expr_def pbind_def primary_operand [OF assms] loop_stop)
  then show ?thesis
    using a by (simp add: postfix_expr_def pbind_def no_match preturn_def)
qed

lemma guarded_depth_ok:
  "expr_depth st < 150 \<Longrightarrow> guarded_depth m st =
     (case m (st\<lparr>expr_depth := Suc (expr_depth st)\<rparr>) of Inl e \<Rightarrow> Inl e
      | Inr (x, st') \<Rightarrow> Inr (x, st'\<lparr>expr_depth := expr_depth st' - 1\<rparr>))"
  by (auto simp: guarded_depth_def pbind_def pput_def pget_def preturn_def MAX_EXPR_DEPTH_def split: sum.splits)

lemma power_operand:
  assumes "toks st = t # ts" "operand t" "ends_operand ts" "expr_depth st < 149"
  shows "power_expr r st = Inr (operand_expr t, st\<lparr>prev := t, toks := ts\<rparr>)"
proof -
  let ?s1 = "st\<lparr>expr_depth := expr_depth st + 1\<rparr>"
  let ?s2 = "?s1\<lparr>expr_depth := expr_depth ?s1 + 1\<rparr>"
  have ty: "tok_type t \<notin> {T_PLUS_PLUS, T_MINUS_MINUS, T_BANG, T_TILDE, T_MINUS}"
    using assms(2) by (auto simp: operand_def)
  have "postfix_expr r ?s2 = Inr (operand_expr t, ?s2\<lparr>prev := t, toks := ts\<rparr>)"
    using call_operand [of ?s2 t ts] assms by simp
  then have u: "unary r ?s1 = Inr (operand_expr t, ?s1\<lparr>prev := t, toks := ts\<rparr>)"
    unfolding unary_def using ty assms by (auto simp: guarded_depth_ok)
  have "\<not> p_check T_STAR_STAR (?s1\<lparr>prev := t, toks := ts\<rparr>)"
    using after_operand(6) [of "?s1\<lparr>prev := t, toks := ts\<rparr>"] assms(3) by simp
  with u have "pbind (unary r) (\<lambda>e. pbind (p_match T_STAR_STAR) (\<lambda>pow.
        if pow then pbind (r_power r) (\<lambda>e'. preturn (mk (BinaryExpression e ''**'' e'))) else preturn e)) ?s1 =
      Inr (operand_expr t, ?s1\<lparr>prev := t, toks := ts\<rparr>)"
    by (simp add: pbind_def no_match preturn_def)
  then show ?thesis
    unfolding power_expr_def using assms(4) by (simp add: guarded_depth_ok)
qed

subsection \<open>Levels\<close>

text \<open>The state after reading the tree \<open>p\<close>, with \<open>ts\<close> unread.\<close>

definition after :: "ptree \<Rightarrow> Token list \<Rightarrow> parser \<Rightarrow> parser" where
  "after p ts st = st\<lparr>prev := last (yield p), toks := ts, binop_depth := binop_depth st + length (ops p)\<rparr>"

definition reads :: "Expression pm \<Rightarrow> nat \<Rightarrow> bool" where
  "reads m j \<longleftrightarrow> (\<forall>p ts st. respects_prec p \<longrightarrow> (\<forall>q \<in> set (ops p). prec (tok_type q) \<le> j) \<longrightarrow>
     toks st = yield p @ ts \<longrightarrow> ends_operand ts \<longrightarrow> (ts \<noteq> [] \<longrightarrow> prec (tok_type (hd ts)) = 0 \<or> j < prec (tok_type (hd ts))) \<longrightarrow>
     expr_depth st < 149 \<longrightarrow> binop_depth st + length (ops p) \<le> 1000 \<longrightarrow> m st = Inr (tree_expr p, after p ts st))"

lemma readsD:
  "reads m j \<Longrightarrow> respects_prec p \<Longrightarrow> (\<forall>q \<in> set (ops p). prec (tok_type q) \<le> j) \<Longrightarrow> toks st = yield p @ ts \<Longrightarrow>
     ends_operand ts \<Longrightarrow> (ts \<noteq> [] \<longrightarrow> prec (tok_type (hd ts)) = 0 \<or> j < prec (tok_type (hd ts))) \<Longrightarrow>
     expr_depth st < 149 \<Longrightarrow> binop_depth st + length (ops p) \<le> 1000 \<Longrightarrow> m st = Inr (tree_expr p, after p ts st)"
  unfolding reads_def by blast

lemma yield_nonempty [simp]: "yield p \<noteq> []"
  by (cases p) auto

lemma yield_hd: "respects_prec p \<Longrightarrow> operand (hd (yield p))"
  by (induction p) auto

lemma op_not_eof: "0 < prec (tok_type t) \<Longrightarrow> tok_type t \<noteq> T_EOF_TOKEN"
  by (rule notI) simp

lemma op_ends_operand:
  assumes "0 < prec (tok_type t)" "respects_prec p"
  shows "ends_operand (t # yield p @ ts)"
proof -
  have "tok_type t \<notin> {T_LPAREN, T_LBRACKET, T_COLON_COLON, T_PLUS_PLUS, T_MINUS_MINUS, T_STAR_STAR}"
    using assms(1) by (intro notI) (elim insertE emptyE; simp)
  moreover have "operand (hd (yield p @ ts))" using yield_hd [OF assms(2)] by simp
  ultimately show ?thesis unfolding ends_operand_def by simp
qed

lemma at_level:
  "j < 12 \<Longrightarrow> toks st = t # ts \<Longrightarrow> at_op (level_ops j) st \<longleftrightarrow> prec (tok_type t) = Suc j"
  using prec_iff [of j "tok_type t"] op_not_eof [of t] by (auto simp: at_op_def list_ex_iff)

lemma level_name_op: "prec (tok_type t) = Suc j \<Longrightarrow> level_name j t = op_name t"
  by (simp add: op_name_def)

lemma reads_power: "reads (power_expr r) 0"
  unfolding reads_def
proof (intro allI impI)
  fix p ts and st :: parser
  assume a: "respects_prec p" "\<forall>q \<in> set (ops p). prec (tok_type q) \<le> 0" "toks st = yield p @ ts" "ends_operand ts"
    "expr_depth st < 149"
  then obtain t where "p = Leaf t" by (cases p) auto
  then show "power_expr r st = Inr (tree_expr p, after p ts st)"
    using power_operand [of st t ts r] a by (simp add: after_def)
qed

definition level_body :: "nat \<Rightarrow> Expression pm \<Rightarrow> Expression \<Rightarrow> Expression pm" where
  "level_body j sub e = pbind p_advance (\<lambda>t. pbind check_binop_chain (\<lambda>_. pbind sub (\<lambda>e'.
     preturn (mk (BinaryExpression e (level_name j t) e')))))"

lemma binop_level_run:
  assumes "sub st = Inr (x, st')"
  shows "binop_level (level_ops j) (level_name j) sub st =
    p_while (length (toks st')) (\<lambda>_. at_op (level_ops j)) (level_body j sub) x st'"
proof -
  have "binop_level (level_ops j) (level_name j) sub = pbind sub (p_loop (\<lambda>_. at_op (level_ops j)) (level_body j sub))"
    unfolding binop_level_def level_body_def [abs_def] by (rule refl)
  then show ?thesis using assms by (simp add: pbind_def p_loop_def)
qed

lemma level_body_step:
  assumes "reads sub j" "respects_prec p" "\<forall>q \<in> set (ops p). prec (tok_type q) \<le> j" "prec (tok_type t) = Suc j"
    and "toks st = t # yield p @ ts" "ends_operand ts" "ts \<noteq> [] \<longrightarrow> prec (tok_type (hd ts)) = 0 \<or> j < prec (tok_type (hd ts))"
    and "expr_depth st < 149" "binop_depth st + 1 + length (ops p) \<le> 1000"
  shows "level_body j sub e st =
    Inr (mk (BinaryExpression e (op_name t) (tree_expr p)),
      st\<lparr>prev := last (yield p), toks := ts, binop_depth := binop_depth st + 1 + length (ops p)\<rparr>)"
proof -
  let ?s1 = "st\<lparr>prev := t, toks := yield p @ ts\<rparr>"
  let ?s2 = "?s1\<lparr>binop_depth := binop_depth st + 1\<rparr>"
  have adv: "p_advance st = Inr (t, ?s1)"
    using advance_Cons [OF assms(5)] op_not_eof [of t] assms(4) by simp
  have chain: "check_binop_chain ?s1 = Inr ((), ?s2)"
    using assms(9) by (simp add: check_binop_chain_def pbind_def pput_def pget_def preturn_def MAX_BINOP_CHAIN_def)
  have "sub ?s2 = Inr (tree_expr p, after p ts ?s2)"
    using assms unfolding reads_def by simp
  then show ?thesis
    using adv chain assms(4) by (simp add: level_body_def pbind_def preturn_def level_name_op after_def)
qed

lemma no_op_at_level:
  assumes "respects_prec (Node l t p)" "\<forall>q \<in> set (ops (Node l t p)). prec (tok_type q) \<le> Suc j" "prec (tok_type t) \<noteq> Suc j"
  shows "\<forall>q \<in> set (ops (Node l t p)). prec (tok_type q) \<le> j"
  using assms by fastforce

text \<open>Reading a tree at a level ends in the loop of that level, with the tree as its value so far.\<close>

lemma level_reads_prefix:
  assumes sub: "reads sub j" and j: "j < 12"
  shows "respects_prec p \<Longrightarrow> (\<forall>q \<in> set (ops p). prec (tok_type q) \<le> Suc j) \<Longrightarrow> toks st = yield p @ ts \<Longrightarrow>
    ends_operand ts \<Longrightarrow> (ts \<noteq> [] \<longrightarrow> prec (tok_type (hd ts)) = 0 \<or> j < prec (tok_type (hd ts))) \<Longrightarrow>
    expr_depth st < 149 \<Longrightarrow> binop_depth st + length (ops p) \<le> 1000 \<Longrightarrow>
    \<exists>n \<ge> length ts. binop_level (level_ops j) (level_name j) sub st =
      p_while n (\<lambda>_. at_op (level_ops j)) (level_body j sub) (tree_expr p) (after p ts st)"
proof (induction p arbitrary: ts)
  case (Leaf t)
  then have "sub st = Inr (tree_expr (Leaf t), after (Leaf t) ts st)" by (intro readsD [OF sub]) simp_all
  from binop_level_run [of sub, OF this] show ?case by (auto simp: after_def)
next
  case (Node l t p)
  show ?case
  proof (cases "prec (tok_type t) = Suc j")
    case False
    have "sub st = Inr (tree_expr (Node l t p), after (Node l t p) ts st)"
      by (rule readsD [OF sub Node.prems(1) no_op_at_level [OF Node.prems(1,2) False] Node.prems(3-7)])
    from binop_level_run [of sub, OF this] show ?thesis by (auto simp: after_def)
  next
    case True
    let ?ts = "t # yield p @ ts"
    have l: "respects_prec l" "respects_prec p" "\<forall>q \<in> set (ops l). prec (tok_type q) \<le> Suc j"
      "\<forall>q \<in> set (ops p). prec (tok_type q) \<le> j"
      using Node.prems(1) True by auto
    obtain n where n: "n \<ge> length ?ts" and run: "binop_level (level_ops j) (level_name j) sub st =
        p_while n (\<lambda>_. at_op (level_ops j)) (level_body j sub) (tree_expr l) (after l ?ts st)"
      using Node.IH(1) [OF l(1,3), of ?ts] Node.prems op_ends_operand [of t p ts] True l(2) by auto
    obtain m where m: "n = Suc m" using n by (cases n) auto
    have at: "at_op (level_ops j) (after l ?ts st)" using at_level [OF j, of "after l ?ts st" t] True by (simp add: after_def)
    have "level_body j sub (tree_expr l) (after l ?ts st) =
        Inr (mk (BinaryExpression (tree_expr l) (op_name t) (tree_expr p)), (after l ?ts st)
          \<lparr>prev := last (yield p), toks := ts, binop_depth := binop_depth (after l ?ts st) + 1 + length (ops p)\<rparr>)"
      by (rule level_body_step [OF sub l(2,4) True]) (use Node.prems in \<open>simp_all add: after_def\<close>)
    moreover have "(after l ?ts st)\<lparr>prev := last (yield p), toks := ts,
        binop_depth := binop_depth (after l ?ts st) + 1 + length (ops p)\<rparr> = after (Node l t p) ts st"
      by (simp add: after_def)
    ultimately have "p_while n (\<lambda>_. at_op (level_ops j)) (level_body j sub) (tree_expr l) (after l ?ts st) =
        p_while m (\<lambda>_. at_op (level_ops j)) (level_body j sub) (tree_expr (Node l t p)) (after (Node l t p) ts st)"
      using at m by (simp add: pbind_def [of "level_body j sub (tree_expr l)"])
    then show ?thesis using run n m by (intro exI [of _ m]) simp
  qed
qed

lemma reads_level:
  assumes "reads sub j" "j < 12"
  shows "reads (binop_level (level_ops j) (level_name j) sub) (Suc j)"
  unfolding reads_def
proof (intro allI impI)
  fix p ts and st :: parser
  assume a: "respects_prec p" "\<forall>q \<in> set (ops p). prec (tok_type q) \<le> Suc j" "toks st = yield p @ ts" "ends_operand ts"
    "ts \<noteq> [] \<longrightarrow> prec (tok_type (hd ts)) = 0 \<or> Suc j < prec (tok_type (hd ts))" "expr_depth st < 149"
    "binop_depth st + length (ops p) \<le> 1000"
  have "ts \<noteq> [] \<longrightarrow> prec (tok_type (hd ts)) = 0 \<or> j < prec (tok_type (hd ts))" using a(5) by auto
  from level_reads_prefix [OF assms a(1-4) this a(6,7)] obtain n where
    run: "binop_level (level_ops j) (level_name j) sub st =
      p_while n (\<lambda>_. at_op (level_ops j)) (level_body j sub) (tree_expr p) (after p ts st)" by blast
  have "\<not> at_op (level_ops j) (after p ts st)"
  proof (cases ts)
    case Nil
    then show ?thesis by (simp add: at_op_def list_ex_iff after_def)
  next
    case (Cons t ts')
    then show ?thesis using at_level [OF assms(2), of "after p ts st" t ts'] a(5) by (auto simp: after_def)
  qed
  then show "binop_level (level_ops j) (level_name j) sub st = Inr (tree_expr p, after p ts st)"
    unfolding run by (cases n) simp_all
qed

lemma reads_levels: "j \<le> 12 \<Longrightarrow> reads (level_parser r j) j"
  by (induction j) (simp_all add: reads_power reads_level)

subsection \<open>Expression statements\<close>

lemma ternary_reads:
  assumes "respects_prec p" "toks st = yield p @ t # ts" "tok_type t = T_SEMICOLON \<or> tok_type t = T_ASSIGN"
    "expr_depth st < 149" "binop_depth st + length (ops p) \<le> 1000"
  shows "ternary r st = Inr (tree_expr p, after p (t # ts) st)"
proof -
  have "prec (tok_type t) = 0" "ends_operand (t # ts)" using assms(3) by (auto simp: ends_operand_def)
  then have "null_coalescing r st = Inr (tree_expr p, after p (t # ts) st)"
    unfolding null_coalescing_levels using assms prec_le
    by (intro readsD [OF reads_levels]) simp_all
  then show ?thesis
    using assms(3) by (auto simp: ternary_def pbind_def no_match preturn_def after_def)
qed

lemma operand_no_form:
  assumes "toks st = t # ts" "operand t"
  shows "find (\<lambda>(ty, m). p_check ty st) (statement_forms r) = None"
proof -
  have "fst ` set (statement_forms r) = {T_USE, T_PRINT, T_WRITE, T_IF, T_WHILE, T_FOR, T_FOREACH, T_RETURN, T_THROW,
      T_FUNCTION, T_TRY, T_SWITCH, T_STRUCT, T_CONST_KW, T_BREAK, T_CONTINUE, T_LBRACE}"
    by (simp add: statement_forms_def)
  moreover have "tok_type t \<notin> {T_USE, T_PRINT, T_WRITE, T_IF, T_WHILE, T_FOR, T_FOREACH, T_RETURN, T_THROW,
      T_FUNCTION, T_TRY, T_SWITCH, T_STRUCT, T_CONST_KW, T_BREAK, T_CONTINUE, T_LBRACE}"
    using assms(2) unfolding operand_def by (elim disjE conjE insertE emptyE) simp_all
  ultimately have "\<not> p_check ty st" if "(ty, m) \<in> set (statement_forms r)" for ty m
    using that assms(1) by (metis check_Cons fst_conv imageI)
  then show ?thesis by (auto simp: find_None_iff)
qed

text \<open>A program of one expression statement, from what \<^verbatim>\<open>assignment\<close> makes of its tokens.\<close>

lemma parse_expression_statement:
  assumes "ws \<noteq> []" "operand (hd ws)" "tok_type semi = T_SEMICOLON" "tok_type eof = T_EOF_TOKEN"
    and asg: "\<And>st. toks st = ws @ [semi, eof] \<Longrightarrow> expr_depth st = 1 \<Longrightarrow> binop_depth st = 0 \<Longrightarrow>
      assignment (procs_at (length ws + 2)) st = Inr (e, st\<lparr>prev := pv, toks := [semi, eof], binop_depth := b\<rparr>)"
  defines "l \<equiv> \<lparr>loc_file = [], loc_line = tok_line (hd ws), loc_column = tok_column (hd ws)\<rparr>"
  shows "parse (ws @ [semi, eof]) = Inr [Stmt l (ExpressionStatement (set_loc l e))]"
proof -
  let ?r = "procs_at (length ws + 2)"
  let ?st = "parser_new (ws @ [semi, eof])"
  obtain u us where hd: "ws = u # us" using assms(1) by (cases ws) auto
  have ty: "tok_type u \<noteq> T_SEMICOLON" "tok_type u \<noteq> T_EOF_TOKEN"
    using assms(2) hd by (auto simp: operand_def)
  have l: "cur_loc st = l" if "toks st = ws @ [semi, eof]" for st :: parser using that by (simp add: l_def cur_loc_def hd)
  let ?s1 = "?st\<lparr>stmt_depth := 1\<rparr>"
  have "find (\<lambda>(ty, m). p_check ty ?s1) (statement_forms ?r) = None"
    by (rule operand_no_form [of ?s1 u "us @ [semi, eof]"]) (use assms(2) hd in \<open>simp_all add: parser_new_def\<close>)
  then have "statement_body ?r ?s1 = expression_statement ?r ?s1" by (simp add: statement_body_def)
  moreover have "expression ?r ?s1 = Inr (set_loc l e, ?s1\<lparr>prev := pv, toks := [semi, eof], binop_depth := b\<rparr>)"
    using asg [of "?s1\<lparr>expr_depth := 1, binop_depth := 0\<rparr>"] l [of "?s1\<lparr>expr_depth := 1, binop_depth := 0\<rparr>"]
    by (simp add: expression_def guarded_depth_ok pbind_def pput_def pget_def preturn_def parser_new_def)
  ultimately have stmt: "statement ?r ?st = Inr (Stmt l (ExpressionStatement (set_loc l e)),
      ?st\<lparr>prev := semi, toks := [eof], binop_depth := b\<rparr>)"
    using assms(3) l [of ?s1]
    by (simp add: statement_def expression_statement_def pbind_def pput_def pget_def preturn_def MAX_STMT_DEPTH_def
        p_consume_semi_def advance_Cons parser_new_def)
  have "skip_semicolons ?st = Inr ((), ?st)"
    unfolding skip_semicolons_def by (rule loop_stop) (simp add: parser_new_def hd ty)
  moreover have "\<not> p_at_end ?st" by (simp add: parser_new_def hd ty p_at_end_def p_peek_def)
  ultimately have "parse_program ?r ?st = Inr ([Stmt l (ExpressionStatement (set_loc l e))],
      ?st\<lparr>prev := semi, toks := [eof], binop_depth := b\<rparr>)"
    using stmt assms(4)
    by (simp add: parse_program_def p_loop_def pbind_def pget_def preturn_def parser_new_def hd p_at_end_def p_peek_def)
  then show ?thesis by (simp add: parse_def)
qed

text \<open>C13: operator precedence and associativity. Every expression tree over literals and variables that respects the
  precedence table (left-associative, from \<^verbatim>\<open>* / %\<close> down to \<^verbatim>\<open>??\<close>) is parsed back, from the bare
  sequence of its operands and operators without parentheses, as exactly that tree, for up to the 1000 binary operators the
  parser admits.\<close>

theorem precedence_roundtrip:
  assumes "respects_prec p" "length (ops p) \<le> 1000" "tok_type semi = T_SEMICOLON" "tok_type eof = T_EOF_TOKEN"
  defines "l \<equiv> \<lparr>loc_file = [], loc_line = tok_line (hd (yield p)), loc_column = tok_column (hd (yield p))\<rparr>"
  shows "parse (yield p @ [semi, eof]) = Inr [Stmt l (ExpressionStatement (set_loc l (tree_expr p)))]"
  unfolding l_def
proof (rule parse_expression_statement)
  fix st :: parser
  assume a: "toks st = yield p @ [semi, eof]" "expr_depth st = 1" "binop_depth st = 0"
  have "ternary (procs_at (length (yield p) + 2)) st = Inr (tree_expr p, after p [semi, eof] st)"
    by (rule ternary_reads) (use a assms(1-3) in simp_all)
  moreover have "\<not> at_op assign_ops (after p [semi, eof] st)"
    using assms(3) by (simp add: at_op_def assign_ops_def after_def)
  ultimately show "assignment (procs_at (length (yield p) + 2)) st =
      Inr (tree_expr p, st\<lparr>prev := last (yield p), toks := [semi, eof], binop_depth := length (ops p)\<rparr>)"
    using a(3) by (simp add: assignment_def pbind_def pget_def preturn_def after_def)
qed (use assms yield_hd in auto)

theorem precedence_roundtrip_witness:
  "\<exists>n plus times semi eof l.
     parse [n, plus, n, times, n, semi, eof] = Inr [Stmt l (ExpressionStatement (set_loc l
        (mk (BinaryExpression (operand_expr n) (lexeme plus)
           (mk (BinaryExpression (operand_expr n) (lexeme times) (operand_expr n)))))))] \<and>
     map tok_type [n, plus, times, semi, eof] = [T_NUMBER, T_PLUS, T_STAR, T_SEMICOLON, T_EOF_TOKEN]"
proof -
  define tk where "tk ty = no_token\<lparr>tok_type := ty\<rparr>" for ty
  have ty [simp]: "tok_type (tk ty) = ty" for ty by (simp add: tk_def)
  let ?n = "tk T_NUMBER"
  let ?p = "Node (Leaf ?n) (tk T_PLUS) (Node (Leaf ?n) (tk T_STAR) (Leaf ?n))"
  have p: "respects_prec ?p" by (simp add: operand_def)
  have "op_name (tk T_PLUS) = lexeme (tk T_PLUS)" "op_name (tk T_STAR) = lexeme (tk T_STAR)"
    by (simp_all add: op_name_def level_name_def)
  then have "\<exists>l. parse [?n, tk T_PLUS, ?n, tk T_STAR, ?n, tk T_SEMICOLON, tk T_EOF_TOKEN] =
     Inr [Stmt l (ExpressionStatement (set_loc l (mk (BinaryExpression (operand_expr ?n) (lexeme (tk T_PLUS))
       (mk (BinaryExpression (operand_expr ?n) (lexeme (tk T_STAR)) (operand_expr ?n)))))))]"
    using precedence_roundtrip [OF p, of "tk T_SEMICOLON" "tk T_EOF_TOKEN"] by simp
  then obtain l where l: "parse [?n, tk T_PLUS, ?n, tk T_STAR, ?n, tk T_SEMICOLON, tk T_EOF_TOKEN] =
     Inr [Stmt l (ExpressionStatement (set_loc l (mk (BinaryExpression (operand_expr ?n) (lexeme (tk T_PLUS))
       (mk (BinaryExpression (operand_expr ?n) (lexeme (tk T_STAR)) (operand_expr ?n)))))))]" ..
  show ?thesis
    by (intro exI [of _ ?n] exI [of _ "tk T_PLUS"] exI [of _ "tk T_STAR"] exI [of _ "tk T_SEMICOLON"]
        exI [of _ "tk T_EOF_TOKEN"] exI [of _ l] conjI l) simp
qed

subsection \<open>Chains of assignments\<close>

fun assign_chain :: "nat \<Rightarrow> Token \<Rightarrow> Token \<Rightarrow> Token list" where
  "assign_chain 0 x a = [x]"
| "assign_chain (Suc n) x a = x # a # assign_chain n x a"

fun chain_expr :: "nat \<Rightarrow> Token \<Rightarrow> Token \<Rightarrow> Expression" where
  "chain_expr 0 x a = operand_expr x"
| "chain_expr (Suc n) x a = mk (AssignmentExpression (lexeme x) (lexeme a) None None (chain_expr n x a))"

lemma assign_chain_simps [simp]:
  "assign_chain n x a \<noteq> []" "hd (assign_chain n x a) = x" "length (assign_chain n x a) = 2 * n + 1"
  by (induction n) simp_all

lemma assignment_chain_reads:
  assumes "tok_type x = T_IDENT" "operand x" "tok_type a = T_ASSIGN" "tok_type semi = T_SEMICOLON"
  shows "n \<le> m \<Longrightarrow> toks st = assign_chain n x a @ semi # ts \<Longrightarrow> expr_depth st < 149 \<Longrightarrow> binop_depth st \<le> 1000 \<Longrightarrow>
    assignment (procs_at m) st = Inr (chain_expr n x a, st\<lparr>prev := x, toks := semi # ts\<rparr>)"
proof (induction n arbitrary: m st)
  case 0
  have "ternary (procs_at m) st = Inr (tree_expr (Leaf x), after (Leaf x) (semi # ts) st)"
    by (rule ternary_reads) (use 0 assms in simp_all)
  moreover have "\<not> at_op assign_ops (st\<lparr>prev := x, toks := semi # ts\<rparr>)"
    using assms(4) by (simp add: at_op_def assign_ops_def)
  ultimately show ?case by (simp add: assignment_def pbind_def pget_def preturn_def after_def)
next
  case (Suc n)
  obtain k where m: "m = Suc k" using Suc.prems(1) by (cases m) auto
  let ?ts = "assign_chain n x a @ semi # ts"
  have "ternary (procs_at m) st = Inr (tree_expr (Leaf x), after (Leaf x) (a # ?ts) st)"
    by (rule ternary_reads) (use Suc.prems assms in simp_all)
  then have tern: "ternary (procs_at m) st = Inr (operand_expr x, st\<lparr>prev := x, toks := a # ?ts\<rparr>)"
    by (simp add: after_def)
  have at: "at_op assign_ops (st\<lparr>prev := x, toks := a # ?ts\<rparr>)"
    using assms(3) by (simp add: at_op_def assign_ops_def)
  have adv: "p_advance (st\<lparr>prev := x, toks := a # ?ts\<rparr>) = Inr (a, st\<lparr>prev := a, toks := ?ts\<rparr>)"
    using assms(3) by (simp add: advance_Cons)
  have val: "r_assignment (procs_at m) (st\<lparr>prev := a, toks := ?ts\<rparr>) =
      Inr (chain_expr n x a, st\<lparr>prev := x, toks := semi # ts\<rparr>)"
    using Suc.IH [of k "st\<lparr>prev := a, toks := ?ts\<rparr>"] Suc.prems m by simp
  have "assign_to (operand_expr x) (lexeme a) v = Some (AssignmentExpression (lexeme x) (lexeme a) None None v)" for v
    using assms(1) by (simp add: operand_expr_def assign_to_def)
  then show ?case
    using tern at adv val by (simp add: assignment_def pbind_def pget_def preturn_def)
qed

text \<open>the depth limits of the parser do not cover assignment: for every \<open>n\<close>, a chain of \<open>n\<close> assignments is
  accepted and gives a tree that is nested \<open>n\<close> levels deep, although expressions are meant to be limited to 150 levels so
  that neither the parser nor the passes over the tree exhaust the stack.\<close>

theorem assignment_depth_unlimited:
  assumes "tok_type x = T_IDENT" "take 1 (lexeme x) = ''$''" "tok_type a = T_ASSIGN" "tok_type semi = T_SEMICOLON"
    "tok_type eof = T_EOF_TOKEN"
  shows "\<exists>l. parse (assign_chain n x a @ [semi, eof]) = Inr [Stmt l (ExpressionStatement (set_loc l (chain_expr n x a)))]"
proof -
  have x: "operand x" using assms(1,2) by (simp add: operand_def)
  have "parse (assign_chain n x a @ [semi, eof]) = Inr [Stmt \<lparr>loc_file = [],
      loc_line = tok_line (hd (assign_chain n x a)), loc_column = tok_column (hd (assign_chain n x a))\<rparr>
      (ExpressionStatement (set_loc \<lparr>loc_file = [],
        loc_line = tok_line (hd (assign_chain n x a)), loc_column = tok_column (hd (assign_chain n x a))\<rparr> (chain_expr n x a)))]"
  proof (rule parse_expression_statement)
    fix st :: parser
    assume s: "toks st = assign_chain n x a @ [semi, eof]" "expr_depth st = 1" "binop_depth st = 0"
    have "assignment (procs_at (length (assign_chain n x a) + 2)) st =
        Inr (chain_expr n x a, st\<lparr>prev := x, toks := [semi, eof]\<rparr>)"
      by (rule assignment_chain_reads [OF assms(1) x assms(3,4)]) (use s in simp_all)
    then show "assignment (procs_at (length (assign_chain n x a) + 2)) st =
        Inr (chain_expr n x a, st\<lparr>prev := x, toks := [semi, eof], binop_depth := 0\<rparr>)"
      using s(3) by simp
  qed (use x assms in simp_all)
  then show ?thesis by blast
qed

theorem assignment_depth_unlimited_witness:
  "\<exists>x a semi eof l. tok_type a = T_ASSIGN \<and>
     parse (assign_chain 1000 x a @ [semi, eof]) = Inr [Stmt l (ExpressionStatement (set_loc l (chain_expr 1000 x a)))]"
proof -
  define tk where "tk ty = no_token\<lparr>tok_type := ty, lexeme := ''$x''\<rparr>" for ty
  have "\<exists>l. parse (assign_chain 1000 (tk T_IDENT) (tk T_ASSIGN) @ [tk T_SEMICOLON, tk T_EOF_TOKEN]) =
     Inr [Stmt l (ExpressionStatement (set_loc l (chain_expr 1000 (tk T_IDENT) (tk T_ASSIGN))))]"
    by (rule assignment_depth_unlimited) (simp_all add: tk_def)
  moreover have "tok_type (tk T_ASSIGN) = T_ASSIGN" by (simp add: tk_def)
  ultimately show ?thesis by blast
qed

end
