(* ===== verification/Websocket.thy ===== *)
theory Websocket
  imports Wire Sha256
begin

text \<open>
  The WebSocket layer of \<^verbatim>\<open>websocket.h\<close> / \<^verbatim>\<open>websocket.cpp\<close>: the opening handshake (SHA-1,
  Base64), the frame codec of RFC 6455, the connection handle and the client registry. A socket is the list of bytes written to
  it and the number of bytes it still accepts before it fails, which is all that \<^verbatim>\<open>send\<close> shows of it.
\<close>

subsection \<open>SHA-1\<close>

type_synonym sha1_state = "u32 \<times> u32 \<times> u32 \<times> u32 \<times> u32"

definition rotl :: "u32 \<Rightarrow> nat \<Rightarrow> u32" where
  "rotl v n = push_bit n v OR drop_bit (32 - n) v"

definition sha1_init :: sha1_state where
  "sha1_init = (0x67452301, 0xEFCDAB89, 0x98BADCFE, 0x10325476, 0xC3D2E1F0)"

text \<open>The buffer of \<^verbatim>\<open>new_len\<close> bytes: message, marker, zeros, length in bits.\<close>

definition sha1_pad :: "bytes \<Rightarrow> bytes" where
  "sha1_pad msg =
     (let len = length msg; new_len = ((len + 8) div 64 + 1) * 64; bit_len = (word_of_nat len :: u64) * 8
      in msg @ [0x80] @ replicate (new_len - 8 - (len + 1)) 0 @
         map (\<lambda>i. ucast (drop_bit ((7 - i) * 8) bit_len)) [0, 1, 2, 3, 4, 5, 6, 7])"

definition sha1_extend :: "nat \<Rightarrow> u32 list \<Rightarrow> u32 list" where
  "sha1_extend i w = w @ [rotl (w ! (i - 3) XOR w ! (i - 8) XOR w ! (i - 14) XOR w ! (i - 16)) 1]"

definition sha1_schedule :: "bytes \<Rightarrow> u32 list" where
  "sha1_schedule blk = fold sha1_extend [16..<80] (sha_words blk)"

definition sha1_f :: "nat \<Rightarrow> u32 \<Rightarrow> u32 \<Rightarrow> u32 \<Rightarrow> u32" where
  "sha1_f i b c d =
     (if i < 20 then (b AND c) OR (NOT b AND d)
      else if i < 40 then b XOR c XOR d
      else if i < 60 then (b AND c) OR (b AND d) OR (c AND d)
      else b XOR c XOR d)"

definition sha1_k :: "nat \<Rightarrow> u32" where
  "sha1_k i = (if i < 20 then 0x5A827999 else if i < 40 then 0x6ED9EBA1 else if i < 60 then 0x8F1BBCDC else 0xCA62C1D6)"

fun sha1_round :: "nat \<times> u32 \<Rightarrow> sha1_state \<Rightarrow> sha1_state" where
  "sha1_round (i, w) (a, b, c, d, e) =
     (rotl a 5 + sha1_f i b c d + e + sha1_k i + w, a, rotl b 30, c, d)"

fun sha1_add :: "sha1_state \<Rightarrow> sha1_state \<Rightarrow> sha1_state" where
  "sha1_add (a, b, c, d, e) (a', b', c', d', e') = (a + a', b + b', c + c', d + d', e + e')"

definition sha1_compress :: "sha1_state \<Rightarrow> bytes \<Rightarrow> sha1_state" where
  "sha1_compress h blk = sha1_add h (fold sha1_round (zip [0..<80] (sha1_schedule blk)) h)"

function sha1_blocks :: "sha1_state \<Rightarrow> bytes \<Rightarrow> sha1_state" where
  "sha1_blocks h msg = (if msg = [] then h else sha1_blocks (sha1_compress h (take 64 msg)) (drop 64 msg))"
  by pat_completeness auto
termination by (relation "measure (\<lambda>(h, msg). length msg)") auto

declare sha1_blocks.simps [simp del]

fun sha1_digest :: "sha1_state \<Rightarrow> bytes" where
  "sha1_digest (a, b, c, d, e) = concat (map word_bytes [a, b, c, d, e])"

definition sha1 :: "bytes \<Rightarrow> bytes" where
  "sha1 msg = sha1_digest (sha1_blocks sha1_init (sha1_pad msg))"

subsection \<open>Base64 and the handshake\<close>

definition base64_table :: string where
  "base64_table = ''ABCDEFGHIJKLMNOPQRSTUVWXYZabcdefghijklmnopqrstuvwxyz0123456789+/''"

definition base64_digit :: "nat \<Rightarrow> char" where
  "base64_digit n = base64_table ! (n mod 64)"

text \<open>The 24-bit group is the number \<open>a * 2\<^sup>1\<^sup>6 + b * 2\<^sup>8 + c\<close>; missing bytes count as zero.\<close>

fun base64_encode :: "bytes \<Rightarrow> string" where
  "base64_encode [] = []"
| "base64_encode [a] =
     (let g = unat a * 2 ^ 16 in [base64_digit (g div 2 ^ 18), base64_digit (g div 2 ^ 12), CHR ''='', CHR ''=''])"
| "base64_encode [a, b] =
     (let g = unat a * 2 ^ 16 + unat b * 2 ^ 8
      in [base64_digit (g div 2 ^ 18), base64_digit (g div 2 ^ 12), base64_digit (g div 2 ^ 6), CHR ''=''])"
| "base64_encode (a # b # c # r) =
     (let g = unat a * 2 ^ 16 + unat b * 2 ^ 8 + unat c
      in base64_digit (g div 2 ^ 18) # base64_digit (g div 2 ^ 12) # base64_digit (g div 2 ^ 6) # base64_digit g #
         base64_encode r)"

definition str_bytes :: "string \<Rightarrow> bytes" where
  "str_bytes s = map (\<lambda>c. word_of_nat (code_of c)) s"

definition ws_accept_key :: "string \<Rightarrow> string" where
  "ws_accept_key client_key = base64_encode (sha1 (str_bytes (client_key @ ''258EAFA5-E914-47DA-95CA-C5AB0DC85B11'')))"

definition ws_handshake_101 :: "string \<Rightarrow> string" where
  "ws_handshake_101 client_key =
     ''HTTP/1.1 101 Switching Protocols'' @ [CR, NL] @
     ''Upgrade: websocket'' @ [CR, NL] @
     ''Connection: Upgrade'' @ [CR, NL] @
     ''Sec-WebSocket-Accept: '' @ ws_accept_key client_key @ [CR, NL] @ [CR, NL]"

subsection \<open>Frames\<close>

definition ws_encode_text_frame :: "bytes \<Rightarrow> bytes" where
  "ws_encode_text_frame payload =
     (let len = length payload in
      [0x81] @
      (if len < 126 then [word_of_nat len]
       else if len < 65536 then [126, word_of_nat (len div 256 mod 256), word_of_nat (len mod 256)]
       else 127 # map (\<lambda>i. word_of_nat (len div 256 ^ i mod 256)) [7, 6, 5, 4, 3, 2, 1, 0]) @ payload)"

definition ws_encode_close_frame :: bytes where
  "ws_encode_close_frame = [0x88, 0x00]"

definition ws_encode_pong_frame :: "bytes \<Rightarrow> bytes" where
  "ws_encode_pong_frame payload =
     (let n = min (length payload) 125 in [0x8A, word_of_nat n AND 0x7F] @ take n payload)"

record WsFrame =
  fin :: bool
  opcode :: u8
  payload :: bytes
  consumed :: nat
  complete :: bool
  protocol_error :: bool

definition ws_frame_new :: WsFrame where
  "ws_frame_new = \<lparr>fin = True, opcode = 0, payload = [], consumed = 0, complete = False, protocol_error = False\<rparr>"

definition WS_MAX_FRAME :: nat where
  "WS_MAX_FRAME = 16 * 1024 * 1024"

definition be_nat :: "bytes \<Rightarrow> nat" where
  "be_nat bs = foldl (\<lambda>v b. v * 256 + unat b) 0 bs"

datatype ws_length = Need_more | Too_big | Length nat nat

text \<open>The payload length and the position after it.\<close>

definition ws_payload_length :: "bytes \<Rightarrow> ws_length" where
  "ws_payload_length buf =
     (let p = unat (buf ! 1 AND 0x7F) in
      if p = 126 then
        (if length buf < 4 then Need_more else Length (be_nat (take 2 (drop 2 buf))) 4)
      else if p = 127 then
        (if length buf < 10 then Need_more
         else let n = be_nat (take 8 (drop 2 buf)) in if WS_MAX_FRAME < n then Too_big else Length n 10)
      else Length p 2)"

definition ws_unmask :: "bytes \<Rightarrow> bytes \<Rightarrow> bytes" where
  "ws_unmask key bs = map (\<lambda>i. bs ! i XOR key ! (i mod 4)) [0..<length bs]"

definition ws_try_decode_frame :: "bytes \<Rightarrow> WsFrame" where
  "ws_try_decode_frame buf =
     (if length buf < 2 then ws_frame_new
      else let b0 = buf ! 0; b1 = buf ! 1;
               f = ws_frame_new\<lparr>fin := (b0 AND 0x80 \<noteq> 0), opcode := b0 AND 0x0F\<rparr>;
               masked = (b1 AND 0x80 \<noteq> 0) in
        if b0 AND 0x70 \<noteq> 0 then f\<lparr>protocol_error := True\<rparr>
        else if 0x0A < opcode f \<or> (0x02 < opcode f \<and> opcode f < 0x08) then f\<lparr>protocol_error := True\<rparr>
        else case ws_payload_length buf of
          Need_more \<Rightarrow> f
        | Too_big \<Rightarrow> f
        | Length plen pos \<Rightarrow>
            if opcode f AND 0x08 \<noteq> 0 \<and> (125 < plen \<or> \<not> fin f) then f\<lparr>protocol_error := True\<rparr>
            else if \<not> masked then f\<lparr>protocol_error := True\<rparr>
            else if length buf < pos + 4 + plen then f
            else f\<lparr>payload := ws_unmask (take 4 (drop pos buf)) (take plen (drop (pos + 4) buf)),
                   consumed := pos + 4 + plen, complete := True\<rparr>)"

subsection \<open>Connections and the registry\<close>

record WsConnection =
  fd :: int
  client_ip :: string
  held_ip :: string
  closed :: bool
  frag_buf :: bytes
  frag_opcode :: u8
  frag_active :: bool
  sent :: bytes
  room :: nat

definition ws_conn_new :: "int \<Rightarrow> nat \<Rightarrow> WsConnection" where
  "ws_conn_new f n = \<lparr>fd = f, client_ip = [], held_ip = [], closed = False, frag_buf = [], frag_opcode = 0,
     frag_active = False, sent = [], room = n\<rparr>"

text \<open>\<^verbatim>\<open>send\<close> may take part of the data; the loop ends when all is written or the socket fails, which is when its
  room is used up.\<close>

definition write_all :: "bytes \<Rightarrow> WsConnection \<Rightarrow> bool \<times> WsConnection" where
  "write_all frame c =
     (if length frame \<le> room c then (True, c\<lparr>sent := sent c @ frame, room := room c - length frame\<rparr>)
      else (False, c\<lparr>sent := sent c @ take (room c) frame, room := 0, closed := True\<rparr>))"

definition send_raw :: "bytes \<Rightarrow> WsConnection \<Rightarrow> bool \<times> WsConnection" where
  "send_raw frame c = (if closed c then (False, c) else write_all frame c)"

definition send_text :: "bytes \<Rightarrow> WsConnection \<Rightarrow> bool \<times> WsConnection" where
  "send_text msg c = (if closed c then (False, c) else send_raw (ws_encode_text_frame msg) c)"

definition close_conn :: "WsConnection \<Rightarrow> WsConnection" where
  "close_conn c = (if closed c then c else snd (write_all ws_encode_close_frame (c\<lparr>closed := True\<rparr>)))"

text \<open>The registry maps descriptors to connections; \<open>cap\<close> is \<^verbatim>\<open>LOOK_WS_MAX_CONN\<close>, 0 for no limit.\<close>

type_synonym registry = "(int \<times> WsConnection) list"

definition reg_full :: "nat \<Rightarrow> registry \<Rightarrow> bool" where
  "reg_full cap cs \<longleftrightarrow> cap \<noteq> 0 \<and> cap \<le> length cs"

definition reg_remove :: "int \<Rightarrow> registry \<Rightarrow> registry" where
  "reg_remove i cs = filter (\<lambda>(k, c). k \<noteq> i) cs"

definition reg_add :: "nat \<Rightarrow> WsConnection \<Rightarrow> registry \<Rightarrow> bool \<times> registry" where
  "reg_add cap c cs = (if reg_full cap cs then (False, cs) else (True, (fd c, c) # reg_remove (fd c) cs))"

definition reg_broadcast :: "bytes \<Rightarrow> registry \<Rightarrow> registry" where
  "reg_broadcast msg cs = map (\<lambda>(k, c). (k, snd (send_text msg c))) cs"

definition reg_count :: "registry \<Rightarrow> nat" where
  "reg_count cs = length cs"

subsection \<open>The decoder\<close>

text \<open>The first two bytes alone decide whether the header is refused.\<close>

definition ws_bad_header :: "u8 \<Rightarrow> bool" where
  "ws_bad_header b0 \<longleftrightarrow> b0 AND 0x70 \<noteq> 0 \<or> 0x0A < b0 AND 0x0F \<or> (0x02 < b0 AND 0x0F \<and> b0 AND 0x0F < 0x08)"

definition ws_bad_length :: "u8 \<Rightarrow> u8 \<Rightarrow> nat \<Rightarrow> bool" where
  "ws_bad_length b0 b1 n \<longleftrightarrow> ((b0 AND 0x0F) AND 0x08 \<noteq> 0 \<and> (125 < n \<or> b0 AND 0x80 = 0)) \<or> b1 AND 0x80 = 0"

definition ws_header_frame :: "u8 \<Rightarrow> WsFrame" where
  "ws_header_frame b0 = ws_frame_new\<lparr>fin := (b0 AND 0x80 \<noteq> 0), opcode := b0 AND 0x0F\<rparr>"

lemma ws_decode_eq:
  "ws_try_decode_frame b =
     (if length b < 2 then ws_frame_new
      else if ws_bad_header (b ! 0) then (ws_header_frame (b ! 0))\<lparr>protocol_error := True\<rparr>
      else case ws_payload_length b of
          Length n pos \<Rightarrow>
            if ws_bad_length (b ! 0) (b ! 1) n then (ws_header_frame (b ! 0))\<lparr>protocol_error := True\<rparr>
            else if length b < pos + 4 + n then ws_header_frame (b ! 0)
            else (ws_header_frame (b ! 0))\<lparr>payload := ws_unmask (take 4 (drop pos b)) (take n (drop (pos + 4) b)),
                   consumed := pos + 4 + n, complete := True\<rparr>
        | _ \<Rightarrow> ws_header_frame (b ! 0))"
proof -
  have op: "opcode (ws_header_frame x) = x AND 0x0F" "fin (ws_header_frame x) = (x AND 0x80 \<noteq> 0)" for x
    by (simp_all add: ws_header_frame_def)
  have or_if: "(if A then x else if B then x else y) = (if A \<or> B then x else y)" for A B and x y :: WsFrame
    by simp
  show ?thesis
    unfolding ws_try_decode_frame_def Let_def ws_header_frame_def [symmetric] op or_if ws_bad_header_def ws_bad_length_def
      not_not
    by (cases "ws_payload_length b") (simp_all only: ws_length.case)
qed

lemma ws_header_simps [simp]:
  "complete (ws_header_frame x) = False" "protocol_error (ws_header_frame x) = False" "consumed (ws_header_frame x) = 0"
  "complete ws_frame_new = False" "protocol_error ws_frame_new = False"
  by (simp_all add: ws_header_frame_def ws_frame_new_def)

lemma ws_payload_length_pos: "ws_payload_length b = Length n pos \<Longrightarrow> 2 \<le> pos"
  by (auto simp: ws_payload_length_def Let_def split: if_splits)

lemma ws_decode_consumed:
  assumes "complete (ws_try_decode_frame b)"
  shows "6 \<le> consumed (ws_try_decode_frame b)" "consumed (ws_try_decode_frame b) \<le> length b"
  using assms by (auto simp: ws_decode_eq split: if_splits ws_length.splits dest: ws_payload_length_pos)

text \<open>Bytes that arrive later change neither a finished frame nor an error.\<close>

lemma ws_payload_length_append:
  assumes "2 \<le> length b" "ws_payload_length b \<noteq> Need_more"
  shows "ws_payload_length (b @ x) = ws_payload_length b"
proof -
  have n: "(b @ x) ! 1 = b ! 1" using assms(1) by (simp add: nth_append)
  have t: "take k (drop 2 (b @ x)) = take k (drop 2 b)" if "k + 2 \<le> length b" for k
    using that by simp
  show ?thesis
    using assms(2) t [of 2] t [of 8] unfolding ws_payload_length_def Let_def n by (auto split: if_splits)
qed

lemma ws_decode_stable:
  assumes "complete (ws_try_decode_frame b) \<or> protocol_error (ws_try_decode_frame b)"
  shows "ws_try_decode_frame (b @ x) = ws_try_decode_frame b"
proof -
  have b: "2 \<le> length b" using assms by (auto simp: ws_decode_eq split: if_splits)
  then have n: "(b @ x) ! 1 = b ! 1" "(b @ x) ! 0 = b ! 0" "\<not> length (b @ x) < 2" "\<not> length b < 2"
    by (auto simp: nth_append)
  show ?thesis
  proof (cases "ws_bad_header (b ! 0)")
    case True
    then show ?thesis by (simp only: ws_decode_eq n if_True if_False)
  next
    case False
    then obtain k pos where l: "ws_payload_length b = Length k pos"
      using assms b by (cases "ws_payload_length b") (auto simp: ws_decode_eq)
    then have l': "ws_payload_length (b @ x) = Length k pos" using ws_payload_length_append b by simp
    show ?thesis
    proof (cases "ws_bad_length (b ! 0) (b ! 1) k")
      case True
      then show ?thesis using False by (simp only: ws_decode_eq n l l' if_True if_False ws_length.case)
    next
      case ok: False
      then have len: "pos + 4 + k \<le> length b"
        using assms False b l by (auto simp: ws_decode_eq split: if_splits)
      then have "take 4 (drop pos (b @ x)) = take 4 (drop pos b)"
        "take k (drop (pos + 4) (b @ x)) = take k (drop (pos + 4) b)" by simp_all
      moreover have "\<not> length (b @ x) < pos + 4 + k" "\<not> length b < pos + 4 + k" using len by simp_all
      ultimately show ?thesis
        using False ok by (simp only: ws_decode_eq n l l' if_True if_False ws_length.case)
    qed
  qed
qed

subsection \<open>Client frames\<close>

text \<open>What RFC 6455 makes a client send: the same header layout with the mask bit set, the key, the masked
  payload.\<close>

definition client_length :: "nat \<Rightarrow> bytes" where
  "client_length n =
     (if n < 126 then [0x80 OR word_of_nat n]
      else if n < 65536 then 0xFE # map (\<lambda>i. word_of_nat (n div 256 ^ i mod 256)) (rev [0..<2])
      else 0xFF # map (\<lambda>i. word_of_nat (n div 256 ^ i mod 256)) (rev [0..<8]))"

definition client_frame :: "bool \<Rightarrow> u8 \<Rightarrow> bytes \<Rightarrow> bytes \<Rightarrow> bytes" where
  "client_frame fl op key p =
     ((if fl then 0x80 else 0) OR op) # client_length (length p) @ key @ ws_unmask key p"

definition client_ok :: "bool \<Rightarrow> u8 \<Rightarrow> bytes \<Rightarrow> bytes \<Rightarrow> bool" where
  "client_ok fl op key p \<longleftrightarrow>
     (op \<in> {0, 1, 2} \<or> op \<in> {8, 9, 10} \<and> fl \<and> length p \<le> 125) \<and> length key = 4 \<and> length p \<le> WS_MAX_FRAME"

lemma length_unmask [simp]: "length (ws_unmask key p) = length p"
  by (simp add: ws_unmask_def)

lemma ws_unmask_twice: "ws_unmask key (ws_unmask key p) = p"
  by (rule nth_equalityI) (simp_all add: ws_unmask_def xor.assoc)

lemma be_nat_snoc: "be_nat (bs @ [b]) = be_nat bs * 256 + unat b"
  by (simp add: be_nat_def)

lemma be_nat_Cons: "be_nat (b # bs) = unat b * 256 ^ length bs + be_nat bs"
  by (induction bs rule: rev_induct) (simp_all add: be_nat_def algebra_simps)

lemma be_nat_digits: "be_nat (map (\<lambda>i. word_of_nat (n div 256 ^ i mod 256)) (rev [0..<k])) = n mod 256 ^ k"
proof (induction k)
  case (Suc k)
  have "n mod (256 ^ k * 256) = 256 ^ k * (n div 256 ^ k mod 256) + n mod 256 ^ k" by (rule mod_mult2_eq)
  then show ?case using Suc by (simp add: be_nat_Cons unat_word_of_nat_u8 mult.commute)
qed (simp add: be_nat_def)

lemma mask_bit_or:
  assumes "n < 128"
  shows "unat ((0x80 OR word_of_nat n :: u8) AND 0x7F) = n" "(0x80 OR word_of_nat n :: u8) AND 0x80 \<noteq> 0"
proof -
  let ?w = "word_of_nat n :: u8"
  have "unat ?w = n" using assms by (simp add: unat_word_of_nat_u8)
  moreover have "?w AND 0x7F = take_bit 7 ?w" by (simp add: take_bit_eq_mask mask_eq_exp_minus_1)
  ultimately have "unat (?w AND 0x7F) = n" using assms by (simp add: unsigned_take_bit_eq take_bit_nat_eq_self)
  moreover have "(0x80 OR ?w) AND 0x7F = ?w AND 0x7F" by (simp add: bit.conj_disj_distrib2)
  ultimately show "unat ((0x80 OR ?w) AND 0x7F) = n" by simp
  have "bit ((0x80 OR ?w) AND 0x80) 7" by (simp add: bit_and_iff bit_or_iff)
  then show "(0x80 OR ?w) AND 0x80 \<noteq> 0" by (metis bit_0_eq bot_apply bot_bool_def)
qed

lemma client_header:
  assumes "client_ok fl op key p"
  shows "\<not> ws_bad_header ((if fl then 0x80 else 0) OR op)"
    "ws_header_frame ((if fl then 0x80 else 0) OR op) = ws_frame_new\<lparr>fin := fl, opcode := op\<rparr>"
  using assms by (auto simp: client_ok_def ws_bad_header_def ws_header_frame_def)

lemma client_length_byte: "unat (hd (client_length n) AND 0x7F) = (if n < 126 then n else if n < 65536 then 126 else 127)"
  "hd (client_length n) AND 0x80 \<noteq> 0"
  using mask_bit_or [of n] by (simp_all add: client_length_def)

lemma client_ok_length:
  assumes "client_ok fl op key p"
  shows "\<not> ws_bad_length ((if fl then 0x80 else 0) OR op) (hd (client_length (length p))) (length p)"
  using assms client_length_byte(2) [of "length p"] by (auto simp: client_ok_def ws_bad_length_def)

lemma client_length_decode:
  assumes "n \<le> WS_MAX_FRAME"
  shows "ws_payload_length (b # client_length n @ x) = Length n (Suc (length (client_length n)))"
proof -
  have h: "(b # client_length n @ x) ! 1 = hd (client_length n)" by (simp add: client_length_def)
  have 2: "n < 65536 \<Longrightarrow> n mod 256 ^ 2 = n" by simp
  have 8: "n mod 256 ^ 8 = n" using assms by (simp add: WS_MAX_FRAME_def)
  consider "n < 126" | "126 \<le> n" "n < 65536" | "65536 \<le> n" by linarith
  then show ?thesis
  proof cases
    case 1
    then show ?thesis unfolding ws_payload_length_def h client_length_byte by (simp add: client_length_def)
  next
    case 2
    then show ?thesis
      using be_nat_digits [of n 2] unfolding ws_payload_length_def h client_length_byte
      by (simp add: client_length_def Let_def numeral_2_eq_2)
  next
    case 3
    have t: "take 8 (drop 2 (b # client_length n @ x)) = map (\<lambda>i. word_of_nat (n div 256 ^ i mod 256)) (rev [0..<8])"
      using 3 by (simp add: client_length_def)
    have "9 = length (client_length n)" using 3 by (simp add: client_length_def)
    then show ?thesis
      using 3 assms unfolding ws_payload_length_def h client_length_byte t be_nat_digits 8
      by (simp add: Let_def)
  qed
qed

lemma client_frame_decode:
  assumes "client_ok fl op key p"
  shows "ws_try_decode_frame (client_frame fl op key p @ rest) =
    \<lparr>fin = fl, opcode = op, payload = p, consumed = length (client_frame fl op key p), complete = True,
     protocol_error = False\<rparr>"
proof -
  let ?n = "length p" and ?b = "(if fl then 0x80 else 0) OR op"
  let ?f = "client_frame fl op key p @ rest" and ?c = "client_length (length p)"
  have ok: "?n \<le> WS_MAX_FRAME" "length key = 4" using assms by (auto simp: client_ok_def)
  have f: "?f = ?b # ?c @ key @ ws_unmask key p @ rest" by (simp add: client_frame_def)
  have c: "?c \<noteq> []" by (simp add: client_length_def)
  then have n: "?f ! 0 = ?b" "?f ! 1 = hd ?c" "\<not> length ?f < 2" "\<not> length ?f < Suc (length ?c) + 4 + ?n"
    using ok by (simp_all add: f nth_append hd_conv_nth Suc_le_eq)
  have l: "ws_payload_length ?f = Length ?n (Suc (length ?c))"
    unfolding f using client_length_decode [OF ok(1)] by simp
  have "drop (length (?b # ?c @ key)) ?f = ws_unmask key p @ rest" by (simp add: f)
  moreover have "length (?b # ?c @ key) = Suc (length ?c) + 4" using ok by simp
  ultimately have d: "take 4 (drop (Suc (length ?c)) ?f) = key" "take ?n (drop (Suc (length ?c) + 4) ?f) = ws_unmask key p"
    using ok by (simp_all only:) (simp_all add: f)
  have "ws_try_decode_frame ?f = (ws_header_frame ?b)\<lparr>payload := p, consumed := Suc (length ?c) + 4 + ?n, complete := True\<rparr>"
    using client_header(1) [OF assms] client_ok_length [OF assms]
    by (simp only: ws_decode_eq n l d if_False ws_length.case ws_unmask_twice)
  then show ?thesis
    using client_header(2) [OF assms] ok by (simp add: ws_frame_new_def client_frame_def)
qed



text \<open>A frame of which only a part has arrived is waited for.\<close>

lemma client_frame_prefix:
  assumes "client_ok fl op key p" "client_frame fl op key p = a @ b" "b \<noteq> []"
  shows "\<not> complete (ws_try_decode_frame a)" "\<not> protocol_error (ws_try_decode_frame a)"
proof -
  have d: "complete (ws_try_decode_frame (a @ b))" "\<not> protocol_error (ws_try_decode_frame (a @ b))"
    "consumed (ws_try_decode_frame (a @ b)) = length (a @ b)"
    using client_frame_decode [OF assms(1), of "[]"] assms(2) by simp_all
  then show "\<not> complete (ws_try_decode_frame a)"
    using ws_decode_stable [of a b] ws_decode_consumed(2) [of a] assms(3) by force
  show "\<not> protocol_error (ws_try_decode_frame a)" using d ws_decode_stable [of a b] by auto
qed

text \<open>A length field over the limit: the decoder neither finishes nor refuses.\<close>

lemma oversized_waits:
  assumes "op \<in> {0, 1, 2}" "length ext = 8" "WS_MAX_FRAME < be_nat ext"
  shows "\<not> complete (ws_try_decode_frame (op # 0xFF # ext @ rest))"
    "\<not> protocol_error (ws_try_decode_frame (op # 0xFF # ext @ rest))"
proof -
  have "ws_payload_length (op # 0xFF # ext @ rest) = Too_big"
    using assms by (simp add: ws_payload_length_def Let_def)
  moreover have "\<not> ws_bad_header op" using assms(1) by (auto simp: ws_bad_header_def)
  ultimately show "\<not> complete (ws_try_decode_frame (op # 0xFF # ext @ rest))"
    "\<not> protocol_error (ws_try_decode_frame (op # 0xFF # ext @ rest))" by (simp_all add: ws_decode_eq)
qed

end
