(* ===== verification/Ws_Session.thy ===== *)
theory Ws_Session
  imports Websocket
begin

text \<open>
  The life of one WebSocket connection in the server (\<^verbatim>\<open>http_server.cpp\<close>, \<^verbatim>\<open>on_ws_data\<close> and
  \<^verbatim>\<open>close_ws\<close>): bytes are appended to the connection's buffer, complete frames are taken off it, fragments
  are put together (RFC 6455, section 5.4), pings are answered and the connection is taken down. The state of
  one descriptor is a \<open>ws_slot\<close>; callbacks handed to the thread pool are recorded in the order in which they
  are submitted.
\<close>

subsection \<open>State and handlers\<close>

text \<open>\<open>listed\<close>: the descriptor is a key of \<^verbatim>\<open>ws_clients\<close>, \<^verbatim>\<open>ws_bufs\<close> and the registry. \<open>armed\<close>: a read callback is
  registered with the event loop. \<open>fd_closes\<close> counts the calls of \<^verbatim>\<open>loop->close_fd\<close>.\<close>

record ws_slot =
  conn :: WsConnection
  listed :: bool
  rbuf :: bytes
  on_message_set :: bool
  on_close_set :: bool
  delivered :: "bytes list"
  close_calls :: nat
  fd_closes :: nat
  armed :: bool

definition WS_MAX_MESSAGE :: nat where
  "WS_MAX_MESSAGE = 16 * 1024 * 1024"

definition close_ws :: "ws_slot \<Rightarrow> ws_slot" where
  "close_ws s =
     s\<lparr>conn := (if listed s then (conn s)\<lparr>closed := True\<rparr> else conn s),
       listed := False, rbuf := [], fd_closes := Suc (fd_closes s)\<rparr>"

definition ws_deliver :: "bytes \<Rightarrow> ws_slot \<Rightarrow> ws_slot" where
  "ws_deliver msg s = (if on_message_set s then s\<lparr>delivered := delivered s @ [msg]\<rparr> else s)"

definition ws_write :: "bytes \<Rightarrow> ws_slot \<Rightarrow> ws_slot" where
  "ws_write frame s = s\<lparr>conn := snd (send_raw frame (conn s))\<rparr>"

definition ws_proto_close :: "ws_slot \<Rightarrow> ws_slot" where
  "ws_proto_close s = (let s' = ws_write ws_encode_close_frame s in s'\<lparr>conn := (conn s')\<lparr>closed := True\<rparr>\<rparr>)"

definition fire_close :: "ws_slot \<Rightarrow> ws_slot" where
  "fire_close s = (if on_close_set s then s\<lparr>close_calls := Suc (close_calls s)\<rparr> else s)"

datatype ws_flow = Continue | Break | Return

text \<open>After a data frame has been added to the message: the size cap, then delivery when it was the last.\<close>

definition ws_assembled :: "WsFrame \<Rightarrow> ws_slot \<Rightarrow> ws_flow \<times> ws_slot" where
  "ws_assembled f s =
     (if WS_MAX_MESSAGE < length (frag_buf (conn s)) then (Break, ws_proto_close s)
      else if fin f then
        (Continue, ws_deliver (frag_buf (conn s)) (s\<lparr>conn := (conn s)\<lparr>frag_buf := [], frag_active := False\<rparr>\<rparr>))
      else (Continue, s))"

definition ws_data_frame :: "WsFrame \<Rightarrow> ws_slot \<Rightarrow> ws_flow \<times> ws_slot" where
  "ws_data_frame f s =
     (if opcode f = 0 then
        (if \<not> frag_active (conn s) then (Break, ws_proto_close s)
         else ws_assembled f (s\<lparr>conn := (conn s)\<lparr>frag_buf := frag_buf (conn s) @ payload f\<rparr>\<rparr>))
      else if frag_active (conn s) then (Break, ws_proto_close s)
      else if fin f then (Continue, ws_deliver (payload f) s)
      else ws_assembled f
        (s\<lparr>conn := (conn s)\<lparr>frag_active := True, frag_opcode := opcode f, frag_buf := payload f\<rparr>\<rparr>))"

definition ws_handle_frame :: "WsFrame \<Rightarrow> ws_slot \<Rightarrow> ws_flow \<times> ws_slot" where
  "ws_handle_frame f s =
     (if opcode f = 0 \<or> opcode f = 1 \<or> opcode f = 2 then ws_data_frame f s
      else if opcode f = 9 then (Continue, ws_write (ws_encode_pong_frame (payload f)) s)
      else if opcode f = 8 then (Return, close_ws (fire_close (ws_proto_close s)))
      else (Continue, s))"

lemma rbuf_simps [simp]:
  "rbuf (ws_deliver m s) = rbuf s" "rbuf (ws_write w s) = rbuf s" "rbuf (ws_proto_close s) = rbuf s"
  by (simp_all add: ws_deliver_def ws_write_def ws_proto_close_def Let_def)

lemma ws_handle_frame_rbuf: "ws_handle_frame f s = (Continue, t) \<Longrightarrow> rbuf t = rbuf s"
  by (auto simp: ws_handle_frame_def ws_data_frame_def ws_assembled_def split: if_splits)

function ws_loop :: "ws_slot \<Rightarrow> ws_flow \<times> ws_slot" where
  "ws_loop s =
     (let f = ws_try_decode_frame (rbuf s) in
      if protocol_error f then (Break, ws_proto_close s)
      else if \<not> complete f then (Break, s)
      else case ws_handle_frame f (s\<lparr>rbuf := drop (consumed f) (rbuf s)\<rparr>) of
          (Continue, t) \<Rightarrow> ws_loop t
        | (Break, t) \<Rightarrow> (Break, t)
        | (Return, t) \<Rightarrow> (Return, t))"
  by pat_completeness auto
termination
proof (relation "measure (length \<circ> rbuf)", simp, goal_cases)
  case (1 s f x t)
  then have "rbuf t = drop (consumed f) (rbuf s)" using ws_handle_frame_rbuf by fastforce
  then show ?case using 1 ws_decode_consumed [of "rbuf s"] by simp
qed

declare ws_loop.simps [simp del]

definition on_ws_data :: "bytes \<Rightarrow> ws_slot \<Rightarrow> ws_slot" where
  "on_ws_data data s0 =
     (let s = s0\<lparr>armed := False\<rparr> in
      if data = [] then
        close_ws (if listed s \<and> \<not> closed (conn s) then fire_close (s\<lparr>conn := (conn s)\<lparr>closed := True\<rparr>\<rparr>) else s)
      else if \<not> listed s then s
      else if closed (conn s) then close_ws (s\<lparr>rbuf := rbuf s @ data\<rparr>)
      else case ws_loop (s\<lparr>rbuf := rbuf s @ data\<rparr>) of
          (Return, t) \<Rightarrow> t
        | (_, t) \<Rightarrow> if \<not> closed (conn t) then t\<lparr>armed := True\<rparr> else close_ws t)"

subsection \<open>Reads may split the stream anywhere\<close>

abbreviation add_bytes :: "bytes \<Rightarrow> ws_slot \<Rightarrow> ws_slot" where
  "add_bytes x s \<equiv> s\<lparr>rbuf := rbuf s @ x\<rparr>"

text \<open>The connection is open and takes whatever the frames in its buffer make the server answer.\<close>

definition ws_ready :: "nat \<Rightarrow> ws_slot \<Rightarrow> bool" where
  "ws_ready n s \<longleftrightarrow> listed s \<and> \<not> closed (conn s) \<and> length (rbuf s) + n + 2 \<le> room (conn s)"

lemma ws_handle_frame_set_rbuf:
  "ws_handle_frame f (s\<lparr>rbuf := r\<rparr>) =
     (case ws_handle_frame f s of (fl, t) \<Rightarrow> (fl, if fl = Return then t else t\<lparr>rbuf := r\<rparr>))"
  by (simp add: ws_handle_frame_def ws_data_frame_def ws_assembled_def ws_deliver_def ws_write_def
      ws_proto_close_def Let_def close_ws_def fire_close_def)

lemma length_pong: "length (ws_encode_pong_frame p) \<le> length p + 2"
  by (simp add: ws_encode_pong_frame_def Let_def)

lemma ws_decode_payload: "complete (ws_try_decode_frame b) \<Longrightarrow>
    length (payload (ws_try_decode_frame b)) + 6 \<le> consumed (ws_try_decode_frame b)"
  by (auto simp: ws_decode_eq split: if_splits ws_length.splits dest: ws_payload_length_pos)

lemma ws_write_ready:
  assumes "\<not> closed (conn s)" "length w \<le> room (conn s)"
  shows "ws_write w s = s\<lparr>conn := (conn s)\<lparr>sent := sent (conn s) @ w, room := room (conn s) - length w\<rparr>\<rparr>"
  using assms by (simp add: ws_write_def send_raw_def write_all_def)

lemma proto_close_flags [simp]:
  "listed (ws_proto_close s) = listed s" "closed (conn (ws_proto_close s))" "conn (ws_deliver m s) = conn s"
  "listed (ws_deliver m s) = listed s" "listed (ws_write w s) = listed s"
  by (simp_all add: ws_proto_close_def ws_write_def Let_def ws_deliver_def)

lemma ws_handle_frame_ready:
  assumes "ws_handle_frame f s = (fl, t)" "listed s" "\<not> closed (conn s)" "length (payload f) + 2 + k \<le> room (conn s)"
  shows "fl \<noteq> Return \<Longrightarrow> listed t" "fl = Continue \<Longrightarrow> \<not> closed (conn t) \<and> k \<le> room (conn t)"
    "fl = Break \<Longrightarrow> closed (conn t)"
proof -
  have "length (ws_encode_pong_frame (payload f)) + k \<le> room (conn s)"
    using assms(4) length_pong [of "payload f"] by simp
  then show "fl \<noteq> Return \<Longrightarrow> listed t" "fl = Continue \<Longrightarrow> \<not> closed (conn t) \<and> k \<le> room (conn t)"
    "fl = Break \<Longrightarrow> closed (conn t)"
    using assms
    by (auto simp: ws_handle_frame_def ws_data_frame_def ws_assembled_def ws_write_ready split: if_splits)
qed

lemma ws_loop_append:
  assumes "ws_ready n s" "ws_loop s = (fl, t)"
  shows "fl \<noteq> Continue" "fl = Return \<Longrightarrow> ws_loop (add_bytes x s) = (Return, t)"
    "fl = Break \<Longrightarrow> closed (conn t) \<Longrightarrow> listed t \<and> ws_loop (add_bytes x s) = (Break, add_bytes x t)"
    "fl = Break \<Longrightarrow> \<not> closed (conn t) \<Longrightarrow> ws_ready n t \<and> ws_loop (add_bytes x s) = ws_loop (add_bytes x t)"
proof -
  have "fl \<noteq> Continue \<and> (fl = Return \<longrightarrow> ws_loop (add_bytes x s) = (Return, t)) \<and>
    (fl = Break \<longrightarrow> closed (conn t) \<longrightarrow> listed t \<and> ws_loop (add_bytes x s) = (Break, add_bytes x t)) \<and>
    (fl = Break \<longrightarrow> \<not> closed (conn t) \<longrightarrow> ws_ready n t \<and> ws_loop (add_bytes x s) = ws_loop (add_bytes x t))"
    (is "?P s")
    using assms
  proof (induction s rule: ws_loop.induct)
    case (1 s)
    let ?f = "ws_try_decode_frame (rbuf s)"
    let ?s = "s\<lparr>rbuf := drop (consumed ?f) (rbuf s)\<rparr>"
    note unf = ws_loop.simps [of s] ws_loop.simps [of "add_bytes x s"]
    consider (err) "protocol_error ?f" | (wait) "\<not> protocol_error ?f" "\<not> complete ?f" | (ok) "\<not> protocol_error ?f" "complete ?f"
      by blast
    then show ?case
    proof cases
      case err
      then have "(fl, t) = (Break, ws_proto_close s)" using "1.prems"(2) by (simp add: unf Let_def)
      moreover have "ws_loop (add_bytes x s) = (Break, ws_proto_close (add_bytes x s))"
        using err ws_decode_stable [of "rbuf s" x] by (simp add: unf Let_def)
      ultimately show ?thesis using "1.prems"(1)
        by (simp add: ws_ready_def) (simp add: ws_proto_close_def ws_write_def Let_def)
    next
      case wait
      then show ?thesis using "1.prems" by (auto simp: unf Let_def ws_ready_def)
    next
      case ok
      obtain g u where h: "ws_handle_frame ?f ?s = (g, u)" by fastforce
      have st: "ws_try_decode_frame (rbuf s @ x) = ?f" using ok ws_decode_stable by blast
      have c: "consumed ?f \<le> length (rbuf s)" "length (payload ?f) + 6 \<le> consumed ?f"
        using ok ws_decode_consumed ws_decode_payload by blast+
      have "(add_bytes x s)\<lparr>rbuf := drop (consumed ?f) (rbuf s @ x)\<rparr> = ?s\<lparr>rbuf := drop (consumed ?f) (rbuf s) @ x\<rparr>"
        using c by simp
      then have h': "ws_handle_frame ?f ((add_bytes x s)\<lparr>rbuf := drop (consumed ?f) (rbuf s @ x)\<rparr>) =
          (g, if g = Return then u else u\<lparr>rbuf := drop (consumed ?f) (rbuf s) @ x\<rparr>)"
        using ws_handle_frame_set_rbuf [where s = ?s and f = ?f] by (simp only: h prod.case)
      have r: "listed ?s" "\<not> closed (conn ?s)" "length (payload ?f) + 2 + (length (rbuf ?s) + n + 2) \<le> room (conn ?s)"
        using "1.prems"(1) c by (auto simp: ws_ready_def)
      note hr = ws_handle_frame_ready [OF h r]
      show ?thesis
      proof (cases g)
        case Continue
        have ru: "rbuf u = drop (consumed ?f) (rbuf s)" using ws_handle_frame_rbuf h Continue by fastforce
        then have "ws_ready n u" using hr Continue by (simp add: ws_ready_def)
        moreover have "ws_loop s = ws_loop u" using ok h Continue by (simp add: unf Let_def)
        moreover have "ws_loop (add_bytes x s) = ws_loop (add_bytes x u)"
          using ok h' st Continue ru by (simp add: unf Let_def)
        ultimately show ?thesis using "1.IH" [OF refl _ _ h [symmetric]] ok Continue "1.prems"(2) by auto
      next
        case Break
        have "rbuf u = drop (consumed ?f) (rbuf s)"
          using h Break by (auto simp: ws_handle_frame_def ws_data_frame_def ws_assembled_def split: if_splits)
        then show ?thesis using ok h h' st Break hr "1.prems"(2) by (auto simp: unf Let_def)
      next
        case Return
        then show ?thesis using ok h h' st "1.prems"(2) by (auto simp: unf Let_def)
      qed
    qed
  qed
  then show "fl \<noteq> Continue" "fl = Return \<Longrightarrow> ws_loop (add_bytes x s) = (Return, t)"
    "fl = Break \<Longrightarrow> closed (conn t) \<Longrightarrow> listed t \<and> ws_loop (add_bytes x s) = (Break, add_bytes x t)"
    "fl = Break \<Longrightarrow> \<not> closed (conn t) \<Longrightarrow> ws_ready n t \<and> ws_loop (add_bytes x s) = ws_loop (add_bytes x t)"
    by blast+
qed

lemma on_ws_data_gone: "\<not> listed s \<Longrightarrow> x \<noteq> [] \<Longrightarrow> on_ws_data x s = s\<lparr>armed := False\<rparr>"
  by (simp add: on_ws_data_def)

lemma on_ws_data_open:
  assumes "x \<noteq> []" "listed s" "\<not> closed (conn s)"
  shows "on_ws_data x s = (case ws_loop (add_bytes x (s\<lparr>armed := False\<rparr>)) of
    (Return, t) \<Rightarrow> t | (_, t) \<Rightarrow> if \<not> closed (conn t) then t\<lparr>armed := True\<rparr> else close_ws t)"
  using assms by (simp add: on_ws_data_def)

lemma ws_handle_frame_armed: "armed (snd (ws_handle_frame f s)) = armed s"
  and ws_handle_frame_return: "ws_handle_frame f s = (Return, t) \<Longrightarrow> \<not> listed t"
  by (auto simp: ws_handle_frame_def ws_data_frame_def ws_assembled_def ws_deliver_def ws_write_def ws_proto_close_def
      Let_def close_ws_def fire_close_def split: if_splits)

lemma ws_loop_armed: "ws_loop s = (fl, t) \<Longrightarrow> armed t = armed s \<and> (fl = Return \<longrightarrow> \<not> listed t)"
proof (induction s rule: ws_loop.induct)
  case (1 s)
  let ?f = "ws_try_decode_frame (rbuf s)"
  obtain g u where h: "ws_handle_frame ?f (s\<lparr>rbuf := drop (consumed ?f) (rbuf s)\<rparr>) = (g, u)" by fastforce
  then have "armed u = armed s" "g = Return \<longrightarrow> \<not> listed u"
    using ws_handle_frame_armed [of ?f "s\<lparr>rbuf := drop (consumed ?f) (rbuf s)\<rparr>"] ws_handle_frame_return by auto
  then show ?case
    using "1.prems" "1.IH" [OF refl _ _ h [symmetric]] h
    by (cases g) (auto simp: ws_loop.simps [of s] Let_def ws_proto_close_def ws_write_def split: if_splits)
qed

lemma on_ws_data_split:
  assumes "ws_ready (length a) s" "a \<noteq> []" "b \<noteq> []"
  shows "on_ws_data b (on_ws_data a s) = on_ws_data (a @ b) s"
proof -
  let ?s = "add_bytes a (s\<lparr>armed := False\<rparr>)"
  obtain fl t where l: "ws_loop ?s = (fl, t)" by fastforce
  have r: "ws_ready 0 ?s" using assms(1) by (simp add: ws_ready_def)
  note ap = ws_loop_append(2-4) [OF r l, of b]
  have s: "listed s" "\<not> closed (conn s)" using assms(1) by (auto simp: ws_ready_def)
  have t: "t\<lparr>armed := False\<rparr> = t" "fl = Return \<Longrightarrow> \<not> listed t" using ws_loop_armed [OF l] by simp_all
  have a: "on_ws_data a s = (if fl = Return then t else if closed (conn t) then close_ws t else t\<lparr>armed := True\<rparr>)"
    using on_ws_data_open [OF assms(2) s] l by (simp split: ws_flow.split)
  have ab: "on_ws_data (a @ b) s =
      (case ws_loop (add_bytes b ?s) of (Return, u) \<Rightarrow> u | (_, u) \<Rightarrow> if \<not> closed (conn u) then u\<lparr>armed := True\<rparr> else close_ws u)"
    using on_ws_data_open [of "a @ b"] assms(2) s by simp
  consider "fl = Return" | "fl = Break" "closed (conn t)" | "fl = Break" "\<not> closed (conn t)"
    using ws_loop_append(1) [OF r l] by (cases fl) auto
  then show ?thesis
  proof cases
    case 1
    then show ?thesis using ap(1) t assms(3) by (simp add: a ab on_ws_data_gone)
  next
    case 2
    have "\<not> listed (close_ws t)" "(close_ws t)\<lparr>armed := False\<rparr> = close_ws (t\<lparr>armed := False\<rparr>)" by (simp_all add: close_ws_def)
    then have "on_ws_data b (close_ws t) = close_ws t"
      using on_ws_data_gone [of "close_ws t" b] assms(3) by (simp only: t(1) simp_thms)
    moreover have "close_ws (add_bytes b t) = close_ws t" by (simp add: close_ws_def)
    ultimately show ?thesis using 2 ap(2) by (simp add: a ab)
  next
    case 3
    then have "listed t" using ap(3) by (simp add: ws_ready_def)
    then have "on_ws_data b (t\<lparr>armed := True\<rparr>) = on_ws_data (a @ b) s"
      using 3 ap(3) t(1) assms(3) by (simp add: ab) (simp add: on_ws_data_def)
    then show ?thesis using 3 by (simp add: a)
  qed
qed

lemma on_ws_data_chunks:
  assumes "ws_ready (length (concat cs)) s" "[] \<notin> set cs" "cs \<noteq> []"
  shows "fold on_ws_data cs s = on_ws_data (concat cs) s"
  using assms
proof (induction cs rule: rev_induct)
  case (snoc c cs)
  show ?case
  proof (cases "cs = []")
    case False
    then have "concat cs \<noteq> []" using snoc.prems(2) by (cases cs) auto
    moreover have "ws_ready (length (concat cs)) s" using snoc.prems(1) by (simp add: ws_ready_def)
    ultimately show ?thesis
      using snoc False on_ws_data_split [of "concat cs" s c] by (cases c) simp_all
  qed simp
qed simp

subsection \<open>Messages\<close>

text \<open>A message in fragments: the first frame carries the opcode, the others are continuations, the last has FIN.\<close>

fun ws_fragments :: "u8 \<Rightarrow> (bytes \<times> bytes) list \<Rightarrow> bytes" where
  "ws_fragments op [] = []"
| "ws_fragments op [(k, p)] = client_frame True op k p"
| "ws_fragments op ((k, p) # q # r) = client_frame False op k p @ ws_fragments 0 (q # r)"

definition ws_text :: "(bytes \<times> bytes) list \<Rightarrow> bytes" where
  "ws_text kps = concat (map snd kps)"

lemma ws_loop_frame:
  assumes "client_ok fl op k p" "rbuf s = client_frame fl op k p @ rest"
  shows "ws_loop s =
    (case ws_handle_frame \<lparr>fin = fl, opcode = op, payload = p, consumed = length (client_frame fl op k p), complete = True,
       protocol_error = False\<rparr> (s\<lparr>rbuf := rest\<rparr>) of (Continue, t) \<Rightarrow> ws_loop t | (Break, t) \<Rightarrow> (Break, t) | (Return, t) \<Rightarrow> (Return, t))"
  by (simp add: ws_loop.simps [of s] assms(2) client_frame_decode [OF assms(1)])

lemma data_ok: "op \<in> {0, 1, 2} \<Longrightarrow> length k = 4 \<Longrightarrow> length p \<le> WS_MAX_MESSAGE \<Longrightarrow> client_ok fl op k p"
  by (simp add: client_ok_def WS_MAX_MESSAGE_def WS_MAX_FRAME_def)

lemma ws_loop_continuation:
  assumes "frag_active (conn s)" "rbuf s = ws_fragments 0 kps @ rest" "kps \<noteq> []"
    "list_all (\<lambda>(k, p). length k = 4) kps" "length (frag_buf (conn s)) + length (ws_text kps) \<le> WS_MAX_MESSAGE"
  shows "ws_loop s = ws_loop (ws_deliver (frag_buf (conn s) @ ws_text kps)
    (s\<lparr>rbuf := rest, conn := (conn s)\<lparr>frag_buf := [], frag_active := False\<rparr>\<rparr>))"
  using assms
proof (induction "0 :: u8" kps arbitrary: s rule: ws_fragments.induct)
  case (2 k p)
  then have "client_ok True 0 k p" by (intro data_ok) (auto simp: ws_text_def)
  then show ?case
    using 2 ws_loop_frame [of True 0 k p s rest]
    by (simp add: ws_handle_frame_def ws_data_frame_def ws_assembled_def ws_text_def)
next
  case (3 k p q r)
  then have "client_ok False 0 k p" by (intro data_ok) (auto simp: ws_text_def)
  then have "ws_loop s = ws_loop (s\<lparr>rbuf := ws_fragments 0 (q # r) @ rest, conn := (conn s)\<lparr>frag_buf := frag_buf (conn s) @ p\<rparr>\<rparr>)"
    using "3.prems" ws_loop_frame [of False 0 k p s "ws_fragments 0 (q # r) @ rest"]
    by (simp add: ws_handle_frame_def ws_data_frame_def ws_assembled_def ws_text_def)
  also have "\<dots> = ws_loop (ws_deliver (frag_buf (conn s) @ ws_text ((k, p) # q # r))
    (s\<lparr>rbuf := rest, conn := (conn s)\<lparr>frag_buf := [], frag_active := False\<rparr>\<rparr>))"
    by (subst "3.hyps") (use "3.prems" in \<open>auto simp: ws_text_def\<close>)
  finally show ?case .
qed simp

text \<open>After a whole message: idle again, the message handed over once, everything else as before.\<close>

definition ws_after :: "bytes \<Rightarrow> ws_slot \<Rightarrow> ws_slot \<Rightarrow> bool" where
  "ws_after msg s t \<longleftrightarrow>
     delivered t = delivered s @ [msg] \<and> rbuf t = [] \<and> listed t \<and> \<not> closed (conn t) \<and> \<not> frag_active (conn t) \<and>
     sent (conn t) = sent (conn s) \<and> close_calls t = close_calls s \<and> fd_closes t = fd_closes s"

lemma ws_loop_message:
  assumes "ws_ready n s" "\<not> frag_active (conn s)" "on_message_set s" "rbuf s = ws_fragments op kps" "kps \<noteq> []"
    "op = 1 \<or> op = 2" "list_all (\<lambda>(k, p). length k = 4) kps" "length (ws_text kps) \<le> WS_MAX_MESSAGE"
  shows "\<exists>t. ws_loop s = (Break, t) \<and> ws_after (ws_text kps) s t"
proof -
  obtain k p r where kps: "kps = (k, p) # r" using assms(5) by (cases kps) auto
  have ok: "client_ok fl op k p" for fl using assms(6-8) by (intro data_ok) (auto simp: kps ws_text_def)
  have idle: "ws_loop u = (Break, u)" if "rbuf u = []" for u
    using that by (simp add: ws_loop.simps [of u] ws_decode_eq)
  show ?thesis
  proof (cases r)
    case Nil
    then have "ws_loop s = (Break, ws_deliver p (s\<lparr>rbuf := []\<rparr>))"
      using assms ws_loop_frame [OF ok, of s True "[]"] idle
      by (auto simp: kps ws_handle_frame_def ws_data_frame_def ws_text_def)
    then show ?thesis using assms Nil by (simp add: ws_after_def ws_deliver_def ws_ready_def kps ws_text_def)
  next
    case (Cons q r')
    let ?u = "s\<lparr>rbuf := ws_fragments 0 (q # r'), conn := (conn s)\<lparr>frag_active := True, frag_opcode := op, frag_buf := p\<rparr>\<rparr>"
    have "ws_loop s = ws_loop ?u"
      using assms ws_loop_frame [OF ok, of s False "ws_fragments 0 (q # r')"] Cons
      by (auto simp: kps ws_handle_frame_def ws_data_frame_def ws_assembled_def ws_text_def)
    also have "\<dots> = ws_loop (ws_deliver (ws_text kps) (?u\<lparr>rbuf := [], conn := (conn ?u)\<lparr>frag_buf := [], frag_active := False\<rparr>\<rparr>))"
      by (subst ws_loop_continuation [where kps = "q # r'" and rest = "[]"])
        (use assms in \<open>auto simp: kps Cons ws_text_def\<close>)
    finally show ?thesis using assms by (simp add: idle ws_after_def ws_deliver_def ws_ready_def)
  qed
qed

text \<open>C22: A message a client sends in any number of fragments is handed to the application exactly once and whole, and
  the connection is idle afterwards, however the network cuts the bytes into reads.\<close>

theorem ws_message_delivered:
  assumes "ws_ready (length (concat cs)) s" "rbuf s = []" "\<not> frag_active (conn s)" "on_message_set s"
    "kps \<noteq> []" "op = 1 \<or> op = 2" "list_all (\<lambda>(k, p). length k = 4) kps" "length (ws_text kps) \<le> WS_MAX_MESSAGE"
    "concat cs = ws_fragments op kps" "[] \<notin> set cs"
  shows "ws_after (ws_text kps) s (fold on_ws_data cs s)"
proof -
  have cs: "concat cs \<noteq> []"
    using assms(5) unfolding assms(9) by (cases "(op, kps)" rule: ws_fragments.cases) (auto simp: client_frame_def)
  then have "cs \<noteq> []" by auto
  then have f: "fold on_ws_data cs s = on_ws_data (concat cs) s" using on_ws_data_chunks assms(1,10) by blast
  let ?s = "add_bytes (concat cs) (s\<lparr>armed := False\<rparr>)"
  have "ws_ready 0 ?s" using assms(1) by (simp add: ws_ready_def)
  then obtain t where t: "ws_loop ?s = (Break, t)" "ws_after (ws_text kps) ?s t"
    using ws_loop_message [of 0 ?s op kps] assms by auto
  moreover have "listed s" "\<not> closed (conn s)" using assms(1) by (auto simp: ws_ready_def)
  ultimately have "on_ws_data (concat cs) s = t\<lparr>armed := True\<rparr>"
    using on_ws_data_open [OF cs] by (simp add: ws_after_def)
  then show ?thesis using t(2) by (simp add: f ws_after_def)
qed

definition ws_slot_new :: "nat \<Rightarrow> ws_slot" where
  "ws_slot_new n = \<lparr>conn = ws_conn_new 7 n, listed = True, rbuf = [], on_message_set = True, on_close_set = True,
     delivered = [], close_calls = 0, fd_closes = 0, armed = True\<rparr>"

theorem ws_message_delivered_witness:
  "ws_after [104, 105, 33] (ws_slot_new 100)
     (fold on_ws_data [[1], [0x82, 1, 2, 3, 4, 105], [107, 0x80], [0x81, 5, 6, 7, 8, 36]] (ws_slot_new 100))"
  using ws_message_delivered [of "[[1], [0x82, 1, 2, 3, 4, 105], [107, 0x80], [0x81, 5, 6, 7, 8, 36]]" "ws_slot_new 100"
      "[([1, 2, 3, 4], [104, 105]), ([5, 6, 7, 8], [33])]" 1]
  by (simp add: ws_ready_def ws_slot_new_def ws_conn_new_def ws_text_def WS_MAX_MESSAGE_def client_frame_def
      client_length_def ws_unmask_def)

text \<open>C23: The same for every stream, well formed or not: one read with all the bytes and many reads end in the same
  state (messages delivered, bytes answered, callbacks, errors).\<close>

theorem ws_reads_split_anywhere:
  assumes "ws_ready (length (concat cs)) s" "[] \<notin> set cs" "cs \<noteq> []"
  shows "fold on_ws_data cs s = on_ws_data (concat cs) s"
  using assms by (rule on_ws_data_chunks)

theorem ws_reads_split_anywhere_witness:
  "fold on_ws_data [[0x81], [0x80, 1, 2], [3, 4, 0x91]] (ws_slot_new 50) =
   on_ws_data [0x81, 0x80, 1, 2, 3, 4, 0x91] (ws_slot_new 50)"
  using ws_reads_split_anywhere [of "[[0x81], [0x80, 1, 2], [3, 4, 0x91]]" "ws_slot_new 50"]
  by (simp add: ws_ready_def ws_slot_new_def ws_conn_new_def)

subsection \<open>The end of a connection\<close>

text \<open>What can happen to a connection: the event loop runs the read callback, once for each time it was armed (no
  bytes: the peer is gone), and the application sends and closes at any time.\<close>

datatype ws_event = Recv bytes | App_send bytes | App_close

fun ws_event_step :: "ws_event \<Rightarrow> ws_slot \<Rightarrow> ws_slot" where
  "ws_event_step (Recv x) s = on_ws_data x s"
| "ws_event_step (App_send m) s = s\<lparr>conn := snd (send_text m (conn s))\<rparr>"
| "ws_event_step App_close s = s\<lparr>conn := close_conn (conn s)\<rparr>"

fun ws_enabled :: "ws_event \<Rightarrow> ws_slot \<Rightarrow> bool" where
  "ws_enabled (Recv x) s = armed s"
| "ws_enabled _ s = True"

inductive ws_reach :: "ws_slot \<Rightarrow> bool" where
  start: "ws_reach \<lparr>conn = ws_conn_new f n, listed = True, rbuf = [], on_message_set = m, on_close_set = c,
     delivered = [], close_calls = 0, fd_closes = 0, armed = True\<rparr>"
| step: "ws_reach s \<Longrightarrow> ws_enabled e s \<Longrightarrow> ws_reach (ws_event_step e s)"

definition ws_alive :: "ws_slot \<Rightarrow> bool" where
  "ws_alive s \<longleftrightarrow> listed s \<and> fd_closes s = 0 \<and> close_calls s = 0"

definition ws_dead :: "ws_slot \<Rightarrow> bool" where
  "ws_dead s \<longleftrightarrow> \<not> listed s \<and> \<not> armed s \<and> fd_closes s = 1 \<and> close_calls s \<le> 1 \<and> closed (conn s) \<and> rbuf s = []"

lemma ws_alive_ops [simp]:
  "ws_alive (s\<lparr>conn := c\<rparr>) = ws_alive s" "ws_alive (s\<lparr>rbuf := r\<rparr>) = ws_alive s" "ws_alive (s\<lparr>armed := a\<rparr>) = ws_alive s"
  "ws_alive (ws_deliver m s) = ws_alive s" "ws_alive (ws_write w s) = ws_alive s" "ws_alive (ws_proto_close s) = ws_alive s"
  by (simp_all add: ws_alive_def ws_deliver_def ws_write_def ws_proto_close_def Let_def)

lemma ws_close_dead: "ws_alive s \<Longrightarrow> \<not> armed s \<Longrightarrow> ws_dead (close_ws s)"
  "ws_alive s \<Longrightarrow> \<not> armed s \<Longrightarrow> ws_dead (close_ws (fire_close s))"
  by (auto simp: ws_alive_def ws_dead_def close_ws_def fire_close_def)

lemma ws_handle_frame_alive:
  "ws_alive s \<Longrightarrow> \<not> armed s \<Longrightarrow> ws_handle_frame f s = (fl, t) \<Longrightarrow> if fl = Return then ws_dead t else ws_alive t"
  by (auto simp: ws_handle_frame_def ws_data_frame_def ws_assembled_def ws_close_dead ws_proto_close_def ws_write_def
      Let_def split: if_splits)

lemma ws_loop_alive:
  "ws_alive s \<Longrightarrow> \<not> armed s \<Longrightarrow> ws_loop s = (fl, t) \<Longrightarrow> if fl = Return then ws_dead t else ws_alive t"
proof (induction s rule: ws_loop.induct)
  case (1 s)
  let ?f = "ws_try_decode_frame (rbuf s)"
  let ?s = "s\<lparr>rbuf := drop (consumed ?f) (rbuf s)\<rparr>"
  obtain g u where h: "ws_handle_frame ?f ?s = (g, u)" by fastforce
  have "if g = Return then ws_dead u else ws_alive u" using ws_handle_frame_alive [OF _ _ h] "1.prems" by simp
  moreover have "\<not> armed u" using ws_handle_frame_armed [of ?f ?s] h "1.prems"(2) by simp
  ultimately show ?case
    using "1.prems" "1.IH" [OF refl _ _ h [symmetric]] h
    by (cases g) (auto simp: ws_loop.simps [of s] Let_def split: if_splits)
qed

lemma on_ws_data_alive:
  assumes "ws_alive s"
  shows "ws_alive (on_ws_data x s) \<and> armed (on_ws_data x s) \<or> ws_dead (on_ws_data x s)"
proof (cases "x = [] \<or> closed (conn s)")
  case True
  then show ?thesis using assms by (auto simp: on_ws_data_def Let_def intro!: ws_close_dead) (auto simp: ws_alive_def)
next
  case False
  have l: "listed s" using assms by (simp add: ws_alive_def)
  obtain fl t where t: "ws_loop (add_bytes x (s\<lparr>armed := False\<rparr>)) = (fl, t)" by fastforce
  then have "if fl = Return then ws_dead t else ws_alive t" "\<not> armed t"
    using ws_loop_alive [OF _ _ t] ws_loop_armed [OF t] assms by simp_all
  then show ?thesis using on_ws_data_open [of x s] False l t by (cases fl) (auto simp: ws_close_dead)
qed

lemma ws_reach_alive: "ws_reach s \<Longrightarrow> ws_alive s \<and> armed s \<or> ws_dead s"
proof (induction rule: ws_reach.induct)
  case (step s e)
  then show ?case
  proof (cases e)
    case (Recv x)
    then have "ws_alive s" using step by (auto simp: ws_dead_def)
    then show ?thesis using on_ws_data_alive Recv by simp
  next
    case (App_send m)
    then show ?thesis using step.IH by (auto simp: ws_dead_def send_text_def)
  next
    case App_close
    then show ?thesis using step.IH by (auto simp: ws_dead_def close_conn_def)
  qed
qed (simp add: ws_alive_def)





text \<open>A client whose loss is first noticed by a failing send: the close callback never runs for it.\<close>

lemma lost_client_not_reported:
  assumes "listed s" "\<not> closed (conn s)" "room (conn s) < length (ws_encode_text_frame m)"
  shows "close_calls (on_ws_data [] (ws_event_step (App_send m) s)) = close_calls s"
    "\<not> listed (on_ws_data [] (ws_event_step (App_send m) s))"
  using assms by (simp_all add: on_ws_data_def send_text_def send_raw_def write_all_def close_ws_def)

subsection \<open>The registry\<close>

definition reg_ok :: "nat \<Rightarrow> registry \<Rightarrow> bool" where
  "reg_ok cap cs \<longleftrightarrow>
     distinct (map fst cs) \<and> list_all (\<lambda>(k, c). fd c = k) cs \<and> (cap = 0 \<or> length cs \<le> cap)"

lemma reg_ok_remove: "reg_ok cap cs \<Longrightarrow> reg_ok cap (reg_remove i cs)"
  by (auto simp: reg_ok_def reg_remove_def distinct_map_filter list_all_iff intro: le_trans [OF length_filter_le])

lemma reg_remove_fresh: "i \<notin> fst ` set (reg_remove i cs)"
  by (auto simp: reg_remove_def)

lemma fd_send_text [simp]: "fd (snd (send_text m c)) = fd c"
  by (simp add: send_text_def send_raw_def write_all_def)

text \<open>The registry holds one connection per descriptor, under its own descriptor, and never more than the limit;
  a registered client is found, a removed one is not, and a broadcast reaches every entry and changes no key.\<close>

theorem registry_invariant:
  assumes "reg_ok cap cs"
  shows "reg_ok cap (snd (reg_add cap c cs)) \<and> reg_ok cap (reg_remove i cs) \<and> reg_ok cap (reg_broadcast m cs) \<and>
    (fst (reg_add cap c cs) \<longleftrightarrow> cap = 0 \<or> reg_count cs < cap) \<and>
    (fst (reg_add cap c cs) \<longrightarrow> map_of (snd (reg_add cap c cs)) (fd c) = Some c) \<and>
    map_of (reg_remove i cs) i = None \<and>
    map_of (reg_broadcast m cs) i = map_option (\<lambda>c. snd (send_text m c)) (map_of cs i)"
proof -
  have rm: "reg_ok cap (reg_remove j cs)" for j using assms by (rule reg_ok_remove)
  have "reg_ok cap (snd (reg_add cap c cs))"
  proof (cases "reg_full cap cs")
    case False
    have "length (reg_remove (fd c) cs) \<le> length cs" by (simp add: reg_remove_def)
    then show ?thesis
      using rm [of "fd c"] False reg_remove_fresh [of "fd c" cs] by (auto simp: reg_add_def reg_ok_def reg_full_def)
  qed (simp add: reg_add_def assms)
  moreover have "reg_ok cap (reg_broadcast m cs)"
    using assms by (auto simp: reg_ok_def reg_broadcast_def list_all_iff comp_def case_prod_beta)
  moreover have "map_of (reg_remove i cs) i = None" using reg_remove_fresh by (metis map_of_eq_None_iff)
  moreover have "map_of (reg_broadcast m cs) i = map_option (\<lambda>c. snd (send_text m c)) (map_of cs i)"
    by (simp add: reg_broadcast_def map_of_map)
  ultimately show ?thesis using rm by (auto simp: reg_add_def reg_full_def reg_count_def)
qed

theorem registry_invariant_witness:
  "fst (reg_add 2 (ws_conn_new 5 9) [(4, ws_conn_new 4 9)]) \<and>
   reg_ok 2 (snd (reg_add 2 (ws_conn_new 5 9) [(4, ws_conn_new 4 9)]))"
  using registry_invariant [of 2 "[(4, ws_conn_new 4 9)]" "ws_conn_new 5 9" 0 "[]"]
  by (simp add: reg_ok_def ws_conn_new_def reg_count_def)

end
