(* ===== verification/Ws_Handshake.thy ===== *)
theory Ws_Handshake
  imports Websocket
begin

text \<open>
  The digest and the text encoding of the opening handshake against their standards: SHA-1 of FIPS 180-4
  (section 6.1) and Base64 of RFC 4648.
\<close>

subsection \<open>SHA-1 of FIPS 180-4\<close>

function fips1_W :: "bytes \<Rightarrow> nat \<Rightarrow> u32" where
  "fips1_W blk t =
     (if t < 16 then be32 (blk ! (4 * t)) (blk ! (4 * t + 1)) (blk ! (4 * t + 2)) (blk ! (4 * t + 3))
      else word_rotl 1 (fips1_W blk (t - 3) XOR fips1_W blk (t - 8) XOR fips1_W blk (t - 14) XOR fips1_W blk (t - 16)))"
  by pat_completeness auto
termination by (relation "measure snd") auto

declare fips1_W.simps [simp del]

text \<open>The four functions and constants, one of each for twenty steps.\<close>

definition fips1_F :: "nat \<Rightarrow> u32 \<Rightarrow> u32 \<Rightarrow> u32 \<Rightarrow> u32" where
  "fips1_F q = [\<lambda>x y z. (x AND y) XOR (NOT x AND z), \<lambda>x y z. x XOR y XOR z,
     \<lambda>x y z. (x AND y) XOR (x AND z) XOR (y AND z), \<lambda>x y z. x XOR y XOR z] ! q"

definition fips1_K :: "nat \<Rightarrow> u32" where
  "fips1_K q = [0x5A827999, 0x6ED9EBA1, 0x8F1BBCDC, 0xCA62C1D6] ! q"

fun fips1_step :: "bytes \<Rightarrow> nat \<Rightarrow> sha1_state \<Rightarrow> sha1_state" where
  "fips1_step blk t (a, b, c, d, e) =
     (word_rotl 5 a + fips1_F (t div 20) b c d + e + fips1_K (t div 20) + fips1_W blk t, a, word_rotl 30 b, c, d)"

primrec fips1_blocks :: "nat \<Rightarrow> bytes \<Rightarrow> sha1_state" where
  "fips1_blocks 0 msg = sha1_init"
| "fips1_blocks (Suc i) msg =
     (let H = fips1_blocks i msg in sha1_add H (fold (fips1_step (take 64 (drop (64 * i) msg))) [0..<80] H))"

definition fips_sha1 :: "bytes \<Rightarrow> bytes" where
  "fips_sha1 m = sha1_digest (fips1_blocks (length (fips_pad m) div 64) (fips_pad m))"

lemma rotl_eq: "0 < n \<Longrightarrow> n < 32 \<Longrightarrow> rotl x n = word_rotl n x"
proof -
  assume n: "0 < n" "n < 32"
  then have "rotl x n = rotr x (32 - n)" by (simp add: rotl_def rotr_def or.commute)
  also have "\<dots> = word_rotr (32 - n) x" using n by (intro rotr_eq) simp_all
  also have "\<dots> = word_rotl n x"
  proof (rule bit_word_eqI)
    fix m assume "m < LENGTH(32)"
    then show "bit (word_rotr (32 - n) x) m = bit (word_rotl n x) m"
      using n by (simp add: bit_word_rotr_iff bit_word_rotl_iff)
  qed
  finally show ?thesis .
qed

lemma sha1_gap: "pad_gap (Suc n) = ((n + 8) div 64 + 1) * 64 - 8 - (n + 1)"
proof -
  obtain q r where n: "n = 64 * q + r" "r < 64"
    by (metis mod_less_divisor mult_div_mod_eq zero_less_numeral)
  then have "n mod 64 = r" by simp
  then have m: "Suc n mod 64 = (if r = 63 then 0 else Suc r)" by (simp add: mod_Suc)
  have "(n + 8) div 64 = q + (r + 8) div 64" using n by (simp add: add.assoc)
  moreover have "(r + 8) div 64 = (if r < 56 then 0 else 1)" using n(2) by (auto intro: div_nat_eqI)
  ultimately show ?thesis using n unfolding pad_gap_def m by auto
qed

lemma sha1_pad_eq:
  assumes "length m < 2 ^ 61"
  shows "sha1_pad m = fips_pad m"
proof -
  let ?n = "length m"
  have "pad_gap (Suc ?n) = ((?n + 8) div 64 + 1) * 64 - 8 - (?n + 1)" by (rule sha1_gap)
  then show ?thesis
    using length_byte [OF assms, of 0] length_byte [OF assms, of 1] length_byte [OF assms, of 2] length_byte [OF assms, of 3]
      length_byte [OF assms, of 4] length_byte [OF assms, of 5] length_byte [OF assms, of 6] length_byte [OF assms, of 7]
    by (simp add: sha1_pad_def fips_pad_def Let_def)
qed

lemma sha1_extend_step:
  "16 \<le> j \<Longrightarrow> sha1_extend j (map (fips1_W blk) [0..<j]) = map (fips1_W blk) [0..<Suc j]"
  using fips1_W.simps [of blk j] by (simp add: sha1_extend_def rotl_eq)

lemma sha1_schedule_eq: "sha1_schedule blk = map (fips1_W blk) [0..<80]"
proof -
  have "fold sha1_extend [16..<n] (sha_words blk) = map (fips1_W blk) [0..<n]" if "16 \<le> n" for n
    using that
  proof (induction n rule: dec_induct)
    case base
    show ?case by (simp add: sha_words_def fips1_W.simps mult.commute)
  next
    case (step n)
    then show ?case using sha1_extend_step by simp
  qed
  from this [of 80] show ?thesis unfolding sha1_schedule_def by (simp only: numeral_le_iff) simp
qed

lemma ch_or: "(b AND c) OR (NOT b AND d) = (b AND c) XOR (NOT b AND d :: u32)"
  and maj_or: "(b AND c) OR (b AND d) OR (c AND d) = (b AND c) XOR (b AND d) XOR (c AND d :: u32)"
  by (rule bit_word_eqI; auto simp: bit_or_iff bit_xor_iff bit_and_iff bit_not_iff)+

lemma sha1_round_eq: "t < 80 \<Longrightarrow> sha1_round (t, fips1_W blk t) s = fips1_step blk t s"
proof -
  assume "t < 80"
  then consider "t < 20" | "20 \<le> t" "t < 40" | "40 \<le> t" "t < 60" | "60 \<le> t" "t < 80" by linarith
  then have "sha1_f t b c d = fips1_F (t div 20) b c d \<and> sha1_k t = fips1_K (t div 20)" for b c d
  proof cases
    case 2
    then have "t div 20 = 1" by (intro div_nat_eqI) simp_all
    then show ?thesis using 2 by (simp add: sha1_f_def sha1_k_def fips1_F_def fips1_K_def)
  next
    case 3
    then have "t div 20 = 2" by (intro div_nat_eqI) simp_all
    then show ?thesis using 3 by (simp add: sha1_f_def sha1_k_def fips1_F_def fips1_K_def maj_or)
  next
    case 4
    then have "t div 20 = 3" by (intro div_nat_eqI) simp_all
    then show ?thesis using 4 by (simp add: sha1_f_def sha1_k_def fips1_F_def fips1_K_def)
  qed (simp add: sha1_f_def sha1_k_def fips1_F_def fips1_K_def ch_or)
  then show ?thesis by (cases s) (simp add: rotl_eq)
qed

lemma sha1_compress_eq: "sha1_compress h blk = sha1_add h (fold (fips1_step blk) [0..<80] h)"
proof -
  have "zip [0..<80] (map (fips1_W blk) [0..<80]) = map (\<lambda>t. (t, fips1_W blk t)) [0..<80]"
    by (intro nth_equalityI) simp_all
  then have "sha1_compress h blk = sha1_add h (fold (\<lambda>t. sha1_round (t, fips1_W blk t)) [0..<80] h)"
    by (simp only: sha1_compress_def sha1_schedule_eq fold_map comp_def)
  also have "fold (\<lambda>t. sha1_round (t, fips1_W blk t)) [0..<80] h = fold (fips1_step blk) [0..<80] h"
    by (rule fold_cong) (auto simp: sha1_round_eq fun_eq_iff)
  finally show ?thesis .
qed

lemma sha1_blocks_take:
  "64 * n \<le> length msg \<Longrightarrow> sha1_blocks h (take (64 * n) msg) = fold (\<lambda>i h. sha1_compress h (take 64 (drop (64 * i) msg))) [0..<n] h"
proof (induction n arbitrary: h msg)
  case (Suc n)
  have t: "take (64 * Suc n) msg = take 64 msg @ take (64 * n) (drop 64 msg)" using take_add [of 64 "64 * n" msg] by simp
  have "length (take 64 msg) = 64" using Suc.prems by simp
  then have "sha1_blocks h (take (64 * Suc n) msg) = sha1_blocks (sha1_compress h (take 64 msg)) (take (64 * n) (drop 64 msg))"
    by (subst sha1_blocks.simps) (auto simp: t drop_take)
  also have "\<dots> = fold (\<lambda>i h. sha1_compress h (take 64 (drop (64 * i) (drop 64 msg)))) [0..<n] (sha1_compress h (take 64 msg))"
    using Suc by simp
  also have "\<dots> = fold (\<lambda>i h. sha1_compress h (take 64 (drop (64 * i) msg))) (map Suc [0..<n]) (sha1_compress h (take 64 msg))"
    by (simp add: fold_map comp_def add.commute)
  finally show ?case by (simp only: map_Suc_upt upt_conv_Cons) (simp add: upt_conv_Cons del: upt_Suc)
qed (simp add: sha1_blocks.simps)

lemma fips1_blocks_fold:
  "fips1_blocks n msg = fold (\<lambda>i h. sha1_compress h (take 64 (drop (64 * i) msg))) [0..<n] sha1_init"
  by (induction n) (simp_all add: Let_def sha1_compress_eq del: upt_Suc add: upt_Suc_append)

text \<open>The code's SHA-1 is the one of FIPS 180-4.\<close>

theorem sha1_is_fips180:
  assumes "length m < 2 ^ 61"
  shows "sha1 m = fips_sha1 m"
proof -
  let ?p = "fips_pad m"
  have "64 * (length ?p div 64) = length ?p" using fips_pad_length [of m] by (metis mult_div_mod_eq add.right_neutral)
  then show ?thesis
    using sha1_blocks_take [of "length ?p div 64" ?p sha1_init]
    by (simp add: sha1_def fips_sha1_def sha1_pad_eq [OF assms] fips1_blocks_fold)
qed

theorem sha1_is_fips180_witness: "sha1 [97, 98, 99] = fips_sha1 [97, 98, 99]"
  using sha1_is_fips180 [of "[97, 98, 99]"] by simp

subsection \<open>Base64\<close>

definition base64_value :: "char \<Rightarrow> nat" where
  "base64_value c = length (takeWhile (\<lambda>d. d \<noteq> c) base64_table)"

fun base64_decode :: "string \<Rightarrow> bytes" where
  "base64_decode (w # x # y # z # r) =
     (let g = base64_value w * 2 ^ 18 + base64_value x * 2 ^ 12 in
      if y = CHR ''='' then [word_of_nat (g div 2 ^ 16)]
      else let g = g + base64_value y * 2 ^ 6 in
        if z = CHR ''='' then [word_of_nat (g div 2 ^ 16), word_of_nat (g div 2 ^ 8)]
        else let g = g + base64_value z in
          word_of_nat (g div 2 ^ 16) # word_of_nat (g div 2 ^ 8) # word_of_nat g # base64_decode r)"
| "base64_decode _ = []"

lemma base64_digit_table: "n < 64 \<Longrightarrow> base64_value (base64_table ! n) = n \<and> base64_table ! n \<noteq> CHR ''=''"
proof -
  have "list_all (\<lambda>n. base64_value (base64_table ! n) = n \<and> base64_table ! n \<noteq> CHR ''='') [0..<64]"
    by code_simp
  then show "n < 64 \<Longrightarrow> ?thesis" by (simp only: list_all_iff) simp
qed

lemma base64_digit [simp]: "base64_value (base64_digit n) = n mod 64" "base64_digit n \<noteq> CHR ''=''"
  using base64_digit_table [of "n mod 64"] by (simp_all add: base64_digit_def)

text \<open>Six bits at a time.\<close>

lemma sextets:
  fixes g :: nat
  assumes "g < 16777216"
  shows "g div 262144 mod 64 * 262144 + g div 4096 mod 64 * 4096 + g div 64 mod 64 * 64 + g mod 64 = g"
proof -
  have d: "g div 4096 = g div 64 div 64" "g div 262144 = g div 64 div 64 div 64" by (simp_all flip: div_mult2_eq)
  have "g div 262144 < 64" using assms by (simp add: less_mult_imp_div_less)
  then have "g div 64 div 64 div 64 mod 64 = g div 64 div 64 div 64" by (simp only: d mod_less)
  then show ?thesis
    using div_mult_mod_eq [of g 64] div_mult_mod_eq [of "g div 64" 64] div_mult_mod_eq [of "g div 64 div 64" 64]
    unfolding d by linarith
qed

lemma low_byte: "word_of_nat (x * 256 + unat b) = (b :: u8)"
proof -
  have "unat (word_of_nat (x * 256 + unat b) :: u8) = unat b"
    using unat_u8_less [of b] by (simp add: unsigned_of_nat take_bit_eq_mod del: of_nat_add of_nat_mult)
  then show ?thesis by (metis of_nat_unat ucast_id)
qed

lemma group_bytes:
  fixes a b c :: u8
  defines "g \<equiv> unat a * 65536 + unat b * 256 + unat c"
  shows "g < 16777216" "word_of_nat (g div 65536) = a" "word_of_nat (g div 256) = b" "word_of_nat g = c"
proof -
  have u: "unat a < 256" "unat b < 256" "unat c < 256" by (rule unat_u8_less)+
  show "g < 16777216" using u by (simp add: g_def)
  have "g div 65536 = unat a" "g div 256 = unat a * 256 + unat b" using u by (intro div_nat_eqI; simp add: g_def)+
  then show "word_of_nat (g div 65536) = a" "word_of_nat (g div 256) = b" by (simp_all only: low_byte) simp
  show "word_of_nat g = c" using low_byte [of "unat a * 256 + unat b" c] by (simp add: g_def algebra_simps)
qed

text \<open>Decoding what the handshake encodes gives the bytes back, for every length.\<close>

theorem base64_roundtrip: "base64_decode (base64_encode bs) = bs"
proof (induction bs rule: base64_encode.induct)
  case (2 a)
  then show ?case using sextets [OF group_bytes(1) [of a 0 0]] group_bytes [of a 0 0]
    by (simp add: Let_def del: of_nat_add of_nat_mult)
next
  case (3 a b)
  then show ?case using sextets [OF group_bytes(1) [of a b 0]] group_bytes [of a b 0]
    by (simp add: Let_def del: of_nat_add of_nat_mult)
next
  case (4 a b c r)
  then show ?case using sextets [OF group_bytes(1) [of a b c]] group_bytes [of a b c]
    by (simp add: Let_def del: of_nat_add of_nat_mult)
qed simp

end
