(* ===== verification/Indexing.thy ===== *)
theory Indexing
  imports Value_Heap "HOL-Library.AList"
begin

text \<open>
  Element access of arrays and maps in the two execution engines: \<^verbatim>\<open>VM::array_get\<close>, \<^verbatim>\<open>VM::array_set\<close>
  and the field accessors (\<^verbatim>\<open>vm.cpp\<close>), and the index expression and index assignment of the tree-walking
  interpreter (\<^verbatim>\<open>Interpreter::evaluate_expression\<close>). A map is an array that starts with the element
  \<^verbatim>\<open>"__assoc__"\<close>, followed by keys and values in turn; an instance of a struct has the pair
  \<^verbatim>\<open>"__struct__"\<close>, name before them. The text of a float (\<^verbatim>\<open>look_format_double\<close>, which calls
  \<^verbatim>\<open>std::to_chars\<close>) is an argument.
\<close>

subsection \<open>Text of a value\<close>

definition int_str :: "int \<Rightarrow> string" where
  "int_str i = (if i < 0 then CHR ''-'' # nat_str (nat (- i)) else nat_str (nat i))"

fun join_str :: "string list \<Rightarrow> string" where
  "join_str [] = []"
| "join_str [s] = s"
| "join_str (s # t # r) = s @ '', '' @ join_str (t # r)"

text \<open>\<open>n\<close> bounds the nesting; \<^term>\<open>None\<close> is a nesting that is deeper, which for an array that contains itself is
  every bound.\<close>

fun to_string :: "('f \<Rightarrow> string) \<Rightarrow> 'f arrays \<Rightarrow> nat \<Rightarrow> 'f Value \<Rightarrow> string option" where
  "to_string fmt A n (V_INT i) = Some (int_str (sint i))"
| "to_string fmt A n (V_FLOAT d) = Some (fmt d)"
| "to_string fmt A n (V_STRING s) = Some s"
| "to_string fmt A n (V_BOOL b) = Some (if b then ''true'' else ''false'')"
| "to_string fmt A n V_NONE = Some ''null''"
| "to_string fmt A 0 (V_ARRAY a) = None"
| "to_string fmt A (Suc n) (V_ARRAY a) =
     map_option (\<lambda>ss. ''['' @ join_str ss @ '']'') (those (map (to_string fmt A n) (A ! a)))"
| "to_string fmt A n (V_FUNCTION f) = Some ''<function>''"
| "to_string fmt A n (V_CHANNEL c) = Some ''<channel>''"
| "to_string fmt A n (V_WEBSOCKET w) = Some ''<websocket>''"
| "to_string fmt A n v = Some []"

subsection \<open>The virtual machine\<close>

definition look_is_int_key :: "string \<Rightarrow> bool" where
  "look_is_int_key s =
     (let s' = (if s \<noteq> [] \<and> (hd s = CHR ''-'' \<or> hd s = CHR ''+'') then tl s else s)
      in s \<noteq> [] \<and> s' \<noteq> [] \<and> list_all isdigit s')"

datatype idx_error = OutOfBounds int | ImmutableString | NotAnArray | TooDeep | OpFailed value_error

definition ASSOC :: "'f Value" where
  "ASSOC = V_STRING ''__assoc__''"

definition is_assoc :: "'f Value list \<Rightarrow> bool" where
  "is_assoc vec \<longleftrightarrow> vec \<noteq> [] \<and> hd vec = ASSOC"

definition assoc_start :: "'f Value list \<Rightarrow> nat" where
  "assoc_start vec = (if 2 < length vec \<and> vec ! 1 = V_STRING ''__struct__'' then 3 else 1)"

text \<open>The position of the value of key \<open>k\<close> among the pairs from position \<open>i\<close> on; the list is what is left there.\<close>

fun assoc_find :: "('f Value \<Rightarrow> string option) \<Rightarrow> string \<Rightarrow> nat \<Rightarrow> 'f Value list \<Rightarrow> idx_error + nat option" where
  "assoc_find str k i (x # y # r) =
     (case str x of
        None \<Rightarrow> Inl TooDeep
      | Some s \<Rightarrow> if s = k then Inr (Some (Suc i)) else assoc_find str k (i + 2) r)"
| "assoc_find str k i _ = Inr None"

definition str_key :: "'f Value \<Rightarrow> bool" where
  "str_key key = (case key of V_STRING s \<Rightarrow> \<not> look_is_int_key s | _ \<Rightarrow> False)"

text \<open>A numeric index; a negative one counts from the end.\<close>

definition num_index :: "'f float_ops \<Rightarrow> 'f Value \<Rightarrow> nat \<Rightarrow> int" where
  "num_index F key n = (let i = sint (to_int F key) in if i < 0 then i + int n else i)"

definition vm_array_get ::
    "'f float_ops \<Rightarrow> ('f Value \<Rightarrow> string option) \<Rightarrow> 'f arrays \<Rightarrow> 'f Value \<Rightarrow> 'f Value \<Rightarrow> idx_error + 'f Value" where
  "vm_array_get F str A arr key =
     (case arr of
        V_ARRAY a \<Rightarrow>
          (let vec = A ! a in
           if is_assoc vec then
             (case str key of
                None \<Rightarrow> Inl TooDeep
              | Some k \<Rightarrow>
                  (case assoc_find str k (assoc_start vec) (drop (assoc_start vec) vec) of
                     Inl e \<Rightarrow> Inl e
                   | Inr None \<Rightarrow> Inr V_NONE
                   | Inr (Some i) \<Rightarrow> Inr (vec ! i)))
           else if str_key key then Inr V_NONE
           else let i = num_index F key (length vec)
                in if i < 0 \<or> int (length vec) \<le> i then Inl (OutOfBounds (sint (to_int F key)))
                   else Inr (vec ! nat i))
      | _ \<Rightarrow> Inr V_NONE)"

definition list_to_assoc :: "'f Value list \<Rightarrow> 'f Value list" where
  "list_to_assoc vec =
     ASSOC # concat (map (\<lambda>i. [V_STRING (nat_str i), vec ! i]) [0..<length vec])"

text \<open>Writing into the vector; the key of a new entry is always a string.\<close>

definition vm_vec_set ::
    "'f float_ops \<Rightarrow> ('f Value \<Rightarrow> string option) \<Rightarrow> 'f Value list \<Rightarrow> 'f Value \<Rightarrow> 'f Value \<Rightarrow> idx_error + 'f Value list" where
  "vm_vec_set F str vec key val =
     (if is_assoc vec \<or> str_key key then
        (case str key of
           None \<Rightarrow> Inl TooDeep
         | Some k \<Rightarrow>
             let vec1 = (if is_assoc vec then vec else list_to_assoc vec)
             in case assoc_find str k (assoc_start vec1) (drop (assoc_start vec1) vec1) of
                  Inl e \<Rightarrow> Inl e
                | Inr (Some i) \<Rightarrow> Inr (vec1[i := val])
                | Inr None \<Rightarrow> Inr (vec1 @ [V_STRING k, val]))
      else let i = num_index F key (length vec)
           in if i = int (length vec) then Inr (vec @ [val])
              else if i < 0 \<or> int (length vec) < i then Inl (OutOfBounds (sint (to_int F key)))
              else Inr (vec[nat i := val]))"

text \<open>The result is the error, if any, with the target (a null target becomes a new array before anything else) and the
  arrays.\<close>

definition vm_array_set ::
    "'f float_ops \<Rightarrow> ('f Value \<Rightarrow> string option) \<Rightarrow> 'f arrays \<Rightarrow> 'f Value \<Rightarrow> 'f Value \<Rightarrow> 'f Value \<Rightarrow>
       idx_error option \<times> 'f Value \<times> 'f arrays" where
  "vm_array_set F str A arr0 key val =
     (let (arr, A1) = (case arr0 of V_NONE \<Rightarrow> (V_ARRAY (length A), A @ [[]]) | _ \<Rightarrow> (arr0, A))
      in case arr of
           V_STRING s \<Rightarrow> (Some ImmutableString, arr, A1)
         | V_ARRAY a \<Rightarrow>
             (case vm_vec_set F str (A1 ! a) key val of
                Inl e \<Rightarrow> (Some e, arr, A1)
              | Inr vec \<Rightarrow> (None, arr, A1[a := vec]))
         | _ \<Rightarrow> (None, arr, A1))"

definition vm_get_field ::
    "'f float_ops \<Rightarrow> ('f Value \<Rightarrow> string option) \<Rightarrow> 'f arrays \<Rightarrow> 'f Value \<Rightarrow> string \<Rightarrow> idx_error + 'f Value" where
  "vm_get_field F str A obj field = vm_array_get F str A obj (V_STRING field)"

definition vm_set_field ::
    "'f float_ops \<Rightarrow> ('f Value \<Rightarrow> string option) \<Rightarrow> 'f arrays \<Rightarrow> 'f Value \<Rightarrow> string \<Rightarrow> 'f Value \<Rightarrow>
       idx_error option \<times> 'f Value \<times> 'f arrays" where
  "vm_set_field F str A obj field val = vm_array_set F str A obj (V_STRING field) val"

subsection \<open>The interpreter\<close>

definition index_expression ::
    "'f float_ops \<Rightarrow> ('f Value \<Rightarrow> string option) \<Rightarrow> 'f arrays \<Rightarrow> 'f Value \<Rightarrow> 'f Value \<Rightarrow> idx_error + 'f Value" where
  "index_expression F str A obj idx =
     (case obj of
        V_ARRAY a \<Rightarrow>
          (let arr = A ! a;
               rest = (if str_key idx then Inr V_NONE
                       else let i = num_index F idx (length arr)
                            in if i < 0 \<or> int (length arr) \<le> i then Inl (OutOfBounds i) else Inr (arr ! nat i))
           in case idx of
                V_STRING key \<Rightarrow>
                  if is_assoc arr then
                    (case assoc_find str key 1 (drop 1 arr) of
                       Inl e \<Rightarrow> Inl e
                     | Inr None \<Rightarrow> Inr V_NONE
                     | Inr (Some i) \<Rightarrow> Inr (arr ! i))
                  else rest
              | _ \<Rightarrow> rest)
      | _ \<Rightarrow> Inl NotAnArray)"

definition op_result :: "value_error + 'f Value \<Rightarrow> idx_error + 'f Value" where
  "op_result r = (case r of Inl e \<Rightarrow> Inl (OpFailed e) | Inr v \<Rightarrow> Inr v)"

definition val_concat :: "('f Value \<Rightarrow> string option) \<Rightarrow> 'f Value \<Rightarrow> 'f Value \<Rightarrow> idx_error + 'f Value" where
  "val_concat str x y =
     (case (str x, str y) of (Some s, Some t) \<Rightarrow> Inr (V_STRING (s @ t)) | _ \<Rightarrow> Inl TooDeep)"

definition apply_op ::
    "'f float_ops \<Rightarrow> ('f Value \<Rightarrow> string option) \<Rightarrow> string \<Rightarrow> 'f Value \<Rightarrow> 'f Value \<Rightarrow> idx_error + 'f Value" where
  "apply_op F str op cur val =
     (if op = ''='' then Inr val
      else if op = ''+='' then op_result (val_add F cur val)
      else if op = ''-='' then op_result (val_sub F cur val)
      else if op = ''*='' then op_result (val_mul F cur val)
      else if op = ''/='' then op_result (val_div F cur val)
      else if op = ''%='' then op_result (val_mod F cur val)
      else if op = ''.='' then val_concat str cur val
      else if op = ''&='' then Inr (bitwise_and F cur val)
      else if op = ''|='' then Inr (bitwise_or F cur val)
      else if op = ''^='' then Inr (bitwise_xor F cur val)
      else Inr val)"

definition index_assignment ::
    "'f float_ops \<Rightarrow> ('f Value \<Rightarrow> string option) \<Rightarrow> string \<Rightarrow> 'f arrays \<Rightarrow> 'f Value \<Rightarrow> 'f Value \<Rightarrow> 'f Value \<Rightarrow>
       (idx_error + 'f Value) \<times> 'f arrays" where
  "index_assignment F str op A obj idx val =
     (case obj of
        V_STRING s \<Rightarrow> (Inl ImmutableString, A)
      | V_ARRAY a \<Rightarrow>
          (let arr = (if str_key idx \<and> \<not> is_assoc (A ! a) then list_to_assoc (A ! a) else A ! a);
               store = (\<lambda>r g. case r of Inl e \<Rightarrow> (Inl e, A[a := arr]) | Inr nv \<Rightarrow> (Inr nv, A[a := g nv]));
               numeric = (let i = num_index F idx (length arr)
                          in if i = int (length arr) then store (apply_op F str op V_NONE val) (\<lambda>nv. arr @ [nv])
                             else if 0 \<le> i \<and> i < int (length arr)
                             then store (apply_op F str op (arr ! nat i) val) (\<lambda>nv. arr[nat i := nv])
                             else (Inl (OutOfBounds i), A[a := arr]))
           in case idx of
                V_STRING key \<Rightarrow>
                  if is_assoc arr then
                    (case assoc_find str key 1 (drop 1 arr) of
                       Inl e \<Rightarrow> (Inl e, A[a := arr])
                     | Inr (Some i) \<Rightarrow> store (apply_op F str op (arr ! i) val) (\<lambda>nv. arr[i := nv])
                     | Inr None \<Rightarrow> store (apply_op F str op V_NONE val) (\<lambda>nv. arr @ [V_STRING key, nv]))
                  else numeric
              | _ \<Rightarrow> numeric)
      | _ \<Rightarrow> (Inl NotAnArray, A))"

subsection \<open>Maps\<close>

definition flat :: "(string \<times> 'f Value) list \<Rightarrow> 'f Value list" where
  "flat kvs = concat (map (\<lambda>(k, v). [V_STRING k, v]) kvs)"

text \<open>The vector holds the entries \<open>kvs\<close>, as a plain map or as an instance of a struct.\<close>

definition holds_map :: "'f Value list \<Rightarrow> (string \<times> 'f Value) list \<Rightarrow> bool" where
  "holds_map vec kvs \<longleftrightarrow>
     (vec = ASSOC # flat kvs \<and> (kvs = [] \<or> fst (hd kvs) \<noteq> ''__struct__'')) \<or>
     (\<exists>nm. vec = ASSOC # V_STRING ''__struct__'' # V_STRING nm # flat kvs)"

lemma flat_simps [simp]: "flat [] = []" "flat ((k, v) # kvs) = V_STRING k # v # flat kvs"
  "flat (kvs @ kvs') = flat kvs @ flat kvs'" "length (flat kvs) = 2 * length kvs"
  by (induction kvs) (auto simp: flat_def)

lemma holds_map_start:
  assumes "holds_map vec kvs"
  shows "is_assoc vec" "drop (assoc_start vec) vec = flat kvs" "length vec = assoc_start vec + 2 * length kvs"
  using assms by (cases kvs; auto simp: holds_map_def is_assoc_def assoc_start_def)+

fun key_pos :: "string \<Rightarrow> (string \<times> 'f Value) list \<Rightarrow> nat option" where
  "key_pos k [] = None"
| "key_pos k ((k', v) # kvs) = (if k' = k then Some 0 else map_option Suc (key_pos k kvs))"

lemma assoc_find_flat:
  assumes "\<And>s. str (V_STRING s) = Some s"
  shows "assoc_find str k i (flat kvs) = Inr (map_option (\<lambda>j. Suc (i + 2 * j)) (key_pos k kvs))"
  by (induction kvs arbitrary: i) (auto simp: assms option.map_comp comp_def)

lemma key_pos_map_of:
  "key_pos k kvs = None \<longleftrightarrow> map_of kvs k = None" "key_pos k kvs = Some j \<Longrightarrow> map_of kvs k = Some (snd (kvs ! j)) \<and> j < length kvs"
proof -
  show "key_pos k kvs = None \<longleftrightarrow> map_of kvs k = None" by (induction kvs) auto
  show "key_pos k kvs = Some j \<Longrightarrow> map_of kvs k = Some (snd (kvs ! j)) \<and> j < length kvs"
    by (induction kvs arbitrary: j) (auto split: if_splits)
qed

lemma flat_nth: "j < length kvs \<Longrightarrow> flat kvs ! Suc (2 * j) = snd (kvs ! j)"
proof (induction kvs arbitrary: j)
  case (Cons kv kvs)
  then show ?case by (cases j; cases kv) auto
qed simp

lemma flat_update: "key_pos k kvs = Some j \<Longrightarrow> (flat kvs)[Suc (2 * j) := v] = flat (AList.update k v kvs)"
  by (induction kvs arbitrary: j) (auto split: if_splits)

lemma update_new: "key_pos k kvs = None \<Longrightarrow> AList.update k v kvs = kvs @ [(k, v)]"
  by (induction kvs) auto

lemma hd_update: "kvs \<noteq> [] \<Longrightarrow> fst (hd (AList.update k v kvs)) = fst (hd kvs)"
  by (cases kvs) auto

lemma holds_map_update:
  assumes "holds_map vec kvs" "k \<noteq> ''__struct__''"
  shows "holds_map (case key_pos k kvs of None \<Rightarrow> vec @ [V_STRING k, v] | Some j \<Rightarrow> vec[assoc_start vec + Suc (2 * j) := v])
    (AList.update k v kvs)"
proof (cases "key_pos k kvs")
  case None
  then show ?thesis using assms by (cases kvs) (auto simp: holds_map_def update_new)
next
  case (Some j)
  then have "kvs \<noteq> []" by auto
  have u: "(flat kvs)[Suc (2 * j) := v] = flat (AList.update k v kvs)" using Some by (rule flat_update)
  show ?thesis
  proof (cases "assoc_start vec = 1")
    case True
    then have "vec = ASSOC # flat kvs" "fst (hd kvs) \<noteq> ''__struct__''"
      using assms(1) \<open>kvs \<noteq> []\<close> by (auto simp: holds_map_def assoc_start_def)
    then show ?thesis using Some u True hd_update [OF \<open>kvs \<noteq> []\<close>] by (auto simp: holds_map_def)
  next
    case False
    then obtain nm where "vec = ASSOC # V_STRING ''__struct__'' # V_STRING nm # flat kvs" "assoc_start vec = 3"
      using assms(1) \<open>kvs \<noteq> []\<close> by (cases kvs) (auto simp: holds_map_def assoc_start_def)
    then show ?thesis using Some u by (auto simp: holds_map_def numeral_eq_Suc)
  qed
qed

lemma map_get:
  assumes "\<And>s. str (V_STRING s) = Some s" "holds_map (A ! a) kvs" "str key = Some k"
  shows "vm_array_get F str A (V_ARRAY a) key = Inr (case map_of kvs k of None \<Rightarrow> V_NONE | Some v \<Rightarrow> v)"
proof -
  note h = holds_map_start [OF assms(2)]
  have n: "A ! a ! (assoc_start (A ! a) + i) = flat kvs ! i" for i
    using h(3) by (subst h(2) [symmetric]) (auto simp: nth_drop)
  show ?thesis
    using h(1) key_pos_map_of [of k kvs] flat_nth n [of "Suc (2 * _)"]
    by (auto simp: vm_array_get_def Let_def assms(3) h(2) assoc_find_flat [OF assms(1)] split: option.split)
qed

lemma map_set:
  assumes "\<And>s. str (V_STRING s) = Some s" "holds_map vec kvs" "str key = Some k" "k \<noteq> ''__struct__''"
  shows "\<exists>vec'. vm_vec_set F str vec key val = Inr vec' \<and> holds_map vec' (AList.update k val kvs)"
  using holds_map_start [OF assms(2)] holds_map_update [OF assms(2,4), of val]
  by (auto simp: vm_vec_set_def assms(3) Let_def assoc_find_flat [OF assms(1)] split: option.splits)

subsection \<open>Lists\<close>

lemma nat_str_digits: "list_all isdigit (nat_str n)" "nat_str n \<noteq> []"
proof -
  have d: "isdigit (char_of (48 + k))" if "k < 10" for k :: nat
    using that by (simp add: isdigit_def code_of_def)
  show "list_all isdigit (nat_str n)"
    by (induction n rule: nat_str.induct) (subst nat_str.simps, auto simp: d)
  show "nat_str n \<noteq> []" by (subst nat_str.simps) auto
qed

lemma digits_value_snoc:
  "list_all isdigit xs \<Longrightarrow> isdigit c \<Longrightarrow> digits_value acc (xs @ [c]) = digits_value acc xs * 10 + int (code_of c) - 48"
  by (induction xs arbitrary: acc) auto

lemma digits_value_nat_str: "digits_value 0 (nat_str n) = int n"
proof (induction n rule: nat_str.induct)
  case (1 n)
  have c: "int (code_of (char_of (48 + k))) - 48 = int k" "isdigit (char_of (48 + k))" if "k < 10" for k :: nat
    using that by (simp_all add: code_of_def isdigit_def)
  show ?case
  proof (cases "n < 10")
    case True
    then show ?thesis using c [of n] by (simp add: nat_str.simps [of n])
  next
    case False
    have "digits_value 0 (nat_str n) = int (n div 10) * 10 + int (n mod 10)"
      using False "1.IH" c [of "n mod 10"] digits_value_snoc [OF nat_str_digits(1) c(2)]
      by (simp add: nat_str.simps [of n])
    also have "\<dots> = int n" using div_mult_mod_eq [of n 10] by linarith
    finally show ?thesis .
  qed
qed

lemma nat_str_inj: "nat_str m = nat_str n \<longleftrightarrow> m = n"
  by (metis digits_value_nat_str of_nat_eq_iff)

lemma nat_str_int_key: "look_is_int_key (nat_str n)"
  using nat_str_digits [of n]
  by (cases "nat_str n") (auto simp: look_is_int_key_def Let_def isdigit_def code_of_def)

definition list_entries :: "'f Value list \<Rightarrow> (string \<times> 'f Value) list" where
  "list_entries vec = map (\<lambda>i. (nat_str i, vec ! i)) [0..<length vec]"

lemma list_to_assoc_holds: "holds_map (list_to_assoc vec) (list_entries vec)"
proof -
  have "flat (list_entries vec) = concat (map (\<lambda>i. [V_STRING (nat_str i), vec ! i]) [0..<length vec])"
    by (simp add: flat_def list_entries_def comp_def)
  moreover have "fst (hd (list_entries vec)) \<noteq> ''__struct__''" if "vec \<noteq> []"
    using that nat_str_digits(1) [of 0] by (auto simp: list_entries_def hd_map isdigit_def code_of_def)
  ultimately show ?thesis by (auto simp: holds_map_def list_to_assoc_def list_entries_def)
qed

lemma list_entries_map_of: "map_of (list_entries vec) (nat_str i) = (if i < length vec then Some (vec ! i) else None)"
proof -
  have d: "distinct (map fst (list_entries vec))"
    by (auto simp: list_entries_def comp_def distinct_map inj_on_def nat_str_inj)
  show ?thesis
  proof (cases "i < length vec")
    case True
    then have "(nat_str i, vec ! i) \<in> set (list_entries vec)" by (auto simp: list_entries_def)
    then show ?thesis using True d by simp
  next
    case False
    then have "nat_str i \<notin> fst ` set (list_entries vec)" by (auto simp: list_entries_def nat_str_inj)
    then show ?thesis using False by (simp add: map_of_eq_None_iff)
  qed
qed

lemma to_string_nat: "i < 2 ^ 63 \<Longrightarrow> to_string fmt A n (V_INT (word_of_nat i)) = Some (nat_str i)"
proof -
  assume "i < 2 ^ 63"
  then have "fits_i64 (int i)" by (simp add: fits_i64_def)
  then have "sint (word_of_int (int i) :: u64) = int i" by (rule sint_of_fits)
  then show ?thesis by (simp add: int_str_def)
qed

subsection \<open>Properties\<close>



text \<open>Giving a list its first named entry turns it into a map that keeps every element: element \<open>i\<close> is the entry with
  the text of \<open>i\<close> as its key, and the virtual machine still finds it under the number.\<close>

theorem vm_list_to_map_keeps_elements:
  assumes "a < length A" "\<not> is_assoc (A ! a)" "\<not> look_is_int_key s" "s \<noteq> ''__struct__''" "length (A ! a) < 2 ^ 63"
  shows "\<exists>vec. vm_array_set F (to_string fmt A n) A (V_ARRAY a) (V_STRING s) val = (None, V_ARRAY a, A[a := vec]) \<and>
    holds_map vec (list_entries (A ! a) @ [(s, val)]) \<and>
    (\<forall>i < length (A ! a). vm_array_get F (to_string fmt (A[a := vec]) n) (A[a := vec]) (V_ARRAY a) (V_INT (word_of_nat i)) =
       Inr (A ! a ! i))"
proof -
  let ?str = "to_string fmt A n" and ?m = "list_to_assoc (A ! a)" and ?e = "list_entries (A ! a)"
  have sk: "str_key (V_STRING s :: 'a Value)" using assms(3) by (simp add: str_key_def)
  have ia: "is_assoc ?m" using list_to_assoc_holds by (rule holds_map_start)
  have "vm_vec_set F ?str (A ! a) (V_STRING s) val = vm_vec_set F ?str ?m (V_STRING s) val"
    using assms(2) sk ia by (simp add: vm_vec_set_def)
  then obtain vec where v: "vm_vec_set F ?str (A ! a) (V_STRING s) val = Inr vec" "holds_map vec (AList.update s val ?e)"
    using map_set [where str = ?str and key = "V_STRING s" and F = F and val = val and k = s] list_to_assoc_holds [of "A ! a"]
      assms(4) by auto
  have "s \<notin> fst ` set ?e" using assms(3) nat_str_int_key by (auto simp: list_entries_def)
  then have "AList.update s val ?e = ?e @ [(s, val)]" by (intro update_new) (simp add: key_pos_map_of map_of_eq_None_iff)
  then have h: "holds_map vec (?e @ [(s, val)])" using v(2) by simp
  have "vm_array_get F (to_string fmt (A[a := vec]) n) (A[a := vec]) (V_ARRAY a) (V_INT (word_of_nat i)) = Inr (A ! a ! i)"
    if "i < length (A ! a)" for i
  proof -
    have "to_string fmt (A[a := vec]) n (V_INT (word_of_nat i)) = Some (nat_str i)"
      using that assms(5) by (intro to_string_nat) simp
    moreover have "map_of (?e @ [(s, val)]) (nat_str i) = Some (A ! a ! i)"
      using that by (simp add: map_add_Some_iff list_entries_map_of map_of_eq_None_iff)
    ultimately show ?thesis
      using map_get [of "to_string fmt (A[a := vec]) n" "A[a := vec]" a "?e @ [(s, val)]"] h assms(1) by simp
  qed
  then show ?thesis using v(1) h by (auto simp: vm_array_set_def)
qed

theorem vm_list_to_map_keeps_elements_witness:
  "\<exists>vec. vm_array_set int_floats (to_string (\<lambda>d. []) [[V_INT 5, V_INT 6]] 1) [[V_INT 5, V_INT 6]] (V_ARRAY 0) (V_STRING ''k'') V_NONE =
       (None, V_ARRAY 0, [vec]) \<and> holds_map vec [(nat_str 0, V_INT 5), (nat_str 1, V_INT 6), (''k'', V_NONE)]"
  using vm_list_to_map_keeps_elements [of 0 "[[V_INT 5, V_INT 6]]" "''k''" int_floats "\<lambda>d. []" 1 V_NONE]
  by (auto simp: is_assoc_def ASSOC_def look_is_int_key_def isdigit_def code_of_def list_entries_def upt_rec)

text \<open>Two results agree when both are the same value or both are errors.\<close>

definition same_outcome :: "idx_error + 'v \<Rightarrow> idx_error + 'v \<Rightarrow> bool" where
  "same_outcome r s = (case (r, s) of (Inr x, Inr y) \<Rightarrow> x = y | (Inl d, Inl e) \<Rightarrow> True | _ \<Rightarrow> False)"

lemma same_outcome_simps [simp]: "same_outcome r r" "same_outcome (Inl d) (Inl e)"
  by (auto simp: same_outcome_def split: sum.splits)

text \<open>The keys on which the two engines share a contract: any key of a list, a string key of a map.\<close>

definition plain_key :: "'f Value list \<Rightarrow> 'f Value \<Rightarrow> bool" where
  "plain_key vec key \<longleftrightarrow>
     (if is_assoc vec then (case key of V_STRING s \<Rightarrow> s \<noteq> ''__struct__'' | _ \<Rightarrow> False) else key \<noteq> V_STRING ''__struct__'')"

lemma assoc_find_struct:
  assumes "\<And>s. str (V_STRING s) = Some s" "is_assoc vec" "k \<noteq> ''__struct__''"
  shows "assoc_find str k 1 (drop 1 vec) = assoc_find str k (assoc_start vec) (drop (assoc_start vec) vec)"
proof (cases "2 < length vec \<and> vec ! 1 = V_STRING ''__struct__''")
  case True
  then obtain x nm r where "vec = x # V_STRING ''__struct__'' # nm # r"
    by (cases vec rule: remdups_adj.cases; cases "tl (tl vec)") auto
  then show ?thesis using assms by (simp add: assoc_start_def numeral_3_eq_3)
qed (auto simp: assoc_start_def)

lemma index_read_agrees:
  assumes "plain_key (A ! a) key"
  shows "same_outcome (vm_array_get F (to_string fmt A n) A (V_ARRAY a) key) (index_expression F (to_string fmt A n) A (V_ARRAY a) key)"
proof (cases "is_assoc (A ! a)")
  case True
  then obtain s where s: "key = V_STRING s" "s \<noteq> ''__struct__''"
    using assms by (auto simp: plain_key_def split: Value.splits)
  then show ?thesis
    using True assoc_find_struct [of "to_string fmt A n" "A ! a" s] by (simp add: vm_array_get_def index_expression_def Let_def)
next
  case False
  then show ?thesis
    by (cases key) (simp_all add: vm_array_get_def index_expression_def Let_def)
qed

lemma index_write_map:
  assumes "is_assoc vec" "s \<noteq> ''__struct__''" "vec = (if is_assoc (A ! a) then A ! a else list_to_assoc (A ! a))"
    "is_assoc (A ! a) \<or> \<not> look_is_int_key s"
  shows "index_assignment F (to_string fmt A n) ''='' A (V_ARRAY a) (V_STRING s) val =
    (case assoc_find (to_string fmt A n) s (assoc_start vec) (drop (assoc_start vec) vec) of
       Inl e \<Rightarrow> (Inl e, A[a := vec])
     | Inr (Some i) \<Rightarrow> (Inr val, A[a := vec[i := val]])
     | Inr None \<Rightarrow> (Inr val, A[a := vec @ [V_STRING s, val]]))"
proof -
  have e: "(if str_key (V_STRING s :: 'a Value) \<and> \<not> is_assoc (A ! a) then list_to_assoc (A ! a) else A ! a) = vec"
    using assms(3,4) by (auto simp: str_key_def)
  have f: "assoc_find (to_string fmt A n) s 1 (drop 1 vec) =
      assoc_find (to_string fmt A n) s (assoc_start vec) (drop (assoc_start vec) vec)"
    using assms(1,2) by (intro assoc_find_struct) simp_all
  have o: "apply_op F (to_string fmt A n) ''='' c val = Inr val" for c by (simp add: apply_op_def)
  show ?thesis
    unfolding index_assignment_def by (simp only: Value.case Let_def e f o assms(1) if_True sum.case)
qed

lemma index_write_agrees:
  assumes "plain_key (A ! a) key"
  shows "case vm_array_set F (to_string fmt A n) A (V_ARRAY a) key val of (e, v, A1) \<Rightarrow>
       case index_assignment F (to_string fmt A n) ''='' A (V_ARRAY a) key val of
         (Inl e', A2) \<Rightarrow> e \<noteq> None \<and> A1 = A2 | (Inr w, A2) \<Rightarrow> e = None \<and> w = val \<and> A1 = A2"
proof (cases "is_assoc (A ! a) \<or> str_key key")
  case True
  then obtain s where s: "key = V_STRING s" "s \<noteq> ''__struct__''" "is_assoc (A ! a) \<or> \<not> look_is_int_key s"
    using assms by (auto simp: plain_key_def str_key_def split: Value.splits if_splits)
  let ?vec = "if is_assoc (A ! a) then A ! a else list_to_assoc (A ! a)"
  have m: "is_assoc ?vec" using holds_map_start(1) [OF list_to_assoc_holds [of "A ! a"]] by simp
  have "assoc_find (to_string fmt A n) s (assoc_start ?vec) (drop (assoc_start ?vec) ?vec) \<noteq> Inl e" if "\<not> is_assoc (A ! a)" for e
    using that holds_map_start(2) [OF list_to_assoc_holds, of "A ! a"] by (simp add: assoc_find_flat)
  then show ?thesis
    unfolding s(1) index_write_map [OF m s(2) refl s(3)]
    using True s(1) by (auto simp: vm_array_set_def vm_vec_set_def Let_def split: sum.split option.split)
next
  case False
  have "index_assignment F (to_string fmt A n) ''='' A (V_ARRAY a) key val =
    (let i = num_index F key (length (A ! a)) in
     if i = int (length (A ! a)) then (Inr val, A[a := A ! a @ [val]])
     else if 0 \<le> i \<and> i < int (length (A ! a)) then (Inr val, A[a := (A ! a)[nat i := val]])
     else (Inl (OutOfBounds i), A))"
    using False by (cases key) (simp_all add: index_assignment_def Let_def apply_op_def)
  then show ?thesis using False by (simp add: vm_array_set_def vm_vec_set_def Let_def)
qed




text \<open>The marker is in-band: writing the text \<^verbatim>\<open>__assoc__\<close> as the first element of a list makes it a map, and the
  element is gone.\<close>

lemma marker_text_turns_list_into_map:
  "vm_array_set F str [[]] (V_ARRAY 0) (V_INT 0) (V_STRING ''__assoc__'') = (None, V_ARRAY 0, [[ASSOC]])"
  "str (V_INT 0) = Some k \<Longrightarrow> vm_array_get F str [[ASSOC]] (V_ARRAY 0) (V_INT 0) = Inr V_NONE"
  by (simp_all add: vm_array_set_def vm_vec_set_def vm_array_get_def Let_def is_assoc_def str_key_def num_index_def
      assoc_start_def ASSOC_def)

end
