(* ===== verification/Bytecode.thy ===== *)
theory Bytecode
  imports Indexing Wire
begin

text \<open>
  The bytecode of \<^verbatim>\<open>bytecode.h\<close> (instructions of four bytes, constant pools, function prototypes), the checked narrowing of
  operands in \<^verbatim>\<open>compiler.h\<close> and the emission primitives of \<^verbatim>\<open>FunctionCompiler\<close> (\<^verbatim>\<open>compiler.cpp\<close>).
  Prototypes and closures are shared by pointer, so they are named by addresses.
\<close>

datatype (plugins only: size) OpCode =
    LOAD_CONST | LOAD_CONST_W | LOAD_NULL | LOAD_TRUE | LOAD_FALSE | LOAD_INT
  | MOVE | LOAD_VAR | STORE_VAR | LOAD_GLOBAL | STORE_GLOBAL
  | ADD | SUB | MUL | DIV | MOD | POW | UNM
  | BAND | BOR | BXOR | BNOT | SHL | SHR
  | CONCAT | EQ | NEQ | LT | GT | LTE | GTE | CMP3
  | OP_NOT | COALESCE
  | NEW_ARRAY | NEW_ASSOC | ARRAY_GET | ARRAY_SET | ARRAY_PUSH | ARRAY_LEN
  | NEW_STRUCT | GET_FIELD | SET_FIELD
  | JUMP | JUMP_IF_FALSE | JUMP_IF_TRUE | JUMP_IF_NULL
  | CALL | CALL_BUILTIN | TAIL_CALL | RETURN | RETURN_NULL
  | MAKE_CLOSURE | LOAD_CAPTURE
  | FOR_PREP | FOR_STEP
  | TRY_PUSH | TRY_POP | THROW | LOAD_EXC | LOAD_ARGC
  | PARALLEL_CALL | CHAN_SEND | CHAN_RECV | CHAN_CLOSE | CHAN_SIZE
  | WS_SEND | WS_BROADCAST | SSE_SEND | ROUTE_MATCH
  | TYPE_OF | TO_INT | TO_FLOAT | TO_STR | TO_BOOL
  | NOP | BREAKPOINT | ASSOC_APPEND | CHECK_DEFINED

record Instruction =
  op :: OpCode
  ra :: u8
  rb :: u8
  rc :: u8

definition make_ins :: "OpCode \<Rightarrow> u8 \<Rightarrow> u8 \<Rightarrow> u8 \<Rightarrow> Instruction" where
  "make_ins opc a b c = \<lparr>op = opc, ra = a, rb = b, rc = c\<rparr>"

definition bx :: "Instruction \<Rightarrow> u16" where
  "bx i = be16 (rb i) (rc i)"

record 'f FunctionProto =
  pname :: string
  arity :: nat
  variadic :: bool
  reg_count :: nat
  constants :: "'f Value list"
  code :: "Instruction list"
  nested :: "addr list"
  lines :: "int list"
  params :: "string list"
  capture_is_cell :: "bool list"

record 'f Closure =
  cl_proto :: addr
  captures :: "'f Value list"

subsection \<open>Checked narrowing\<close>

text \<open>\<open>Rejected\<close> is any other message; \<open>Out_of_steps\<close> belongs to the model only (its recursion is bounded).\<close>

datatype compile_error = ExceedsLimit string nat | JumpTooFar | PoolOverflow | ImmediateRange
  | TooManyRegisters | Rejected string | Out_of_steps

definition to_u8 :: "int \<Rightarrow> string \<Rightarrow> compile_error + u8" where
  "to_u8 v what = (if v < 0 \<or> 0xFF < v then Inl (ExceedsLimit what 255) else Inr (word_of_int v))"

definition to_u16 :: "int \<Rightarrow> string \<Rightarrow> compile_error + u16" where
  "to_u16 v what = (if v < 0 \<or> 0xFFFF < v then Inl (ExceedsLimit what 65535) else Inr (word_of_int v))"

definition hi8 :: "int \<Rightarrow> compile_error + u8" where
  "hi8 v = (case to_u16 v ''16-bit operand'' of Inl e \<Rightarrow> Inl e | Inr w \<Rightarrow> Inr (ucast (drop_bit 8 w)))"

definition lo8 :: "int \<Rightarrow> compile_error + u8" where
  "lo8 v = (case to_u16 v ''16-bit operand'' of Inl e \<Rightarrow> Inl e | Inr w \<Rightarrow> Inr (ucast (w AND 0xFF)))"

definition hint_u8 :: "nat \<Rightarrow> u8" where
  "hint_u8 n = (if 255 < n then 255 else word_of_nat n)"

definition i8_bits :: "int \<Rightarrow> compile_error + u8" where
  "i8_bits v = (if v < - 128 \<or> 127 < v then Inl ImmediateRange else Inr (word_of_int v))"

subsection \<open>Emission\<close>

record 'f emitter =
  proto :: "'f FunctionProto"
  cur_line :: int

definition emit :: "OpCode \<Rightarrow> u8 \<Rightarrow> u8 \<Rightarrow> u8 \<Rightarrow> ('f, 'z) emitter_scheme \<Rightarrow> nat \<times> ('f, 'z) emitter_scheme" where
  "emit opc a b c e =
     (length (code (proto e)),
      e\<lparr>proto := (proto e)\<lparr>code := code (proto e) @ [make_ins opc a b c], lines := lines (proto e) @ [cur_line e]\<rparr>\<rparr>)"

definition emit_jump :: "OpCode \<Rightarrow> u8 \<Rightarrow> ('f, 'z) emitter_scheme \<Rightarrow> nat \<times> ('f, 'z) emitter_scheme" where
  "emit_jump opc r e = emit opc r 0 0 e"

definition patch_jump :: "nat \<Rightarrow> int \<Rightarrow> ('f, 'z) emitter_scheme \<Rightarrow> compile_error + ('f, 'z) emitter_scheme" where
  "patch_jump offset target e =
     (if 0xFFFF < target then Inl JumpTooFar
      else case hi8 target of
             Inl er \<Rightarrow> Inl er
           | Inr hi \<Rightarrow>
               (case lo8 target of
                  Inl er \<Rightarrow> Inl er
                | Inr lo \<Rightarrow>
                    let c = code (proto e)
                    in Inr (e\<lparr>proto := (proto e)\<lparr>code := c[offset := (c ! offset)\<lparr>rb := hi, rc := lo\<rparr>]\<rparr>\<rparr>)))"

text \<open>The first index from \<open>i\<close> on whose constant equals \<open>v\<close> by the equality of the language.\<close>

fun find_const :: "'f float_ops \<Rightarrow> 'f Value \<Rightarrow> 'f Value list \<Rightarrow> nat \<Rightarrow> nat option" where
  "find_const F v [] i = None"
| "find_const F v (w # ws) i = (if val_eq F w v then Some i else find_const F v ws (Suc i))"

definition add_const :: "'f float_ops \<Rightarrow> 'f Value \<Rightarrow> ('f, 'z) emitter_scheme \<Rightarrow> compile_error + u16 \<times> ('f, 'z) emitter_scheme" where
  "add_const F v e =
     (case find_const F v (constants (proto e)) 0 of
        Some i \<Rightarrow> (case to_u16 (int i) ''constant index'' of Inl er \<Rightarrow> Inl er | Inr w \<Rightarrow> Inr (w, e))
      | None \<Rightarrow>
          let cs = constants (proto e) in
          if 0xFFFF \<le> length cs then Inl PoolOverflow
          else case to_u16 (int (length cs)) ''constant index'' of
                 Inl er \<Rightarrow> Inl er
               | Inr w \<Rightarrow> Inr (w, e\<lparr>proto := (proto e)\<lparr>constants := cs @ [v]\<rparr>\<rparr>))"

definition emit_load_const :: "'f float_ops \<Rightarrow> u8 \<Rightarrow> 'f Value \<Rightarrow> ('f, 'z) emitter_scheme \<Rightarrow> compile_error + ('f, 'z) emitter_scheme" where
  "emit_load_const F dest v e =
     (let pooled =
        (case add_const F v e of
           Inl er \<Rightarrow> Inl er
         | Inr (idx, e') \<Rightarrow>
             if unat idx < 256 then
               (case to_u8 (int (unat idx)) ''constant index'' of
                  Inl er \<Rightarrow> Inl er | Inr i \<Rightarrow> Inr (snd (emit LOAD_CONST dest i 0 e')))
             else (case (hi8 (int (unat idx)), lo8 (int (unat idx))) of
                     (Inr h, Inr l) \<Rightarrow> Inr (snd (emit LOAD_CONST_W dest h l e'))
                   | (Inl er, _) \<Rightarrow> Inl er | (_, Inl er) \<Rightarrow> Inl er))
      in case v of
           V_INT i \<Rightarrow>
             if - 128 \<le> sint i \<and> sint i \<le> 127 then
               (case i8_bits (sint i) of Inl er \<Rightarrow> Inl er | Inr b \<Rightarrow> Inr (snd (emit LOAD_INT dest b 0 e)))
             else pooled
         | V_NONE \<Rightarrow> Inr (snd (emit LOAD_NULL dest 0 0 e))
         | V_BOOL b \<Rightarrow> Inr (snd (emit (if b then LOAD_TRUE else LOAD_FALSE) dest 0 0 e))
         | _ \<Rightarrow> pooled)"

subsection \<open>Operands\<close>

lemma to_u16_unat: "v \<le> 65535 \<Longrightarrow> to_u16 (int v) what = Inr (word_of_nat v)"
  by (simp add: to_u16_def)

lemma to_u8_unat: "v \<le> 255 \<Longrightarrow> to_u8 (int v) what = Inr (word_of_nat v)"
  by (simp add: to_u8_def)

lemma unat_u16: "v \<le> 65535 \<Longrightarrow> unat (word_of_nat v :: u16) = v"
  by (simp add: unsigned_of_nat take_bit_nat_eq_self)

lemma operand16:
  assumes "v \<le> 65535"
  obtains h l where "hi8 (int v) = Inr h" "lo8 (int v) = Inr l" "unat (be16 h l) = v"
proof -
  have "be16 (ucast (drop_bit 8 (word_of_nat v :: u16))) (ucast (word_of_nat v AND 0xFF :: u16)) = (word_of_nat v :: u16)"
    by (rule be16_split)
  then show ?thesis using that unat_u16 [OF assms] assms by (simp add: hi8_def lo8_def to_u16_unat)
qed

lemma sint_u8: "- 128 \<le> v \<Longrightarrow> v \<le> 127 \<Longrightarrow> sint (word_of_int v :: u8) = v"
  by (simp add: signed_of_int signed_take_bit_int_eq_self)

text \<open>C11: No operand is ever cut off: what goes into an 8-bit, 16-bit or signed 8-bit field comes back unchanged or the
  program does not compile.\<close>

theorem operands_never_wrap:
  "(case to_u8 v what of Inr w \<Rightarrow> uint w = v | Inl e \<Rightarrow> v < 0 \<or> 255 < v) \<and>
   (case (hi8 v, lo8 v) of (Inr h, Inr l) \<Rightarrow> uint (bx (make_ins opc a h l)) = v | (Inl e, Inl e') \<Rightarrow> v < 0 \<or> 65535 < v | _ \<Rightarrow> False) \<and>
   (case i8_bits v of Inr b \<Rightarrow> sint b = v | Inl e \<Rightarrow> v < - 128 \<or> 127 < v)"
proof -
  have 1: "case to_u8 v what of Inr w \<Rightarrow> uint w = v | Inl e \<Rightarrow> v < 0 \<or> 255 < v"
    by (simp add: to_u8_def unsigned_of_int take_bit_int_eq_self)
  have 3: "case i8_bits v of Inr b \<Rightarrow> sint b = v | Inl e \<Rightarrow> v < - 128 \<or> 127 < v"
    by (simp add: i8_bits_def sint_u8)
  have 2: "case (hi8 v, lo8 v) of (Inr h, Inr l) \<Rightarrow> uint (bx (make_ins opc a h l)) = v
      | (Inl e, Inl e') \<Rightarrow> v < 0 \<or> 65535 < v | _ \<Rightarrow> False"
  proof (cases "v < 0 \<or> 65535 < v")
    case True
    then show ?thesis by (simp add: hi8_def lo8_def to_u16_def)
  next
    case False
    then obtain n where n: "v = int n" using zero_le_imp_eq_int [of v] by auto
    with False have "n \<le> 65535" by simp
    then obtain h l where hl: "hi8 v = Inr h" "lo8 v = Inr l" "unat (be16 h l) = n" unfolding n by (rule operand16)
    then have "int (unat (be16 h l)) = v" by (simp only: n)
    then have "uint (be16 h l) = v" by simp
    then show ?thesis using hl(1,2) by (simp add: bx_def make_ins_def)
  qed
  show ?thesis using 1 2 3 by blast
qed

lemma find_const_Some:
  "find_const F v ws i = Some j \<Longrightarrow> i \<le> j \<and> j < i + length ws \<and> val_eq F (ws ! (j - i)) v"
proof (induction ws arbitrary: i)
  case (Cons w ws)
  show ?case
  proof (cases "val_eq F w v")
    case False
    then have "Suc i \<le> j \<and> j < Suc i + length ws \<and> val_eq F (ws ! (j - Suc i)) v"
      using Cons.IH [of "Suc i"] Cons.prems by simp
    then show ?thesis by (auto simp: nth_Cons')
  qed (use Cons.prems in simp)
qed simp

lemma add_const_ok:
  assumes "add_const F v e = Inr (idx, e')" "length (constants (proto e)) \<le> 65535"
  shows "unat idx < length (constants (proto e'))" "length (constants (proto e')) \<le> 65535"
    "take (length (constants (proto e))) (constants (proto e')) = constants (proto e)"
    "val_eq F (constants (proto e') ! unat idx) v \<or> constants (proto e') ! unat idx = v"
    "code (proto e') = code (proto e)" "lines (proto e') = lines (proto e)" "cur_line e' = cur_line e"
proof -
  have "unat idx < length (constants (proto e')) \<and> length (constants (proto e')) \<le> 65535 \<and>
    take (length (constants (proto e))) (constants (proto e')) = constants (proto e) \<and>
    (val_eq F (constants (proto e') ! unat idx) v \<or> constants (proto e') ! unat idx = v) \<and>
    code (proto e') = code (proto e) \<and> lines (proto e') = lines (proto e) \<and> cur_line e' = cur_line e"
  proof (cases "find_const F v (constants (proto e)) 0")
    case None
    then show ?thesis
      using assms unat_u16 [of "length (constants (proto e))"]
      by (auto simp: add_const_def Let_def to_u16_unat nth_append split: if_splits)
  next
    case (Some i)
    then show ?thesis
      using assms find_const_Some [OF Some] unat_u16 [of i] by (auto simp: add_const_def to_u16_unat)
  qed
  then show "unat idx < length (constants (proto e'))" "length (constants (proto e')) \<le> 65535"
    "take (length (constants (proto e))) (constants (proto e')) = constants (proto e)"
    "val_eq F (constants (proto e') ! unat idx) v \<or> constants (proto e') ! unat idx = v"
    "code (proto e') = code (proto e)" "lines (proto e') = lines (proto e)" "cur_line e' = cur_line e" by blast+
qed

text \<open>The pool is searched with the equality of the language, for which an integer and a float can be equal: a float literal is then
  loaded as the integer that came first.\<close>

lemma pool_merges_int_and_float:
  assumes "constants (proto e) = [V_INT i]" "f_eq F (f_of_int F (sint i)) d"
  shows "add_const F (V_FLOAT d) e = Inr (0, e)"
  using assms by (simp add: add_const_def val_eq_def val_is_number_def int_of_value_def to_float_def to_u16_def)

end
