(* ===== verification/Compile.thy ===== *)
theory Compile
  imports Bytecode Reg_Alloc Parser
begin

text \<open>
  The bytecode compiler: \<^verbatim>\<open>FunctionCompiler\<close> and \<^verbatim>\<open>Compiler\<close> of \<^verbatim>\<open>compiler.h\<close> / \<^verbatim>\<open>compiler.cpp\<close>. A computation takes the
  state of the compilation and gives a value or an error, and the state in either case, because some errors are caught and
  compilation goes on with what was emitted until then. The compilers of nested functions form a stack, the current one
  first, its parents behind it. The recursive calls go through the record \<open>cprocs\<close> and are bounded by a number of steps.

  Warnings about unused results are not modelled. Files and modules are read through functions of the configuration.
\<close>

subsection \<open>State\<close>

record LocalVar =
  lv_name :: string
  lv_reg :: nat
  lv_depth :: nat

record CaptureInfo =
  ci_name :: string
  capture_index :: nat
  is_cell :: bool

record LoopContext =
  break_patches :: "nat list"
  continue_patches :: "nat list"
  continue_target :: "nat option"
  is_switch :: bool
  finally_floor :: nat

datatype VarLoc = LOCAL nat | CAPTURE nat | GLOBAL

record 'f fc = "'f emitter" +
  ra :: reg_alloc
  locals :: "LocalVar list"
  fscope :: nat
  loop_depth :: nat
  callee_ctx :: bool
  outer_globals :: "string set"
  caps :: "CaptureInfo list"
  no_discovery :: bool
  escaping_names :: "string set"
  boxed_names :: "string set"
  boxed_slots :: "nat set"
  loop_stack :: "LoopContext list"
  pending_finally :: "Statement list list"
  assign_result :: "nat option"

record 'f cstate =
  fcs :: "'f fc list"
  protos_out :: "'f FunctionProto list"
  non_builtin_names :: "string list"
  compile_modules :: "string set"
  compile_included :: "string set"
  cur_dirs :: "string list"

record 'f ccfg =
  c_flt :: "'f float_ops"
  float_value :: "string \<Rightarrow> 'f"
  builtin_index :: "string \<Rightarrow> nat option"
  is_reserved_builtin :: "string \<Rightarrow> bool"
  module_path :: "string \<Rightarrow> string option"
  file_text :: "string \<Rightarrow> string option"
  compile_root :: string
  canonical :: "string \<Rightarrow> string \<Rightarrow> string"
  parent_path :: "string \<Rightarrow> string"

subsection \<open>Computations\<close>

type_synonym ('f, 'a) cm = "'f cstate \<Rightarrow> (compile_error + 'a) \<times> 'f cstate"

definition cret :: "'a \<Rightarrow> ('f, 'a) cm" where
  "cret x s = (Inr x, s)"

definition cthrow :: "compile_error \<Rightarrow> ('f, 'a) cm" where
  "cthrow e s = (Inl e, s)"

definition cbind :: "('f, 'a) cm \<Rightarrow> ('a \<Rightarrow> ('f, 'b) cm) \<Rightarrow> ('f, 'b) cm" where
  "cbind m k s = (case m s of (Inl e, s') \<Rightarrow> (Inl e, s') | (Inr x, s') \<Rightarrow> k x s')"

definition cseq :: "('f, 'a) cm \<Rightarrow> ('f, 'b) cm \<Rightarrow> ('f, 'b) cm" where
  "cseq m k = cbind m (\<lambda>_. k)"

definition cskip :: "('f, unit) cm" where
  "cskip = cret ()"

text \<open>A handler for every error of the code.\<close>

definition ccatch :: "('f, 'a) cm \<Rightarrow> ('f, 'a) cm \<Rightarrow> ('f, 'a) cm" where
  "ccatch m h s = (case m s of (Inl e, s') \<Rightarrow> (if e = Out_of_steps then (Inl e, s') else h s') | r \<Rightarrow> r)"

fun cfor :: "('b \<Rightarrow> ('f, unit) cm) \<Rightarrow> 'b list \<Rightarrow> ('f, unit) cm" where
  "cfor m [] = cskip"
| "cfor m (x # xs) = cseq (m x) (cfor m xs)"

fun cmap :: "('b \<Rightarrow> ('f, 'a) cm) \<Rightarrow> 'b list \<Rightarrow> ('f, 'a list) cm" where
  "cmap m [] = cret []"
| "cmap m (x # xs) = cbind (m x) (\<lambda>y. cbind (cmap m xs) (\<lambda>ys. cret (y # ys)))"

text \<open>Reading and changing the compiler of the current function.\<close>

definition fdo :: "('f fc \<Rightarrow> compile_error + 'a \<times> 'f fc) \<Rightarrow> ('f, 'a) cm" where
  "fdo g s =
     (case fcs s of
        [] \<Rightarrow> (Inl (Rejected []), s)
      | f # fs \<Rightarrow> (case g f of Inl e \<Rightarrow> (Inl e, s) | Inr (x, f') \<Rightarrow> (Inr x, s\<lparr>fcs := f' # fs\<rparr>)))"

definition fget :: "('f fc \<Rightarrow> 'a) \<Rightarrow> ('f, 'a) cm" where
  "fget g = fdo (\<lambda>f. Inr (g f, f))"

definition fmod :: "('f fc \<Rightarrow> 'f fc) \<Rightarrow> ('f, unit) cm" where
  "fmod g = fdo (\<lambda>f. Inr ((), g f))"

record 'f cprocs =
  ce :: "Expression \<Rightarrow> nat \<Rightarrow> ('f, nat) cm"
  cstm :: "Statement \<Rightarrow> ('f, unit) cm"

subsection \<open>Emission and registers\<close>

definition femit :: "OpCode \<Rightarrow> nat \<Rightarrow> nat \<Rightarrow> nat \<Rightarrow> ('f, nat) cm" where
  "femit opc a b c = fdo (\<lambda>f. Inr (emit opc (word_of_nat a) (word_of_nat b) (word_of_nat c) f))"

definition put :: "OpCode \<Rightarrow> nat \<Rightarrow> nat \<Rightarrow> nat \<Rightarrow> ('f, unit) cm" where
  "put opc a b c = cseq (femit opc a b c) cskip"

definition put16 :: "OpCode \<Rightarrow> nat \<Rightarrow> nat \<Rightarrow> ('f, unit) cm" where
  "put16 opc a v =
     fdo (\<lambda>f. case (hi8 (int v), lo8 (int v)) of
        (Inr h, Inr l) \<Rightarrow> Inr ((), snd (emit opc (word_of_nat a) h l f))
      | (Inl e, _) \<Rightarrow> Inl e | (_, Inl e) \<Rightarrow> Inl e)"

definition fjump :: "OpCode \<Rightarrow> nat \<Rightarrow> ('f, nat) cm" where
  "fjump opc r = fdo (\<lambda>f. Inr (emit_jump opc (word_of_nat r) f))"

definition current_ip :: "('f, nat) cm" where
  "current_ip = fget (\<lambda>f. length (code (proto f)))"

definition fpatch :: "nat \<Rightarrow> nat \<Rightarrow> ('f, unit) cm" where
  "fpatch offset target =
     fdo (\<lambda>f. case patch_jump offset (int target) f of Inl e \<Rightarrow> Inl e | Inr f' \<Rightarrow> Inr ((), f'))"

definition fpatch16 :: "nat \<Rightarrow> nat \<Rightarrow> ('f, unit) cm" where
  "fpatch16 offset target =
     fdo (\<lambda>f. case (hi8 (int target), lo8 (int target)) of
        (Inr h, Inr l) \<Rightarrow>
          let c = code (proto f) in Inr ((), f\<lparr>proto := (proto f)\<lparr>code := c[offset := (c ! offset)\<lparr>rb := h, rc := l\<rparr>]\<rparr>\<rparr>)
      | (Inl e, _) \<Rightarrow> Inl e | (_, Inl e) \<Rightarrow> Inl e)"

definition patch_here :: "nat \<Rightarrow> ('f, unit) cm" where
  "patch_here offset = cbind current_ip (fpatch offset)"

definition fconst :: "'f ccfg \<Rightarrow> 'f Value \<Rightarrow> ('f, nat) cm" where
  "fconst C v = fdo (\<lambda>f. case add_const (c_flt C) v f of Inl e \<Rightarrow> Inl e | Inr (i, f') \<Rightarrow> Inr (unat i, f'))"

definition fload :: "'f ccfg \<Rightarrow> nat \<Rightarrow> 'f Value \<Rightarrow> ('f, unit) cm" where
  "fload C r v = fdo (\<lambda>f. case emit_load_const (c_flt C) (word_of_nat r) v f of Inl e \<Rightarrow> Inl e | Inr f' \<Rightarrow> Inr ((), f'))"

definition alloc_temp :: "('f, nat) cm" where
  "alloc_temp = fdo (\<lambda>f. case ra_alloc (ra f) of None \<Rightarrow> Inl TooManyRegisters | Some (r, a) \<Rightarrow> Inr (r, f\<lparr>ra := a\<rparr>))"

definition free_temp :: "nat \<Rightarrow> ('f, unit) cm" where
  "free_temp r = fmod (\<lambda>f. f\<lparr>ra := ra_free (ra f) r\<rparr>)"

definition alloc_seq :: "nat \<Rightarrow> ('f, nat) cm" where
  "alloc_seq n = fdo (\<lambda>f. case ra_alloc_seq (ra f) n of None \<Rightarrow> Inl TooManyRegisters | Some (b, a) \<Rightarrow> Inr (b, f\<lparr>ra := a\<rparr>))"

definition release_seq :: "nat \<Rightarrow> nat \<Rightarrow> ('f, unit) cm" where
  "release_seq b n = fmod (\<lambda>f. f\<lparr>ra := ra_release_seq (ra f) b n\<rparr>)"

text \<open>The target register 255 asks for a new temporary.\<close>

definition ensure_dest :: "nat \<Rightarrow> ('f, nat) cm" where
  "ensure_dest dest = (if dest = 255 then alloc_temp else cret dest)"

subsection \<open>Scopes and variables\<close>

definition push_scope :: "('f, unit) cm" where
  "push_scope = fmod (\<lambda>f. f\<lparr>fscope := Suc (fscope f)\<rparr>)"

fun pop_locals :: "nat \<Rightarrow> LocalVar list \<Rightarrow> reg_alloc \<Rightarrow> LocalVar list \<times> reg_alloc" where
  "pop_locals d [] a = ([], a)"
| "pop_locals d (l # ls) a = (if lv_depth l = d then pop_locals d ls (ra_free_local a (lv_reg l)) else (l # ls, a))"

definition pop_scope :: "('f, unit) cm" where
  "pop_scope = fmod (\<lambda>f. let (ls, a) = pop_locals (fscope f) (locals f) (ra f) in f\<lparr>locals := ls, ra := a, fscope := fscope f - 1\<rparr>)"

definition declare_local :: "string \<Rightarrow> ('f, nat) cm" where
  "declare_local name =
     fdo (\<lambda>f.
       if \<exists>l\<in>set (takeWhile (\<lambda>l. \<not> lv_depth l < fscope f) (locals f)). lv_name l = name then Inl (Rejected ''already defined in this scope'')
       else case ra_alloc_local (ra f) of
              None \<Rightarrow> Inl TooManyRegisters
            | Some (r, a) \<Rightarrow>
                Inr (r, f\<lparr>ra := a, locals := \<lparr>lv_name = name, lv_reg = r, lv_depth = fscope f\<rparr> # locals f,
                         boxed_slots := (if name \<in> boxed_names f then insert r (boxed_slots f) else boxed_slots f)\<rparr>))"

definition is_cell_var :: "'f fc \<Rightarrow> VarLoc \<Rightarrow> bool" where
  "is_cell_var f loc =
     (case loc of
        LOCAL r \<Rightarrow> r \<in> boxed_slots f
      | CAPTURE i \<Rightarrow> i < length (caps f) \<and> is_cell (caps f ! i)
      | GLOBAL \<Rightarrow> False)"

text \<open>A name of an enclosing function that is only read becomes a capture of every function on the way.\<close>

fun resolve :: "string \<Rightarrow> bool \<Rightarrow> 'f fc list \<Rightarrow> (compile_error + VarLoc) \<times> 'f fc list" where
  "resolve name wr [] = (Inr GLOBAL, [])"
| "resolve name wr (f # ps) =
     (case find (\<lambda>l. lv_name l = name) (locals f) of
        Some l \<Rightarrow> (Inr (LOCAL (lv_reg l)), f # ps)
      | None \<Rightarrow>
     (case find (\<lambda>c. ci_name c = name) (caps f) of
        Some c \<Rightarrow> (Inr (CAPTURE (capture_index c)), f # ps)
      | None \<Rightarrow>
          if wr \<or> ps = [] then (Inr GLOBAL, f # ps)
          else case resolve name False ps of
                 (Inl e, ps') \<Rightarrow> (Inl e, f # ps')
               | (Inr GLOBAL, ps') \<Rightarrow> (Inr GLOBAL, f # ps')
               | (Inr pl, ps') \<Rightarrow>
                   if 255 \<le> length (caps f) then (Inl (Rejected ''closure captures more than 255 variables''), f # ps')
                   else (Inr (CAPTURE (length (caps f))),
                         f\<lparr>caps := caps f @ [\<lparr>ci_name = name, capture_index = length (caps f), is_cell = is_cell_var (hd ps') pl\<rparr>]\<rparr> # ps')))"

definition resolve_var :: "string \<Rightarrow> bool \<Rightarrow> ('f, VarLoc) cm" where
  "resolve_var name wr s = (case resolve name wr (fcs s) of (r, fs) \<Rightarrow> (r, s\<lparr>fcs := fs\<rparr>))"

subsection \<open>Reading and writing variables\<close>

definition emit_read_local :: "'f ccfg \<Rightarrow> nat \<Rightarrow> nat \<Rightarrow> ('f, unit) cm" where
  "emit_read_local C dest slot =
     cbind (fget (\<lambda>f. slot \<in> boxed_slots f)) (\<lambda>boxed.
       if boxed then
         cbind alloc_temp (\<lambda>z. cseq (fload C z (V_INT 0)) (cseq (put ARRAY_GET dest slot z) (free_temp z)))
       else put MOVE dest slot 0)"

definition emit_write_local :: "'f ccfg \<Rightarrow> nat \<Rightarrow> nat \<Rightarrow> ('f, unit) cm" where
  "emit_write_local C slot src =
     cbind (fget (\<lambda>f. slot \<in> boxed_slots f)) (\<lambda>boxed.
       if boxed then
         cbind alloc_temp (\<lambda>z. cseq (fload C z (V_INT 0)) (cseq (put ARRAY_SET slot z src) (free_temp z)))
       else put MOVE slot src 0)"

definition emit_read_capture :: "'f ccfg \<Rightarrow> nat \<Rightarrow> nat \<Rightarrow> ('f, unit) cm" where
  "emit_read_capture C dest i =
     cbind (fget (\<lambda>f. i < length (caps f) \<and> is_cell (caps f ! i))) (\<lambda>cell.
       if cell then
         cbind alloc_temp (\<lambda>c. cseq (put LOAD_CAPTURE c i 0)
         (cbind alloc_temp (\<lambda>z. cseq (fload C z (V_INT 0)) (cseq (put ARRAY_GET dest c z) (cseq (free_temp z) (free_temp c))))))
       else put LOAD_CAPTURE dest i 0)"

definition emit_global :: "'f ccfg \<Rightarrow> OpCode \<Rightarrow> nat \<Rightarrow> string \<Rightarrow> ('f, unit) cm" where
  "emit_global C opc r name = cbind (fconst C (V_STRING name)) (\<lambda>ni. put16 opc r ni)"

subsection \<open>Expressions\<close>

definition binary_ops :: "(string \<times> OpCode) list" where
  "binary_ops = [(''+'', ADD), (''-'', SUB), (''*'', MUL), (''/'', DIV), (''%'', MOD), (''**'', POW), (''.'', CONCAT),
     (''..'', CONCAT), (''=='', EQ), (''!='', NEQ), (''<'', LT), (''>'', GT), (''<='', LTE), (''>='', GTE), (''<=>'', CMP3),
     (''&'', BAND), (''|'', BOR), (''^'', BXOR), (''<<'', SHL), (''>>'', SHR)]"

definition compound_ops :: "(string \<times> OpCode) list" where
  "compound_ops = [(''+='', ADD), (''-='', SUB), (''*='', MUL), (''/='', DIV), (''%='', MOD), (''.='', CONCAT),
     (''&='', BAND), (''|='', BOR), (''^='', BXOR)]"

definition compound_op :: "string \<Rightarrow> ('f, OpCode) cm" where
  "compound_op opr = (case map_of compound_ops opr of Some opc \<Rightarrow> cret opc | None \<Rightarrow> cthrow (Rejected (''Unknown compound op: '' @ opr)))"

text \<open>The value of a subexpression is wanted in register \<open>r\<close>.\<close>

definition into :: "'f cprocs \<Rightarrow> Expression \<Rightarrow> nat \<Rightarrow> ('f, unit) cm" where
  "into P e r = cbind (ce P e r) (\<lambda>x. if x = r then cskip else cseq (put MOVE r x 0) (free_temp x))"

definition compile_logical :: "'f cprocs \<Rightarrow> Expression \<Rightarrow> string \<Rightarrow> Expression \<Rightarrow> nat \<Rightarrow> ('f, nat) cm" where
  "compile_logical P l opr rhs dest =
     cbind (ensure_dest dest) (\<lambda>r.
     cseq (into P l r)
    (cbind (fjump (if opr = ''&&'' then JUMP_IF_FALSE else JUMP_IF_TRUE) r) (\<lambda>j.
     cseq (into P rhs r)
    (cseq (patch_here j) (cret r)))))"

definition compile_coalesce :: "'f cprocs \<Rightarrow> Expression \<Rightarrow> Expression \<Rightarrow> nat \<Rightarrow> ('f, nat) cm" where
  "compile_coalesce P l rhs dest =
     cbind (ce P l 255) (\<lambda>x.
     cbind (ensure_dest dest) (\<lambda>r.
     cbind (fjump JUMP_IF_NULL x) (\<lambda>jnull.
     cseq (put MOVE r x 0)
    (cseq (free_temp x)
    (cbind (fjump JUMP 0) (\<lambda>jend.
     cseq (patch_here jnull)
    (cseq (into P rhs r)
    (cseq (patch_here jend) (cret r)))))))))"

definition compile_binary :: "'f cprocs \<Rightarrow> Expression \<Rightarrow> string \<Rightarrow> Expression \<Rightarrow> nat \<Rightarrow> ('f, nat) cm" where
  "compile_binary P l opr rhs dest =
     (if opr = ''&&'' \<or> opr = ''||'' then compile_logical P l opr rhs dest
      else if opr = ''??'' then compile_coalesce P l rhs dest
      else
        cbind (ce P l 255) (\<lambda>x.
        cbind (ce P rhs 255) (\<lambda>y.
        cbind (ensure_dest dest) (\<lambda>r.
          case map_of binary_ops opr of
            None \<Rightarrow> cthrow (Rejected (''Unknown binary op: '' @ opr))
          | Some opc \<Rightarrow> cseq (put opc r x y) (cseq (free_temp y) (cseq (free_temp x) (cret r)))))))"

definition compile_variable :: "'f ccfg \<Rightarrow> string \<Rightarrow> nat \<Rightarrow> ('f, nat) cm" where
  "compile_variable C name dest =
     cbind (resolve_var name False) (\<lambda>loc.
       case loc of
         LOCAL slot \<Rightarrow>
           cbind (fget (\<lambda>f. slot \<in> boxed_slots f)) (\<lambda>boxed.
             if dest = 255 \<and> \<not> boxed then cret slot
             else cbind (ensure_dest dest) (\<lambda>r. cseq (emit_read_local C r slot) (cret r)))
       | CAPTURE i \<Rightarrow> cbind (ensure_dest dest) (\<lambda>r. cseq (emit_read_capture C r i) (cret r))
       | GLOBAL \<Rightarrow>
           cbind (ensure_dest dest) (\<lambda>r.
           cbind (fconst C (V_STRING name)) (\<lambda>ni.
           cseq (put16 LOAD_GLOBAL r ni)
          (cbind (fget callee_ctx) (\<lambda>callee.
           cseq (if \<not> callee \<and> name \<noteq> [] \<and> hd name \<noteq> CHR ''$'' \<and> find_str ''::'' name = None
                 then put16 CHECK_DEFINED r ni else cskip)
          (cret r))))))"

definition compile_step :: "'f ccfg \<Rightarrow> string \<Rightarrow> Expression \<Rightarrow> bool \<Rightarrow> nat \<Rightarrow> ('f, nat) cm" where
  "compile_step C opr e pre dest =
     (case e of
        Expr _ (Variable name) \<Rightarrow>
          cbind alloc_temp (\<lambda>one.
          cseq (fload C one (V_INT 1))
         (cbind (resolve_var name False) (\<lambda>loc.
            let delta = (if opr = ''++'' then ADD else SUB) in
            case loc of
              CAPTURE i \<Rightarrow> cthrow (Rejected (''Captured variable cannot be reassigned: $'' @ name))
            | LOCAL slot \<Rightarrow>
                cbind (ensure_dest dest) (\<lambda>r.
                cseq (emit_read_local C r slot)
               (cbind alloc_temp (\<lambda>nv.
                cseq (put delta nv r one)
               (cseq (emit_write_local C slot nv)
               (cseq (if pre then put MOVE r nv 0 else cskip)
               (cseq (free_temp nv) (cseq (free_temp one) (cret r))))))))
            | GLOBAL \<Rightarrow>
                cbind (ensure_dest dest) (\<lambda>r.
                cbind (fconst C (V_STRING name)) (\<lambda>ni.
                cseq (put16 LOAD_GLOBAL r ni)
               (cbind alloc_temp (\<lambda>nv.
                cseq (put delta nv r one)
               (cseq (put16 STORE_GLOBAL nv ni)
               (cseq (if pre then put MOVE r nv 0 else cskip)
               (cseq (free_temp nv) (cseq (free_temp one) (cret r)))))))))
          )))
      | _ \<Rightarrow> cthrow (Rejected ''++/-- requires a variable''))"

definition compile_unary :: "'f ccfg \<Rightarrow> 'f cprocs \<Rightarrow> string \<Rightarrow> Expression \<Rightarrow> bool \<Rightarrow> nat \<Rightarrow> ('f, nat) cm" where
  "compile_unary C P opr e pre dest =
     (if opr = ''++'' \<or> opr = ''--'' then compile_step C opr e pre dest
      else
        cbind (ce P e 255) (\<lambda>x.
        cbind (ensure_dest dest) (\<lambda>r.
        cseq (if opr = ''-'' then put UNM r x 0 else if opr = ''!'' then put OP_NOT r x 0
              else if opr = ''~'' then put BNOT r x 0 else cthrow (Rejected (''Unknown unary op: '' @ opr)))
       (cseq (free_temp x) (cret r)))))"

definition compile_ternary :: "'f cprocs \<Rightarrow> Expression \<Rightarrow> Expression \<Rightarrow> Expression \<Rightarrow> nat \<Rightarrow> ('f, nat) cm" where
  "compile_ternary P cnd a b dest =
     cbind (ce P cnd 255) (\<lambda>x.
     cbind (fjump JUMP_IF_FALSE x) (\<lambda>jf.
     cseq (free_temp x)
    (cbind (ensure_dest dest) (\<lambda>r.
     cseq (into P a r)
    (cbind (fjump JUMP 0) (\<lambda>jend.
     cseq (patch_here jf)
    (cseq (into P b r)
    (cseq (patch_here jend) (cret r)))))))))"

subsection \<open>Assignments\<close>

definition has_parent :: "('f, bool) cm" where
  "has_parent s = (Inr (1 < length (fcs s)), s)"

definition read_var :: "'f ccfg \<Rightarrow> nat \<Rightarrow> string \<Rightarrow> VarLoc \<Rightarrow> ('f, unit) cm" where
  "read_var C r name loc =
     (case loc of
        LOCAL slot \<Rightarrow> emit_read_local C r slot
      | CAPTURE i \<Rightarrow> emit_read_capture C r i
      | GLOBAL \<Rightarrow> emit_global C LOAD_GLOBAL r name)"

definition assign_item :: "'f ccfg \<Rightarrow> 'f cprocs \<Rightarrow> string \<Rightarrow> string \<Rightarrow> VarLoc \<Rightarrow> Expression option \<Rightarrow> Expression \<Rightarrow> Expression \<Rightarrow>
    nat option \<Rightarrow> ('f, unit) cm" where
  "assign_item C P name opr loc obj idx v want =
     cbind (case obj of Some e \<Rightarrow> ce P e 255 | None \<Rightarrow> cbind alloc_temp (\<lambda>a. cseq (read_var C a name loc) (cret a))) (\<lambda>arr.
     cbind (ce P idx 255) (\<lambda>i.
     cbind (ce P v 255) (\<lambda>x.
     cbind (if opr = ''='' then cret x
            else cbind (compound_op opr) (\<lambda>opc.
                 cbind alloc_temp (\<lambda>cur.
                 cseq (put ARRAY_GET cur arr i)
                (cbind alloc_temp (\<lambda>res.
                 cseq (put opc res cur x) (cseq (free_temp cur) (cseq (free_temp x) (cret res)))))))) (\<lambda>x'.
     cseq (put ARRAY_SET arr i x')
    (cseq (case want of None \<Rightarrow> cskip | Some w \<Rightarrow> put ARRAY_GET w arr i)
    (cseq (free_temp x') (cseq (free_temp i) (free_temp arr))))))))"

definition assign_local :: "'f ccfg \<Rightarrow> string \<Rightarrow> nat \<Rightarrow> nat \<Rightarrow> ('f, unit) cm" where
  "assign_local C opr slot x =
     (if opr = ''.='' then
        cbind (fget (\<lambda>f. slot \<in> boxed_slots f)) (\<lambda>boxed.
          if boxed then
            cbind alloc_temp (\<lambda>cur.
            cseq (emit_read_local C cur slot)
           (cbind alloc_temp (\<lambda>res.
            cseq (put CONCAT res cur x)
           (cseq (emit_write_local C slot res)
           (cseq (free_temp res) (cseq (free_temp cur) (free_temp x)))))))
          else cseq (put CONCAT slot slot x) (free_temp x))
      else if opr \<noteq> ''='' then
        cbind alloc_temp (\<lambda>cur.
        cseq (emit_read_local C cur slot)
       (cbind alloc_temp (\<lambda>tmp.
        cbind (compound_op opr) (\<lambda>opc.
        cseq (put opc tmp cur x)
       (cseq (free_temp cur) (cseq (free_temp x)
       (cseq (emit_write_local C slot tmp) (free_temp tmp))))))))
      else cseq (emit_write_local C slot x) (free_temp x))"

text \<open>\<^verbatim>\<open>cur OP= x\<close> on a global that is read first; gives the register of the result.\<close>

definition compound_global :: "'f ccfg \<Rightarrow> string \<Rightarrow> nat \<Rightarrow> nat \<Rightarrow> ('f, nat) cm" where
  "compound_global C opr ni x =
     cbind alloc_temp (\<lambda>cur.
     cseq (put16 LOAD_GLOBAL cur ni)
    (cbind alloc_temp (\<lambda>tmp.
     cbind (compound_op opr) (\<lambda>opc.
     cseq (put opc tmp cur x) (cseq (free_temp cur) (cseq (free_temp x) (cret tmp)))))))"

definition assign_new_local :: "'f ccfg \<Rightarrow> string \<Rightarrow> string \<Rightarrow> nat \<Rightarrow> ('f, unit) cm" where
  "assign_new_local C name opr x =
     cbind (if opr = ''='' then cret x else cbind (fconst C (V_STRING name)) (\<lambda>ni. compound_global C opr ni x)) (\<lambda>res.
     cbind (declare_local name) (\<lambda>slot.
     cbind (fget (\<lambda>f. slot \<in> boxed_slots f)) (\<lambda>boxed.
     cseq (if boxed then cseq (put NEW_ARRAY slot 1 0) (put ARRAY_PUSH slot res 0) else put MOVE slot res 0)
          (free_temp res))))"

definition assign_global :: "'f ccfg \<Rightarrow> string \<Rightarrow> string \<Rightarrow> nat \<Rightarrow> ('f, unit) cm" where
  "assign_global C name opr x =
     cseq (fmod (\<lambda>f. if loop_depth f = 0 then f\<lparr>outer_globals := insert name (outer_globals f)\<rparr> else f))
    (cbind (fconst C (V_STRING name)) (\<lambda>ni.
     cbind (if opr = ''='' then cret x else compound_global C opr ni x) (\<lambda>x'.
     cseq (put16 STORE_GLOBAL x' ni) (free_temp x'))))"

definition compile_assign_expr ::
    "'f ccfg \<Rightarrow> 'f cprocs \<Rightarrow> string \<Rightarrow> string \<Rightarrow> Expression option \<Rightarrow> Expression option \<Rightarrow> Expression \<Rightarrow> ('f, unit) cm" where
  "compile_assign_expr C P name opr obj idx v =
     cbind (fget assign_result) (\<lambda>want.
     cseq (fmod (\<lambda>f. f\<lparr>assign_result := None\<rparr>))
    (cbind (resolve_var name (idx = None)) (\<lambda>loc.
       case idx of
         Some i \<Rightarrow> assign_item C P name opr loc obj i v want
       | None \<Rightarrow>
           cbind (ce P v 255) (\<lambda>x.
             case loc of
               LOCAL slot \<Rightarrow> assign_local C opr slot x
             | CAPTURE i \<Rightarrow> cthrow (Rejected (''Captured variable cannot be reassigned: $'' @ name))
             | GLOBAL \<Rightarrow>
                 cbind has_parent (\<lambda>nested.
                 cbind (fget (\<lambda>f. 0 < loop_depth f \<and> name \<notin> outer_globals f \<and> (no_discovery f \<or> name \<in> boxed_names f))) (\<lambda>cellular.
                   if nested \<or> cellular then assign_new_local C name opr x else assign_global C name opr x))))))"

definition compile_assign_value ::
    "'f ccfg \<Rightarrow> 'f cprocs \<Rightarrow> string \<Rightarrow> string \<Rightarrow> Expression option \<Rightarrow> Expression option \<Rightarrow> Expression \<Rightarrow> nat \<Rightarrow> ('f, nat) cm" where
  "compile_assign_value C P name opr obj idx v dest =
     (if idx \<noteq> None then
        cbind (ensure_dest dest) (\<lambda>r.
        cseq (fmod (\<lambda>f. f\<lparr>assign_result := Some r\<rparr>))
       (cseq (compile_assign_expr C P name opr obj idx v) (cret r)))
      else
        cseq (compile_assign_expr C P name opr obj idx v)
       (cbind (resolve_var name False) (\<lambda>loc.
        cbind (ensure_dest dest) (\<lambda>r.
        cseq (case loc of LOCAL slot \<Rightarrow> emit_read_local C r slot | _ \<Rightarrow> emit_global C LOAD_GLOBAL r name) (cret r)))))"

subsection \<open>Literals of arrays, maps and structs; elements\<close>

definition compile_array_lit :: "'f cprocs \<Rightarrow> Expression list \<Rightarrow> nat \<Rightarrow> ('f, nat) cm" where
  "compile_array_lit P es dest =
     cbind (ensure_dest dest) (\<lambda>r.
     cseq (put NEW_ARRAY r (unat (hint_u8 (length es))) 0)
    (cseq (cfor (\<lambda>e. cbind (ce P e 255) (\<lambda>x. cseq (put ARRAY_PUSH r x 0) (free_temp x))) es)
          (cret r)))"

definition string_keys :: "(Expression \<times> Expression) list \<Rightarrow> string option list" where
  "string_keys kvs = map (\<lambda>(k, v). case k of Expr _ (StringLiteral t _) \<Rightarrow> Some t | _ \<Rightarrow> None) kvs"

definition compile_assoc_lit :: "'f cprocs \<Rightarrow> (Expression \<times> Expression) list \<Rightarrow> nat \<Rightarrow> ('f, nat) cm" where
  "compile_assoc_lit P kvs dest =
     cbind (ensure_dest dest) (\<lambda>r.
     cseq (put NEW_ASSOC r (let need = 1 + 2 * length kvs in if 255 < need then 0 else need) 0)
    (cseq (let opc = (if None \<notin> set (string_keys kvs) \<and> distinct (string_keys kvs) then ASSOC_APPEND else ARRAY_SET)
           in cfor (\<lambda>(k, v). cbind (ce P k 255) (\<lambda>x. cbind (ce P v 255) (\<lambda>y.
                cseq (put opc r x y) (cseq (free_temp y) (free_temp x))))) kvs)
          (cret r)))"

definition struct_field :: "'f ccfg \<Rightarrow> 'f cprocs \<Rightarrow> nat \<Rightarrow> string \<times> Expression \<Rightarrow> ('f, unit) cm" where
  "struct_field C P r = (\<lambda>(fname, e).
     cbind (fconst C (V_STRING fname)) (\<lambda>fi.
     cbind (ce P e 255) (\<lambda>x.
     cseq (if fi \<le> 255 then put SET_FIELD r fi x
           else cbind alloc_temp (\<lambda>k. cseq (fload C k (V_STRING fname)) (cseq (put ARRAY_SET r k x) (free_temp k))))
          (free_temp x))))"

text \<open>The struct's name and the names of the fields of the literal, which the machine reads and skips.\<close>

definition struct_head :: "'f ccfg \<Rightarrow> nat \<Rightarrow> string \<Rightarrow> string list \<Rightarrow> ('f, unit) cm" where
  "struct_head C r sname fnames =
     cseq (emit_global C NEW_STRUCT r sname)
    (if 255 < length fnames then cthrow (Rejected (''struct literal '' @ sname @ '' has more than 255 fields''))
     else cseq (put NOP (length fnames) 0 0) (cfor (emit_global C LOAD_CONST_W 0) fnames))"

definition compile_struct_lit :: "'f ccfg \<Rightarrow> 'f cprocs \<Rightarrow> string \<Rightarrow> (string \<times> Expression) list \<Rightarrow> nat \<Rightarrow> ('f, nat) cm" where
  "compile_struct_lit C P sname fvs dest =
     cbind (ensure_dest dest) (\<lambda>r.
     cseq (struct_head C r sname (map fst fvs))
    (cseq (cfor (struct_field C P r) fvs) (cret r)))"

definition compile_index :: "'f cprocs \<Rightarrow> Expression \<Rightarrow> Expression \<Rightarrow> nat \<Rightarrow> ('f, nat) cm" where
  "compile_index P obj idx dest =
     cbind (ce P obj 255) (\<lambda>x. cbind (ce P idx 255) (\<lambda>y. cbind (ensure_dest dest) (\<lambda>r.
     cseq (put ARRAY_GET r x y) (cseq (free_temp y) (cseq (free_temp x) (cret r))))))"

definition compile_member :: "'f ccfg \<Rightarrow> 'f cprocs \<Rightarrow> Expression \<Rightarrow> string \<Rightarrow> nat \<Rightarrow> ('f, nat) cm" where
  "compile_member C P obj field dest =
     cbind (ce P obj 255) (\<lambda>x. cbind (ensure_dest dest) (\<lambda>r. cbind (fconst C (V_STRING field)) (\<lambda>fi.
     cseq (if fi \<le> 255 then put GET_FIELD r x fi
           else cbind alloc_temp (\<lambda>k. cseq (fload C k (V_STRING field)) (cseq (put ARRAY_GET r x k) (free_temp k))))
    (cseq (free_temp x) (cret r)))))"

subsection \<open>Calls\<close>

definition arg_reg :: "nat \<Rightarrow> ('f, nat) cm" where
  "arg_reg v = (case to_u8 (int v) ''register index'' of Inl e \<Rightarrow> cthrow e | Inr w \<Rightarrow> cret v)"

fun compile_args :: "'f cprocs \<Rightarrow> nat \<Rightarrow> Expression list \<Rightarrow> ('f, unit) cm" where
  "compile_args P b [] = cskip"
| "compile_args P b (e # es) =
     cbind (arg_reg b) (\<lambda>r.
     cbind (ce P e r) (\<lambda>x.
     cseq (if x = r then cskip else put MOVE r x 0) (compile_args P (Suc b) es)))"

definition check_argc :: "Expression list \<Rightarrow> ('f, unit) cm" where
  "check_argc es = (if 255 < length es then cthrow (Rejected ''a call has more than 255 arguments'') else cskip)"

definition arg_block :: "nat \<Rightarrow> ('f, nat) cm" where
  "arg_block n = (if 0 < n then alloc_seq n else cret 0)"

text \<open>A call and the \<^verbatim>\<open>NOP\<close> behind it, with the number of arguments and the upper half of the index or the name of the callee.\<close>

definition builtin_code :: "nat \<Rightarrow> nat \<Rightarrow> nat \<Rightarrow> nat \<Rightarrow> ('f, unit) cm" where
  "builtin_code r bidx b n = cseq (put CALL_BUILTIN r (bidx mod 256) b) (put NOP n (bidx div 256) 0)"

definition call_code :: "'f ccfg \<Rightarrow> nat \<Rightarrow> nat \<Rightarrow> nat \<Rightarrow> nat \<Rightarrow> string option \<Rightarrow> ('f, unit) cm" where
  "call_code C r fn b n name =
     cseq (put CALL r fn b)
    (cbind (case name of
              None \<Rightarrow> cret 0
            | Some t \<Rightarrow> cbind (fconst C (V_STRING t)) (\<lambda>i.
                case to_u16 (int (i + 1)) ''constant index'' of Inl e \<Rightarrow> cthrow e | Inr w \<Rightarrow> cret (i + 1))) (\<lambda>cname.
     put16 NOP n cname))"

definition compile_builtin_call :: "'f cprocs \<Rightarrow> nat \<Rightarrow> Expression list \<Rightarrow> nat \<Rightarrow> ('f, nat) cm" where
  "compile_builtin_call P bidx es dest =
     cseq (check_argc es)
    (cbind (arg_block (length es)) (\<lambda>b.
     cseq (compile_args P b es)
    (cbind (ensure_dest dest) (\<lambda>r.
     if 65535 < bidx then cthrow (Rejected ''builtin index exceeded 16-bit ceiling'')
     else
       cseq (builtin_code r bidx b (length es))
      (cseq (release_seq b (length es)) (cret r))))))"

definition compile_plain_call :: "'f ccfg \<Rightarrow> 'f cprocs \<Rightarrow> Expression \<Rightarrow> Expression list \<Rightarrow> nat \<Rightarrow> ('f, nat) cm" where
  "compile_plain_call C P callee es dest =
     (let name = (case callee of Expr _ (Variable n) \<Rightarrow> Some n | _ \<Rightarrow> None) in
      cseq (fmod (\<lambda>f. f\<lparr>callee_ctx := (name \<noteq> None)\<rparr>))
     (cbind (ce P callee 255) (\<lambda>fn.
      cseq (fmod (\<lambda>f. f\<lparr>callee_ctx := False\<rparr>))
     (cseq (check_argc es)
     (cbind (arg_block (length es)) (\<lambda>b.
      cseq (compile_args P b es)
     (cbind (ensure_dest dest) (\<lambda>r.
      cseq (call_code C r fn b (length es) name)
     (cseq (release_seq b (length es))
     (cseq (free_temp fn) (cret r)))))))))))"

definition special_call :: "'f cprocs \<Rightarrow> string \<Rightarrow> Expression list \<Rightarrow> nat \<Rightarrow> ('f, nat) cm option" where
  "special_call P name es dest =
     (let null = cbind (ensure_dest dest) (\<lambda>r. cseq (put LOAD_NULL r 0 0) (cret r));
          one = (\<lambda>k. case es of [e] \<Rightarrow> cbind (ce P e 255) k
                | _ \<Rightarrow> cthrow (Rejected (name @ (if name = ''parallel'' then ''() takes one argument'' else ''() takes 1 argument''))));
          query = (\<lambda>opc. one (\<lambda>ch. cbind (ensure_dest dest) (\<lambda>r. cseq (put opc r ch 0) (cseq (free_temp ch) (cret r)))))
      in if name = ''parallel'' then Some (one (\<lambda>c. cseq (put PARALLEL_CALL c 0 0) (cseq (free_temp c) null)))
         else if name = ''send'' then
           Some (case es of
                   [c, v] \<Rightarrow> cbind (ce P c 255) (\<lambda>ch. cbind (ce P v 255) (\<lambda>x.
                     cseq (put CHAN_SEND ch x 0) (cseq (free_temp x) (cseq (free_temp ch) null))))
                 | _ \<Rightarrow> cthrow (Rejected ''send() takes 2 arguments''))
         else if name = ''receive'' then Some (query CHAN_RECV)
         else if name = ''close'' then Some (one (\<lambda>ch. cseq (put CHAN_CLOSE ch 0 0) (cseq (free_temp ch) null)))
         else if name = ''chan_size'' then Some (query CHAN_SIZE)
         else None)"

definition builtin_alias :: "(string \<times> string) list" where
  "builtin_alias = [(''len'', ''count''), (''intval'', ''int''), (''floatval'', ''float''), (''strval'', ''string''),
     (''boolval'', ''bool''), (''json'', ''json::encode''), (''header'', ''response::header''), (''redirect'', ''response::redirect'')]"

definition mark_non_builtin :: "string \<Rightarrow> ('f, unit) cm" where
  "mark_non_builtin name s =
     (Inr (), if name \<in> set (non_builtin_names s) then s else s\<lparr>non_builtin_names := non_builtin_names s @ [name]\<rparr>)"

definition compile_call :: "'f ccfg \<Rightarrow> 'f cprocs \<Rightarrow> Expression \<Rightarrow> Expression list \<Rightarrow> nat \<Rightarrow> ('f, nat) cm" where
  "compile_call C P callee es dest =
     (case callee of
        Expr _ (ScopeResolution m n) \<Rightarrow>
          (let full = m @ ''::'' @ n
           in case builtin_index C full of
                Some bidx \<Rightarrow> compile_builtin_call P bidx es dest
              | None \<Rightarrow> cseq (mark_non_builtin full) (compile_plain_call C P callee es dest))
      | Expr _ (Variable name) \<Rightarrow>
          (case special_call P name es dest of
             Some m \<Rightarrow> m
           | None \<Rightarrow>
               (case builtin_index C (case map_of builtin_alias name of Some b \<Rightarrow> b | None \<Rightarrow> name) of
                  Some bidx \<Rightarrow> compile_builtin_call P bidx es dest
                | None \<Rightarrow> compile_plain_call C P callee es dest))
      | _ \<Rightarrow> compile_plain_call C P callee es dest)"

subsection \<open>Blocks and functions\<close>

definition compile_block :: "'f cprocs \<Rightarrow> Statement list \<Rightarrow> ('f, unit) cm" where
  "compile_block P b = cseq push_scope (cseq (cfor (cstm P) b) pop_scope)"

definition fc_new :: "string \<Rightarrow> string list \<Rightarrow> bool \<Rightarrow> compile_error + 'f fc" where
  "fc_new name ps var =
     (if 255 < length ps then Inl (Rejected ''function has more than 255 parameters'')
      else Inr \<lparr>proto = \<lparr>pname = name, arity = length ps, variadic = var, reg_count = 0, constants = [], code = [], nested = [],
                          lines = [], params = ps, capture_is_cell = []\<rparr>,
                cur_line = 0, ra = ra_new (length ps),
                locals = rev (map (\<lambda>i. \<lparr>lv_name = ps ! i, lv_reg = i, lv_depth = 0\<rparr>) [0..<length ps]),
                fscope = 0, loop_depth = 0, callee_ctx = False, outer_globals = {}, caps = [], no_discovery = False,
                escaping_names = {}, boxed_names = {}, boxed_slots = {}, loop_stack = [], pending_finally = [],
                assign_result = None\<rparr>)"

text \<open>Running a computation with \<open>f\<close> as the current compiler; the compilers of the parents may gain captures.\<close>

definition in_fc :: "'f fc \<Rightarrow> ('f, 'a) cm \<Rightarrow> ('f, 'a \<times> 'f fc) cm" where
  "in_fc f m s =
     (case m (s\<lparr>fcs := f # fcs s\<rparr>) of
        (Inl e, s') \<Rightarrow> (Inl e, s'\<lparr>fcs := tl (fcs s')\<rparr>)
      | (Inr x, s') \<Rightarrow> (Inr (x, hd (fcs s')), s'\<lparr>fcs := tl (fcs s')\<rparr>))"

text \<open>The same in place of the current compiler, which comes back afterwards.\<close>

definition in_place_of :: "'f fc \<Rightarrow> ('f, 'a) cm \<Rightarrow> ('f, 'a \<times> 'f fc) cm" where
  "in_place_of d m s =
     (let f = hd (fcs s); (r, s') = in_fc d m (s\<lparr>fcs := tl (fcs s)\<rparr>) in (r, s'\<lparr>fcs := f # fcs s'\<rparr>))"

text \<open>Parameters that were not supplied get their default; captured parameters move into cells.\<close>

definition default_param :: "'f ccfg \<Rightarrow> 'f cprocs \<Rightarrow> nat \<times> Expression option \<Rightarrow> ('f, unit) cm" where
  "default_param C P = (\<lambda>(i, d).
     case d of
       None \<Rightarrow> cskip
     | Some e \<Rightarrow>
         cbind alloc_temp (\<lambda>ac.
         cseq (put LOAD_ARGC ac 0 0)
        (cbind alloc_temp (\<lambda>lim.
         cseq (fload C lim (V_INT (word_of_nat i)))
        (cbind alloc_temp (\<lambda>cnd.
         cseq (put LTE cnd ac lim)
        (cseq (free_temp ac)
        (cseq (free_temp lim)
        (cbind (fjump JUMP_IF_FALSE cnd) (\<lambda>skp.
         cseq (free_temp cnd)
        (cbind (ce P e 255) (\<lambda>dr.
         cseq (put MOVE i dr 0)
        (cseq (free_temp dr) (patch_here skp))))))))))))))"

definition box_param :: "nat \<times> string \<Rightarrow> ('f, unit) cm" where
  "box_param = (\<lambda>(i, name).
     cbind (fget (\<lambda>f. name \<in> boxed_names f)) (\<lambda>boxed.
       if \<not> boxed then cskip
       else
         cseq (fmod (\<lambda>f. f\<lparr>boxed_slots := insert i (boxed_slots f)\<rparr>))
        (cbind alloc_temp (\<lambda>tmp.
         cseq (put MOVE tmp i 0)
        (cseq (put NEW_ARRAY i 1 0)
        (cseq (put ARRAY_PUSH i tmp 0) (free_temp tmp)))))))"

definition finish :: "('f, unit) cm" where
  "finish = fmod (\<lambda>f. f\<lparr>proto := (proto f)\<lparr>reg_count := max_reg (ra f),
     capture_is_cell := capture_is_cell (proto f) @ map is_cell (caps f)\<rparr>\<rparr>)"

definition compile_body :: "'f ccfg \<Rightarrow> 'f cprocs \<Rightarrow> Statement list \<Rightarrow> Expression option list \<Rightarrow> ('f, unit) cm" where
  "compile_body C P body ds =
     cbind (fget (\<lambda>f. params (proto f))) (\<lambda>ps.
     cseq (cfor (default_param C P) (zip [0..<length ps] ds))
    (cseq (cfor box_param (zip [0..<length ps] ps))
    (cseq (compile_block P body)
    (cseq (put RETURN_NULL 0 0 0) finish))))"

text \<open>The first pass finds the locals that closures capture; its code is thrown away.\<close>

definition discover :: "('f, unit) cm \<Rightarrow> ('f, unit) cm" where
  "discover m =
     cbind (fget id) (\<lambda>f.
       if no_discovery f then cskip
       else case fc_new (pname (proto f)) (params (proto f)) (variadic (proto f)) of
              Inl e \<Rightarrow> cthrow e
            | Inr d \<Rightarrow>
                cbind (in_place_of (d\<lparr>caps := caps f, no_discovery := True\<rparr>) m) (\<lambda>(_, d').
                  fmod (\<lambda>f. f\<lparr>boxed_names := escaping_names d'\<rparr>)))"

definition compile_fun :: "'f ccfg \<Rightarrow> 'f cprocs \<Rightarrow> Statement list \<Rightarrow> Expression option list \<Rightarrow> ('f, unit) cm" where
  "compile_fun C P body ds = cseq (discover (compile_body C P body ds)) (compile_body C P body ds)"

text \<open>The values of the captures, loaded before \<^verbatim>\<open>MAKE_CLOSURE\<close>; then the closure with one \<^verbatim>\<open>LOAD_CAPTURE 0\<close> per capture.\<close>

definition load_capture_value :: "'f ccfg \<Rightarrow> CaptureInfo \<Rightarrow> ('f, nat) cm" where
  "load_capture_value C c =
     cbind (resolve_var (ci_name c) False) (\<lambda>loc.
     cbind alloc_temp (\<lambda>cr.
     cseq (case loc of
             LOCAL slot \<Rightarrow> cseq (fmod (\<lambda>f. f\<lparr>escaping_names := insert (ci_name c) (escaping_names f)\<rparr>)) (put MOVE cr slot 0)
           | CAPTURE i \<Rightarrow> put LOAD_CAPTURE cr i 0
           | GLOBAL \<Rightarrow> emit_global C LOAD_GLOBAL cr (ci_name c))
          (cret cr)))"

definition make_closure :: "'f ccfg \<Rightarrow> nat \<Rightarrow> nat \<Rightarrow> CaptureInfo list \<Rightarrow> ('f, unit) cm" where
  "make_closure C r j cps =
     cbind (cmap (load_capture_value C) cps) (\<lambda>crs.
     cseq (case to_u16 (int j) ''16-bit operand'' of Inl e \<Rightarrow> cthrow e | Inr w \<Rightarrow> put MAKE_CLOSURE r (j mod 256) (j div 256))
          (cfor (\<lambda>cr. cseq (put LOAD_CAPTURE 0 cr 0) (free_temp cr)) crs))"

text \<open>A finished function goes to the store of prototypes; the index among the nested ones comes back.\<close>

definition add_nested :: "'f FunctionProto \<Rightarrow> ('f, nat) cm" where
  "add_nested p =
     cbind (\<lambda>s. (Inr (length (protos_out s)), s\<lparr>protos_out := protos_out s @ [p]\<rparr>)) (\<lambda>a.
     fdo (\<lambda>f. Inr (length (nested (proto f)), f\<lparr>proto := (proto f)\<lparr>nested := nested (proto f) @ [a]\<rparr>\<rparr>)))"

definition compile_func_decl ::
    "'f ccfg \<Rightarrow> 'f cprocs \<Rightarrow> string \<Rightarrow> string list \<Rightarrow> Expression option list \<Rightarrow> bool \<Rightarrow> Statement list \<Rightarrow> ('f, unit) cm" where
  "compile_func_decl C P name ps ds var body =
     (if is_reserved_builtin C name then cthrow (Rejected (name @ '' is a builtin and cannot be redefined''))
      else case fc_new name ps var of
             Inl e \<Rightarrow> cthrow e
           | Inr f0 \<Rightarrow>
               cbind (in_fc f0 (compile_fun C P body ds)) (\<lambda>(_, f).
               cbind (add_nested (proto f)) (\<lambda>j.
               cbind (fconst C (V_STRING name)) (\<lambda>ni.
               cbind alloc_temp (\<lambda>r.
               cseq (make_closure C r j (caps f))
              (cseq (put16 STORE_GLOBAL r ni) (free_temp r)))))))"

fun use_captures :: "'f fc list \<Rightarrow> string list \<Rightarrow> nat \<Rightarrow> (compile_error + CaptureInfo list) \<times> 'f fc list" where
  "use_captures fs [] i = (Inr [], fs)"
| "use_captures fs (n # ns) i =
     (case resolve n False fs of
        (Inl e, fs') \<Rightarrow> (Inl e, fs')
      | (Inr loc, fs') \<Rightarrow>
          (case use_captures fs' ns (Suc i) of
             (Inl e, fs'') \<Rightarrow> (Inl e, fs'')
           | (Inr cps, fs'') \<Rightarrow> (Inr (\<lparr>ci_name = n, capture_index = i, is_cell = is_cell_var (hd fs') loc\<rparr> # cps), fs'')))"

definition compile_closure ::
    "'f ccfg \<Rightarrow> 'f cprocs \<Rightarrow> string list \<Rightarrow> Expression option list \<Rightarrow> string list \<Rightarrow> bool \<Rightarrow> Statement list \<Rightarrow> nat \<Rightarrow> ('f, nat) cm" where
  "compile_closure C P ps ds use_list var body dest =
     (case fc_new ''<closure>'' ps var of
        Inl e \<Rightarrow> cthrow e
      | Inr f0 \<Rightarrow>
          if 255 < length use_list then cthrow (Rejected ''closure captures more than 255 variables'')
          else
            cbind (\<lambda>s. case use_captures (fcs s) use_list 0 of (r, fs) \<Rightarrow> (r, s\<lparr>fcs := fs\<rparr>)) (\<lambda>cps.
            cbind (in_fc (f0\<lparr>caps := cps\<rparr>) (compile_fun C P body ds)) (\<lambda>(_, f).
            cbind (add_nested (proto f)) (\<lambda>j.
            cbind (ensure_dest dest) (\<lambda>r.
            cseq (make_closure C r j (caps f)) (cret r))))))"

subsection \<open>Interpolated strings\<close>

fun brace_end :: "nat \<Rightarrow> string \<Rightarrow> nat option" where
  "brace_end d [] = None"
| "brace_end d (c # t) =
     (if c = CHR ''{'' then map_option Suc (brace_end (Suc d) t)
      else if c = CHR ''}'' then (if d = 1 then Some 0 else map_option Suc (brace_end (d - 1) t))
      else map_option Suc (brace_end d t))"

definition is_interp_start :: "string \<Rightarrow> bool" where
  "is_interp_start t = prefix ''{$'' t"

fun literal_part :: "string \<Rightarrow> string" where
  "literal_part [] = []"
| "literal_part (c # t) = (if is_interp_start (c # t) then [] else c # literal_part t)"

definition piece :: "'f ccfg \<Rightarrow> string \<Rightarrow> ('f, nat) cm" where
  "piece C t = cbind alloc_temp (\<lambda>pr. cseq (fload C pr (V_STRING t)) (cret pr))"

text \<open>The expression of a fragment, when its text is one.\<close>

definition fragment_expr :: "string \<Rightarrow> Expression option" where
  "fragment_expr t =
     (case scan_tokens (t @ '';'') of
        Inl e \<Rightarrow> None
      | Inr ts \<Rightarrow>
          (case parse ts of
             Inr (Stmt _ (ExpressionStatement e) # _) \<Rightarrow> Some e
           | _ \<Rightarrow> None))"

definition fragment :: "'f ccfg \<Rightarrow> 'f cprocs \<Rightarrow> Expression \<Rightarrow> string \<Rightarrow> ('f, nat) cm" where
  "fragment C P e lit =
     cbind alloc_temp (\<lambda>pr.
     cbind (femit TRY_PUSH 0 0 0) (\<lambda>tp.
     cbind (ce P e 255) (\<lambda>src.
     cseq (put MOVE pr src 0)
    (cseq (put TO_STR pr pr 0)
    (cseq (put TRY_POP 0 0 0)
    (cbind (fjump JUMP 0) (\<lambda>jend.
     cseq (patch_here tp)
    (cseq (fload C pr (V_STRING lit))
    (cseq (patch_here jend) (cret pr))))))))))"

fun interp_parts :: "'f ccfg \<Rightarrow> 'f cprocs \<Rightarrow> nat \<Rightarrow> string \<Rightarrow> ('f, nat list) cm" where
  "interp_parts C P 0 t = cret []"
| "interp_parts C P (Suc n) t =
     (let more = (\<lambda>m t'. cbind m (\<lambda>pr. cbind (interp_parts C P n t') (\<lambda>prs. cret (pr # prs)))) in
      if t = [] then cret []
      else if is_interp_start t then
        (case brace_end 1 (tl t) of
           None \<Rightarrow> more (piece C [hd t]) (tl t)
         | Some j \<Rightarrow>
             let lit = take (j + 2) t in
             more (case fragment_expr (take j (tl t)) of
                     Some e \<Rightarrow> ccatch (fragment C P e lit) (piece C lit)
                   | None \<Rightarrow> piece C lit)
                  (drop (j + 2) t))
      else more (piece C (literal_part t)) (drop (length (literal_part t)) t))"

definition compile_string_interp :: "'f ccfg \<Rightarrow> 'f cprocs \<Rightarrow> string \<Rightarrow> nat \<Rightarrow> ('f, nat) cm" where
  "compile_string_interp C P t dest =
     (if CHR ''{'' \<notin> set t then cbind (ensure_dest dest) (\<lambda>r. cseq (fload C r (V_STRING t)) (cret r)) else
     cbind (interp_parts C P (length t) t) (\<lambda>prs.
       case prs of
         [] \<Rightarrow> cbind (ensure_dest dest) (\<lambda>r. cseq (put LOAD_NULL r 0 0) (cret r))
       | [p] \<Rightarrow> if dest \<noteq> 255 \<and> p \<noteq> dest then cseq (put MOVE dest p 0) (cseq (free_temp p) (cret dest)) else cret p
       | p # q # qs \<Rightarrow>
           cbind (ensure_dest dest) (\<lambda>r.
           cseq (put CONCAT r p q)
          (cseq (free_temp p)
          (cseq (free_temp q)
          (cseq (cfor (\<lambda>x. cseq (put CONCAT r r x) (free_temp x)) qs) (cret r)))))))"

text \<open>The dispatch over the kinds of expressions.\<close>

definition compile_expr :: "'f ccfg \<Rightarrow> 'f cprocs \<Rightarrow> Expression \<Rightarrow> nat \<Rightarrow> ('f, nat) cm" where
  "compile_expr C P expr dest =
     (let const = (\<lambda>v. cbind (ensure_dest dest) (\<lambda>r. cseq (fload C r v) (cret r))) in
      case expr of Expr loc node \<Rightarrow>
      (case node of
         NumberLiteral n \<Rightarrow> const (V_INT n)
       | FloatLiteral t \<Rightarrow> const (V_FLOAT (float_value C t))
       | BooleanLiteral b \<Rightarrow> const (V_BOOL b)
       | NullLiteral \<Rightarrow> cbind (ensure_dest dest) (\<lambda>r. cseq (put LOAD_NULL r 0 0) (cret r))
       | StringLiteral t is_raw \<Rightarrow>
           cbind (ensure_dest dest) (\<lambda>r.
             if \<not> is_raw \<and> find_str ''{$'' t \<noteq> None then compile_string_interp C P t r
             else cseq (fload C r (V_STRING t)) (cret r))
       | Variable name \<Rightarrow> compile_variable C name dest
       | AssignmentExpression name opr obj idx v \<Rightarrow> compile_assign_value C P name opr obj idx v dest
       | BinaryExpression l opr r \<Rightarrow> compile_binary P l opr r dest
       | UnaryExpression opr e pre \<Rightarrow> compile_unary C P opr e pre dest
       | TernaryExpression c a b \<Rightarrow> compile_ternary P c a b dest
       | CallExpression callee es \<Rightarrow> compile_call C P callee es dest
       | FunctionExpression ps ds ul var body \<Rightarrow> compile_closure C P ps ds ul var body dest
       | ArrayLiteral es \<Rightarrow> compile_array_lit P es dest
       | AssocArrayLiteral kvs \<Rightarrow> compile_assoc_lit P kvs dest
       | StructLiteralExpression n fs \<Rightarrow> compile_struct_lit C P n fs dest
       | IndexExpression a i \<Rightarrow> compile_index P a i dest
       | MemberAccessExpression a n \<Rightarrow> compile_member C P a n dest
       | ScopeResolution m n \<Rightarrow> cbind (ensure_dest dest) (\<lambda>r. cseq (emit_global C LOAD_GLOBAL r (m @ ''::'' @ n)) (cret r))
       | IotaExpression \<Rightarrow> cthrow (Rejected ''Unknown expression type'')))"

subsection \<open>Statements\<close>

definition emit_pending_finallys :: "'f cprocs \<Rightarrow> nat \<Rightarrow> ('f, unit) cm" where
  "emit_pending_finallys P flr =
     cbind (fget pending_finally) (\<lambda>pf.
       if length pf \<le> flr then cskip
       else
         cseq (fmod (\<lambda>f. f\<lparr>pending_finally := take flr pf\<rparr>))
        (cseq (cfor (compile_block P) (rev (drop flr pf)))
              (fmod (\<lambda>f. f\<lparr>pending_finally := pending_finally f @ drop flr pf\<rparr>))))"

definition compile_return :: "'f cprocs \<Rightarrow> Expression option \<Rightarrow> ('f, unit) cm" where
  "compile_return P e =
     (case e of
        None \<Rightarrow> cseq (emit_pending_finallys P 0) (put RETURN_NULL 0 0 0)
      | Some e \<Rightarrow>
          cbind (ce P e 255) (\<lambda>r. cseq (emit_pending_finallys P 0) (cseq (put RETURN r 0 0) (free_temp r))))"

definition compile_if :: "'f cprocs \<Rightarrow> Expression \<Rightarrow> Statement list \<Rightarrow> Statement list option \<Rightarrow> ('f, unit) cm" where
  "compile_if P c a b =
     cbind (ce P c 255) (\<lambda>x.
     cbind (fjump JUMP_IF_FALSE x) (\<lambda>jf.
     cseq (free_temp x)
    (cseq (compile_block P a)
    (case b of
       Some eb \<Rightarrow>
         cbind (fjump JUMP 0) (\<lambda>jend. cseq (patch_here jf) (cseq (compile_block P eb) (patch_here jend)))
     | None \<Rightarrow> patch_here jf))))"

text \<open>The body of a loop, with the jumps of its \<^verbatim>\<open>break\<close> and \<^verbatim>\<open>continue\<close> statements.\<close>

definition loop_body :: "'f cprocs \<Rightarrow> nat option \<Rightarrow> Statement list \<Rightarrow> ('f, LoopContext) cm" where
  "loop_body P target body =
     cseq (fmod (\<lambda>f. f\<lparr>loop_stack := \<lparr>break_patches = [], continue_patches = [], continue_target = target, is_switch = False,
               finally_floor = length (pending_finally f)\<rparr> # loop_stack f, loop_depth := Suc (loop_depth f)\<rparr>))
    (cseq (compile_block P body)
    (cseq (fmod (\<lambda>f. f\<lparr>loop_depth := loop_depth f - 1\<rparr>))
          (fdo (\<lambda>f. case loop_stack f of [] \<Rightarrow> Inl (Rejected []) | c # cs \<Rightarrow> Inr (c, f\<lparr>loop_stack := cs\<rparr>)))))"

definition patch_all :: "nat list \<Rightarrow> nat \<Rightarrow> ('f, unit) cm" where
  "patch_all ps target = cfor (\<lambda>p. fpatch p target) ps"

definition compile_while :: "'f cprocs \<Rightarrow> Expression \<Rightarrow> Statement list \<Rightarrow> ('f, unit) cm" where
  "compile_while P c body =
     cbind current_ip (\<lambda>start.
     cbind (ce P c 255) (\<lambda>x.
     cbind (fjump JUMP_IF_FALSE x) (\<lambda>jexit.
     cseq (free_temp x)
    (cbind (loop_body P (Some start) body) (\<lambda>ctx.
     cseq (patch_all (continue_patches ctx) start)
    (cseq (put16 JUMP 0 start)
    (cbind current_ip (\<lambda>after.
     cseq (fpatch jexit after) (patch_all (break_patches ctx) after)))))))))"

definition compile_for :: "'f cprocs \<Rightarrow> Statement option \<Rightarrow> Expression option \<Rightarrow> Expression option \<Rightarrow> Statement list \<Rightarrow> ('f, unit) cm" where
  "compile_for P init c post body =
     cseq push_scope
    (cseq (case init of None \<Rightarrow> cskip | Some st \<Rightarrow> cstm P st)
    (cbind current_ip (\<lambda>start.
     cbind (case c of
              None \<Rightarrow> cret None
            | Some e \<Rightarrow> cbind (ce P e 255) (\<lambda>x. cbind (fjump JUMP_IF_FALSE x) (\<lambda>j. cseq (free_temp x) (cret (Some j))))) (\<lambda>jexit.
     cbind (loop_body P None body) (\<lambda>ctx.
     cbind current_ip (\<lambda>post_ip.
     cseq (case post of None \<Rightarrow> cskip | Some e \<Rightarrow> cbind (ce P e 255) free_temp)
    (cseq (patch_all (continue_patches ctx) post_ip)
    (cseq (put16 JUMP 0 start)
    (cbind current_ip (\<lambda>after.
     cseq (case jexit of None \<Rightarrow> cskip | Some j \<Rightarrow> fpatch j after)
    (cseq (patch_all (break_patches ctx) after) pop_scope)))))))))))"

definition loop_var :: "string \<Rightarrow> nat \<Rightarrow> ('f, nat option) cm" where
  "loop_var name r =
     cbind (fget (\<lambda>f. name \<in> boxed_names f)) (\<lambda>boxed.
       if name = [] then cret None
       else if boxed then cbind (declare_local name) (\<lambda>c. cret (Some c))
       else cseq (fmod (\<lambda>f. f\<lparr>locals := \<lparr>lv_name = name, lv_reg = r, lv_depth = fscope f\<rparr> # locals f\<rparr>)) (cret None))"

definition fresh_cell :: "nat option \<Rightarrow> nat \<Rightarrow> ('f, unit) cm" where
  "fresh_cell c r = (case c of None \<Rightarrow> cskip | Some slot \<Rightarrow> cseq (put NEW_ARRAY slot 1 0) (put ARRAY_PUSH slot r 0))"

definition compile_foreach :: "'f cprocs \<Rightarrow> Expression \<Rightarrow> string \<Rightarrow> string \<Rightarrow> Statement list \<Rightarrow> ('f, unit) cm" where
  "compile_foreach P it key val body =
     cseq push_scope
    (cbind (ce P it 255) (\<lambda>arr.
     cbind (alloc_seq 4) (\<lambda>r.
     cseq (put FOR_PREP r arr 0)
    (cseq (free_temp arr)
    (cbind (loop_var val (r + 2)) (\<lambda>val_cell.
     cbind (loop_var key (r + 3)) (\<lambda>key_cell.
     cbind current_ip (\<lambda>start.
     cbind (femit FOR_STEP r 0 0) (\<lambda>step_ip.
     cseq (fresh_cell val_cell (r + 2))
    (cseq (fresh_cell key_cell (r + 3))
    (cbind (loop_body P (Some start) body) (\<lambda>ctx.
     cseq (patch_all (continue_patches ctx) start)
    (cseq (put16 JUMP 0 start)
    (cbind current_ip (\<lambda>after.
     cseq (fpatch16 step_ip after)
    (cseq (patch_all (break_patches ctx) after)
    (cseq (release_seq r 4) pop_scope)))))))))))))))))"

definition compile_catch :: "'f ccfg \<Rightarrow> 'f cprocs \<Rightarrow> string \<Rightarrow> Statement list \<Rightarrow> ('f, unit) cm" where
  "compile_catch C P var b =
     cseq push_scope
    (cseq (if var = [] then cskip
           else cbind (declare_local var) (\<lambda>e.
                cbind (fget (\<lambda>f. e \<in> boxed_slots f)) (\<lambda>boxed.
                  if boxed then
                    cbind alloc_temp (\<lambda>tmp.
                    cseq (put LOAD_EXC tmp 0 0) (cseq (put NEW_ARRAY e 1 0) (cseq (put ARRAY_PUSH e tmp 0) (free_temp tmp))))
                  else put LOAD_EXC e 0 0)))
    (cseq (compile_block P b) pop_scope))"

definition opt_block :: "'f cprocs \<Rightarrow> Statement list option \<Rightarrow> ('f, unit) cm" where
  "opt_block P b = (case b of None \<Rightarrow> cskip | Some b \<Rightarrow> compile_block P b)"

definition compile_try ::
    "'f ccfg \<Rightarrow> 'f cprocs \<Rightarrow> Statement list \<Rightarrow> string \<Rightarrow> Statement list option \<Rightarrow> Statement list option \<Rightarrow> ('f, unit) cm" where
  "compile_try C P tb var cb fb =
     cseq (case fb of None \<Rightarrow> cskip | Some b \<Rightarrow> fmod (\<lambda>f. f\<lparr>pending_finally := pending_finally f @ [b]\<rparr>))
    (cbind (femit TRY_PUSH 0 0 0) (\<lambda>tp.
     cseq (compile_block P tb)
    (cseq (put TRY_POP 0 0 0)
    (cbind (fjump JUMP 0) (\<lambda>jend.
     cseq (patch_here tp)
    (cseq (case cb of None \<Rightarrow> cskip | Some b \<Rightarrow> compile_catch C P var b)
    (cseq (case fb of None \<Rightarrow> cskip | Some b \<Rightarrow> fmod (\<lambda>f. f\<lparr>pending_finally := butlast (pending_finally f)\<rparr>))
    (if cb \<noteq> None then cseq (patch_here jend) (opt_block P fb)
     else
       cbind alloc_temp (\<lambda>exc.
       cseq (put LOAD_EXC exc 0 0)
      (cseq (opt_block P fb)
      (cseq (put THROW exc 0 0)
      (cseq (free_temp exc)
      (cseq (patch_here jend) (opt_block P fb))))))))))))))"

definition switch_tests :: "'f cprocs \<Rightarrow> nat \<Rightarrow> Expression list \<Rightarrow> ('f, nat list) cm" where
  "switch_tests P subj vs =
     cmap (\<lambda>v.
       cbind (ce P v 255) (\<lambda>r.
       cbind alloc_temp (\<lambda>eq.
       cseq (put EQ eq subj r)
      (cseq (free_temp r)
      (cbind (fjump JUMP_IF_TRUE eq) (\<lambda>j. cseq (free_temp eq) (cret j))))))) vs"

definition case_body :: "'f cprocs \<Rightarrow> nat \<Rightarrow> nat list \<times> bool \<times> Statement list \<Rightarrow> ('f, nat) cm" where
  "case_body P no_match = (\<lambda>(js, is_default, body).
     cbind current_ip (\<lambda>body_ip.
     cseq (if is_default then fpatch no_match body_ip else patch_all js body_ip)
    (cseq push_scope
    (cseq (cfor (cstm P) body)
    (cseq pop_scope (fjump JUMP 0))))))"

definition compile_switch :: "'f cprocs \<Rightarrow> Expression \<Rightarrow> (Expression list \<times> Statement list) list \<Rightarrow> ('f, unit) cm" where
  "compile_switch P subject cases =
     cbind (ce P subject 255) (\<lambda>subj.
     cbind (cmap (\<lambda>(vs, body). switch_tests P subj vs) cases) (\<lambda>jss.
     cbind (fjump JUMP 0) (\<lambda>no_match.
     cseq (fmod (\<lambda>f. f\<lparr>loop_stack := \<lparr>break_patches = [], continue_patches = [], continue_target = None, is_switch = True,
               finally_floor = length (pending_finally f)\<rparr> # loop_stack f\<rparr>))
    (cbind (cmap (case_body P no_match) (map2 (\<lambda>js (vs, body). (js, vs = [], body)) jss cases)) (\<lambda>ends.
     cbind (fdo (\<lambda>f. case loop_stack f of [] \<Rightarrow> Inl (Rejected []) | c # cs \<Rightarrow> Inr (c, f\<lparr>loop_stack := cs\<rparr>))) (\<lambda>ctx.
     cbind current_ip (\<lambda>after.
     cseq (if \<exists>c\<in>set cases. fst c = [] then cskip else fpatch no_match after)
    (cseq (patch_all ends after)
    (cseq (patch_all (break_patches ctx) after) (free_temp subj))))))))))"

definition store_const :: "'f ccfg \<Rightarrow> string \<Rightarrow> 'f Value \<Rightarrow> ('f, unit) cm" where
  "store_const C name v =
     cbind alloc_temp (\<lambda>r. cseq (fload C r v) (cseq (emit_global C STORE_GLOBAL r name) (free_temp r)))"

fun compile_const_items :: "'f ccfg \<Rightarrow> 'f cprocs \<Rightarrow> nat \<Rightarrow> (string \<times> Expression option) list \<Rightarrow> ('f, unit) cm" where
  "compile_const_items C P iota [] = cskip"
| "compile_const_items C P iota ((name, d) # items) =
     (let counted = cseq (store_const C name (V_INT (word_of_nat iota))) (compile_const_items C P (Suc iota) items);
          fixed = (\<lambda>v. cseq (store_const C name v) (compile_const_items C P iota items))
      in case d of
           None \<Rightarrow> counted
         | Some (Expr loc IotaExpression) \<Rightarrow> counted
         | Some (Expr loc (NumberLiteral n)) \<Rightarrow> fixed (V_INT n)
         | Some (Expr loc (FloatLiteral t)) \<Rightarrow> fixed (V_FLOAT (float_value C t))
         | Some (Expr loc (StringLiteral t is_raw)) \<Rightarrow> fixed (V_STRING t)
         | Some (Expr loc (BooleanLiteral b)) \<Rightarrow> fixed (V_BOOL b)
         | Some e \<Rightarrow>
             cseq (cbind (ce P e 255) (\<lambda>r. cseq (emit_global C STORE_GLOBAL r name) (free_temp r)))
                  (compile_const_items C P iota items))"

definition compile_struct_decl :: "'f ccfg \<Rightarrow> 'f cprocs \<Rightarrow> string \<Rightarrow> (string \<times> Expression option) list \<Rightarrow> ('f, unit) cm" where
  "compile_struct_decl C P name fds =
     cbind alloc_temp (\<lambda>arr.
     cseq (put NEW_ARRAY arr (unat (hint_u8 (length fds * 2))) 0)
    (cseq (cfor (\<lambda>(fname, d).
        cbind alloc_temp (\<lambda>t.
        cseq (fload C t (V_STRING fname))
       (cseq (put ARRAY_PUSH arr t 0)
       (cseq (case d of
                None \<Rightarrow> put LOAD_NULL t 0 0
              | Some e \<Rightarrow> cbind (ce P e t) (\<lambda>x. if x = t then cskip else put MOVE t x 0))
       (cseq (put ARRAY_PUSH arr t 0) (free_temp t)))))) fds)
    (cseq (emit_global C STORE_GLOBAL arr (''__sdef:'' @ name)) (free_temp arr))))"

text \<open>Output goes through the built-in function 1, one argument at a time, without the count that other calls carry.\<close>

definition emit_output_args :: "'f ccfg \<Rightarrow> 'f cprocs \<Rightarrow> Expression list \<Rightarrow> bool \<Rightarrow> ('f, unit) cm" where
  "emit_output_args C P es newline =
     (let out = (\<lambda>r. cseq (put CALL_BUILTIN r 1 r) (free_temp r));
          text = (\<lambda>t. cbind alloc_temp (\<lambda>r. cseq (fload C r (V_STRING t)) (out r)))
      in cseq (cfor (\<lambda>(i, e). cseq (if (0 :: nat) < i then text '' '' else cskip) (cbind (ce P e 255) out)) (zip [0..<length es] es))
              (if newline then text [CHR 10] else cskip))"

definition compile_break :: "'f cprocs \<Rightarrow> ('f, unit) cm" where
  "compile_break P =
     cbind (fget loop_stack) (\<lambda>ls.
       case ls of
         [] \<Rightarrow> cthrow (Rejected ''break outside a loop/switch'')
       | c # _ \<Rightarrow>
           cseq (emit_pending_finallys P (finally_floor c))
          (cbind (fjump JUMP 0) (\<lambda>p.
           fmod (\<lambda>f. case loop_stack f of
                       [] \<Rightarrow> f
                     | c # cs \<Rightarrow> f\<lparr>loop_stack := c\<lparr>break_patches := break_patches c @ [p]\<rparr> # cs\<rparr>))))"

fun add_continue :: "nat \<Rightarrow> LoopContext list \<Rightarrow> LoopContext list" where
  "add_continue p [] = []"
| "add_continue p (c # cs) =
     (if is_switch c then c # add_continue p cs else c\<lparr>continue_patches := continue_patches c @ [p]\<rparr> # cs)"

definition compile_continue :: "'f cprocs \<Rightarrow> ('f, unit) cm" where
  "compile_continue P =
     cbind (fget (\<lambda>f. find (\<lambda>c. \<not> is_switch c) (loop_stack f))) (\<lambda>c.
       case c of
         None \<Rightarrow> cthrow (Rejected ''continue outside a loop'')
       | Some c \<Rightarrow>
           cseq (emit_pending_finallys P (finally_floor c))
          (case continue_target c of
             Some t \<Rightarrow> put16 JUMP 0 t
           | None \<Rightarrow> cbind (fjump JUMP 0) (\<lambda>p. fmod (\<lambda>f. f\<lparr>loop_stack := add_continue p (loop_stack f)\<rparr>))))"

text \<open>A module found on disk is compiled in place, once; an error in it is dropped and the code emitted so far stays. A file is
  compiled in place too, once, and an error in it is an error of the program.\<close>

definition module_program :: "string \<Rightarrow> Program option" where
  "module_program t = (case scan_tokens t of Inl e \<Rightarrow> None | Inr ts \<Rightarrow> (case parse ts of Inl e \<Rightarrow> None | Inr prog \<Rightarrow> Some prog))"

definition compile_use :: "'f ccfg \<Rightarrow> 'f cprocs \<Rightarrow> string \<Rightarrow> ('f, unit) cm" where
  "compile_use C P name =
     (let nop = put NOP 0 0 0 in
      cbind (fget no_discovery) (\<lambda>disc.
        if disc then cskip
        else case module_path C name of
               None \<Rightarrow> nop
             | Some path \<Rightarrow>
                 cbind (\<lambda>s. (Inr (path \<in> compile_modules s), s)) (\<lambda>known.
                   if known then nop
                   else case file_text C path of
                          None \<Rightarrow> nop
                        | Some t \<Rightarrow>
                            (case module_program t of
                               None \<Rightarrow> nop
                             | Some prog \<Rightarrow>
                                 cseq (\<lambda>s. (Inr (), s\<lparr>compile_modules := insert path (compile_modules s)\<rparr>))
                                      (ccatch (cfor (cstm P) prog) nop)))))"

definition compile_use_file :: "'f ccfg \<Rightarrow> 'f cprocs \<Rightarrow> string \<Rightarrow> ('f, unit) cm" where
  "compile_use_file C P path =
     (let bad = (\<lambda>t. cthrow (Rejected (''use '' @ path @ '': '' @ t))) in
      cbind (fget no_discovery) (\<lambda>disc.
        if disc then cskip
        else if compile_root C = [] then bad ''file include compiles only with a base directory''
        else
          cbind (\<lambda>s. (Inr (canonical C (case cur_dirs s of [] \<Rightarrow> compile_root C | d # ds \<Rightarrow> d) path), s)) (\<lambda>abs_path.
            if \<not> prefix (canonical C [] (compile_root C)) abs_path then bad ''the file is outside the application directory''
            else
              cbind (\<lambda>s. (Inr (abs_path \<in> compile_included s), s)) (\<lambda>known.
                if known then put NOP 0 0 0
                else case file_text C abs_path of
                       None \<Rightarrow> bad ''the file cannot be opened''
                     | Some t \<Rightarrow>
                         cseq (\<lambda>s. (Inr (), s\<lparr>compile_included := insert abs_path (compile_included s)\<rparr>))
                        (case module_program t of
                           None \<Rightarrow> bad ''syntax error''
                         | Some prog \<Rightarrow>
                             (\<lambda>s. case cfor (cstm P) prog (s\<lparr>cur_dirs := parent_path C abs_path # cur_dirs s\<rparr>) of
                                    (r, s') \<Rightarrow> (r, s'\<lparr>cur_dirs := tl (cur_dirs s')\<rparr>)))))))"

definition compile_stmt :: "'f ccfg \<Rightarrow> 'f cprocs \<Rightarrow> Statement \<Rightarrow> ('f, unit) cm" where
  "compile_stmt C P stmt =
     (case stmt of Stmt loc node \<Rightarrow>
        cseq (if 0 < loc_line loc then fmod (\<lambda>f. f\<lparr>cur_line := int (loc_line loc)\<rparr>) else cskip)
       (case node of
          ExpressionStatement e \<Rightarrow>
            (case e of
               Expr _ (AssignmentExpression name opr obj idx v) \<Rightarrow> compile_assign_expr C P name opr obj idx v
             | _ \<Rightarrow> cbind (ce P e 255) free_temp)
        | PrintStatement es \<Rightarrow> emit_output_args C P es True
        | WriteStatement es \<Rightarrow> emit_output_args C P es False
        | ReturnStatement e \<Rightarrow> compile_return P e
        | ThrowStatement e \<Rightarrow> cbind (ce P e 255) (\<lambda>r. cseq (put THROW r 0 0) (free_temp r))
        | BreakStatement \<Rightarrow> compile_break P
        | ContinueStatement \<Rightarrow> compile_continue P
        | UseStatement name alias \<Rightarrow> compile_use C P name
        | UseFileStatement path \<Rightarrow> compile_use_file C P path
        | BlockStatement b \<Rightarrow> compile_block P b
        | IfStatement c a b \<Rightarrow> compile_if P c a b
        | WhileStatement c b \<Rightarrow> compile_while P c b
        | ForStatement i c p b \<Rightarrow> compile_for P i c p b
        | ForeachStatement it key val b \<Rightarrow> compile_foreach P it key val b
        | TryCatchStatement tb var cb fb \<Rightarrow> compile_try C P tb var cb fb
        | SwitchStatement e cases \<Rightarrow> compile_switch P e cases
        | StructDeclaration n fds \<Rightarrow> compile_struct_decl C P n fds
        | ConstBlock items \<Rightarrow> compile_const_items C P 0 items
        | FunctionDeclaration n ps ds var body \<Rightarrow> compile_func_decl C P n ps ds var body))"

subsection \<open>Whole programs\<close>

text \<open>The recursive procedures with at most \<open>n\<close> nested calls.\<close>

fun cprocs_at :: "'f ccfg \<Rightarrow> nat \<Rightarrow> 'f cprocs" where
  "cprocs_at C 0 = \<lparr>ce = (\<lambda>e d. cthrow Out_of_steps), cstm = (\<lambda>st. cthrow Out_of_steps)\<rparr>"
| "cprocs_at C (Suc n) = \<lparr>ce = compile_expr C (cprocs_at C n), cstm = compile_stmt C (cprocs_at C n)\<rparr>"

lemma cprocs_at_code [code]:
  "cprocs_at C 0 = \<lparr>ce = (\<lambda>e d. cthrow Out_of_steps), cstm = (\<lambda>st. cthrow Out_of_steps)\<rparr>"
  "cprocs_at C (Suc n) = (let P = cprocs_at C n in \<lparr>ce = compile_expr C P, cstm = compile_stmt C P\<rparr>)"
  by (simp_all add: Let_def)

text \<open>The names of unknown module functions are kept at the root: those of its discovery pass are thrown away with it.\<close>

definition keep_names :: "('f, 'a) cm \<Rightarrow> ('f, 'a) cm" where
  "keep_names m s = (case m s of (r, s') \<Rightarrow> (r, s'\<lparr>non_builtin_names := non_builtin_names s\<rparr>))"

definition compile_stmts :: "'f cprocs \<Rightarrow> Statement list \<Rightarrow> ('f, unit) cm" where
  "compile_stmts P sts =
     (let body = cseq push_scope (cseq (cfor (cstm P) sts) (cseq pop_scope (cseq (put RETURN_NULL 0 0 0) finish)))
      in cseq (keep_names (discover body)) body)"

text \<open>The prototypes of the program, the main one last, and the functions of modules that are no built-ins.\<close>

record 'f CompiledProgram =
  all_protos :: "'f FunctionProto list"
  non_builtin_module_fns :: "string list"

definition compile_program :: "'f ccfg \<Rightarrow> nat \<Rightarrow> Program \<Rightarrow> compile_error + 'f CompiledProgram" where
  "compile_program C n prog =
     (case fc_new ''<main>'' [] False of
        Inl e \<Rightarrow> Inl e
      | Inr f0 \<Rightarrow>
          (case in_fc f0 (compile_stmts (cprocs_at C n) prog)
             \<lparr>fcs = [], protos_out = [], non_builtin_names = [], compile_modules = {}, compile_included = {},
              cur_dirs = (if compile_root C = [] then [] else [compile_root C])\<rparr> of
             (Inl e, s) \<Rightarrow> Inl e
           | (Inr (u, f), s) \<Rightarrow> Inr \<lparr>all_protos = protos_out s @ [proto f], non_builtin_module_fns = non_builtin_names s\<rparr>))"

end
