(* ===== verification/Vm.thy ===== *)
theory Vm
  imports Bytecode
begin

text \<open>
  The register virtual machine of \<^verbatim>\<open>vm.h\<close> / \<^verbatim>\<open>vm.cpp\<close>: frames over one register file, the handler stack, and one
  definition per group of instructions; \<open>vm_step\<close> is one turn of the dispatch loop of \<^verbatim>\<open>VM::run\<close> with its exception
  handlers. Stacks have their top first. The registers are accessed without a bounds check in release builds, so an access
  outside the register file is an outcome of its own, \<open>Out_of_range\<close>; a value of the wrong kind where the code relies on
  its own compiler is \<open>Misuse\<close>, and a value nested deeper than the C++ stack allows is \<open>Stack_exhausted\<close>.

  The inline cache of global slots is not modelled (slots are never removed, so it only saves lookups). Functions
  provided by the host (\<^verbatim>\<open>builtins\<close>) and the channel and thread primitives are arguments; a host function that calls
  back into the machine is outside the model.
\<close>

record Frame =
  fproto :: addr
  fclosure :: addr
  ip :: nat
  base :: nat
  ret_reg :: int
  argc :: nat

record TryCatchEntry =
  catch_ip :: nat
  frame_depth :: nat
  reg_base :: nat

datatype 'f vm_exn = Thrown "'f Value" | Typed "'f Value" | Failed string | Control string

record 'f VM =
  regs :: "'f Value list"
  call_stack :: "Frame list"
  try_stack :: "TryCatchEntry list"
  try_floor :: nat
  current_exception :: "'f Value"
  globals :: "string \<rightharpoonup> 'f Value"
  arrays :: "'f arrays"
  closures :: "addr \<Rightarrow> 'f Closure"
  next_closure :: addr
  isolate_globals :: bool
  isolated :: "string set"

type_synonym 'f host_fn = "'f Value list \<Rightarrow> 'f arrays \<Rightarrow> ('f vm_exn + 'f Value) \<times> 'f arrays"

record 'f vm_env =
  flt :: "'f float_ops"
  fmt :: "'f \<Rightarrow> string"
  depth :: nat
  protos :: "addr \<Rightarrow> 'f FunctionProto"
  bc_cloner :: "'f clone_hook"
  builtins :: "'f host_fn option list option"
  builtin_names :: "string list"
  foreign :: "OpCode \<Rightarrow> 'f Value \<Rightarrow> 'f Value \<Rightarrow> 'f vm_exn + 'f Value"
  warn_undef :: bool

definition MAX_CALL_DEPTH :: nat where
  "MAX_CALL_DEPTH = 500"

datatype 'f outcome = Running "'f VM" | Raised "'f vm_exn" "'f VM" | Finished "'f Value" "'f VM"
  | Out_of_range | Misuse | Stack_exhausted

subsection \<open>Registers and constants\<close>

definition cur_base :: "'f VM \<Rightarrow> nat" where
  "cur_base vm = (case call_stack vm of [] \<Rightarrow> 0 | f # fs \<Rightarrow> base f)"

definition cur_proto :: "'f vm_env \<Rightarrow> 'f VM \<Rightarrow> 'f FunctionProto" where
  "cur_proto E vm = (case call_stack vm of [] \<Rightarrow> protos E 0 | f # fs \<Rightarrow> protos E (fproto f))"

definition cur_ip :: "'f VM \<Rightarrow> nat" where
  "cur_ip vm = (case call_stack vm of [] \<Rightarrow> 0 | f # fs \<Rightarrow> ip f)"

definition set_ip :: "nat \<Rightarrow> 'f VM \<Rightarrow> 'f VM" where
  "set_ip n vm = (case call_stack vm of [] \<Rightarrow> vm | f # fs \<Rightarrow> vm\<lparr>call_stack := f\<lparr>ip := n\<rparr> # fs\<rparr>)"

definition reg :: "'f VM \<Rightarrow> nat \<Rightarrow> 'f Value option" where
  "reg vm x = (let i = cur_base vm + x in if i < length (regs vm) then Some (regs vm ! i) else None)"

definition with_reg :: "'f VM \<Rightarrow> nat \<Rightarrow> ('f Value \<Rightarrow> 'f outcome) \<Rightarrow> 'f outcome" where
  "with_reg vm x k = (case reg vm x of None \<Rightarrow> Out_of_range | Some v \<Rightarrow> k v)"

definition set_reg :: "nat \<Rightarrow> 'f Value \<Rightarrow> 'f VM \<Rightarrow> 'f outcome" where
  "set_reg x v vm =
     (let i = cur_base vm + x
      in if i < length (regs vm) then Running (vm\<lparr>regs := (regs vm)[i := v]\<rparr>) else Out_of_range)"

definition with_const :: "'f vm_env \<Rightarrow> 'f VM \<Rightarrow> nat \<Rightarrow> ('f Value \<Rightarrow> 'f outcome) \<Rightarrow> 'f outcome" where
  "with_const E vm i k =
     (let cs = constants (cur_proto E vm) in if i < length cs then k (cs ! i) else Out_of_range)"

definition with_name :: "'f vm_env \<Rightarrow> 'f VM \<Rightarrow> nat \<Rightarrow> (string \<Rightarrow> 'f outcome) \<Rightarrow> 'f outcome" where
  "with_name E vm i k = with_const E vm i (\<lambda>v. case v of V_STRING s \<Rightarrow> k s | _ \<Rightarrow> k [])"

definition str_of :: "'f vm_env \<Rightarrow> 'f VM \<Rightarrow> 'f Value \<Rightarrow> string option" where
  "str_of E vm = to_string (fmt E) (arrays vm) (depth E)"

definition elems :: "'f VM \<Rightarrow> addr \<Rightarrow> 'f Value list" where
  "elems vm a = arrays vm ! a"

subsection \<open>Errors\<close>

fun op_text :: "value_error \<Rightarrow> string" where
  "op_text NonNumeric = ''Arithmetic on a non-numeric value (null/array/object)''"
| "op_text EmptyNumber = ''Arithmetic on an empty string''"
| "op_text (Bignum s) = ''Arithmetic on a numeric string exceeding the int64 limit (bignum/ID): '' @ [CHR 0x27] @ s @ [CHR 0x27]"
| "op_text (NotANumber s) = ''Arithmetic on a string that cannot be converted to a number: '' @ [CHR 0x27] @ s @ [CHR 0x27]"
| "op_text DivisionByZero = ''Division by zero''"
| "op_text ModuloByZero = ''Modulo by zero''"
| "op_text Incomparable = ''Incomparable types: '' @ [CHR 0x27, CHR ''<'', CHR 0x27, CHR ''/'', CHR 0x27, CHR ''>'', CHR 0x27] @
     '' only for number'' @ [CHR 0xE2, CHR 0x86, CHR 0x94] @ ''number and string'' @ [CHR 0xE2, CHR 0x86, CHR 0x94] @ ''string '' @
     [CHR 0xE2, CHR 0x80, CHR 0x94] @ '' convert with int()/float()/string() before comparing different types''"

definition raise_idx :: "idx_error \<Rightarrow> 'f VM \<Rightarrow> 'f outcome" where
  "raise_idx e vm =
     (case e of
        OutOfBounds i \<Rightarrow> Raised (Failed (''Array index '' @ int_str i @ '' out of bounds'')) vm
      | ImmutableString \<Rightarrow> Raised (Failed ''Strings are immutable; cannot assign to a string index'') vm
      | OpFailed v \<Rightarrow> Raised (Failed (op_text v)) vm
      | NotAnArray \<Rightarrow> Misuse
      | TooDeep \<Rightarrow> Stack_exhausted)"

definition store_result :: "nat \<Rightarrow> value_error + 'f Value \<Rightarrow> 'f VM \<Rightarrow> 'f outcome" where
  "store_result x r vm = (case r of Inl e \<Rightarrow> Raised (Failed (op_text e)) vm | Inr v \<Rightarrow> set_reg x v vm)"

subsection \<open>Operators\<close>

text \<open>Integer addition, subtraction and multiplication have a short path; everything else goes to the operator of the value.\<close>

definition vm_arith ::
    "(u64 \<Rightarrow> u64 \<Rightarrow> u64 \<times> bool) \<Rightarrow> ('f Value \<Rightarrow> 'f Value \<Rightarrow> value_error + 'f Value) \<Rightarrow> 'f Value \<Rightarrow> 'f Value \<Rightarrow> value_error + 'f Value" where
  "vm_arith ovf slow x y =
     (case (x, y) of
        (V_INT i, V_INT j) \<Rightarrow> (let (r, ov) = ovf i j in if \<not> ov then Inr (V_INT r) else slow x y)
      | _ \<Rightarrow> slow x y)"

definition vm_unm :: "'f float_ops \<Rightarrow> 'f Value \<Rightarrow> 'f Value" where
  "vm_unm F b =
     (case b of
        V_FLOAT d \<Rightarrow> V_FLOAT (f_neg F d)
      | _ \<Rightarrow> let v = to_int F b
            in if sint v = - (2 ^ 63) then V_FLOAT (f_neg F (f_of_int F (sint v))) else V_INT (- v))"

definition cmp_result :: "value_error + bool \<Rightarrow> value_error + 'f Value" where
  "cmp_result r = (case r of Inl e \<Rightarrow> Inl e | Inr b \<Rightarrow> Inr (V_BOOL b))"

text \<open>The instructions \<^verbatim>\<open>r[a] = r[b] OP r[c]\<close>; \<^term>\<open>None\<close> for the others.\<close>

definition vm_binary ::
    "'f float_ops \<Rightarrow> OpCode \<Rightarrow> ('f Value \<Rightarrow> 'f Value \<Rightarrow> value_error + 'f Value) option" where
  "vm_binary F opc =
     (case opc of
        ADD \<Rightarrow> Some (vm_arith i64_add_ovf (val_add F))
      | SUB \<Rightarrow> Some (vm_arith i64_sub_ovf (val_sub F))
      | MUL \<Rightarrow> Some (vm_arith i64_mul_ovf (val_mul F))
      | DIV \<Rightarrow> Some (val_div F)
      | MOD \<Rightarrow> Some (val_mod F)
      | POW \<Rightarrow> Some (\<lambda>x y. Inr (val_pow F x y))
      | BAND \<Rightarrow> Some (\<lambda>x y. Inr (bitwise_and F x y))
      | BOR \<Rightarrow> Some (\<lambda>x y. Inr (bitwise_or F x y))
      | BXOR \<Rightarrow> Some (\<lambda>x y. Inr (bitwise_xor F x y))
      | SHL \<Rightarrow> Some (\<lambda>x y. Inr (shift_left F x y))
      | SHR \<Rightarrow> Some (\<lambda>x y. Inr (shift_right F x y))
      | EQ \<Rightarrow> Some (\<lambda>x y. Inr (V_BOOL (val_eq F x y)))
      | NEQ \<Rightarrow> Some (\<lambda>x y. Inr (V_BOOL (\<not> val_eq F x y)))
      | LT \<Rightarrow> Some (\<lambda>x y. cmp_result (val_less F x y))
      | GT \<Rightarrow> Some (\<lambda>x y. cmp_result (val_greater F x y))
      | LTE \<Rightarrow> Some (\<lambda>x y. cmp_result (val_less_eq F x y))
      | GTE \<Rightarrow> Some (\<lambda>x y. cmp_result (val_greater_eq F x y))
      | CMP3 \<Rightarrow> Some (\<lambda>x y. case spaceship F x y of Inl e \<Rightarrow> Inl e | Inr i \<Rightarrow> Inr (V_INT (word_of_int i)))
      | COALESCE \<Rightarrow> Some (\<lambda>x y. Inr (case x of V_NONE \<Rightarrow> y | _ \<Rightarrow> x))
      | _ \<Rightarrow> None)"

definition type_name :: "'f Value \<Rightarrow> string" where
  "type_name v =
     (case v of
        V_INT i \<Rightarrow> ''int'' | V_FLOAT d \<Rightarrow> ''float'' | V_STRING s \<Rightarrow> ''string'' | V_BOOL b \<Rightarrow> ''bool''
      | V_FUNCTION f \<Rightarrow> ''function'' | V_ARRAY a \<Rightarrow> ''array'' | V_CHANNEL c \<Rightarrow> ''channel''
      | V_WEBSOCKET w \<Rightarrow> ''websocket'' | V_SSE_CONN w \<Rightarrow> ''sse'' | V_BYTECODE_FN f \<Rightarrow> ''function'' | V_NONE \<Rightarrow> ''null'')"

definition array_len :: "'f VM \<Rightarrow> 'f Value \<Rightarrow> nat" where
  "array_len vm v =
     (case v of
        V_ARRAY a \<Rightarrow>
          (let vec = elems vm a
           in if is_assoc vec then (length vec - assoc_start vec) div 2 else length vec)
      | _ \<Rightarrow> 0)"

text \<open>The instructions \<^verbatim>\<open>r[a] = OP r[b]\<close>; the inner \<^term>\<open>None\<close> is text nested too deep.\<close>

definition vm_unary :: "'f vm_env \<Rightarrow> 'f VM \<Rightarrow> OpCode \<Rightarrow> ('f Value \<Rightarrow> 'f Value option) option" where
  "vm_unary E vm opc =
     (case opc of
        MOVE \<Rightarrow> Some Some
      | LOAD_VAR \<Rightarrow> Some Some
      | STORE_VAR \<Rightarrow> Some Some
      | UNM \<Rightarrow> Some (\<lambda>x. Some (vm_unm (flt E) x))
      | BNOT \<Rightarrow> Some (\<lambda>x. Some (bitwise_not (flt E) x))
      | OP_NOT \<Rightarrow> Some (\<lambda>x. Some (V_BOOL (\<not> is_truthy (flt E) (elems vm) x)))
      | ARRAY_LEN \<Rightarrow> Some (\<lambda>x. Some (V_INT (word_of_nat (array_len vm x))))
      | TYPE_OF \<Rightarrow> Some (\<lambda>x. Some (V_STRING (type_name x)))
      | TO_INT \<Rightarrow> Some (\<lambda>x. Some (V_INT (to_int (flt E) x)))
      | TO_FLOAT \<Rightarrow> Some (\<lambda>x. Some (V_FLOAT (to_float (flt E) x)))
      | TO_STR \<Rightarrow> Some (\<lambda>x. map_option V_STRING (str_of E vm x))
      | TO_BOOL \<Rightarrow> Some (\<lambda>x. Some (V_BOOL (is_truthy (flt E) (elems vm) x)))
      | _ \<Rightarrow> None)"

subsection \<open>Instructions\<close>

abbreviation opA :: "Instruction \<Rightarrow> nat" where "opA i \<equiv> unat (ra i)"
abbreviation opB :: "Instruction \<Rightarrow> nat" where "opB i \<equiv> unat (rb i)"
abbreviation opC :: "Instruction \<Rightarrow> nat" where "opC i \<equiv> unat (rc i)"
abbreviation opBX :: "Instruction \<Rightarrow> nat" where "opBX i \<equiv> unat (bx i)"

definition carries_mutable_state :: "'f VM \<Rightarrow> 'f Value \<Rightarrow> bool" where
  "carries_mutable_state vm v =
     (case v of V_ARRAY a \<Rightarrow> True | V_BYTECODE_FN c \<Rightarrow> captures (closures vm c) \<noteq> [] | _ \<Rightarrow> False)"

definition load_global :: "'f vm_env \<Rightarrow> nat \<Rightarrow> string \<Rightarrow> 'f VM \<Rightarrow> 'f outcome" where
  "load_global E x name vm =
     (case globals vm name of
        Some v \<Rightarrow>
          if isolate_globals vm \<and> name \<notin> isolated vm then
            (let vm1 = vm\<lparr>isolated := insert name (isolated vm)\<rparr>
             in if carries_mutable_state vm v then
                  (let (v', arrs) = deep_clone (bc_cloner E) v (arrays vm)
                   in set_reg x v' (vm1\<lparr>globals := (globals vm)(name \<mapsto> v'), arrays := arrs\<rparr>))
                else set_reg x v vm1)
          else set_reg x v vm
      | None \<Rightarrow>
          if name \<noteq> [] \<and> hd name = CHR ''$'' then
            (if warn_undef E then set_reg x V_NONE vm else Raised (Failed (''Undefined variable: '' @ name)) vm)
          else set_reg x V_NONE vm)"

definition store_global :: "string \<Rightarrow> 'f Value \<Rightarrow> 'f VM \<Rightarrow> 'f VM" where
  "store_global name v vm =
     (let vm1 = vm\<lparr>globals := (globals vm)(name \<mapsto> v)\<rparr>
      in if isolate_globals vm then vm1\<lparr>isolated := insert name (isolated vm)\<rparr> else vm1)"

definition exec_load :: "'f vm_env \<Rightarrow> Instruction \<Rightarrow> 'f VM \<Rightarrow> 'f outcome" where
  "exec_load E i vm =
     (case op i of
        LOAD_CONST \<Rightarrow> with_const E vm (opB i) (\<lambda>v. set_reg (opA i) v vm)
      | LOAD_CONST_W \<Rightarrow> with_const E vm (opBX i) (\<lambda>v. set_reg (opA i) v vm)
      | LOAD_NULL \<Rightarrow> set_reg (opA i) V_NONE vm
      | LOAD_TRUE \<Rightarrow> set_reg (opA i) (V_BOOL True) vm
      | LOAD_FALSE \<Rightarrow> set_reg (opA i) (V_BOOL False) vm
      | LOAD_INT \<Rightarrow> set_reg (opA i) (V_INT (scast (rb i))) vm
      | LOAD_GLOBAL \<Rightarrow> with_name E vm (opBX i) (\<lambda>n. load_global E (opA i) n vm)
      | STORE_GLOBAL \<Rightarrow> with_name E vm (opBX i) (\<lambda>n. with_reg vm (opA i) (\<lambda>v. Running (store_global n v vm)))
      | CHECK_DEFINED \<Rightarrow>
          with_reg vm (opA i) (\<lambda>v. case v of
            V_NONE \<Rightarrow> with_name E vm (opBX i) (\<lambda>n. if globals vm n = None
              then Raised (Failed (''Undefined variable: '' @ n)) vm else Running vm)
          | _ \<Rightarrow> Running vm)
      | LOAD_EXC \<Rightarrow> set_reg (opA i) (current_exception vm) vm
      | LOAD_ARGC \<Rightarrow> set_reg (opA i) (V_INT (word_of_nat (case call_stack vm of [] \<Rightarrow> 0 | f # fs \<Rightarrow> argc f))) vm
      | LOAD_CAPTURE \<Rightarrow>
          (case call_stack vm of
             [] \<Rightarrow> Misuse
           | f # fs \<Rightarrow>
               let cs = captures (closures vm (fclosure f))
               in if length cs \<le> opB i then Raised (Failed (''Capture index out of range: '' @ nat_str (opB i))) vm
                  else set_reg (opA i) (cs ! opB i) vm)
      | _ \<Rightarrow> Misuse)"

text \<open>Arrays, maps and fields. \<^verbatim>\<open>CONCAT\<close> appends in place when target and left operand coincide; strings are values here,
  so both forms store the joined text.\<close>

definition exec_array :: "'f vm_env \<Rightarrow> Instruction \<Rightarrow> 'f VM \<Rightarrow> 'f outcome" where
  "exec_array E i vm =
     (let str = str_of E vm;
          write = (\<lambda>x r. case r of
            (None, arr, arrs) \<Rightarrow> set_reg x arr (vm\<lparr>arrays := arrs\<rparr>)
          | (Some e, arr, arrs) \<Rightarrow>
              (case set_reg x arr (vm\<lparr>arrays := arrs\<rparr>) of Running vm1 \<Rightarrow> raise_idx e vm1 | r \<Rightarrow> r))
      in case op i of
        CONCAT \<Rightarrow> with_reg vm (opB i) (\<lambda>x. with_reg vm (opC i) (\<lambda>y.
          case val_concat str x y of Inl e \<Rightarrow> raise_idx e vm | Inr v \<Rightarrow> set_reg (opA i) v vm))
      | NEW_ARRAY \<Rightarrow> set_reg (opA i) (V_ARRAY (length (arrays vm))) (vm\<lparr>arrays := arrays vm @ [[]]\<rparr>)
      | NEW_ASSOC \<Rightarrow> set_reg (opA i) (V_ARRAY (length (arrays vm))) (vm\<lparr>arrays := arrays vm @ [[ASSOC]]\<rparr>)
      | ARRAY_PUSH \<Rightarrow> with_reg vm (opA i) (\<lambda>x.
          case x of
            V_ARRAY a \<Rightarrow> with_reg vm (opB i) (\<lambda>v. Running (vm\<lparr>arrays := (arrays vm)[a := elems vm a @ [v]]\<rparr>))
          | _ \<Rightarrow> Running vm)
      | ARRAY_GET \<Rightarrow> with_reg vm (opB i) (\<lambda>x. with_reg vm (opC i) (\<lambda>k.
          case vm_array_get (flt E) str (arrays vm) x k of Inl e \<Rightarrow> raise_idx e vm | Inr v \<Rightarrow> set_reg (opA i) v vm))
      | ARRAY_SET \<Rightarrow> with_reg vm (opA i) (\<lambda>x. with_reg vm (opB i) (\<lambda>k. with_reg vm (opC i) (\<lambda>v.
          write (opA i) (vm_array_set (flt E) str (arrays vm) x k v))))
      | ASSOC_APPEND \<Rightarrow> with_reg vm (opA i) (\<lambda>x. with_reg vm (opB i) (\<lambda>k. with_reg vm (opC i) (\<lambda>v.
          case x of
            V_ARRAY a \<Rightarrow> Running (vm\<lparr>arrays := (arrays vm)[a := elems vm a @ [k, v]]\<rparr>)
          | _ \<Rightarrow> Misuse)))
      | GET_FIELD \<Rightarrow> with_name E vm (opC i) (\<lambda>n. with_reg vm (opB i) (\<lambda>x.
          case vm_get_field (flt E) str (arrays vm) x n of Inl e \<Rightarrow> raise_idx e vm | Inr v \<Rightarrow> set_reg (opA i) v vm))
      | SET_FIELD \<Rightarrow> with_name E vm (opB i) (\<lambda>n. with_reg vm (opA i) (\<lambda>x. with_reg vm (opC i) (\<lambda>v.
          write (opA i) (vm_set_field (flt E) str (arrays vm) x n v))))
      | _ \<Rightarrow> Misuse)"

text \<open>The names of the fields a struct literal sets: a \<^verbatim>\<open>NOP\<close> with their number and one \<^verbatim>\<open>LOAD_CONST_W\<close> each; the second
  component is the number of instructions.\<close>

definition is_nop :: "Instruction \<Rightarrow> bool" where
  "is_nop i = (case op i of NOP \<Rightarrow> True | _ \<Rightarrow> False)"

definition next_ins :: "'f vm_env \<Rightarrow> 'f VM \<Rightarrow> Instruction option" where
  "next_ins E vm =
     (let c = code (cur_proto E vm) in if cur_ip vm < length c then Some (c ! cur_ip vm) else None)"

definition hint :: "'f vm_env \<Rightarrow> 'f VM \<Rightarrow> Instruction option" where
  "hint E vm = (case next_ins E vm of Some i \<Rightarrow> if is_nop i then Some i else None | None \<Rightarrow> None)"

definition field_names :: "'f vm_env \<Rightarrow> 'f VM \<Rightarrow> string list option" where
  "field_names E vm =
     (case hint E vm of
        None \<Rightarrow> Some []
      | Some h \<Rightarrow>
          let n = opA h; c = code (cur_proto E vm); cs = constants (cur_proto E vm) in
          if cur_ip vm + 1 + n \<le> length c then
            those (map (\<lambda>k. let j = opBX (c ! (cur_ip vm + 1 + k))
                            in if j < length cs then Some (case cs ! j of V_STRING s \<Rightarrow> s | _ \<Rightarrow> []) else None) [0..<n])
          else None)"

fun struct_fields :: "'f clone_hook \<Rightarrow> 'f Value list \<Rightarrow> 'f arrays \<Rightarrow> 'f Value list \<times> 'f arrays" where
  "struct_fields bc (k # d # r) A =
     (let (d', A1) = (case d of V_ARRAY a \<Rightarrow> deep_clone bc d A | _ \<Rightarrow> (d, A)); (fs, A2) = struct_fields bc r A1
      in (k # d' # fs, A2))"
| "struct_fields bc _ A = ([], A)"

fun declared_fields :: "'f Value list \<Rightarrow> string list" where
  "declared_fields (V_STRING k # d # r) = k # declared_fields r"
| "declared_fields (k # d # r) = declared_fields r"
| "declared_fields _ = []"

text \<open>The second source of definitions, \<^verbatim>\<open>shared_.struct_defs\<close>, is never filled.\<close>

definition exec_struct :: "'f vm_env \<Rightarrow> Instruction \<Rightarrow> 'f VM \<Rightarrow> 'f outcome" where
  "exec_struct E i vm =
     with_name E vm (opBX i) (\<lambda>sname.
       let skip = (case hint E vm of None \<Rightarrow> vm | Some h \<Rightarrow> set_ip (cur_ip vm + 1 + opA h) vm);
           tag = [ASSOC, V_STRING ''__struct__'', V_STRING sname];
           finish = (\<lambda>fs arrs. set_reg (opA i) (V_ARRAY (length arrs)) (skip\<lparr>arrays := arrs @ [tag @ fs]\<rparr>))
       in case globals vm (''__sdef:'' @ sname) of
            Some (V_ARRAY d) \<Rightarrow>
              (case field_names E vm of
                 None \<Rightarrow> Out_of_range
               | Some names \<Rightarrow>
                   (case find (\<lambda>n. n \<notin> set (declared_fields (elems vm d))) names of
                      Some n \<Rightarrow> Raised (Failed (''Unknown field '' @ [CHR 0x27] @ n @ [CHR 0x27] @ '' in struct '' @
                                  [CHR 0x27] @ sname @ [CHR 0x27])) vm
                    | None \<Rightarrow> (let (fs, arrs) = struct_fields (bc_cloner E) (elems vm d) (arrays vm) in finish fs arrs)))
          | _ \<Rightarrow> finish [] (arrays vm))"

definition exec_jump :: "'f vm_env \<Rightarrow> Instruction \<Rightarrow> 'f VM \<Rightarrow> 'f outcome" where
  "exec_jump E i vm =
     (case op i of
        JUMP \<Rightarrow> Running (set_ip (opBX i) vm)
      | JUMP_IF_FALSE \<Rightarrow> with_reg vm (opA i) (\<lambda>v.
          Running (if \<not> is_truthy (flt E) (elems vm) v then set_ip (opBX i) vm else vm))
      | JUMP_IF_TRUE \<Rightarrow> with_reg vm (opA i) (\<lambda>v.
          Running (if is_truthy (flt E) (elems vm) v then set_ip (opBX i) vm else vm))
      | JUMP_IF_NULL \<Rightarrow> with_reg vm (opA i) (\<lambda>v.
          Running (case v of V_NONE \<Rightarrow> set_ip (opBX i) vm | _ \<Rightarrow> vm))
      | _ \<Rightarrow> Misuse)"

subsection \<open>Calls\<close>

text \<open>The values of \<open>n\<close> registers from \<open>x\<close> on.\<close>

definition reg_block :: "'f VM \<Rightarrow> nat \<Rightarrow> nat \<Rightarrow> 'f Value list option" where
  "reg_block vm x n = those (map (\<lambda>k. reg vm (x + k)) [0..<n])"

text \<open>The registers of a new frame: the arguments for the parameters, those left over in one array for a variadic function, null in
  the rest. Writing beyond the new registers is out of range (\<^term>\<open>None\<close>).\<close>

definition bind_args :: "'f FunctionProto \<Rightarrow> 'f Value list \<Rightarrow> 'f arrays \<Rightarrow> ('f Value list \<times> 'f arrays) option" where
  "bind_args p args A =
     (let fixed = (if variadic p then arity p - 1 else arity p);
          vals = take fixed args @ replicate (fixed - length args) V_NONE;
          (vals', A') = (if variadic p \<and> 0 < arity p then (vals @ [V_ARRAY (length A)], A @ [drop fixed args]) else (vals, A))
      in if length vals' \<le> reg_count p then Some (vals' @ replicate (reg_count p - length vals') V_NONE, A') else None)"

definition push_frame :: "addr \<Rightarrow> addr \<Rightarrow> int \<Rightarrow> nat \<Rightarrow> 'f Value list \<Rightarrow> 'f VM \<Rightarrow> 'f VM" where
  "push_frame p cl ret n new vm =
     vm\<lparr>regs := regs vm @ new,
        call_stack := \<lparr>fproto = p, fclosure = cl, ip = 0, base = length (regs vm), ret_reg = ret, argc = n\<rparr> # call_stack vm\<rparr>"

text \<open>The new registers exist before the depth is checked.\<close>

definition enter :: "'f vm_env \<Rightarrow> addr \<Rightarrow> nat \<Rightarrow> nat \<Rightarrow> nat \<Rightarrow> 'f VM \<Rightarrow> 'f outcome" where
  "enter E cl a args_base n vm =
     (let p = cl_proto (closures vm cl) in
      case reg_block vm args_base (if variadic (protos E p) then n else min n (arity (protos E p))) of
        None \<Rightarrow> Out_of_range
      | Some args \<Rightarrow>
          (case bind_args (protos E p) args (arrays vm) of
             None \<Rightarrow> Out_of_range
           | Some (new, arrs) \<Rightarrow>
               let vm1 = vm\<lparr>arrays := arrs\<rparr> in
               if MAX_CALL_DEPTH \<le> length (call_stack vm)
               then Raised (Failed (''Stack overflow (max '' @ nat_str MAX_CALL_DEPTH @ '')'')) (vm1\<lparr>regs := regs vm @ new\<rparr>)
               else Running (push_frame p cl (int (cur_base vm + a)) n new vm1)))"

definition skip_hint :: "'f vm_env \<Rightarrow> 'f VM \<Rightarrow> 'f VM" where
  "skip_hint E vm = (case hint E vm of None \<Rightarrow> vm | Some h \<Rightarrow> set_ip (cur_ip vm + 1) vm)"

definition exec_call :: "'f vm_env \<Rightarrow> Instruction \<Rightarrow> 'f VM \<Rightarrow> 'f outcome" where
  "exec_call E i vm =
     (let n = (case hint E vm of None \<Rightarrow> 0 | Some h \<Rightarrow> opA h);
          cname = (case hint E vm of None \<Rightarrow> 0 | Some h \<Rightarrow> opBX h);
          vm1 = skip_hint E vm
      in with_reg vm1 (opB i) (\<lambda>f.
           case f of
             V_BYTECODE_FN cl \<Rightarrow> enter E cl (opA i) (opC i) n vm1
           | _ \<Rightarrow>
               if cname \<noteq> 0 then
                 with_name E vm1 (cname - 1) (\<lambda>nm.
                   case f of
                     V_NONE \<Rightarrow> Raised (Failed (''Undefined variable: '' @ nm)) vm1
                   | _ \<Rightarrow> Raised (Failed ([CHR 0x27] @ nm @ [CHR 0x27] @ '' is not callable (function expected)'')) vm1)
               else Raised (Failed ''Not callable (function expected)'') vm1))"

definition exec_tail_call :: "'f vm_env \<Rightarrow> Instruction \<Rightarrow> 'f VM \<Rightarrow> 'f outcome" where
  "exec_tail_call E i vm =
     (let n = (case hint E vm of None \<Rightarrow> 0 | Some h \<Rightarrow> opA h); vm1 = skip_hint E vm
      in with_reg vm1 (opB i) (\<lambda>f.
           case f of
             V_BYTECODE_FN cl \<Rightarrow> enter E cl (opA i) (opC i) n vm1
           | _ \<Rightarrow> Raised (Failed ''TAIL_CALL: BYTECODE_FN expected'') vm1))"

definition unlinked_text :: "string list \<Rightarrow> nat \<Rightarrow> string" where
  "unlinked_text names b =
     (let nm = (if b < length names then names ! b else [])
      in case find_str ''::'' nm of
           Some sep \<Rightarrow> ''Module '' @ [CHR 0x27] @ take sep nm @ [CHR 0x27] @ '' not loaded.''
         | None \<Rightarrow> ''Built-in '' @ [CHR 0x27] @ (if nm = [] then nat_str b else nm) @ [CHR 0x27] @ '' unavailable (not linked)'')"

definition exec_builtin :: "'f vm_env \<Rightarrow> Instruction \<Rightarrow> 'f VM \<Rightarrow> 'f outcome" where
  "exec_builtin E i vm =
     (let n = (case hint E vm of None \<Rightarrow> 1 | Some h \<Rightarrow> opA h);
          b = (case hint E vm of None \<Rightarrow> opB i | Some h \<Rightarrow> opB i + 256 * opB h);
          vm1 = skip_hint E vm;
          unknown = Raised (Failed (''Unknown built-in: '' @ nat_str b)) vm1
      in case builtins E of
           None \<Rightarrow> unknown
         | Some bs \<Rightarrow>
             if length bs \<le> b then unknown
             else case reg_block vm1 (opC i) n of
                    None \<Rightarrow> Out_of_range
                  | Some args \<Rightarrow>
                      (case bs ! b of
                         None \<Rightarrow> Raised (Failed (unlinked_text (builtin_names E) b)) vm1
                       | Some f \<Rightarrow>
                           (case f args (arrays vm1) of
                              (Inl e, arrs) \<Rightarrow> Raised e (vm1\<lparr>arrays := arrs\<rparr>)
                            | (Inr v, arrs) \<Rightarrow> set_reg (opA i) v (vm1\<lparr>arrays := arrs\<rparr>))))"

text \<open>Leaving the top frame with a result.\<close>

definition leave :: "'f Value \<Rightarrow> 'f VM \<Rightarrow> 'f outcome" where
  "leave v vm =
     (case call_stack vm of
        [] \<Rightarrow> Misuse
      | f # fs \<Rightarrow>
          let rs = take (base f) (regs vm); vm1 = vm\<lparr>regs := rs, call_stack := fs\<rparr> in
          if fs \<noteq> [] \<and> 0 \<le> ret_reg f then
            (if nat (ret_reg f) < length rs then Running (vm1\<lparr>regs := rs[nat (ret_reg f) := v]\<rparr>) else Out_of_range)
          else Finished v vm1)"

subsection \<open>Closures, iteration, handlers\<close>

definition is_capture_hint :: "Instruction \<Rightarrow> bool" where
  "is_capture_hint i = (case op i of LOAD_CAPTURE \<Rightarrow> ra i = 0 | _ \<Rightarrow> False)"

definition exec_closure :: "'f vm_env \<Rightarrow> Instruction \<Rightarrow> 'f VM \<Rightarrow> 'f outcome" where
  "exec_closure E i vm =
     (let p = cur_proto E vm; j = opB i + 256 * opC i;
          hs = takeWhile is_capture_hint (drop (cur_ip vm) (code p));
          vm1 = set_ip (cur_ip vm + length hs) vm
      in if length (nested p) \<le> j then Out_of_range
         else case those (map (\<lambda>h. reg vm (opB h)) hs) of
                None \<Rightarrow> Out_of_range
              | Some caps \<Rightarrow>
                  let c = next_closure vm
                  in set_reg (opA i) (V_BYTECODE_FN c)
                       (vm1\<lparr>closures := (closures vm)(c := \<lparr>cl_proto = nested p ! j, captures = caps\<rparr>), next_closure := Suc c\<rparr>))"

definition set_regs :: "(nat \<times> 'f Value) list \<Rightarrow> 'f VM \<Rightarrow> 'f outcome" where
  "set_regs xvs vm = fold (\<lambda>(x, v) r. case r of Running vm \<Rightarrow> set_reg x v vm | _ \<Rightarrow> r) xvs (Running vm)"

text \<open>The counter of an iteration is a 32-bit \<^verbatim>\<open>int\<close>; only \<^verbatim>\<open>FOR_PREP\<close> and \<^verbatim>\<open>FOR_STEP\<close> write it.\<close>

definition exec_for_step :: "'f vm_env \<Rightarrow> Instruction \<Rightarrow> 'f VM \<Rightarrow> 'f outcome" where
  "exec_for_step E i vm =
     (let a = opA i; out = Running (set_ip (opBX i) vm)
      in with_reg vm a (\<lambda>arr. with_reg vm (a + 1) (\<lambda>cnt.
           case (arr, cnt) of
             (V_ARRAY x, V_INT w) \<Rightarrow>
               let vec = elems vm x; idx = sint (ucast w :: u32) in
               if idx < 0 then Misuse
               else if is_assoc vec then
                 let pi = assoc_start vec + nat idx * 2 in
                 if length vec \<le> pi + 1 then out
                 else set_regs [(a + 3, vec ! pi), (a + 2, vec ! (pi + 1)), (a + 1, V_INT (word_of_int (idx + 1)))] vm
               else if length vec \<le> nat idx then out
               else set_regs [(a + 2, vec ! nat idx), (a + 3, V_INT (word_of_int idx)), (a + 1, V_INT (word_of_int (idx + 1)))] vm
           | (V_ARRAY x, _) \<Rightarrow> Misuse
           | _ \<Rightarrow> out)))"

definition exec_try :: "Instruction \<Rightarrow> 'f VM \<Rightarrow> 'f outcome" where
  "exec_try i vm =
     (case op i of
        TRY_PUSH \<Rightarrow>
          Running (vm\<lparr>try_stack := \<lparr>catch_ip = opBX i, frame_depth = length (call_stack vm), reg_base = cur_base vm\<rparr> # try_stack vm\<rparr>)
      | TRY_POP \<Rightarrow> Running (vm\<lparr>try_stack := tl (try_stack vm)\<rparr>)
      | THROW \<Rightarrow> with_reg vm (opA i) (\<lambda>v. Raised (Thrown v) (vm\<lparr>current_exception := v\<rparr>))
      | _ \<Rightarrow> Misuse)"

definition exec_foreign :: "'f vm_env \<Rightarrow> Instruction \<Rightarrow> 'f VM \<Rightarrow> 'f outcome" where
  "exec_foreign E i vm =
     (let is_chan = (\<lambda>v. case v of V_CHANNEL c \<Rightarrow> True | _ \<Rightarrow> False);
          is_fn = (\<lambda>v. case v of V_BYTECODE_FN c \<Rightarrow> True | _ \<Rightarrow> False);
          call = (\<lambda>x y k. case foreign E (op i) x y of Inl e \<Rightarrow> Raised e vm | Inr v \<Rightarrow> k v)
      in case op i of
           CHAN_SEND \<Rightarrow> with_reg vm (opA i) (\<lambda>c. with_reg vm (opB i) (\<lambda>v.
             if is_chan c then call c v (\<lambda>_. Running vm) else Raised (Failed ''send(): argument is not a channel'') vm))
         | CHAN_RECV \<Rightarrow> with_reg vm (opB i) (\<lambda>c.
             if is_chan c then call c V_NONE (\<lambda>v. set_reg (opA i) v vm) else Raised (Failed ''receive(): argument is not a channel'') vm)
         | CHAN_CLOSE \<Rightarrow> with_reg vm (opA i) (\<lambda>c.
             if is_chan c then call c V_NONE (\<lambda>_. Running vm) else Raised (Failed ''close(): argument is not a channel'') vm)
         | CHAN_SIZE \<Rightarrow> with_reg vm (opB i) (\<lambda>c.
             if is_chan c then call c V_NONE (\<lambda>v. set_reg (opA i) v vm) else Raised (Failed ''chan_size(): argument is not a channel'') vm)
         | PARALLEL_CALL \<Rightarrow> with_reg vm (opA i) (\<lambda>f.
             if is_fn f then call f V_NONE (\<lambda>_. Running vm) else Raised (Failed ''parallel(): BYTECODE_FN expected'') vm)
         | _ \<Rightarrow> Misuse)"

definition unknown_opcode :: "nat \<Rightarrow> 'f VM \<Rightarrow> 'f outcome" where
  "unknown_opcode n vm = Raised (Failed (''Unknown opcode: '' @ nat_str n)) vm"

subsection \<open>The dispatch loop\<close>

definition vm_exec :: "'f vm_env \<Rightarrow> Instruction \<Rightarrow> 'f VM \<Rightarrow> 'f outcome" where
  "vm_exec E i vm =
     (case vm_binary (flt E) (op i) of
        Some f \<Rightarrow> with_reg vm (opB i) (\<lambda>x. with_reg vm (opC i) (\<lambda>y. store_result (opA i) (f x y) vm))
      | None \<Rightarrow>
     (case vm_unary E vm (op i) of
        Some f \<Rightarrow> with_reg vm (opB i) (\<lambda>x. case f x of None \<Rightarrow> Stack_exhausted | Some v \<Rightarrow> set_reg (opA i) v vm)
      | None \<Rightarrow>
     (case op i of
        CONCAT \<Rightarrow> exec_array E i vm | NEW_ARRAY \<Rightarrow> exec_array E i vm | NEW_ASSOC \<Rightarrow> exec_array E i vm
      | ARRAY_GET \<Rightarrow> exec_array E i vm | ARRAY_SET \<Rightarrow> exec_array E i vm | ARRAY_PUSH \<Rightarrow> exec_array E i vm
      | GET_FIELD \<Rightarrow> exec_array E i vm | SET_FIELD \<Rightarrow> exec_array E i vm | ASSOC_APPEND \<Rightarrow> exec_array E i vm
      | NEW_STRUCT \<Rightarrow> exec_struct E i vm
      | JUMP \<Rightarrow> exec_jump E i vm | JUMP_IF_FALSE \<Rightarrow> exec_jump E i vm
      | JUMP_IF_TRUE \<Rightarrow> exec_jump E i vm | JUMP_IF_NULL \<Rightarrow> exec_jump E i vm
      | CALL \<Rightarrow> exec_call E i vm | TAIL_CALL \<Rightarrow> exec_tail_call E i vm | CALL_BUILTIN \<Rightarrow> exec_builtin E i vm
      | RETURN \<Rightarrow> with_reg vm (opA i) (\<lambda>v. leave v vm) | RETURN_NULL \<Rightarrow> leave V_NONE vm
      | MAKE_CLOSURE \<Rightarrow> exec_closure E i vm
      | FOR_PREP \<Rightarrow> with_reg vm (opB i) (\<lambda>v. set_regs [(opA i, v), (opA i + 1, V_INT 0)] vm)
      | FOR_STEP \<Rightarrow> exec_for_step E i vm
      | TRY_PUSH \<Rightarrow> exec_try i vm | TRY_POP \<Rightarrow> exec_try i vm | THROW \<Rightarrow> exec_try i vm
      | CHAN_SEND \<Rightarrow> exec_foreign E i vm | CHAN_RECV \<Rightarrow> exec_foreign E i vm | CHAN_CLOSE \<Rightarrow> exec_foreign E i vm
      | CHAN_SIZE \<Rightarrow> exec_foreign E i vm | PARALLEL_CALL \<Rightarrow> exec_foreign E i vm
      | NOP \<Rightarrow> Running vm | BREAKPOINT \<Rightarrow> Running vm
      | WS_SEND \<Rightarrow> unknown_opcode 66 vm | WS_BROADCAST \<Rightarrow> unknown_opcode 67 vm
      | SSE_SEND \<Rightarrow> unknown_opcode 68 vm | ROUTE_MATCH \<Rightarrow> unknown_opcode 69 vm
      | _ \<Rightarrow> exec_load E i vm)))"

fun exn_value :: "'f vm_exn \<Rightarrow> 'f Value" where
  "exn_value (Thrown v) = v"
| "exn_value (Typed v) = v"
| "exn_value (Failed s) = V_STRING s"
| "exn_value (Control s) = V_NONE"

text \<open>Frames above the depth of the handler are dropped with their registers.\<close>

fun unwind :: "nat \<Rightarrow> Frame list \<Rightarrow> 'f Value list \<Rightarrow> Frame list \<times> 'f Value list" where
  "unwind d [] rs = ([], rs)"
| "unwind d (f # fs) rs = (if d < length (f # fs) then unwind d fs (take (base f) rs) else (f # fs, rs))"

definition handle :: "'f vm_exn \<Rightarrow> 'f VM \<Rightarrow> 'f outcome" where
  "handle e vm =
     (case e of
        Control s \<Rightarrow> Raised e vm
      | _ \<Rightarrow>
          if length (try_stack vm) \<le> try_floor vm then Raised e vm
          else let t = hd (try_stack vm); (fs, rs) = unwind (frame_depth t) (call_stack vm) (regs vm)
               in if fs = [] then Misuse
                  else Running (set_ip (catch_ip t)
                    (vm\<lparr>try_stack := tl (try_stack vm), current_exception := exn_value e, call_stack := fs, regs := rs\<rparr>)))"

text \<open>One turn: fetch, advance, execute, and on an exception look for a handler. \<open>Raised\<close> is now an exception that leaves
  \<^verbatim>\<open>run\<close>.\<close>

definition vm_step :: "'f vm_env \<Rightarrow> 'f VM \<Rightarrow> 'f outcome" where
  "vm_step E vm =
     (if call_stack vm = [] then Finished V_NONE vm
      else case next_ins E vm of
          None \<Rightarrow> leave V_NONE vm
        | Some i \<Rightarrow>
            (case vm_exec E i (set_ip (Suc (cur_ip vm)) vm) of Raised e vm' \<Rightarrow> handle e vm' | r \<Rightarrow> r))"

subsection \<open>Entry points\<close>

text \<open>\<^verbatim>\<open>run\<close> uses only the handlers it pushes itself, and takes those left over with it.\<close>

definition run_start :: "'f VM \<Rightarrow> 'f VM" where
  "run_start vm = vm\<lparr>try_floor := length (try_stack vm)\<rparr>"

definition run_end :: "'f VM \<Rightarrow> 'f VM \<Rightarrow> 'f VM" where
  "run_end vm0 vm =
     vm\<lparr>try_stack := drop (length (try_stack vm) - length (try_stack vm0)) (try_stack vm), try_floor := try_floor vm0\<rparr>"

text \<open>The loop itself, for at most \<open>n\<close> turns: \<^term>\<open>None\<close> when it has not ended by then.\<close>

fun vm_loop :: "'f vm_env \<Rightarrow> nat \<Rightarrow> 'f VM \<Rightarrow> 'f outcome option" where
  "vm_loop E 0 vm = None"
| "vm_loop E (Suc n) vm = (case vm_step E vm of Running vm' \<Rightarrow> vm_loop E n vm' | r \<Rightarrow> Some r)"

definition vm_run :: "'f vm_env \<Rightarrow> nat \<Rightarrow> 'f VM \<Rightarrow> 'f outcome option" where
  "vm_run E n vm =
     map_option (\<lambda>r. case r of Finished v vm' \<Rightarrow> Finished v (run_end vm vm') | Raised e vm' \<Rightarrow> Raised e (run_end vm vm') | _ \<Rightarrow> r)
       (vm_loop E n (run_start vm))"

definition execute_frame :: "'f vm_env \<Rightarrow> addr \<Rightarrow> 'f VM \<Rightarrow> 'f VM" where
  "execute_frame E main vm =
     (let c = next_closure vm
      in push_frame main c (-1) 0 (replicate (reg_count (protos E main)) V_NONE)
           (vm\<lparr>closures := (closures vm)(c := \<lparr>cl_proto = main, captures = []\<rparr>), next_closure := Suc c\<rparr>))"

definition execute :: "'f vm_env \<Rightarrow> nat \<Rightarrow> addr \<Rightarrow> 'f VM \<Rightarrow> 'f outcome option" where
  "execute E n main vm = vm_run E n (execute_frame E main vm)"

definition call_frame :: "'f vm_env \<Rightarrow> addr \<Rightarrow> 'f Value list \<Rightarrow> 'f VM \<Rightarrow> 'f outcome" where
  "call_frame E cl args vm =
     (if MAX_CALL_DEPTH \<le> length (call_stack vm)
      then Raised (Failed (''Stack overflow (max '' @ nat_str MAX_CALL_DEPTH @ '')'')) vm
      else let p = cl_proto (closures vm cl)
           in case bind_args (protos E p) args (arrays vm) of
                None \<Rightarrow> Out_of_range
              | Some (new, arrs) \<Rightarrow> Running (push_frame p cl (-1) (length args) new (vm\<lparr>arrays := arrs\<rparr>)))"

definition call_closure :: "'f vm_env \<Rightarrow> nat \<Rightarrow> addr \<Rightarrow> 'f Value list \<Rightarrow> 'f VM \<Rightarrow> 'f outcome option" where
  "call_closure E n cl args vm =
     (case call_frame E cl args vm of Running vm' \<Rightarrow> vm_run E n vm' | r \<Rightarrow> Some r)"

end
