(* ===== verification/Vm_Safety.thy ===== *)
theory Vm_Safety
  imports Vm
begin

text \<open>
  Memory safety of the virtual machine: on code that passes a simple per-instruction check of its operands, no run ever touches
  a register outside the register file, a constant outside the pool or a prototype outside the nested ones, whatever the values
  are, wherever the program jumps and whichever handlers run; and the frames of callers are not disturbed by their callees.
\<close>

subsection \<open>The operand check\<close>

definition reg_operands :: "Instruction \<Rightarrow> nat list" where
  "reg_operands i =
     (case op i of
        JUMP \<Rightarrow> [] | TRY_PUSH \<Rightarrow> [] | TRY_POP \<Rightarrow> [] | RETURN_NULL \<Rightarrow> [] | NOP \<Rightarrow> [] | BREAKPOINT \<Rightarrow> []
      | WS_SEND \<Rightarrow> [] | WS_BROADCAST \<Rightarrow> [] | SSE_SEND \<Rightarrow> [] | ROUTE_MATCH \<Rightarrow> []
      | LOAD_CONST \<Rightarrow> [opA i] | LOAD_CONST_W \<Rightarrow> [opA i] | LOAD_NULL \<Rightarrow> [opA i] | LOAD_TRUE \<Rightarrow> [opA i] | LOAD_FALSE \<Rightarrow> [opA i]
      | LOAD_INT \<Rightarrow> [opA i] | LOAD_GLOBAL \<Rightarrow> [opA i] | STORE_GLOBAL \<Rightarrow> [opA i] | CHECK_DEFINED \<Rightarrow> [opA i] | LOAD_EXC \<Rightarrow> [opA i]
      | LOAD_ARGC \<Rightarrow> [opA i] | LOAD_CAPTURE \<Rightarrow> [opA i] | NEW_ARRAY \<Rightarrow> [opA i] | NEW_ASSOC \<Rightarrow> [opA i] | NEW_STRUCT \<Rightarrow> [opA i]
      | JUMP_IF_FALSE \<Rightarrow> [opA i] | JUMP_IF_TRUE \<Rightarrow> [opA i] | JUMP_IF_NULL \<Rightarrow> [opA i] | RETURN \<Rightarrow> [opA i]
      | MAKE_CLOSURE \<Rightarrow> [opA i] | THROW \<Rightarrow> [opA i] | CHAN_CLOSE \<Rightarrow> [opA i] | PARALLEL_CALL \<Rightarrow> [opA i] | CALL_BUILTIN \<Rightarrow> [opA i]
      | CONCAT \<Rightarrow> [opA i, opB i, opC i] | ARRAY_GET \<Rightarrow> [opA i, opB i, opC i] | ARRAY_SET \<Rightarrow> [opA i, opB i, opC i]
      | ASSOC_APPEND \<Rightarrow> [opA i, opB i, opC i] | SET_FIELD \<Rightarrow> [opA i, opC i]
      | FOR_PREP \<Rightarrow> [opA i, opA i + 1, opB i] | FOR_STEP \<Rightarrow> [opA i, opA i + 1, opA i + 2, opA i + 3]
      | ADD \<Rightarrow> [opA i, opB i, opC i] | SUB \<Rightarrow> [opA i, opB i, opC i] | MUL \<Rightarrow> [opA i, opB i, opC i] | DIV \<Rightarrow> [opA i, opB i, opC i]
      | MOD \<Rightarrow> [opA i, opB i, opC i] | POW \<Rightarrow> [opA i, opB i, opC i] | BAND \<Rightarrow> [opA i, opB i, opC i] | BOR \<Rightarrow> [opA i, opB i, opC i]
      | BXOR \<Rightarrow> [opA i, opB i, opC i] | SHL \<Rightarrow> [opA i, opB i, opC i] | SHR \<Rightarrow> [opA i, opB i, opC i] | EQ \<Rightarrow> [opA i, opB i, opC i]
      | NEQ \<Rightarrow> [opA i, opB i, opC i] | LT \<Rightarrow> [opA i, opB i, opC i] | GT \<Rightarrow> [opA i, opB i, opC i] | LTE \<Rightarrow> [opA i, opB i, opC i]
      | GTE \<Rightarrow> [opA i, opB i, opC i] | CMP3 \<Rightarrow> [opA i, opB i, opC i] | COALESCE \<Rightarrow> [opA i, opB i, opC i]
      | _ \<Rightarrow> [opA i, opB i])"

definition const_operands :: "Instruction \<Rightarrow> nat list" where
  "const_operands i =
     (case op i of
        LOAD_CONST \<Rightarrow> [opB i] | LOAD_CONST_W \<Rightarrow> [opBX i] | LOAD_GLOBAL \<Rightarrow> [opBX i] | STORE_GLOBAL \<Rightarrow> [opBX i]
      | CHECK_DEFINED \<Rightarrow> [opBX i] | NEW_STRUCT \<Rightarrow> [opBX i] | GET_FIELD \<Rightarrow> [opC i] | SET_FIELD \<Rightarrow> [opB i] | _ \<Rightarrow> [])"

definition hint_at :: "Instruction list \<Rightarrow> nat \<Rightarrow> Instruction option" where
  "hint_at c k = (if k < length c \<and> is_nop (c ! k) then Some (c ! k) else None)"

text \<open>What the instructions say that follow a call, a closure or a struct literal.\<close>

definition tail_ok :: "'f FunctionProto \<Rightarrow> nat \<Rightarrow> Instruction \<Rightarrow> bool" where
  "tail_ok p k i =
     (let c = code p; R = reg_count p; h = hint_at c k in
      case op i of
        CALL \<Rightarrow> (case h of None \<Rightarrow> True | Some h \<Rightarrow> opC i + opA h \<le> R \<and> opBX h \<le> length (constants p))
      | TAIL_CALL \<Rightarrow> (case h of None \<Rightarrow> True | Some h \<Rightarrow> opC i + opA h \<le> R)
      | CALL_BUILTIN \<Rightarrow> (case h of None \<Rightarrow> opC i + 1 \<le> R | Some h \<Rightarrow> opC i + opA h \<le> R)
      | MAKE_CLOSURE \<Rightarrow> opB i + 256 * opC i < length (nested p) \<and>
          list_all (\<lambda>h. opB h < R) (takeWhile is_capture_hint (drop k c))
      | NEW_STRUCT \<Rightarrow> (case h of None \<Rightarrow> True | Some h \<Rightarrow> k + 1 + opA h \<le> length c \<and>
          list_all (\<lambda>j. opBX (c ! (k + 1 + j)) < length (constants p)) [0..<opA h])
      | _ \<Rightarrow> True)"

definition ins_ok :: "'f FunctionProto \<Rightarrow> nat \<Rightarrow> bool" where
  "ins_ok p k = (let i = code p ! k in
     list_all (\<lambda>r. r < reg_count p) (reg_operands i) \<and>
     list_all (\<lambda>j. j < length (constants p)) (const_operands i) \<and> tail_ok p (Suc k) i)"

definition proto_ok :: "'f FunctionProto \<Rightarrow> bool" where
  "proto_ok p \<longleftrightarrow> arity p \<le> reg_count p \<and> (variadic p \<longrightarrow> 0 < arity p) \<and> list_all (ins_ok p) [0..<length (code p)]"

subsection \<open>The invariant\<close>

fun frames_ok :: "'f vm_env \<Rightarrow> nat \<Rightarrow> Frame list \<Rightarrow> bool" where
  "frames_ok E n [] \<longleftrightarrow> True"
| "frames_ok E n (f # fs) \<longleftrightarrow>
     base f + reg_count (protos E (fproto f)) \<le> n \<and> ret_reg f < int (base f) \<and>
     (case fs of [] \<Rightarrow> True | g # gs \<Rightarrow> 0 \<le> ret_reg f \<longrightarrow> int (base g) \<le> ret_reg f) \<and> frames_ok E (base f) fs"

definition vm_inv :: "'f vm_env \<Rightarrow> 'f VM \<Rightarrow> bool" where
  "vm_inv E vm \<longleftrightarrow> frames_ok E (length (regs vm)) (call_stack vm) \<and> length (call_stack vm) \<le> MAX_CALL_DEPTH \<and>
     list_all (\<lambda>t. 0 < frame_depth t) (try_stack vm)"

definition act :: "'f vm_env \<Rightarrow> 'f VM \<Rightarrow> bool" where
  "act E vm \<longleftrightarrow> vm_inv E vm \<and> call_stack vm \<noteq> []"

definition good :: "'f vm_env \<Rightarrow> 'f outcome \<Rightarrow> bool" where
  "good E r = (case r of Running vm \<Rightarrow> vm_inv E vm | Raised e vm \<Rightarrow> act E vm | Out_of_range \<Rightarrow> False | _ \<Rightarrow> True)"

named_theorems vm_good \<open>rules for outcomes that keep the invariant\<close>

abbreviation regc :: "'f vm_env \<Rightarrow> 'f VM \<Rightarrow> nat" where "regc E vm \<equiv> reg_count (cur_proto E vm)"

lemma good_simps [simp]: "good E (Running vm) = vm_inv E vm" "good E (Raised e vm) = act E vm" "good E (Finished v vm)"
  "good E Misuse" "good E Stack_exhausted" "\<not> good E Out_of_range"
  by (simp_all add: good_def)

lemma act_inv: "act E vm \<Longrightarrow> vm_inv E vm"
  by (simp add: act_def)

lemma inv_simps [simp]:
  "vm_inv E (vm\<lparr>arrays := x1\<rparr>) = vm_inv E vm" "vm_inv E (vm\<lparr>globals := x2\<rparr>) = vm_inv E vm"
  "vm_inv E (vm\<lparr>isolated := x3\<rparr>) = vm_inv E vm"
  "vm_inv E (vm\<lparr>current_exception := x5\<rparr>) = vm_inv E vm" "vm_inv E (vm\<lparr>closures := x6\<rparr>) = vm_inv E vm"
  "vm_inv E (vm\<lparr>next_closure := x7\<rparr>) = vm_inv E vm"
  by (simp_all add: vm_inv_def)

lemma act_simps [simp]:
  "act E (vm\<lparr>arrays := x1\<rparr>) = act E vm" "act E (vm\<lparr>globals := x2\<rparr>) = act E vm"
  "act E (vm\<lparr>isolated := x3\<rparr>) = act E vm"
  "act E (vm\<lparr>current_exception := x5\<rparr>) = act E vm" "act E (vm\<lparr>closures := x6\<rparr>) = act E vm"
  "act E (vm\<lparr>next_closure := x7\<rparr>) = act E vm"
  by (simp_all add: act_def)

lemma proto_simps [simp]:
  "cur_proto E (vm\<lparr>arrays := x1\<rparr>) = cur_proto E vm" "cur_proto E (vm\<lparr>globals := x2\<rparr>) = cur_proto E vm"
  "cur_proto E (vm\<lparr>isolated := x3\<rparr>) = cur_proto E vm" "cur_proto E (vm\<lparr>try_stack := x4\<rparr>) = cur_proto E vm"
  "cur_proto E (vm\<lparr>current_exception := x5\<rparr>) = cur_proto E vm" "cur_proto E (vm\<lparr>closures := x6\<rparr>) = cur_proto E vm"
  "cur_proto E (vm\<lparr>next_closure := x7\<rparr>) = cur_proto E vm" "cur_proto E (vm\<lparr>regs := x8\<rparr>) = cur_proto E vm"
  "cur_proto E (set_ip n vm) = cur_proto E vm" "cur_base (set_ip n vm) = cur_base vm" "regs (set_ip n vm) = regs vm"
  by (simp_all add: cur_proto_def set_ip_def cur_base_def split: list.split)

lemma set_ip_inv [simp]: "vm_inv E (set_ip n vm) = vm_inv E vm" "act E (set_ip n vm) = act E vm"
  by (auto simp: set_ip_def vm_inv_def act_def split: list.split)

lemma act_range: "act E vm \<Longrightarrow> x < regc E vm \<Longrightarrow> cur_base vm + x < length (regs vm)"
  by (auto simp: act_def vm_inv_def cur_base_def cur_proto_def neq_Nil_conv)

lemma with_reg_good [vm_good]:
  "act E vm \<Longrightarrow> x < regc E vm \<Longrightarrow> (\<And>v. good E (k v)) \<Longrightarrow> good E (with_reg vm x k)"
  using act_range [of E vm x] by (simp add: with_reg_def reg_def Let_def)

lemma set_reg_good [vm_good]: "act E vm \<Longrightarrow> x < regc E vm \<Longrightarrow> good E (set_reg x v vm)"
  using act_range [of E vm x] by (simp add: set_reg_def Let_def act_def vm_inv_def)

lemma with_const_good [vm_good]: "i < length (constants (cur_proto E vm)) \<Longrightarrow> (\<And>v. good E (k v)) \<Longrightarrow> good E (with_const E vm i k)"
  by (simp add: with_const_def Let_def)

lemma with_name_good [vm_good]: "i < length (constants (cur_proto E vm)) \<Longrightarrow> (\<And>n. good E (k n)) \<Longrightarrow> good E (with_name E vm i k)"
  unfolding with_name_def by (rule with_const_good) (auto split: Value.split)

lemma raise_idx_good [vm_good]: "act E vm \<Longrightarrow> good E (raise_idx e vm)"
  by (simp add: raise_idx_def split: idx_error.split)

lemma store_result_good [vm_good]: "act E vm \<Longrightarrow> x < regc E vm \<Longrightarrow> good E (store_result x r vm)"
  by (auto simp: store_result_def act_inv intro: set_reg_good split: sum.split)

abbreviation ops_ok :: "'f FunctionProto \<Rightarrow> Instruction \<Rightarrow> bool" where
  "ops_ok p i \<equiv> list_all (\<lambda>r. r < reg_count p) (reg_operands i) \<and> list_all (\<lambda>j. j < length (constants p)) (const_operands i)"

subsection \<open>Each group of instructions keeps the invariant\<close>

lemma load_global_good [vm_good]: "act E vm \<Longrightarrow> x < regc E vm \<Longrightarrow> good E (load_global E x n vm)"
  by (auto simp: load_global_def Let_def intro!: vm_good split: option.split prod.split)

lemma exec_load_good: "act E vm \<Longrightarrow> ops_ok (cur_proto E vm) i \<Longrightarrow> good E (exec_load E i vm)"
  by (cases "op i")
    (auto simp: exec_load_def reg_operands_def const_operands_def store_global_def Let_def act_inv intro!: vm_good
      split: Value.split list.split)

lemma exec_jump_good: "act E vm \<Longrightarrow> ops_ok (cur_proto E vm) i \<Longrightarrow> good E (exec_jump E i vm)"
  by (cases "op i") (auto simp: exec_jump_def reg_operands_def act_inv intro!: vm_good split: Value.split)

lemma exec_foreign_good: "act E vm \<Longrightarrow> ops_ok (cur_proto E vm) i \<Longrightarrow> good E (exec_foreign E i vm)"
  by (cases "op i") (auto simp: exec_foreign_def reg_operands_def act_inv Let_def intro!: vm_good split: sum.split)

lemma set_reg_Running:
  "act E vm \<Longrightarrow> x < regc E vm \<Longrightarrow> set_reg x v vm = Running (vm\<lparr>regs := (regs vm)[cur_base vm + x := v]\<rparr>)"
  using act_range [of E vm x] by (simp add: set_reg_def Let_def)

lemma act_regs_update [simp]: "act E (vm\<lparr>regs := (regs vm)[k := v]\<rparr>) = act E vm"
  by (simp add: act_def vm_inv_def)

lemma inv_regs_update [simp]:
  "vm_inv E (vm\<lparr>arrays := b, regs := (regs vm)[k := v]\<rparr>) = vm_inv E vm"
  "act E (vm\<lparr>arrays := b, regs := (regs vm)[k := v]\<rparr>) = act E vm"
  by (simp_all add: act_def vm_inv_def)

lemma set_regs_good [vm_good]: "act E vm \<Longrightarrow> list_all (\<lambda>(x, v). x < regc E vm) xvs \<Longrightarrow> good E (set_regs xvs vm)"
proof (induction xvs arbitrary: vm)
  case Nil
  then show ?case by (simp add: set_regs_def act_inv)
next
  case (Cons a xvs)
  obtain x v where a: "a = (x, v)" by (cases a)
  let ?vm = "vm\<lparr>regs := (regs vm)[cur_base vm + x := v]\<rparr>"
  have "set_regs (a # xvs) vm = set_regs xvs ?vm"
    using Cons.prems by (simp add: set_regs_def a set_reg_Running)
  with Cons.IH [of ?vm] Cons.prems show ?case by (simp add: a)
qed

lemma exec_for_step_good: "act E vm \<Longrightarrow> op i = FOR_STEP \<Longrightarrow> ops_ok (cur_proto E vm) i \<Longrightarrow> good E (exec_for_step E i vm)"
  by (auto simp: exec_for_step_def reg_operands_def act_inv Let_def intro!: vm_good split: Value.split)

lemma list_all_tl: "list_all P xs \<Longrightarrow> list_all P (tl xs)"
  by (cases xs) simp_all

lemma exec_try_good: "act E vm \<Longrightarrow> ops_ok (cur_proto E vm) i \<Longrightarrow> good E (exec_try i vm)"
  by (cases "op i")
    (auto simp: exec_try_def reg_operands_def act_def vm_inv_def list_all_tl intro!: vm_good split: list.split)

lemma write_good [vm_good]:
  "act E vm \<Longrightarrow> x < regc E vm \<Longrightarrow>
     good E (case r of (None, arr, arrs) \<Rightarrow> set_reg x arr (vm\<lparr>arrays := arrs\<rparr>)
       | (Some e, arr, arrs) \<Rightarrow> (case set_reg x arr (vm\<lparr>arrays := arrs\<rparr>) of Running vm1 \<Rightarrow> raise_idx e vm1 | r \<Rightarrow> r))"
  by (auto simp: set_reg_Running [where E = E] act_inv intro!: vm_good split: prod.split option.split)

lemma exec_array_good: "act E vm \<Longrightarrow> ops_ok (cur_proto E vm) i \<Longrightarrow> good E (exec_array E i vm)"
  by (cases "op i")
    (auto simp: exec_array_def reg_operands_def const_operands_def act_inv Let_def intro!: vm_good
      split: Value.split sum.split)

lemma those_map_Some: "(\<And>x. x \<in> set xs \<Longrightarrow> f x \<noteq> None) \<Longrightarrow> \<exists>ys. those (map f xs) = Some ys"
  by (induction xs) (auto split: option.split)

lemma hint_at_hint: "hint E vm = hint_at (code (cur_proto E vm)) (cur_ip vm)"
  by (simp add: hint_def hint_at_def next_ins_def Let_def)

lemma field_names_Some:
  assumes "tail_ok (cur_proto E vm) (cur_ip vm) i" "op i = NEW_STRUCT"
  shows "\<exists>ns. field_names E vm = Some ns"
proof (cases "hint E vm")
  case None
  then show ?thesis by (simp add: field_names_def)
next
  case (Some h)
  with assms show ?thesis
    by (auto simp: field_names_def tail_ok_def hint_at_hint Let_def list_all_iff intro!: those_map_Some)
qed

lemma exec_struct_good:
  "act E vm \<Longrightarrow> op i = NEW_STRUCT \<Longrightarrow> ops_ok (cur_proto E vm) i \<Longrightarrow> tail_ok (cur_proto E vm) (cur_ip vm) i
     \<Longrightarrow> good E (exec_struct E i vm)"
  using field_names_Some [of E vm i]
  by (auto simp: exec_struct_def reg_operands_def const_operands_def Let_def intro!: vm_good
      split: option.split Value.split prod.split)

lemma reg_block_Some: "act E vm \<Longrightarrow> 0 < n \<longrightarrow> x + n \<le> regc E vm \<Longrightarrow> \<exists>vs. reg_block vm x n = Some vs"
  unfolding reg_block_def
  by (rule those_map_Some) (use act_range [of E vm] in \<open>auto simp: reg_def Let_def\<close>)

lemma bind_args_length: "bind_args p args A = Some (new, A') \<Longrightarrow> length new = reg_count p"
  by (auto simp: bind_args_def Let_def split: if_splits prod.splits)

lemma bind_args_Some: "arity p \<le> reg_count p \<Longrightarrow> \<exists>new A'. bind_args p args A = Some (new, A') \<and> length new = reg_count p"
  by (auto simp: bind_args_def Let_def split: prod.split)

lemma frames_ok_mono: "frames_ok E n fs \<Longrightarrow> n \<le> m \<Longrightarrow> frames_ok E m fs"
  by (cases fs) auto

abbreviation code_ok :: "'f vm_env \<Rightarrow> bool" where
  "code_ok E \<equiv> \<forall>p. proto_ok (protos E p)"

lemma enter_good [vm_good]:
  assumes ok: "code_ok E" "act E vm" and a: "a < regc E vm" and n: "0 < n \<longrightarrow> ab + n \<le> regc E vm"
  shows "good E (enter E cl a ab n vm)"
proof -
  let ?p = "protos E (cl_proto (closures vm cl))" let ?n = "if variadic ?p then n else min n (arity ?p)"
  have "0 < ?n \<longrightarrow> ab + ?n \<le> regc E vm" using n by auto
  then obtain args where args: "reg_block vm ab ?n = Some args"
    using reg_block_Some [OF ok(2), of ?n ab] by metis
  obtain new A where new: "bind_args ?p args (arrays vm) = Some (new, A)" "length new = reg_count ?p"
    using bind_args_Some [of ?p args "arrays vm"] ok by (auto simp: proto_ok_def)
  have fr: "frames_ok E (length (regs vm)) (call_stack vm)" "list_all (\<lambda>t. 0 < frame_depth t) (try_stack vm)" "call_stack vm \<noteq> []"
    using ok by (auto simp: act_def vm_inv_def)
  note fr' = frames_ok_mono [OF fr(1), of "length (regs vm) + reg_count ?p"]
  show ?thesis
    using fr fr' new(2) ok act_range [OF ok(2) a]
    by (auto simp: enter_def args new(1) Let_def push_frame_def vm_inv_def act_def cur_base_def neq_Nil_conv)
qed

lemma skip_hint_simps [simp]: "act E (skip_hint E vm) = act E vm" "cur_proto E (skip_hint E vm) = cur_proto E vm"
  by (simp_all add: skip_hint_def split: option.split)

lemma exec_call_good:
  assumes "code_ok E" "act E vm" "op i = CALL" "ops_ok (cur_proto E vm) i" "tail_ok (cur_proto E vm) (cur_ip vm) i"
  shows "good E (exec_call E i vm)"
  using assms
  by (auto simp: exec_call_def Let_def tail_ok_def hint_at_hint reg_operands_def act_inv intro!: vm_good
      split: option.splits Value.split)

lemma exec_tail_call_good:
  assumes "code_ok E" "act E vm" "op i = TAIL_CALL" "ops_ok (cur_proto E vm) i" "tail_ok (cur_proto E vm) (cur_ip vm) i"
  shows "good E (exec_tail_call E i vm)"
  using assms
  by (auto simp: exec_tail_call_def Let_def tail_ok_def hint_at_hint reg_operands_def intro!: vm_good
      split: option.splits Value.split)

lemma exec_builtin_good:
  assumes "act E vm" "op i = CALL_BUILTIN" "ops_ok (cur_proto E vm) i" "tail_ok (cur_proto E vm) (cur_ip vm) i"
  shows "good E (exec_builtin E i vm)"
proof -
  let ?n = "case hint E vm of None \<Rightarrow> 1 | Some h \<Rightarrow> opA h"
  have n: "opC i + ?n \<le> regc E (skip_hint E vm)"
    using assms by (auto simp: tail_ok_def hint_at_hint Let_def split: option.split)
  obtain args where "reg_block (skip_hint E vm) (opC i) ?n = Some args"
    using reg_block_Some [of E "skip_hint E vm" ?n "opC i"] n assms(1) by auto
  then show ?thesis
    using assms by (auto simp: exec_builtin_def Let_def reg_operands_def intro!: vm_good split: option.split sum.split prod.split)
qed

lemma leave_good: "act E vm \<Longrightarrow> good E (leave v vm)"
  by (auto simp: leave_def act_def vm_inv_def Let_def split: list.split intro: frames_ok_mono)

lemma exec_closure_good:
  assumes "act E vm" "op i = MAKE_CLOSURE" "ops_ok (cur_proto E vm) i" "tail_ok (cur_proto E vm) (cur_ip vm) i"
  shows "good E (exec_closure E i vm)"
proof -
  let ?hs = "takeWhile is_capture_hint (drop (cur_ip vm) (code (cur_proto E vm)))"
  have "reg vm (opB h) \<noteq> None" if "h \<in> set ?hs" for h
    using assms that act_range [OF assms(1), of "opB h"] by (auto simp: tail_ok_def list_all_iff reg_def Let_def)
  then obtain caps where caps: "those (map (\<lambda>h. reg vm (opB h)) ?hs) = Some caps"
    using those_map_Some [of ?hs "\<lambda>h. reg vm (opB h)"] by auto
  show ?thesis
    using assms by (auto simp: exec_closure_def Let_def caps tail_ok_def reg_operands_def intro!: vm_good)
qed

subsection \<open>One turn of the loop\<close>

lemma vm_exec_good:
  assumes ok: "code_ok E" "act E vm" and ops: "ops_ok (cur_proto E vm) i" and tl: "tail_ok (cur_proto E vm) (cur_ip vm) i"
  shows "good E (vm_exec E i vm)"
proof (cases "vm_binary (flt E) (op i)")
  case (Some f)
  then have "reg_operands i = [opA i, opB i, opC i]"
    by (cases "op i") (simp_all add: vm_binary_def reg_operands_def)
  with ok ops Some show ?thesis by (auto simp: vm_exec_def intro!: vm_good)
next
  case None
  show ?thesis
  proof (cases "vm_unary E vm (op i)")
    case (Some f)
    then have "reg_operands i = [opA i, opB i]"
      by (cases "op i") (simp_all add: vm_unary_def reg_operands_def)
    with ok ops Some None show ?thesis by (auto simp: vm_exec_def intro!: vm_good split: option.split)
  next
    case unary: None
    note all = exec_load_good [OF ok(2) ops] exec_array_good [OF ok(2) ops] exec_jump_good [OF ok(2) ops]
      exec_foreign_good [OF ok(2) ops] exec_try_good [OF ok(2) ops] leave_good [OF ok(2)]
    show ?thesis
      unfolding vm_exec_def None unary option.case
      using ok ops tl all exec_struct_good [of E vm i] exec_call_good [of E vm i] exec_tail_call_good [of E vm i] exec_builtin_good [of E vm i]
        exec_closure_good [of E vm i] exec_for_step_good [of E vm i]
      by (cases "op i") (auto simp: unknown_opcode_def act_inv reg_operands_def intro!: vm_good)
  qed
qed

lemma unwind_ok:
  "frames_ok E (length rs) fs \<Longrightarrow> unwind d fs rs = (fs', rs') \<Longrightarrow> frames_ok E (length rs') fs' \<and> length fs' \<le> length fs \<and>
     (0 < d \<longrightarrow> fs \<noteq> [] \<longrightarrow> fs' \<noteq> [])"
  by (induction d fs rs rule: unwind.induct) (auto split: if_splits)

lemma handle_good: "act E vm \<Longrightarrow> handle e vm = r \<Longrightarrow> r \<noteq> Misuse \<and> good E r"
proof -
  assume act: "act E vm" and r: "handle e vm = r"
  show ?thesis
  proof (cases "length (try_stack vm) \<le> try_floor vm \<or> (\<exists>s. e = Control s)")
    case True
    with act r show ?thesis by (cases e) (auto simp: handle_def)
  next
    case False
    obtain t ts where t: "try_stack vm = t # ts" using False by (cases "try_stack vm") auto
    obtain fs rs where u: "unwind (frame_depth t) (call_stack vm) (regs vm) = (fs, rs)" by fastforce
    have "r = (if fs = [] then Misuse else Running (set_ip (catch_ip t)
        (vm\<lparr>try_stack := ts, current_exception := exn_value e, call_stack := fs, regs := rs\<rparr>)))"
      using False r by (cases e) (auto simp: handle_def t u)
    with act t unwind_ok [OF _ u, of E] show ?thesis
      by (cases "fs = []") (simp_all add: act_def, simp_all add: vm_inv_def)
  qed
qed

lemma ins_ok_fetch:
  "code_ok E \<Longrightarrow> next_ins E vm = Some i \<Longrightarrow> ops_ok (cur_proto E vm) i \<and> tail_ok (cur_proto E vm) (Suc (cur_ip vm)) i"
  by (auto simp: next_ins_def Let_def proto_ok_def ins_ok_def list_all_iff cur_proto_def split: if_splits list.splits)

lemma set_ip_Nil [simp]: "call_stack (set_ip n vm) = [] \<longleftrightarrow> call_stack vm = []"
  by (simp add: set_ip_def split: list.split)

lemma cur_ip_set_ip [simp]: "call_stack vm \<noteq> [] \<Longrightarrow> cur_ip (set_ip n vm) = n"
  by (cases "call_stack vm") (simp_all add: cur_ip_def set_ip_def)

lemma vm_step_good:
  assumes ok: "code_ok E" and inv: "vm_inv E vm"
  shows "good E (vm_step E vm)"
proof (cases "call_stack vm = [] \<or> next_ins E vm = None")
  case True
  then show ?thesis using inv leave_good [of E vm V_NONE] by (auto simp: vm_step_def act_def)
next
  case False
  then obtain i where i: "next_ins E vm = Some i" and ne: "call_stack vm \<noteq> []" by auto
  let ?vm = "set_ip (Suc (cur_ip vm)) vm"
  have "good E (vm_exec E i ?vm)"
    using vm_exec_good [of E ?vm i] ok inv ne ins_ok_fetch [OF ok i] by (simp add: act_def)
  then show ?thesis
    using i ne handle_good by (cases "vm_exec E i ?vm") (auto simp: vm_step_def)
qed

subsection \<open>Runs\<close>

lemma vm_loop_good: "code_ok E \<Longrightarrow> vm_inv E vm \<Longrightarrow> vm_loop E n vm = Some r \<Longrightarrow> good E r"
proof (induction n arbitrary: vm)
  case (Suc n)
  then show ?case using vm_step_good [of E vm] by (cases "vm_step E vm") auto
qed simp

lemma vm_loop_not_running: "vm_loop E n vm \<noteq> Some (Running vm')"
  by (induction n arbitrary: vm) (auto split: outcome.split)

lemma run_start_inv [simp]: "vm_inv E (run_start vm) = vm_inv E vm"
  by (simp add: run_start_def vm_inv_def)

lemma run_end_act: "act E vm \<Longrightarrow> act E (run_end vm0 vm)"
  by (auto simp: run_end_def act_def vm_inv_def list_all_iff dest: in_set_dropD)

lemma vm_run_good: "code_ok E \<Longrightarrow> vm_inv E vm \<Longrightarrow> vm_run E n vm = Some r \<Longrightarrow> good E r"
proof -
  assume ok: "code_ok E" "vm_inv E vm" and run: "vm_run E n vm = Some r"
  then obtain z where z: "vm_loop E n (run_start vm) = Some z" by (auto simp: vm_run_def)
  with ok vm_loop_good [of E "run_start vm" n z] run run_end_act [of E _ vm] show ?thesis
    by (cases z) (auto simp: vm_run_def)
qed

lemma execute_frame_inv:
  "vm_inv E vm \<Longrightarrow> length (call_stack vm) < MAX_CALL_DEPTH \<Longrightarrow> vm_inv E (execute_frame E main vm)"
  by (auto simp: execute_frame_def push_frame_def vm_inv_def Let_def split: list.split)

lemma call_frame_inv: "code_ok E \<Longrightarrow> vm_inv E vm \<Longrightarrow> call_frame E cl args vm = Running vm' \<Longrightarrow> vm_inv E vm'"
  using bind_args_length [of "protos E (cl_proto (closures vm cl))" args "arrays vm"]
  by (auto simp: call_frame_def push_frame_def vm_inv_def Let_def split: if_splits option.splits list.split)

lemma call_frame_in_range: "code_ok E \<Longrightarrow> call_frame E cl args vm \<noteq> Out_of_range"
  using bind_args_Some [of "protos E (cl_proto (closures vm cl))" args "arrays vm"]
  by (auto simp: call_frame_def Let_def proto_ok_def)

lemma call_closure_good:
  assumes "code_ok E" "vm_inv E vm" "call_closure E n cl args vm = Some r"
  shows "r \<noteq> Out_of_range"
proof (cases "call_frame E cl args vm")
  case (Running vm')
  then have "vm_run E n vm' = Some r" using assms(3) by (simp add: call_closure_def)
  then show ?thesis using vm_run_good [OF assms(1) call_frame_inv [OF assms(1,2) Running], of n r] by auto
qed (use assms call_frame_in_range [of E cl args vm] in \<open>auto simp: call_closure_def\<close>)

subsection \<open>Callers are not disturbed\<close>

text \<open>\<open>here vm0 vm\<close>: still the same top frame as \<open>vm0\<close>, everything below it untouched; \<open>ext vm0 vm\<close>: possibly with frames on top.\<close>

definition here :: "'f VM \<Rightarrow> 'f VM \<Rightarrow> bool" where
  "here vm0 vm \<longleftrightarrow> take (cur_base vm0) (regs vm) = take (cur_base vm0) (regs vm0) \<and>
     (\<exists>f fs n. call_stack vm0 = f # fs \<and> call_stack vm = f\<lparr>ip := n\<rparr> # fs)"

definition ext :: "'f VM \<Rightarrow> 'f VM \<Rightarrow> bool" where
  "ext vm0 vm \<longleftrightarrow> take (cur_base vm0) (regs vm) = take (cur_base vm0) (regs vm0) \<and>
     (\<exists>f fs n zs. call_stack vm0 = f # fs \<and> call_stack vm = zs @ f\<lparr>ip := n\<rparr> # fs)"

definition lcl :: "'f VM \<Rightarrow> 'f outcome \<Rightarrow> bool" where
  "lcl vm0 r = (case r of Running vm \<Rightarrow> ext vm0 vm | Raised e vm \<Rightarrow> ext vm0 vm | _ \<Rightarrow> True)"

named_theorems vm_lcl \<open>rules for outcomes that leave the callers alone\<close>

lemma lcl_simps [simp]: "lcl vm0 (Running vm) = ext vm0 vm" "lcl vm0 (Raised e vm) = ext vm0 vm" "lcl vm0 (Finished v vm)"
  "lcl vm0 Misuse" "lcl vm0 Stack_exhausted" "lcl vm0 Out_of_range"
  by (simp_all add: lcl_def)

lemma here_ext: "here vm0 vm \<Longrightarrow> ext vm0 vm"
  by (fastforce simp: here_def ext_def)

lemma here_simps [simp]:
  "here v (vm\<lparr>arrays := x1\<rparr>) = here v vm" "here v (vm\<lparr>globals := x2\<rparr>) = here v vm"
  "here v (vm\<lparr>isolated := x3\<rparr>) = here v vm" "here v (vm\<lparr>try_stack := x4\<rparr>) = here v vm"
  "here v (vm\<lparr>current_exception := x5\<rparr>) = here v vm" "here v (vm\<lparr>closures := x6\<rparr>) = here v vm"
  "here v (vm\<lparr>next_closure := x7\<rparr>) = here v vm"
  by (simp_all add: here_def)

lemma here_set_ip [simp]: "here v vm \<Longrightarrow> here v (set_ip n vm)"
  by (auto simp: here_def set_ip_def)

lemma here_skip_hint [simp]: "here v vm \<Longrightarrow> here v (skip_hint E vm)"
  by (simp add: skip_hint_def split: option.split)

lemma here_refl: "call_stack vm \<noteq> [] \<Longrightarrow> here vm vm"
  by (cases "call_stack vm") (auto simp: here_def intro: exI [of _ "ip (hd (call_stack vm))"])

lemma here_base: "here v vm \<Longrightarrow> cur_base vm = cur_base v"
  by (auto simp: here_def cur_base_def)

lemma with_reg_lcl [vm_lcl]: "(\<And>v. lcl vm0 (k v)) \<Longrightarrow> lcl vm0 (with_reg vm x k)"
  by (simp add: with_reg_def split: option.split)

lemma with_const_lcl [vm_lcl]: "(\<And>v. lcl vm0 (k v)) \<Longrightarrow> lcl vm0 (with_const E vm x k)"
  by (simp add: with_const_def Let_def)

lemma with_name_lcl [vm_lcl]: "(\<And>v. lcl vm0 (k v)) \<Longrightarrow> lcl vm0 (with_name E vm x k)"
  unfolding with_name_def by (rule with_const_lcl) (auto split: Value.split)

lemma here_regs: "here vm0 vm \<Longrightarrow> here vm0 (vm\<lparr>regs := (regs vm)[cur_base vm + x := v]\<rparr>)"
  using here_base [of vm0 vm] by (auto simp: here_def take_update_cancel)

lemma set_reg_lcl [vm_lcl]: "here vm0 vm \<Longrightarrow> lcl vm0 (set_reg x v vm)"
  by (auto simp: set_reg_def Let_def intro: here_ext here_regs)

lemma raise_idx_lcl [vm_lcl]: "here vm0 vm \<Longrightarrow> lcl vm0 (raise_idx e vm)"
  by (auto simp: raise_idx_def here_ext split: idx_error.split)

lemma store_result_lcl [vm_lcl]: "here vm0 vm \<Longrightarrow> lcl vm0 (store_result x r vm)"
  by (auto simp: store_result_def here_ext intro: set_reg_lcl split: sum.split)

lemma set_regs_stuck:
  "fold (\<lambda>(x, v) r. case r of Running vm \<Rightarrow> set_reg x v vm | _ \<Rightarrow> r) ys Out_of_range = Out_of_range"
  by (induction ys) auto

lemma set_regs_lcl [vm_lcl]: "here vm0 vm \<Longrightarrow> lcl vm0 (set_regs xvs vm)"
proof (induction xvs arbitrary: vm)
  case Nil
  then show ?case by (simp add: set_regs_def here_ext)
next
  case (Cons a xvs)
  with Cons here_regs [of vm0 vm "fst a" "snd a"] show ?case
    by (cases a) (auto simp: set_regs_def set_reg_def Let_def set_regs_stuck)
qed

lemma load_global_lcl [vm_lcl]: "here vm0 vm \<Longrightarrow> lcl vm0 (load_global E x n vm)"
  by (auto simp: load_global_def Let_def here_ext intro!: vm_lcl split: option.split prod.split)

lemma write_lcl [vm_lcl]:
  "here vm0 vm \<Longrightarrow>
     lcl vm0 (case r of (None, arr, arrs) \<Rightarrow> set_reg x arr (vm\<lparr>arrays := arrs\<rparr>)
       | (Some e, arr, arrs) \<Rightarrow> (case set_reg x arr (vm\<lparr>arrays := arrs\<rparr>) of Running vm1 \<Rightarrow> raise_idx e vm1 | r \<Rightarrow> r))"
  using here_regs [of vm0 "vm\<lparr>arrays := snd (snd r)\<rparr>" x "fst (snd r)"]
  by (auto simp: set_reg_def Let_def here_ext intro!: vm_lcl split: prod.split option.split)

lemma exec_load_lcl: "here vm0 vm \<Longrightarrow> lcl vm0 (exec_load E i vm)"
  by (cases "op i")
    (auto simp: exec_load_def store_global_def Let_def here_ext intro!: vm_lcl split: Value.split list.split)

lemma exec_array_lcl: "here vm0 vm \<Longrightarrow> lcl vm0 (exec_array E i vm)"
  by (cases "op i") (auto simp: exec_array_def Let_def here_ext intro!: vm_lcl split: Value.split sum.split)

lemma exec_struct_lcl: "here vm0 vm \<Longrightarrow> lcl vm0 (exec_struct E i vm)"
  by (auto simp: exec_struct_def Let_def here_ext intro!: vm_lcl split: option.split Value.split prod.split)

lemma exec_jump_lcl: "here vm0 vm \<Longrightarrow> lcl vm0 (exec_jump E i vm)"
  by (cases "op i") (auto simp: exec_jump_def here_ext intro!: vm_lcl split: Value.split)

lemma exec_foreign_lcl: "here vm0 vm \<Longrightarrow> lcl vm0 (exec_foreign E i vm)"
  by (cases "op i") (auto simp: exec_foreign_def here_ext Let_def intro!: vm_lcl split: sum.split)

lemma exec_for_step_lcl: "here vm0 vm \<Longrightarrow> lcl vm0 (exec_for_step E i vm)"
  by (auto simp: exec_for_step_def here_ext Let_def intro!: vm_lcl split: Value.split)

lemma exec_try_lcl: "here vm0 vm \<Longrightarrow> lcl vm0 (exec_try i vm)"
  by (cases "op i") (auto simp: exec_try_def here_ext intro!: vm_lcl)

lemma exec_closure_lcl: "here vm0 vm \<Longrightarrow> lcl vm0 (exec_closure E i vm)"
  by (auto simp: exec_closure_def here_ext Let_def intro!: vm_lcl split: option.split)

lemma exec_builtin_lcl: "here vm0 vm \<Longrightarrow> lcl vm0 (exec_builtin E i vm)"
  by (auto simp: exec_builtin_def here_ext Let_def intro!: vm_lcl split: option.split sum.split prod.split)

lemma enter_lcl [vm_lcl]: "here vm0 vm \<Longrightarrow> cur_base vm \<le> length (regs vm) \<Longrightarrow> lcl vm0 (enter E cl a ab n vm)"
  using here_base [of vm0 vm] by (auto simp: enter_def Let_def push_frame_def ext_def here_def split: option.split)

lemma act_base: "act E vm \<Longrightarrow> cur_base vm \<le> length (regs vm)"
  by (auto simp: act_def vm_inv_def cur_base_def neq_Nil_conv)

lemma exec_call_lcl: "here vm0 vm \<Longrightarrow> act E vm \<Longrightarrow> lcl vm0 (exec_call E i vm)"
  using act_base [of E "skip_hint E vm"]
  by (auto simp: exec_call_def here_ext Let_def intro!: vm_lcl split: Value.split)

lemma exec_tail_call_lcl: "here vm0 vm \<Longrightarrow> act E vm \<Longrightarrow> lcl vm0 (exec_tail_call E i vm)"
  using act_base [of E "skip_hint E vm"]
  by (auto simp: exec_tail_call_def here_ext Let_def intro!: vm_lcl split: Value.split)

definition is_return :: "Instruction \<Rightarrow> bool" where
  "is_return i = (case op i of RETURN \<Rightarrow> True | RETURN_NULL \<Rightarrow> True | _ \<Rightarrow> False)"

lemma vm_exec_lcl:
  assumes here: "here vm0 vm" and act: "act E vm" and nr: "\<not> is_return i"
  shows "lcl vm0 (vm_exec E i vm)"
proof (cases "vm_binary (flt E) (op i)")
  case (Some f)
  with here show ?thesis by (auto simp: vm_exec_def intro!: vm_lcl)
next
  case None
  show ?thesis
  proof (cases "vm_unary E vm (op i)")
    case (Some f)
    with here None show ?thesis by (auto simp: vm_exec_def intro!: vm_lcl split: option.split)
  next
    case unary: None
    note all = exec_load_lcl [OF here] exec_array_lcl [OF here] exec_jump_lcl [OF here] exec_foreign_lcl [OF here]
      exec_try_lcl [OF here] exec_struct_lcl [OF here] exec_call_lcl [OF here act] exec_tail_call_lcl [OF here act]
      exec_builtin_lcl [OF here] exec_closure_lcl [OF here] exec_for_step_lcl [OF here] here_ext [OF here]
    show ?thesis
      unfolding vm_exec_def None unary option.case
      using all nr here by (cases "op i") (auto simp: unknown_opcode_def is_return_def intro!: vm_lcl)
  qed
qed

lemma is_return_exec: "is_return i \<Longrightarrow> vm_exec E i vm = Running vm' \<Longrightarrow> \<exists>v. leave v vm = Running vm'"
  by (cases "op i") (auto simp: is_return_def vm_exec_def vm_binary_def vm_unary_def with_reg_def split: option.splits)

lemma vm_exec_raise_ext:
  assumes "here vm0 vm" "act E vm" "vm_exec E i vm = Raised e vm1"
  shows "ext vm0 vm1"
proof -
  have nr: "\<not> is_return i" using assms(3)
    by (cases "op i") (auto simp: is_return_def vm_exec_def vm_binary_def vm_unary_def with_reg_def leave_def Let_def
      split: option.splits list.splits if_splits)
  show ?thesis using vm_exec_lcl [OF assms(1,2) nr] assms(3) by simp
qed

lemma frames_ok_suffix: "frames_ok E n (zs @ fs) \<Longrightarrow> \<exists>m\<le>n. frames_ok E m fs"
proof (induction zs arbitrary: n)
  case (Cons g zs)
  then obtain m where "m \<le> base g" "frames_ok E m fs" by auto
  moreover have "base g \<le> n" using Cons.prems by simp
  ultimately show ?case using le_trans by blast
qed auto

lemma frames_ok_base:
  assumes "frames_ok E n (zs @ f # fs)"
  shows "base f \<le> n"
proof -
  obtain m where "m \<le> n" "frames_ok E m (f # fs)" using frames_ok_suffix [OF assms] by blast
  then show ?thesis by simp
qed

lemma unwind_length: "unwind d fs rs = (fs', rs') \<Longrightarrow> length fs' \<le> length fs"
  by (induction d fs rs rule: unwind.induct) (auto split: if_splits)

lemma unwind_keeps:
  "frames_ok E (length rs) (zs @ f # fs) \<Longrightarrow> unwind d (zs @ f # fs) rs = (fs', rs') \<Longrightarrow> length fs < length fs' \<Longrightarrow>
     \<exists>zs'. fs' = zs' @ f # fs \<and> take (base f) rs' = take (base f) rs"
proof (induction zs arbitrary: rs)
  case Nil
  then show ?case using unwind_length [of d fs "take (base f) rs" fs' rs'] by (auto split: if_splits)
next
  case (Cons g zs)
  have b: "base f \<le> base g" using Cons.prems(1) frames_ok_base [of E "base g" zs f fs] by simp
  show ?case
  proof (cases "d < length (g # zs @ f # fs)")
    case True
    then have "unwind d (zs @ f # fs) (take (base g) rs) = (fs', rs')" using Cons.prems by simp
    moreover have "frames_ok E (length (take (base g) rs)) (zs @ f # fs)"
      using Cons.prems(1) by (simp add: min_absorb2)
    ultimately obtain zs' where "fs' = zs' @ f # fs" "take (base f) rs' = take (base f) (take (base g) rs)"
      using Cons.IH Cons.prems(3) by blast
    with b show ?thesis by (auto simp: min_def)
  qed (use Cons.prems in auto)
qed

lemma leave_keeps:
  assumes inv: "vm_inv E vm" and cs: "call_stack vm = zs @ f # fs" and zs: "zs \<noteq> []" and lv: "leave v vm = Running vm'"
  shows "\<exists>zs'. call_stack vm' = zs' @ f # fs \<and> take (base f) (regs vm') = take (base f) (regs vm)"
proof -
  obtain g zs1 where g: "zs = g # zs1" using zs by (cases zs) auto
  have fo: "frames_ok E (base g) (zs1 @ f # fs)" using inv cs g by (simp add: vm_inv_def)
  have b: "base f \<le> base g" by (rule frames_ok_base [OF fo])
  have r: "0 \<le> ret_reg g" and vm': "call_stack vm' = zs1 @ f # fs" "regs vm' = (take (base g) (regs vm))[nat (ret_reg g) := v]"
    using lv cs g by (auto simp: leave_def Let_def split: if_splits)
  have "base f \<le> nat (ret_reg g)"
  proof (cases zs1)
    case Nil
    then show ?thesis using inv cs g r by (auto simp: vm_inv_def)
  next
    case (Cons h hs)
    then have "base f \<le> base h" using fo frames_ok_base [of E "base h" hs f fs] by simp
    moreover have "int (base h) \<le> ret_reg g" using inv cs g r Cons by (simp add: vm_inv_def)
    ultimately show ?thesis by linarith
  qed
  with vm' b show ?thesis by (auto simp: take_update_cancel min_def)
qed

lemma handle_keeps:
  assumes act: "act E vm" and cs: "call_stack vm = zs @ f # fs" and h: "handle e vm = Running vm'"
    and len: "length fs < length (call_stack vm')"
  shows "\<exists>zs' n. call_stack vm' = zs' @ f\<lparr>ip := n\<rparr> # fs \<and> take (base f) (regs vm') = take (base f) (regs vm)"
proof -
  define t where "t = hd (try_stack vm)"
  obtain gs rs where u: "unwind (frame_depth t) (call_stack vm) (regs vm) = (gs, rs)" by fastforce
  have gs: "gs \<noteq> []" using h u by (auto simp: handle_def t_def split: vm_exn.splits if_splits)
  then have vm': "call_stack vm' = (hd gs)\<lparr>ip := catch_ip t\<rparr> # tl gs" "regs vm' = rs"
    using h u by (auto simp: handle_def t_def set_ip_def neq_Nil_conv split: vm_exn.splits if_splits)
  have fo: "frames_ok E (length (regs vm)) (zs @ f # fs)" using act cs by (simp add: act_def vm_inv_def)
  moreover have "length fs < length gs" using len vm' gs by (cases gs) auto
  ultimately obtain zs' where zs': "gs = zs' @ f # fs" "take (base f) rs = take (base f) (regs vm)"
    using unwind_keeps [of E "regs vm" zs f fs "frame_depth t" gs rs] u cs by auto
  show ?thesis
  proof (cases zs')
    case Nil
    then have "call_stack vm' = [] @ f\<lparr>ip := catch_ip t\<rparr> # fs" using vm' zs' by simp
    with zs' vm'(2) show ?thesis by blast
  next
    case (Cons g hs)
    then have "call_stack vm' = (g\<lparr>ip := catch_ip t\<rparr> # hs) @ f\<lparr>ip := ip f\<rparr> # fs" using vm' zs' by simp
    with zs' vm'(2) show ?thesis by blast
  qed
qed

lemma ext_keeps:
  assumes inv: "vm_inv E vm" and cs: "call_stack vm = zs @ f # fs" and ext: "ext vm vm'"
  shows "\<exists>zs' n. call_stack vm' = zs' @ f\<lparr>ip := n\<rparr> # fs \<and> take (base f) (regs vm') = take (base f) (regs vm)"
proof -
  obtain g gs where g: "call_stack vm = g # gs" using cs by (cases zs) auto
  obtain n ws where ws: "call_stack vm' = ws @ g\<lparr>ip := n\<rparr> # gs"
    and tk: "take (base g) (regs vm') = take (base g) (regs vm)"
    using ext g by (auto simp: ext_def cur_base_def)
  show ?thesis
  proof (cases zs)
    case Nil
    with g cs ws tk show ?thesis by auto
  next
    case (Cons h hs)
    then have h: "h = g" "gs = hs @ f # fs" using g cs by auto
    have "base f \<le> base g" using inv g h frames_ok_base [of E "base g" hs f fs] by (simp add: vm_inv_def)
    then have "take (base f) (regs vm') = take (base f) (regs vm)" using tk by (metis min_def take_take)
    moreover have "call_stack vm' = (ws @ g\<lparr>ip := n\<rparr> # hs) @ f\<lparr>ip := ip f\<rparr> # fs" using ws h by simp
    ultimately show ?thesis by blast
  qed
qed

lemma frame_ip_id [simp]: "\<exists>n. f = (f :: Frame)\<lparr>ip := n\<rparr>"
  by (rule exI [of _ "ip f"]) simp

definition below :: "Frame \<Rightarrow> Frame list \<Rightarrow> 'f VM \<Rightarrow> 'f VM \<Rightarrow> bool" where
  "below f fs vm vm' \<longleftrightarrow>
     (\<exists>zs n. call_stack vm' = zs @ f\<lparr>ip := n\<rparr> # fs) \<and> take (base f) (regs vm') = take (base f) (regs vm)"

lemma belowI: "\<exists>zs n. call_stack vm' = zs @ f\<lparr>ip := n\<rparr> # fs \<and> take (base f) (regs vm') = take (base f) (regs vm) \<Longrightarrow> below f fs vm vm'"
  by (auto simp: below_def)

lemma leave_below:
  assumes "vm_inv E vm" "call_stack vm = zs @ f # fs" "leave v vm = Running vm'" "length fs < length (call_stack vm')"
  shows "below f fs vm vm'"
proof -
  have "zs \<noteq> []" using assms(2-4) by (auto simp: leave_def Let_def split: if_splits)
  then obtain zs' where "call_stack vm' = zs' @ f\<lparr>ip := ip f\<rparr> # fs" "take (base f) (regs vm') = take (base f) (regs vm)"
    using leave_keeps [OF assms(1,2) _ assms(3)] by auto
  then show ?thesis by (auto simp: below_def)
qed

lemma vm_step_below:
  assumes ok: "code_ok E" and inv: "vm_inv E vm" and cs: "call_stack vm = zs @ f # fs"
    and st: "vm_step E vm = Running vm'" and len: "length fs < length (call_stack vm')"
  shows "below f fs vm vm'"
proof (cases "next_ins E vm")
  case None
  then show ?thesis using leave_below [OF inv cs _ len] st cs by (simp add: vm_step_def)
next
  case (Some i)
  let ?vm = "set_ip (Suc (cur_ip vm)) vm"
  have here: "here vm ?vm" using cs by (intro here_set_ip here_refl) simp
  have act: "act E ?vm" using inv cs by (simp add: act_def)
  have good: "good E (vm_exec E i ?vm)" using vm_exec_good [OF ok act] ins_ok_fetch [OF ok Some] cs by simp
  consider (run) "vm_exec E i ?vm = Running vm'" | (exn) e vm1 where "vm_exec E i ?vm = Raised e vm1" "handle e vm1 = Running vm'"
    using st Some cs by (cases "vm_exec E i ?vm") (auto simp: vm_step_def)
  then show ?thesis
  proof cases
    case run
    show ?thesis
    proof (cases "is_return i")
      case True
      then obtain v where "leave v ?vm = Running vm'" using is_return_exec run by blast
      moreover have "\<exists>ys m. call_stack ?vm = ys @ f\<lparr>ip := m\<rparr> # fs" using cs by (cases zs) (auto simp: set_ip_def)
      ultimately show ?thesis
        using leave_below [of E ?vm _ "f\<lparr>ip := _\<rparr>" fs v vm'] act len by (fastforce simp: below_def act_def)
    next
      case False
      then have "ext vm vm'" using vm_exec_lcl [OF here act False] run by simp
      then show ?thesis by (intro belowI ext_keeps [OF inv cs])
    qed
  next
    case exn
    have "ext vm vm1" by (rule vm_exec_raise_ext [OF here act exn(1)])
    then obtain ys m where ys: "call_stack vm1 = ys @ f\<lparr>ip := m\<rparr> # fs" "take (base f) (regs vm1) = take (base f) (regs vm)"
      using ext_keeps [OF inv cs] by blast
    have "act E vm1" using good exn by simp
    from handle_keeps [OF this ys(1) exn(2) len] ys(2) show ?thesis by (auto simp: below_def)
  qed
qed

text \<open>Turns during which the stack stays above depth \<open>d\<close>.\<close>

inductive runs_above :: "'f vm_env \<Rightarrow> nat \<Rightarrow> 'f VM \<Rightarrow> 'f VM \<Rightarrow> bool" for E d vm where
  here: "runs_above E d vm vm"
| turn: "runs_above E d vm vm1 \<Longrightarrow> vm_step E vm1 = Running vm2 \<Longrightarrow> d < length (call_stack vm2) \<Longrightarrow> runs_above E d vm vm2"

lemma runs_above_below:
  assumes "runs_above E (length fs) vm vm'" "code_ok E" "vm_inv E vm" "call_stack vm = f # fs"
  shows "vm_inv E vm' \<and> below f fs vm vm'"
  using assms
proof (induction rule: runs_above.induct)
  case here
  then show ?case by (auto simp: below_def intro: exI [of _ "[]"] exI [of _ "ip f"])
next
  case (turn vm1 vm2)
  then obtain zs n where zs: "call_stack vm1 = zs @ f\<lparr>ip := n\<rparr> # fs" "take (base f) (regs vm1) = take (base f) (regs vm)" "vm_inv E vm1"
    by (auto simp: below_def)
  have "below (f\<lparr>ip := n\<rparr>) fs vm1 vm2" using vm_step_below [OF turn.prems(1) zs(3) zs(1) turn.hyps(2,3)] .
  moreover have "vm_inv E vm2" using vm_step_good [OF turn.prems(1) zs(3)] turn.hyps(2) by simp
  ultimately show ?case using zs(2) by (auto simp: below_def)
qed

lemma unwind_id: "unwind d fs rs = (fs', rs') \<Longrightarrow> length fs' = length fs \<Longrightarrow> fs' = fs \<and> rs' = rs"
  using unwind_length [of d "tl fs" "take (base (hd fs)) rs" fs' rs'] by (cases fs) (auto split: if_splits)

lemma unwind_to:
  "frames_ok E (length rs) (zs @ c # gs) \<Longrightarrow> unwind d (zs @ c # gs) rs = (gs', rs') \<Longrightarrow> length gs' = length gs \<Longrightarrow>
     gs' = gs \<and> rs' = take (base c) rs"
proof (induction zs arbitrary: rs)
  case Nil
  then show ?case using unwind_id [of d gs "take (base c) rs" gs' rs'] by (auto split: if_splits)
next
  case (Cons g zs)
  have b: "base c \<le> base g" using Cons.prems(1) frames_ok_base [of E "base g" zs c gs] by simp
  have "unwind d (zs @ c # gs) (take (base g) rs) = (gs', rs')" using Cons.prems by (auto split: if_splits)
  moreover have "frames_ok E (length (take (base g) rs)) (zs @ c # gs)" using Cons.prems(1) by (simp add: min_absorb2)
  ultimately show ?case using Cons.IH [of "take (base g) rs"] Cons.prems(3) b by (simp add: min_absorb1)
qed

lemma leave_length: "leave v vm = Running vm' \<Longrightarrow> Suc (length (call_stack vm')) = length (call_stack vm)"
  by (auto simp: leave_def Let_def split: list.splits if_splits)

lemma leave_regs: "leave v vm = Running vm' \<Longrightarrow> call_stack vm = c # gs \<Longrightarrow>
    call_stack vm' = gs \<and> 0 \<le> ret_reg c \<and> regs vm' = (take (base c) (regs vm))[nat (ret_reg c) := v]"
  by (auto simp: leave_def Let_def split: if_splits)

lemma leave_pop:
  assumes cs: "call_stack vm = zs @ c # g # gs" and lv: "leave v w = Running vm'" and len: "length (call_stack vm') = Suc (length gs)"
    and w: "call_stack w = (hd (call_stack vm))\<lparr>ip := n\<rparr> # tl (call_stack vm)" "regs w = regs vm"
  shows "\<exists>n. call_stack vm' = g\<lparr>ip := n\<rparr> # gs \<and>
    (regs vm' = take (base c) (regs vm) \<or> 0 \<le> ret_reg c \<and> (\<exists>v. regs vm' = (take (base c) (regs vm))[nat (ret_reg c) := v]))"
proof -
  have "zs = []" using leave_length [OF lv] w len cs by (cases zs) auto
  then have "call_stack w = c\<lparr>ip := n\<rparr> # g # gs" using w cs by simp
  from leave_regs [OF lv this] show ?thesis using w by (auto intro: exI [of _ "ip g"])
qed

lemma handle_pop:
  assumes act: "act E vm" and cs: "call_stack vm = zs @ c # g # gs" and h: "handle e vm = Running vm'"
    and len: "length (call_stack vm') = Suc (length gs)"
  shows "\<exists>n. call_stack vm' = g\<lparr>ip := n\<rparr> # gs \<and> regs vm' = take (base c) (regs vm)"
proof -
  define t where "t = hd (try_stack vm)"
  obtain hs rs where u: "unwind (frame_depth t) (call_stack vm) (regs vm) = (hs, rs)" by fastforce
  have hs: "hs \<noteq> []" using h u by (auto simp: handle_def t_def split: vm_exn.splits if_splits)
  then have vm': "call_stack vm' = (hd hs)\<lparr>ip := catch_ip t\<rparr> # tl hs" "regs vm' = rs"
    using h u by (auto simp: handle_def t_def set_ip_def neq_Nil_conv split: vm_exn.splits if_splits)
  then have "length hs = Suc (length gs)" using len hs by (cases hs) auto
  then have "hs = g # gs \<and> rs = take (base c) (regs vm)"
    using unwind_to [of E "regs vm" zs c "g # gs" "frame_depth t" hs rs] u cs act by (simp add: act_def vm_inv_def)
  with vm' show ?thesis by auto
qed

text \<open>The turn that takes the stack back below a frame \<open>c\<close>: a return, or a handler of the frame under it.\<close>

lemma vm_step_pop:
  assumes ok: "code_ok E" and inv: "vm_inv E vm" and cs: "call_stack vm = zs @ c # g # gs"
    and st: "vm_step E vm = Running vm'" and len: "length (call_stack vm') = Suc (length gs)"
  shows "\<exists>n. call_stack vm' = g\<lparr>ip := n\<rparr> # gs \<and>
    (regs vm' = take (base c) (regs vm) \<or> 0 \<le> ret_reg c \<and> (\<exists>v. regs vm' = (take (base c) (regs vm))[nat (ret_reg c) := v]))"
proof -
  let ?vm = "set_ip (Suc (cur_ip vm)) vm"
  show ?thesis
  proof (cases "next_ins E vm")
    case None
    then show ?thesis using leave_pop [OF cs _ len, of V_NONE vm "ip (hd (call_stack vm))"] st cs by (cases zs) (simp_all add: vm_step_def)
  next
    case (Some i)
    have here: "here vm ?vm" using cs by (intro here_set_ip here_refl) simp
    have act: "act E ?vm" using inv cs by (simp add: act_def)
    have good: "good E (vm_exec E i ?vm)" using vm_exec_good [OF ok act] ins_ok_fetch [OF ok Some] cs by simp
    have up: "Suc (length gs) < length (call_stack w)" if "ext vm w" for w using that cs by (cases zs) (auto simp: ext_def)
    consider (run) "vm_exec E i ?vm = Running vm'" | (exn) e vm1 where "vm_exec E i ?vm = Raised e vm1" "handle e vm1 = Running vm'"
      using st Some cs by (cases "vm_exec E i ?vm") (auto simp: vm_step_def)
    then show ?thesis
    proof cases
      case run
      then have "is_return i" using vm_exec_lcl [OF here act] up [of vm'] len by fastforce
      then obtain v where "leave v ?vm = Running vm'" using is_return_exec run by blast
      from leave_pop [OF cs this len, of "Suc (cur_ip vm)"] show ?thesis
        using cs by (cases zs) (simp_all add: set_ip_def)
    next
      case exn
      have ext: "ext vm vm1" by (rule vm_exec_raise_ext [OF here act exn(1)])
      then obtain ys m where ys: "call_stack vm1 = ys @ c\<lparr>ip := m\<rparr> # g # gs" "take (base c) (regs vm1) = take (base c) (regs vm)"
        using ext_keeps [OF inv cs] by blast
      have "act E vm1" using good exn by simp
      from handle_pop [OF this ys(1) exn(2)] len ys(2) show ?thesis by auto
    qed
  qed
qed

end
