(* ===== verification/Compile_Logic.thy ===== *)
theory Compile_Logic
  imports Compile Vm_Safety
begin

text \<open>
  Everything the compiler emits passes the operand check of \<open>Vm_Safety\<close>: registers lie below the register count of the function,
  constants in its pool, nested functions among its nested ones, and the instructions that carry further operands behind
  them (calls, struct literals) are followed by exactly those. The proof is a small logic over computations: \<open>safe m R Q\<close> says that
  \<open>m\<close>, started where the facts \<open>R\<close> hold, keeps the invariant, also when it fails, and gives a result with the facts \<open>Q\<close>.
\<close>

subsection \<open>The invariant of a function under compilation\<close>

abbreviation fcode :: "'f fc \<Rightarrow> Instruction list" where "fcode f \<equiv> code (proto f)"
abbreviation nregs :: "'f fc \<Rightarrow> nat" where "nregs f \<equiv> next_reg (ra f)"
abbreviation nconsts :: "'f fc \<Rightarrow> nat" where "nconsts f \<equiv> length (constants (proto f))"
abbreviation nnested :: "'f fc \<Rightarrow> nat" where "nnested f \<equiv> length (nested (proto f))"

abbreviation ncaps :: "'f fc \<Rightarrow> nat" where "ncaps f \<equiv> length (caps f)"

definition caps_good :: "CaptureInfo list \<Rightarrow> bool" where
  "caps_good cs \<longleftrightarrow> (\<forall>c \<in> set cs. capture_index c < length cs)"

definition is_jump :: "OpCode \<Rightarrow> bool" where
  "is_jump opc = (case opc of JUMP \<Rightarrow> True | JUMP_IF_FALSE \<Rightarrow> True | JUMP_IF_TRUE \<Rightarrow> True | JUMP_IF_NULL \<Rightarrow> True
     | TRY_PUSH \<Rightarrow> True | FOR_STEP \<Rightarrow> True | _ \<Rightarrow> False)"

text \<open>Instruction \<open>k\<close> of the code \<open>c\<close>, with \<open>N\<close> registers, \<open>M\<close> constants, \<open>L\<close> nested functions and \<open>K\<close> captures.\<close>

definition ins_fine :: "nat \<Rightarrow> nat \<Rightarrow> nat \<Rightarrow> nat \<Rightarrow> Instruction list \<Rightarrow> nat \<Rightarrow> bool" where
  "ins_fine N M L K c k = (let i = c ! k; h = hint_at c (Suc k) in
     list_all (\<lambda>r. r < N) (reg_operands i) \<and> list_all (\<lambda>j. j < M) (const_operands i) \<and>
     (case op i of
        CALL \<Rightarrow> opC i \<le> N \<and> (case h of None \<Rightarrow> True | Some h \<Rightarrow> opC i + opA h \<le> N \<and> opBX h \<le> M)
      | TAIL_CALL \<Rightarrow> False
      | CALL_BUILTIN \<Rightarrow> opC i < N \<and> (case h of None \<Rightarrow> True | Some h \<Rightarrow> opC i + opA h \<le> N)
      | MAKE_CLOSURE \<Rightarrow> opB i + 256 * opC i < L
      | LOAD_CAPTURE \<Rightarrow> opB i < N \<or> opB i < K
      | NEW_STRUCT \<Rightarrow> (case h of None \<Rightarrow> True | Some h \<Rightarrow> k + 2 + opA h \<le> length c \<and>
          list_all (\<lambda>j. op (c ! (k + 2 + j)) = LOAD_CONST_W \<and> opBX (c ! (k + 2 + j)) < M) [0..<opA h])
      | _ \<Rightarrow> True))"

definition code_fine :: "nat \<Rightarrow> nat \<Rightarrow> nat \<Rightarrow> nat \<Rightarrow> Instruction list \<Rightarrow> bool" where
  "code_fine N M L K c \<longleftrightarrow> (\<forall>k < length c. ins_fine N M L K c k)"

definition jumpy :: "Instruction list \<Rightarrow> nat \<Rightarrow> bool" where
  "jumpy c k \<longleftrightarrow> k < length c \<and> is_jump (op (c ! k))"

definition patches :: "LoopContext \<Rightarrow> nat set" where
  "patches c = set (break_patches c) \<union> set (continue_patches c)"

definition full :: "'f fc \<Rightarrow> bool" where
  "full f \<longleftrightarrow> 65535 \<le> nconsts f"

definition fc_ok :: "'f fc \<Rightarrow> bool" where
  "fc_ok f \<longleftrightarrow> ra_inv (ra f) \<and> (\<forall>l \<in> set (locals f). lv_reg l < nregs f) \<and> (\<forall>w. assign_result f = Some w \<longrightarrow> w < nregs f) \<and>
     caps_good (caps f) \<and> arity (proto f) = length (params (proto f)) \<and> arity (proto f) \<le> nregs f \<and> nconsts f \<le> 65535 \<and>
     (full f \<or> code_fine (nregs f) (nconsts f) (nnested f) (ncaps f) (fcode f) \<and> (\<forall>c \<in> set (loop_stack f). \<forall>p \<in> patches c. jumpy (fcode f) p))"

definition grows :: "'f fc \<Rightarrow> 'f fc \<Rightarrow> bool" where
  "grows f f' \<longleftrightarrow> nregs f \<le> nregs f' \<and> nconsts f \<le> nconsts f' \<and> nnested f \<le> nnested f' \<and> ncaps f \<le> ncaps f' \<and>
     length (fcode f) \<le> length (fcode f') \<and> (\<forall>k < length (fcode f). op (fcode f' ! k) = op (fcode f ! k)) \<and>
     params (proto f') = params (proto f) \<and> variadic (proto f') = variadic (proto f)"

lemma grows_refl [simp]: "grows f f"
  by (simp add: grows_def)

lemma grows_trans: "grows f g \<Longrightarrow> grows g h \<Longrightarrow> grows f h"
  unfolding grows_def by (auto intro: le_trans)

lemma full_grows: "full f \<Longrightarrow> grows f g \<Longrightarrow> full g"
  by (simp add: full_def grows_def)

datatype fact = FReg nat | FJump nat | FConst nat | FNest nat | FCap nat | FPure bool

fun holds :: "'f fc \<Rightarrow> fact \<Rightarrow> bool" where
  "holds f (FReg r) \<longleftrightarrow> r < nregs f"
| "holds f (FJump k) \<longleftrightarrow> full f \<or> jumpy (fcode f) k"
| "holds f (FConst i) \<longleftrightarrow> i < nconsts f"
| "holds f (FNest j) \<longleftrightarrow> j < nnested f"
| "holds f (FCap i) \<longleftrightarrow> i < ncaps f"
| "holds f (FPure b) \<longleftrightarrow> b"

lemma holds_grows: "holds f x \<Longrightarrow> grows f g \<Longrightarrow> holds g x"
  by (cases x) (auto simp: grows_def full_def jumpy_def)

text \<open>What the finished prototypes promise.\<close>

definition done_ok :: "'f FunctionProto \<Rightarrow> bool" where
  "done_ok p \<longleftrightarrow> arity p \<le> reg_count p \<and>
     (65535 \<le> length (constants p) \<or> code_fine (reg_count p) (length (constants p)) (length (nested p)) (length (capture_is_cell p)) (code p))"

definition st_ok :: "'f cstate \<Rightarrow> bool" where
  "st_ok s \<longleftrightarrow> fcs s \<noteq> [] \<and> (\<forall>f \<in> set (fcs s). fc_ok f) \<and> (\<forall>p \<in> set (protos_out s). done_ok p)"

definition st_grows :: "'f cstate \<Rightarrow> 'f cstate \<Rightarrow> bool" where
  "st_grows s s' \<longleftrightarrow> list_all2 grows (fcs s) (fcs s')"

lemma st_grows_refl [simp]: "st_grows s s"
  by (simp add: st_grows_def list_all2_refl)

lemma st_grows_trans: "st_grows s t \<Longrightarrow> st_grows t u \<Longrightarrow> st_grows s u"
  unfolding st_grows_def by (rule list_all2_trans [of grows grows grows]) (auto intro: grows_trans)

abbreviation cur :: "'f cstate \<Rightarrow> 'f fc" where "cur s \<equiv> hd (fcs s)"

lemma st_grows_cur: "st_ok s \<Longrightarrow> st_grows s s' \<Longrightarrow> grows (cur s) (cur s')"
  by (cases "fcs s"; cases "fcs s'") (auto simp: st_ok_def st_grows_def)

definition safe :: "('f, 'a) cm \<Rightarrow> fact set \<Rightarrow> ('a \<Rightarrow> fact set) \<Rightarrow> bool" where
  "safe m R Q \<longleftrightarrow> (\<forall>s. st_ok s \<longrightarrow> (\<forall>x \<in> R. holds (cur s) x) \<longrightarrow>
     st_ok (snd (m s)) \<and> st_grows s (snd (m s)) \<and> (\<forall>y. fst (m s) = Inr y \<longrightarrow> (\<forall>x \<in> Q y. holds (cur (snd (m s))) x)))"

named_theorems safe_rules \<open>the rules of the logic\<close>

lemma safeI:
  "(\<And>s. st_ok s \<Longrightarrow> \<forall>x \<in> R. holds (cur s) x \<Longrightarrow> st_ok (snd (m s)) \<and> st_grows s (snd (m s)) \<and>
     (\<forall>y. fst (m s) = Inr y \<longrightarrow> (\<forall>x \<in> Q y. holds (cur (snd (m s))) x))) \<Longrightarrow> safe m R Q"
  by (simp add: safe_def)

lemma safe_ret: "Q x \<subseteq> R \<Longrightarrow> safe (cret x) R Q"
  by (auto simp: safe_def cret_def)

lemma safe_ret_reg [safe_rules]: "FReg x \<in> R \<Longrightarrow> safe (cret x) R (\<lambda>r. {FReg r})"
  by (rule safe_ret) simp

lemma safe_skip [safe_rules]: "safe cskip R (\<lambda>_. {})"
  by (simp add: cskip_def safe_ret)

lemma safe_throw [safe_rules]: "safe (cthrow e) R Q"
  by (simp add: safe_def cthrow_def)

lemma safe_bind:
  fixes m :: "('f, 'a) cm"
  assumes "safe m R Q" "\<And>x. safe (k x) (R \<union> Q x) Q'"
  shows "safe (cbind m k) R Q'"
proof (rule safeI)
  fix s :: "'f cstate"
  assume s: "st_ok s" "\<forall>x \<in> R. holds (cur s) x"
  obtain r s1 where m: "m s = (r, s1)" by fastforce
  have 1: "st_ok s1" "st_grows s s1" using assms(1) s m by (auto simp: safe_def)
  show "st_ok (snd (cbind m k s)) \<and> st_grows s (snd (cbind m k s)) \<and>
     (\<forall>y. fst (cbind m k s) = Inr y \<longrightarrow> (\<forall>x \<in> Q' y. holds (cur (snd (cbind m k s))) x))"
  proof (cases r)
    case (Inl e)
    then show ?thesis using 1 m by (simp add: cbind_def)
  next
    case (Inr y)
    have "\<forall>x \<in> R \<union> Q y. holds (cur s1) x"
      using assms(1) s m Inr holds_grows [OF _ st_grows_cur [OF s(1) 1(2)]] by (auto simp: safe_def)
    then show ?thesis
      using assms(2) [of y] 1 m Inr st_grows_trans [OF 1(2)] by (auto simp: safe_def cbind_def)
  qed
qed

lemma safe_seq: "safe m R Q \<Longrightarrow> safe k R Q' \<Longrightarrow> safe (cseq m k) R Q'"
  unfolding cseq_def by (rule safe_bind [where Q = "\<lambda>_. {}"]) (auto simp: safe_def)

lemma safe_weaken: "safe m R' Q' \<Longrightarrow> R' \<subseteq> R \<Longrightarrow> (\<And>x. Q x \<subseteq> Q' x) \<Longrightarrow> safe m R Q"
  unfolding safe_def by (meson subsetD)

lemma safe_if [safe_rules]: "(b \<Longrightarrow> safe m R Q) \<Longrightarrow> (\<not> b \<Longrightarrow> safe k R Q) \<Longrightarrow> safe (if b then m else k) R Q"
  by simp

lemma safe_catch:
  fixes m :: "('f, 'a) cm"
  assumes "safe m R Q" "safe h R Q"
  shows "safe (ccatch m h) R Q"
proof (rule safeI)
  fix s :: "'f cstate"
  assume s: "st_ok s" "\<forall>x \<in> R. holds (cur s) x"
  obtain r s1 where m: "m s = (r, s1)" by fastforce
  have 1: "st_ok s1" "st_grows s s1" using assms(1) s m by (auto simp: safe_def)
  have "\<forall>x \<in> R. holds (cur s1) x" using s holds_grows [OF _ st_grows_cur [OF s(1) 1(2)]] by auto
  then show "st_ok (snd (ccatch m h s)) \<and> st_grows s (snd (ccatch m h s)) \<and>
     (\<forall>y. fst (ccatch m h s) = Inr y \<longrightarrow> (\<forall>x \<in> Q y. holds (cur (snd (ccatch m h s))) x))"
    using assms s m 1 st_grows_trans [OF 1(2)] by (cases r) (auto simp: safe_def ccatch_def)
qed

lemma safe_for: "(\<And>x. x \<in> set xs \<Longrightarrow> safe (m x) R (\<lambda>_. {})) \<Longrightarrow> safe (cfor m xs) R (\<lambda>_. {})"
  by (induction xs) (auto intro!: safe_skip safe_seq)

lemma safe_map:
  assumes "\<And>x. x \<in> set xs \<Longrightarrow> safe (m x) R Q"
  shows "safe (cmap m xs) R (\<lambda>ys. \<Union>y \<in> set ys. Q y)"
  using assms
proof (induction xs)
  case Nil
  then show ?case by (simp add: safe_ret)
next
  case (Cons a xs)
  have rest: "safe (cmap m xs) (R \<union> Q y) (\<lambda>ys. \<Union>y \<in> set ys. Q y)" for y
    using Cons by (intro safe_weaken [OF Cons.IH]) auto
  show ?case
    using Cons.prems by (auto intro!: safe_bind [where Q = Q] safe_bind [OF rest] safe_ret)
qed

subsection \<open>Code grows and is patched\<close>

lemma ins_fine_mono: "ins_fine N M L K c k \<Longrightarrow> N \<le> N' \<Longrightarrow> M \<le> M' \<Longrightarrow> L \<le> L' \<Longrightarrow> K \<le> K' \<Longrightarrow> ins_fine N' M' L' K' c k"
  by (cases "op (c ! k)") (auto simp: ins_fine_def Let_def list_all_iff split: option.splits)

lemma code_fine_mono: "code_fine N M L K c \<Longrightarrow> N \<le> N' \<Longrightarrow> M \<le> M' \<Longrightarrow> L \<le> L' \<Longrightarrow> K \<le> K' \<Longrightarrow> code_fine N' M' L' K' c"
  by (auto simp: code_fine_def intro: ins_fine_mono)

text \<open>What an instruction needs when it is the last one so far, and what a \<^verbatim>\<open>NOP\<close> needs of the instruction before it.\<close>

definition last_fine :: "nat \<Rightarrow> nat \<Rightarrow> nat \<Rightarrow> nat \<Rightarrow> Instruction \<Rightarrow> bool" where
  "last_fine N M L K i \<longleftrightarrow> list_all (\<lambda>r. r < N) (reg_operands i) \<and> list_all (\<lambda>j. j < M) (const_operands i) \<and>
     (case op i of CALL \<Rightarrow> opC i \<le> N | TAIL_CALL \<Rightarrow> False | CALL_BUILTIN \<Rightarrow> opC i < N | MAKE_CLOSURE \<Rightarrow> opB i + 256 * opC i < L
      | LOAD_CAPTURE \<Rightarrow> opB i < N \<or> opB i < K | _ \<Rightarrow> True)"

definition hint_fits :: "nat \<Rightarrow> nat \<Rightarrow> Instruction list \<Rightarrow> Instruction \<Rightarrow> bool" where
  "hint_fits N M c x \<longleftrightarrow> c \<noteq> [] \<longrightarrow>
     (case op (last c) of
        CALL \<Rightarrow> opC (last c) + opA x \<le> N \<and> opBX x \<le> M
      | CALL_BUILTIN \<Rightarrow> opC (last c) + opA x \<le> N
      | NEW_STRUCT \<Rightarrow> opA x = 0
      | _ \<Rightarrow> True)"

lemma hint_at_append: "k < length c \<Longrightarrow> hint_at (c @ [x]) k = hint_at c k"
  by (simp add: hint_at_def nth_append)

lemma hint_at_end: "hint_at (c @ [x]) (length c) = (if is_nop x then Some x else None)" "hint_at c (length c) = None"
  by (simp_all add: hint_at_def)

lemma ins_fine_append:
  assumes fine: "ins_fine N M L K c k" and k: "k < length c" and nop: "is_nop x \<longrightarrow> hint_fits N M c x"
  shows "ins_fine N M L K (c @ [x]) k"
proof (cases "Suc k < length c")
  case True
  with fine k hint_at_append [OF True, of x] show ?thesis
    by (cases "op (c ! k)") (auto simp: ins_fine_def Let_def nth_append list_all_iff split: option.splits)
next
  case False
  with k have k': "Suc k = length c" by simp
  have ne: "c \<noteq> []" using k by auto
  then have last: "last c = c ! k" using k' by (simp add: last_conv_nth flip: k')
  have h: "hint_at (c @ [x]) (Suc k) = (if is_nop x then Some x else None)" by (simp add: k' hint_at_end)
  show ?thesis
    using fine nop k ne last h k' by (cases "op (c ! k)") (auto simp: ins_fine_def Let_def nth_append hint_fits_def)
qed

lemma ins_fine_last: "last_fine N M L K x \<Longrightarrow> ins_fine N M L K (c @ [x]) (length c)"
  by (cases "op x") (auto simp: ins_fine_def last_fine_def Let_def nth_append hint_at_def)

lemma code_fine_append:
  assumes "code_fine N M L K c" "last_fine N M L K x" "is_nop x \<longrightarrow> hint_fits N M c x"
  shows "code_fine N M L K (c @ [x])"
proof -
  have "ins_fine N M L K (c @ [x]) k" if "k < Suc (length c)" for k
  proof (cases "k = length c")
    case True
    then show ?thesis using ins_fine_last [OF assms(2)] by simp
  next
    case False
    with that have "k < length c" by simp
    then show ?thesis using assms by (intro ins_fine_append) (auto simp: code_fine_def)
  qed
  then show ?thesis by (simp add: code_fine_def)
qed

lemma not_nop_jump: "is_jump (op i) \<Longrightarrow> \<not> is_nop i"
  by (cases "op i") (simp_all add: is_jump_def is_nop_def)

lemma hint_at_patch: "jumpy c k \<Longrightarrow> hint_at (c[k := (c ! k)\<lparr>rb := h, rc := l\<rparr>]) j = hint_at c j"
  using not_nop_jump [of "c ! k"] by (cases "j = k") (auto simp: hint_at_def jumpy_def is_nop_def)

lemma code_fine_patch:
  assumes fine: "code_fine N M L K c" and k: "jumpy c k"
  shows "code_fine N M L K (c[k := (c ! k)\<lparr>rb := h, rc := l\<rparr>])"
  unfolding code_fine_def
proof (intro allI impI)
  fix j assume "j < length (c[k := (c ! k)\<lparr>rb := h, rc := l\<rparr>])"
  then have j: "ins_fine N M L K c j" "j < length c" using fine by (auto simp: code_fine_def)
  show "ins_fine N M L K (c[k := (c ! k)\<lparr>rb := h, rc := l\<rparr>]) j"
  proof (cases "j = k")
    case True
    then show ?thesis
      using j k by (cases "op (c ! k)") (auto simp: ins_fine_def Let_def jumpy_def is_jump_def reg_operands_def const_operands_def)
  next
    case False
    have "op ((c[k := (c ! k)\<lparr>rb := h, rc := l\<rparr>]) ! m) = LOAD_CONST_W \<and> opBX ((c[k := (c ! k)\<lparr>rb := h, rc := l\<rparr>]) ! m) < M"
      if "op (c ! m) = LOAD_CONST_W \<and> opBX (c ! m) < M" for m
      using that k by (cases "m = k") (auto simp: jumpy_def is_jump_def)
    with False j k show ?thesis
      by (cases "op (c ! j)") (auto simp: hint_at_patch [OF k] ins_fine_def Let_def list_all_iff split: option.splits)
  qed
qed

subsection \<open>Primitive computations\<close>

lemma safe_fdo:
  fixes g :: "'f fc \<Rightarrow> compile_error + 'a \<times> 'f fc"
  assumes "\<And>f. fc_ok f \<Longrightarrow> \<forall>x \<in> R. holds f x \<Longrightarrow> case g f of Inl e \<Rightarrow> True | Inr (x, f') \<Rightarrow> fc_ok f' \<and> grows f f' \<and> (\<forall>y \<in> Q x. holds f' y)"
  shows "safe (fdo g) R Q"
proof (rule safeI)
  fix s :: "'f cstate"
  assume s: "st_ok s" "\<forall>x \<in> R. holds (cur s) x"
  obtain f fs where fs: "fcs s = f # fs" using s(1) by (cases "fcs s") (auto simp: st_ok_def)
  have f: "fc_ok f" "\<forall>x \<in> R. holds f x" using s fs by (auto simp: st_ok_def)
  show "st_ok (snd (fdo g s)) \<and> st_grows s (snd (fdo g s)) \<and> (\<forall>y. fst (fdo g s) = Inr y \<longrightarrow> (\<forall>x \<in> Q y. holds (cur (snd (fdo g s))) x))"
    using assms [OF f] s fs
    by (auto simp: fdo_def st_ok_def st_grows_def list_all2_refl split: sum.splits)
qed

text \<open>A change that touches nothing the invariant speaks about.\<close>

definition same_core :: "'f fc \<Rightarrow> 'f fc \<Rightarrow> bool" where
  "same_core f g \<longleftrightarrow> proto g = proto f \<and> ra g = ra f \<and> locals g = locals f \<and> loop_stack g = loop_stack f \<and>
     (assign_result g = assign_result f \<or> assign_result g = None) \<and> ncaps f \<le> ncaps g \<and> (caps_good (caps f) \<longrightarrow> caps_good (caps g))"

lemma same_core_ok: "fc_ok f \<Longrightarrow> same_core f g \<Longrightarrow> fc_ok g \<and> grows f g"
  by (auto simp: fc_ok_def same_core_def grows_def full_def intro: code_fine_mono)

lemma safe_fmod: "(\<And>f. same_core f (g f)) \<Longrightarrow> safe (fmod g) R (\<lambda>_. {})"
  unfolding fmod_def by (rule safe_fdo) (auto intro: same_core_ok simp: same_core_ok)

lemma safe_fget: "(\<And>f. fc_ok f \<Longrightarrow> \<forall>x \<in> Q (g f). holds f x) \<Longrightarrow> safe (fget g) R Q"
  unfolding fget_def by (rule safe_fdo) auto

lemma fc_okD: "fc_ok f \<Longrightarrow> nregs f \<le> 255"
  using ra_invD(2,3) [of "ra f"] by (auto simp: fc_ok_def)

lemma unat_small: "x < 256 \<Longrightarrow> unat (word_of_nat x :: u8) = x"
  by (simp add: unsigned_of_nat take_bit_nat_eq_self)

lemma reg_unat: "fc_ok f \<Longrightarrow> r < nregs f \<Longrightarrow> unat (word_of_nat r :: u8) = r"
  using fc_okD [of f] by (intro unat_small) simp

text \<open>Appending an instruction.\<close>

definition ins_ready :: "'f fc \<Rightarrow> Instruction \<Rightarrow> bool" where
  "ins_ready f x \<longleftrightarrow> full f \<or> last_fine (nregs f) (nconsts f) (nnested f) (ncaps f) x \<and> (is_nop x \<longrightarrow> hint_fits (nregs f) (nconsts f) (fcode f) x)"

lemma emit_ok:
  assumes "fc_ok f" "ins_ready f (make_ins opc a b c)"
  shows "fc_ok (snd (emit opc a b c f)) \<and> grows f (snd (emit opc a b c f)) \<and> fst (emit opc a b c f) = length (fcode f) \<and>
    (is_jump opc \<longrightarrow> holds (snd (emit opc a b c f)) (FJump (length (fcode f))))"
proof -
  have j: "jumpy c k \<Longrightarrow> jumpy (c @ [x]) k" for c k and x :: Instruction by (auto simp: jumpy_def nth_append)
  show ?thesis
    using assms code_fine_append [of "nregs f" "nconsts f" "nnested f" "ncaps f" "fcode f" "make_ins opc a b c"]
    by (auto simp: emit_def fc_ok_def ins_ready_def full_def grows_def nth_append jumpy_def make_ins_def j)
qed

lemma safe_femit:
  fixes R :: "fact set"
  assumes "\<And>f :: 'f fc. fc_ok f \<Longrightarrow> \<forall>x \<in> R. holds f x \<Longrightarrow> ins_ready f (make_ins opc (word_of_nat a) (word_of_nat b) (word_of_nat c))"
  shows "safe (femit opc a b c :: ('f, nat) cm) R (\<lambda>k. if is_jump opc then {FJump k} else {})"
  unfolding femit_def
proof (rule safe_fdo)
  fix f :: "'f fc"
  assume f: "fc_ok f" "\<forall>x \<in> R. holds f x"
  show "case Inr (emit opc (word_of_nat a) (word_of_nat b) (word_of_nat c) f) of Inl e \<Rightarrow> True
    | Inr (x, f') \<Rightarrow> fc_ok f' \<and> grows f f' \<and> (\<forall>y \<in> if is_jump opc then {FJump x} else {}. holds f' y)"
    using emit_ok [OF f(1) assms [OF f]] by (auto split: prod.split)
qed

lemma safe_put:
  fixes R :: "fact set"
  assumes "\<And>f :: 'f fc. fc_ok f \<Longrightarrow> \<forall>x \<in> R. holds f x \<Longrightarrow> ins_ready f (make_ins opc (word_of_nat a) (word_of_nat b) (word_of_nat c))"
  shows "safe (put opc a b c :: ('f, unit) cm) R (\<lambda>_. {})"
  unfolding put_def by (rule safe_seq [OF safe_femit [OF assms] safe_skip])

text \<open>How many of its operands \<open>a, b, c\<close> are registers, for the instructions that need nothing else.\<close>

definition opclass :: "OpCode \<Rightarrow> nat" where
  "opclass opc =
     (case opc of
        TRY_PUSH \<Rightarrow> 0 | TRY_POP \<Rightarrow> 0 | RETURN_NULL \<Rightarrow> 0 | JUMP \<Rightarrow> 0
      | LOAD_NULL \<Rightarrow> 1 | LOAD_TRUE \<Rightarrow> 1 | LOAD_FALSE \<Rightarrow> 1 | LOAD_INT \<Rightarrow> 1 | LOAD_EXC \<Rightarrow> 1 | LOAD_ARGC \<Rightarrow> 1 | NEW_ARRAY \<Rightarrow> 1 | NEW_ASSOC \<Rightarrow> 1
      | THROW \<Rightarrow> 1 | RETURN \<Rightarrow> 1 | PARALLEL_CALL \<Rightarrow> 1 | CHAN_CLOSE \<Rightarrow> 1
      | JUMP_IF_FALSE \<Rightarrow> 1 | JUMP_IF_TRUE \<Rightarrow> 1 | JUMP_IF_NULL \<Rightarrow> 1
      | MOVE \<Rightarrow> 2 | ARRAY_PUSH \<Rightarrow> 2 | UNM \<Rightarrow> 2 | OP_NOT \<Rightarrow> 2 | BNOT \<Rightarrow> 2 | TO_STR \<Rightarrow> 2 | CHAN_SEND \<Rightarrow> 2 | CHAN_RECV \<Rightarrow> 2 | CHAN_SIZE \<Rightarrow> 2
      | ADD \<Rightarrow> 3 | SUB \<Rightarrow> 3 | MUL \<Rightarrow> 3 | DIV \<Rightarrow> 3 | MOD \<Rightarrow> 3 | POW \<Rightarrow> 3 | CONCAT \<Rightarrow> 3 | EQ \<Rightarrow> 3 | NEQ \<Rightarrow> 3 | LT \<Rightarrow> 3 | GT \<Rightarrow> 3 | LTE \<Rightarrow> 3
      | GTE \<Rightarrow> 3 | CMP3 \<Rightarrow> 3 | BAND \<Rightarrow> 3 | BOR \<Rightarrow> 3 | BXOR \<Rightarrow> 3 | SHL \<Rightarrow> 3 | SHR \<Rightarrow> 3
      | ARRAY_GET \<Rightarrow> 3 | ARRAY_SET \<Rightarrow> 3 | ASSOC_APPEND \<Rightarrow> 3
      | _ \<Rightarrow> 9)"

definition class_regs :: "OpCode \<Rightarrow> nat \<Rightarrow> nat \<Rightarrow> nat \<Rightarrow> nat list" where
  "class_regs opc a b c = take (opclass opc) [a, b, c]"

lemma take_123 [simp]: "take 0 [a, b, c] = []" "take 1 [a, b, c] = [a]" "take (Suc 0) [a, b, c] = [a]" "take 2 [a, b, c] = [a, b]" "take 3 [a, b, c] = [a, b, c]"
  by (simp_all add: numeral_eq_Suc)

lemma last_fine_class:
  "opclass opc \<le> 3 \<Longrightarrow> list_all (\<lambda>r. r < N) (class_regs opc (unat a) (unat b) (unat c)) \<Longrightarrow> last_fine N M L K (make_ins opc a b c)"
  by (cases opc) (simp_all add: last_fine_def class_regs_def opclass_def reg_operands_def const_operands_def make_ins_def)

end
