(* ===== verification/Compile_Prims.thy ===== *)
theory Compile_Prims
  imports Compile_Logic
begin

text \<open>
  The rules of the logic for the primitive steps of the compiler: instructions by the number of their register operands, jumps and
  their patches, the constant pool, the register allocator, scopes and the resolution of names.
\<close>

lemma is_nop_make [simp]: "is_nop (make_ins opc a b c) = (opc = NOP)"
  by (cases opc) (simp_all add: is_nop_def make_ins_def)

lemma make_sel [simp]: "op (make_ins opc a b c) = opc" "Instruction.ra (make_ins opc a b c) = a" "rb (make_ins opc a b c) = b" "rc (make_ins opc a b c) = c"
  by (simp_all add: make_ins_def)

lemma ready_class:
  assumes f: "fc_ok f" and R: "\<forall>x \<in> R. holds f x"
    and c: "opclass opc \<le> 3" "\<forall>r \<in> set (class_regs opc a b c). FReg r \<in> R"
  shows "ins_ready f (make_ins opc (word_of_nat a) (word_of_nat b) (word_of_nat c))"
proof -
  have r: "unat (word_of_nat r :: u8) = r \<and> r < nregs f" if "r \<in> set (class_regs opc a b c)" for r
    using c(2) that R reg_unat [OF f, of r] by fastforce
  consider "opclass opc = 0" | "opclass opc = 1" | "opclass opc = 2" | "opclass opc = 3" using c(1) by linarith
  then have "list_all (\<lambda>r. r < nregs f) (class_regs opc (unat (word_of_nat a :: u8)) (unat (word_of_nat b :: u8)) (unat (word_of_nat c :: u8)))"
    using r by cases (auto simp: class_regs_def)
  moreover have "opc \<noteq> NOP" using c(1) by (auto simp: opclass_def)
  ultimately show ?thesis using last_fine_class [OF c(1)] by (simp add: ins_ready_def)
qed

lemma safe_put_class: "opclass opc \<le> 3 \<Longrightarrow> \<forall>r \<in> set (class_regs opc a b c). FReg r \<in> R \<Longrightarrow> safe (put opc a b c) R (\<lambda>_. {})"
  by (rule safe_put) (rule ready_class)

text \<open>The rule applied by the number of register operands.\<close>

lemma safe_put0: "opclass opc = 0 \<Longrightarrow> safe (put opc a b c) R (\<lambda>_. {})"
  by (rule safe_put_class) (simp_all add: class_regs_def)

lemma safe_put1: "opclass opc = 1 \<Longrightarrow> FReg a \<in> R \<Longrightarrow> safe (put opc a b c) R (\<lambda>_. {})"
  by (rule safe_put_class) (simp_all add: class_regs_def)

lemma safe_put2: "opclass opc = 2 \<Longrightarrow> FReg a \<in> R \<Longrightarrow> FReg b \<in> R \<Longrightarrow> safe (put opc a b c) R (\<lambda>_. {})"
  by (rule safe_put_class) (simp_all add: class_regs_def)

lemma safe_put3: "opclass opc = 3 \<Longrightarrow> FReg a \<in> R \<Longrightarrow> FReg b \<in> R \<Longrightarrow> FReg c \<in> R \<Longrightarrow> safe (put opc a b c) R (\<lambda>_. {})"
  by (rule safe_put_class) (simp_all add: class_regs_def)

lemma opclass0: "opclass TRY_POP = 0" "opclass RETURN_NULL = 0"
  by (simp_all add: opclass_def)

lemma opclass1: "opclass LOAD_NULL = 1" "opclass LOAD_EXC = 1" "opclass LOAD_ARGC = 1" "opclass NEW_ARRAY = 1" "opclass NEW_ASSOC = 1"
  "opclass THROW = 1" "opclass RETURN = 1" "opclass PARALLEL_CALL = 1" "opclass CHAN_CLOSE = 1"
  by (simp_all add: opclass_def)

lemma opclass2: "opclass MOVE = 2" "opclass ARRAY_PUSH = 2" "opclass UNM = 2" "opclass OP_NOT = 2" "opclass BNOT = 2" "opclass TO_STR = 2"
  "opclass CHAN_SEND = 2" "opclass CHAN_RECV = 2" "opclass CHAN_SIZE = 2"
  by (simp_all add: opclass_def)

lemma opclass3: "opclass ADD = 3" "opclass SUB = 3" "opclass CONCAT = 3" "opclass EQ = 3" "opclass LTE = 3"
  "opclass ARRAY_GET = 3" "opclass ARRAY_SET = 3" "opclass ASSOC_APPEND = 3"
  by (simp_all add: opclass_def)

lemmas safe_puts [safe_rules] = opclass0 [THEN safe_put0] opclass1 [THEN safe_put1] opclass2 [THEN safe_put2] opclass3 [THEN safe_put3]

lemma safe_load_capture [safe_rules]:
  fixes R :: "fact set"
  assumes "FReg r \<in> R" "FCap i \<in> R"
  shows "safe (put LOAD_CAPTURE r i 0 :: ('f, unit) cm) R (\<lambda>_. {})"
proof (rule safe_put)
  fix f :: "'f fc"
  assume f: "fc_ok f" "\<forall>x \<in> R. holds f x"
  have "holds f (FReg r)" "holds f (FCap i)" using f(2) assms by blast+
  moreover have "unat (word_of_nat i :: u8) \<le> i" by (simp add: unsigned_of_nat)
  ultimately show "ins_ready f (make_ins LOAD_CAPTURE (word_of_nat r) (word_of_nat i) (word_of_nat 0))"
    using reg_unat [OF f(1), of r] by (auto simp: ins_ready_def last_fine_def reg_operands_def const_operands_def)
qed

text \<open>Jumps.\<close>

lemma safe_femit_class:
  "opclass opc \<le> 3 \<Longrightarrow> \<forall>r \<in> set (class_regs opc a b c). FReg r \<in> R \<Longrightarrow>
     safe (femit opc a b c) R (\<lambda>k. if is_jump opc then {FJump k} else {})"
  by (rule safe_femit) (rule ready_class)

lemma fjump_femit: "fjump opc r = femit opc r 0 0"
  by (simp add: fjump_def femit_def emit_jump_def)

lemma safe_jump:
  "is_jump opc \<Longrightarrow> opclass opc = 0 \<or> opclass opc = 1 \<and> FReg r \<in> R \<Longrightarrow> safe (femit opc r 0 0) R (\<lambda>k. {FJump k})"
  using safe_femit_class [of opc r 0 0 R] by (auto simp: class_regs_def)

lemma safe_jumps [safe_rules]:
  "safe (femit TRY_PUSH 0 0 0) R (\<lambda>k. {FJump k})"
  "safe (fjump JUMP 0) R (\<lambda>k. {FJump k})"
  "FReg r \<in> R \<Longrightarrow> safe (fjump JUMP_IF_FALSE r) R (\<lambda>k. {FJump k})"
  "FReg r \<in> R \<Longrightarrow> safe (fjump JUMP_IF_TRUE r) R (\<lambda>k. {FJump k})"
  "FReg r \<in> R \<Longrightarrow> safe (fjump JUMP_IF_NULL r) R (\<lambda>k. {FJump k})"
  "FReg r \<in> R \<Longrightarrow> safe (fjump (if b then JUMP_IF_FALSE else JUMP_IF_TRUE) r) R (\<lambda>k. {FJump k})"
  unfolding fjump_femit by (rule safe_jump; simp add: opclass_def is_jump_def)+

lemma patch_ok:
  assumes "fc_ok f" "holds f (FJump k)" "f' = f\<lparr>proto := (proto f)\<lparr>code := (fcode f)[k := (fcode f ! k)\<lparr>rb := h, rc := l\<rparr>]\<rparr>\<rparr>"
  shows "fc_ok f' \<and> grows f f'"
proof -
  have op: "op ((fcode f)[k := (fcode f ! k)\<lparr>rb := h, rc := l\<rparr>] ! j) = op (fcode f ! j)" for j
    by (cases "j = k \<and> k < length (fcode f)") (auto simp: nth_list_update list_update_beyond not_less)
  then have j: "jumpy (fcode f) p \<Longrightarrow> jumpy ((fcode f)[k := (fcode f ! k)\<lparr>rb := h, rc := l\<rparr>]) p" for p by (simp add: jumpy_def)
  show ?thesis
    using assms code_fine_patch [where c = "fcode f" and k = k and h = h and l = l]
    by (auto simp: fc_ok_def full_def grows_def op j)
qed

lemma safe_fpatch [safe_rules]: "FJump k \<in> R \<Longrightarrow> safe (fpatch k t) R (\<lambda>_. {})"
  unfolding fpatch_def
  by (rule safe_fdo) (auto simp: patch_jump_def Let_def dest!: bspec intro: patch_ok [THEN conjunct1] patch_ok [THEN conjunct2] split: sum.splits)

lemma safe_fpatch16 [safe_rules]: "FJump k \<in> R \<Longrightarrow> safe (fpatch16 k t) R (\<lambda>_. {})"
  unfolding fpatch16_def
  by (rule safe_fdo) (auto simp: Let_def dest!: bspec intro: patch_ok [THEN conjunct1] patch_ok [THEN conjunct2] split: sum.splits)

lemma safe_current_ip [safe_rules]: "safe current_ip R (\<lambda>_. {})"
  unfolding current_ip_def by (rule safe_fget) simp

lemma safe_patch_here [safe_rules]: "FJump k \<in> R \<Longrightarrow> safe (patch_here k) R (\<lambda>_. {})"
  unfolding patch_here_def by (rule safe_bind [OF safe_current_ip]) (simp add: safe_fpatch)

subsection \<open>Constants\<close>

lemma add_const_shape:
  assumes "add_const F v f = Inr (idx, f')"
  obtains cs where "f' = f\<lparr>proto := (proto f)\<lparr>constants := constants (proto f) @ cs\<rparr>\<rparr>"
proof (cases "find_const F v (constants (proto f)) 0")
  case None
  then show ?thesis using assms that [of "[v]"] by (auto simp: add_const_def Let_def split: if_splits sum.splits)
next
  case (Some i)
  then show ?thesis using assms that [of "[]"] by (auto simp: add_const_def split: sum.splits)
qed

lemma add_const_fc:
  assumes "fc_ok f" "add_const F v f = Inr (idx, f')"
  shows "fc_ok f' \<and> grows f f' \<and> unat idx < nconsts f'"
proof -
  obtain cs where f': "f' = f\<lparr>proto := (proto f)\<lparr>constants := constants (proto f) @ cs\<rparr>\<rparr>" using assms(2) by (rule add_const_shape)
  have "unat idx < nconsts f'" "nconsts f' \<le> 65535" using add_const_ok [OF assms(2)] assms(1) by (auto simp: fc_ok_def)
  then show ?thesis using assms(1) by (auto simp: f' fc_ok_def full_def grows_def intro: code_fine_mono)
qed

lemma add_const_fails: "add_const F v f = Inl e \<Longrightarrow> nconsts f \<le> 65535 \<Longrightarrow> full f"
  using find_const_Some [of F v "constants (proto f)" 0]
  by (fastforce simp: add_const_def full_def Let_def to_u16_unat split: option.splits if_splits sum.splits)

lemma safe_fconst [safe_rules]: "safe (fconst C v) R (\<lambda>i. {FConst i})"
  unfolding fconst_def by (rule safe_fdo) (auto split: sum.splits dest: add_const_fc)

definition pool_op :: "OpCode \<Rightarrow> bool" where
  "pool_op opc = (case opc of LOAD_GLOBAL \<Rightarrow> True | STORE_GLOBAL \<Rightarrow> True | CHECK_DEFINED \<Rightarrow> True | NEW_STRUCT \<Rightarrow> True | LOAD_CONST_W \<Rightarrow> True | _ \<Rightarrow> False)"

lemma ready_pool:
  assumes "fc_ok f" "pool_op opc" "r < nregs f" "unat (be16 h l) < nconsts f"
  shows "ins_ready f (make_ins opc (word_of_nat r) h l)"
  using assms reg_unat [OF assms(1,3)] unfolding pool_op_def
  by (cases opc) (simp_all add: ins_ready_def last_fine_def reg_operands_def const_operands_def bx_def)

lemma put16_result:
  assumes "hi8 (int v) = Inr h" "lo8 (int v) = Inr l"
  shows "unat (be16 h l) = v"
proof -
  have "v \<le> 65535" using assms(1) by (auto simp: hi8_def to_u16_def split: if_splits)
  then obtain h' l' where "hi8 (int v) = Inr h'" "lo8 (int v) = Inr l'" "unat (be16 h' l') = v" by (rule operand16)
  then show ?thesis using assms by simp
qed

lemma safe_put16:
  fixes R :: "fact set"
  assumes "\<And>(f :: 'f fc) h l. fc_ok f \<Longrightarrow> \<forall>x \<in> R. holds f x \<Longrightarrow> unat (be16 h l) = v \<Longrightarrow> ins_ready f (make_ins opc (word_of_nat a) h l)"
  shows "safe (put16 opc a v :: ('f, unit) cm) R (\<lambda>_. {})"
  unfolding put16_def
proof (rule safe_fdo, goal_cases)
  case (1 f)
  show ?case
    using emit_ok [OF 1(1) assms [OF 1]] put16_result [of v] by (auto split: sum.splits)
qed

lemma safe_put16_pool: "pool_op opc \<Longrightarrow> FReg r \<in> R \<Longrightarrow> FConst v \<in> R \<Longrightarrow> safe (put16 opc r v) R (\<lambda>_. {})"
  by (rule safe_put16) (fastforce intro: ready_pool)

lemma safe_put16s [safe_rules]:
  "FReg r \<in> R \<Longrightarrow> FConst v \<in> R \<Longrightarrow> safe (put16 LOAD_GLOBAL r v) R (\<lambda>_. {})"
  "FReg r \<in> R \<Longrightarrow> FConst v \<in> R \<Longrightarrow> safe (put16 STORE_GLOBAL r v) R (\<lambda>_. {})"
  "FReg r \<in> R \<Longrightarrow> FConst v \<in> R \<Longrightarrow> safe (put16 CHECK_DEFINED r v) R (\<lambda>_. {})"
  by (rule safe_put16_pool; simp add: pool_op_def)+

lemma safe_goto [safe_rules]: "safe (put16 JUMP 0 v) R (\<lambda>_. {})"
  by (rule safe_put16) (simp add: ins_ready_def last_fine_def reg_operands_def const_operands_def)

lemma safe_global [safe_rules]:
  "FReg r \<in> R \<Longrightarrow> safe (emit_global C LOAD_GLOBAL r name) R (\<lambda>_. {})"
  "FReg r \<in> R \<Longrightarrow> safe (emit_global C STORE_GLOBAL r name) R (\<lambda>_. {})"
  unfolding emit_global_def by (rule safe_bind [OF safe_fconst]; simp add: safe_put16s)+

lemma ready1: "fc_ok f \<Longrightarrow> r < nregs f \<Longrightarrow> opclass opc = 1 \<Longrightarrow> ins_ready f (make_ins opc (word_of_nat r) b c)"
  using last_fine_class [of opc "nregs f" "word_of_nat r" b c] reg_unat [of f r]
  by (auto simp: ins_ready_def class_regs_def opclass_def)

lemma ready_const:
  assumes "fc_ok f" "r < nregs f" "i < nconsts f" "i < 256"
  shows "ins_ready f (make_ins LOAD_CONST (word_of_nat r) (word_of_nat i) 0)"
  using assms reg_unat [OF assms(1,2)] unat_small [OF assms(4)]
  by (simp add: ins_ready_def last_fine_def reg_operands_def const_operands_def)

lemma grow_emit: "grows f g \<Longrightarrow> fc_ok g \<Longrightarrow> ins_ready g (make_ins opc a b c) \<Longrightarrow> fc_ok (snd (emit opc a b c g)) \<and> grows f (snd (emit opc a b c g))"
  using emit_ok [of g opc a b c] grows_trans by blast

lemma pooled_ok:
  assumes f: "fc_ok f" "r < nregs f"
  shows "case (case add_const F v f of
           Inl er \<Rightarrow> Inl er
         | Inr (idx, e') \<Rightarrow>
             if unat idx < 256 then
               (case to_u8 (int (unat idx)) what of
                  Inl er \<Rightarrow> Inl er | Inr i \<Rightarrow> Inr (snd (emit LOAD_CONST (word_of_nat r) i 0 e')))
             else (case (hi8 (int (unat idx)), lo8 (int (unat idx))) of
                     (Inr h, Inr l) \<Rightarrow> Inr (snd (emit LOAD_CONST_W (word_of_nat r) h l e'))
                   | (Inl er, _) \<Rightarrow> Inl er | (_, Inl er) \<Rightarrow> Inl er)) of Inl e \<Rightarrow> True | Inr f' \<Rightarrow> fc_ok f' \<and> grows f f'"
proof (cases "add_const F v f")
  case (Inr p)
  then obtain idx e' where ac: "add_const F v f = Inr (idx, e')" by (cases p) simp
  have e': "fc_ok e'" "grows f e'" "unat idx < nconsts e'" using add_const_fc [OF f(1) ac] by auto
  have r': "r < nregs e'" using f(2) e'(2) by (simp add: grows_def)
  have narrow: "fc_ok (snd (emit LOAD_CONST (word_of_nat r) (word_of_nat (unat idx)) 0 e')) \<and> grows f (snd (emit LOAD_CONST (word_of_nat r) (word_of_nat (unat idx)) 0 e'))"
    if "unat idx < 256" by (rule grow_emit [OF e'(2,1) ready_const [OF e'(1) r' e'(3) that]])
  have wide: "fc_ok (snd (emit LOAD_CONST_W (word_of_nat r) h l e')) \<and> grows f (snd (emit LOAD_CONST_W (word_of_nat r) h l e'))"
    if "hi8 (int (unat idx)) = Inr h" "lo8 (int (unat idx)) = Inr l" for h l
    using e' r' put16_result [OF that] by (intro grow_emit [OF e'(2,1) ready_pool]) (simp_all add: pool_op_def)
  show ?thesis
    unfolding ac sum.case prod.case
    using narrow wide by (auto simp only: to_u8_unat sum.case prod.case split: if_splits sum.splits)
qed simp

lemma load_ok:
  assumes f: "fc_ok f" "r < nregs f"
  shows "case emit_load_const F (word_of_nat r) v f of Inl e \<Rightarrow> True | Inr f' \<Rightarrow> fc_ok f' \<and> grows f f'"
proof -
  have one: "fc_ok (snd (emit opc (word_of_nat r) b 0 f)) \<and> grows f (snd (emit opc (word_of_nat r) b 0 f))" if "opclass opc = 1" for opc b
    by (rule grow_emit [OF grows_refl f(1) ready1 [OF f that]])
  note one' = one [of LOAD_INT] one [of LOAD_NULL] one [of LOAD_TRUE] one [of LOAD_FALSE]
  show ?thesis
    unfolding emit_load_const_def Let_def
    by (cases v; simp only: Value.case pooled_ok [OF f] sum.case one' opclass_def OpCode.case split: if_split sum.split; simp add: one' opclass_def pooled_ok [OF f])
qed

lemma safe_fload [safe_rules]: "FReg r \<in> R \<Longrightarrow> safe (fload C r v) R (\<lambda>_. {})"
  unfolding fload_def
proof (rule safe_fdo, goal_cases)
  case (1 f)
  then have "r < nregs f" by fastforce
  then show ?case using load_ok [OF 1(2), of r "c_flt C" v] by (auto split: sum.splits)
qed

subsection \<open>Registers and scopes\<close>

lemma fc_ok_ra:
  assumes "fc_ok f" "ra_inv a" "nregs f \<le> next_reg a"
  shows "fc_ok (f\<lparr>fc.ra := a\<rparr>) \<and> grows f (f\<lparr>fc.ra := a\<rparr>)"
  using assms by (auto simp: fc_ok_def full_def grows_def intro: code_fine_mono dest: less_le_trans)

lemma ra_alloc_below: "ra_inv s \<Longrightarrow> ra_alloc s = Some (r, s') \<Longrightarrow> ra_inv s' \<and> next_reg s \<le> next_reg s' \<and> r < next_reg s'"
  using ra_alloc_inv [of s r s'] ra_alloc_fresh(2) [of s r s'] ra_alloc_keeps(4) [of s r s'] by (auto simp: live_def)

lemma safe_alloc_temp [safe_rules]: "safe alloc_temp R (\<lambda>r. {FReg r})"
  unfolding alloc_temp_def
proof (rule safe_fdo, goal_cases)
  case (1 f)
  then have "ra_inv (fc.ra f)" by (simp add: fc_ok_def)
  then show ?case
    using ra_alloc_below [of "fc.ra f"] fc_ok_ra [OF 1(1)] by (auto split: option.splits)
qed

lemma safe_free_temp [safe_rules]: "FReg r \<in> R \<Longrightarrow> safe (free_temp r) R (\<lambda>_. {})"
  unfolding free_temp_def fmod_def
proof (rule safe_fdo, goal_cases)
  case (1 f)
  then have "ra_inv (ra_free (fc.ra f) r)" by (intro ra_free_inv) (auto simp: fc_ok_def dest: bspec)
  then show ?case using fc_ok_ra [OF 1(2)] by simp
qed

abbreviation FRegs :: "nat \<Rightarrow> nat \<Rightarrow> fact set" where "FRegs b n \<equiv> (\<lambda>k. FReg (b + k)) ` {..<n}"

lemma ra_alloc_seq_below:
  "ra_inv s \<Longrightarrow> ra_alloc_seq s n = Some (b, s') \<Longrightarrow> 0 < n \<Longrightarrow> ra_inv s' \<and> next_reg s \<le> next_reg s' \<and> b + n \<le> next_reg s'"
  using ra_alloc_seq_inv [of s n b s'] by (auto elim: ra_alloc_seq_cases)

lemma safe_alloc_seq: "0 < n \<Longrightarrow> safe (alloc_seq n) R (\<lambda>b. FRegs b n)"
  unfolding alloc_seq_def
proof (rule safe_fdo, goal_cases)
  case (1 f)
  then have "ra_inv (fc.ra f)" by (simp add: fc_ok_def)
  then show ?case
    using ra_alloc_seq_below [of "fc.ra f" n] 1(1) fc_ok_ra [OF 1(2)] by (fastforce split: option.splits)
qed

lemma regs_below: "\<forall>x \<in> R. holds f x \<Longrightarrow> FRegs b n \<subseteq> R \<Longrightarrow> n = 0 \<or> b + n \<le> nregs f"
proof (cases n)
  case (Suc m)
  assume "\<forall>x \<in> R. holds f x" "FRegs b n \<subseteq> R"
  moreover have "FReg (b + m) \<in> FRegs b n" using Suc by blast
  ultimately have "holds f (FReg (b + m))" by blast
  then show ?thesis using Suc by simp
qed simp

lemma ra_release_seq_next: "next_reg (ra_release_seq s b n) = next_reg s"
  by (induction s b n rule: ra_release_seq.induct) simp_all

lemma safe_release_seq [safe_rules]: "FRegs b n \<subseteq> R \<Longrightarrow> safe (release_seq b n) R (\<lambda>_. {})"
  unfolding release_seq_def fmod_def
proof (rule safe_fdo, goal_cases)
  case (1 f)
  have "ra_inv (fc.ra f)" using 1(2) by (simp add: fc_ok_def)
  then have "ra_inv (ra_release_seq (fc.ra f) b n)"
    using regs_below [OF 1(3,1)] by (cases "n = 0") (auto intro: ra_release_seq_inv)
  then show ?case using fc_ok_ra [OF 1(2)] by (simp add: ra_release_seq_next)
qed

lemma safe_ensure_dest [safe_rules]: "dest = 255 \<or> FReg dest \<in> R \<Longrightarrow> safe (ensure_dest dest) R (\<lambda>r. {FReg r})"
  by (auto simp: ensure_dest_def intro: safe_alloc_temp safe_ret_reg)

lemma safe_push_scope [safe_rules]: "safe push_scope R (\<lambda>_. {})"
  unfolding push_scope_def by (rule safe_fmod) (simp add: same_core_def)

lemma ra_free_local_below: "ra_inv s \<Longrightarrow> r < next_reg s \<Longrightarrow> ra_inv (ra_free_local s r) \<and> next_reg (ra_free_local s r) = next_reg s"
  using ra_free_local_inv [of s r] by (simp add: ra_free_local_def)

lemma pop_locals_ok:
  "ra_inv a \<Longrightarrow> \<forall>l \<in> set ls. lv_reg l < next_reg a \<Longrightarrow> pop_locals d ls a = (ls', a') \<Longrightarrow>
     ra_inv a' \<and> next_reg a' = next_reg a \<and> set ls' \<subseteq> set ls"
proof (induction d ls a rule: pop_locals.induct)
  case (2 d l ls a)
  show ?case
  proof (cases "lv_depth l = d")
    case True
    have a: "ra_inv (ra_free_local a (lv_reg l))" "next_reg (ra_free_local a (lv_reg l)) = next_reg a"
      using ra_free_local_below [of a "lv_reg l"] "2.prems" by auto
    show ?thesis using "2.IH" [OF True a(1)] "2.prems" True a(2) by auto
  qed (use "2.prems" in auto)
qed simp

lemma safe_pop_scope [safe_rules]: "safe pop_scope R (\<lambda>_. {})"
  unfolding pop_scope_def fmod_def
proof (rule safe_fdo, goal_cases)
  case (1 f)
  obtain ls a where p: "pop_locals (fscope f) (locals f) (fc.ra f) = (ls, a)" by fastforce
  have a: "ra_inv a" "next_reg a = nregs f" "set ls \<subseteq> set (locals f)"
    using pop_locals_ok [OF _ _ p] 1(1) by (auto simp: fc_ok_def)
  then show ?case using fc_ok_ra [OF 1(1) a(1)] p by (auto simp: fc_ok_def full_def grows_def)
qed

lemma ra_alloc_local_below:
  assumes "ra_inv s" "ra_alloc_local s = Some (r, s')"
  shows "ra_inv s' \<and> next_reg s \<le> next_reg s' \<and> r < next_reg s'"
proof -
  obtain s1 where s1: "ra_alloc s = Some (r, s1)" "s' = s1\<lparr>pinned := (pinned s1)(r := True)\<rparr>" using assms(2) by (rule ra_alloc_local_cases)
  show ?thesis using ra_alloc_local_inv [OF assms] ra_alloc_below [OF assms(1) s1(1)] s1(2) by simp
qed

lemma safe_declare_local [safe_rules]: "safe (declare_local name) R (\<lambda>r. {FReg r})"
  unfolding declare_local_def
proof (rule safe_fdo, goal_cases)
  case (1 f)
  have inv: "ra_inv (fc.ra f)" using 1 by (simp add: fc_ok_def)
  have step: "fc_ok (f\<lparr>fc.ra := a, locals := x # locals f, boxed_slots := bs\<rparr>) \<and> grows f (f\<lparr>fc.ra := a, locals := x # locals f, boxed_slots := bs\<rparr>)"
    if "ra_alloc_local (fc.ra f) = Some (lv_reg x, a)" for a x bs
    using ra_alloc_local_below [OF inv that] fc_ok_ra [OF 1(1), of a] by (auto simp: fc_ok_def full_def grows_def)
  show ?case using step ra_alloc_local_below [OF inv] by (auto split: option.splits)
qed

subsection \<open>Variables\<close>

lemma find_SomeD: "find P xs = Some x \<Longrightarrow> x \<in> set xs \<and> P x"
  by (auto simp: find_Some_iff in_set_conv_nth)

lemma same_core_simps [simp]: "same_core f f" "list_all2 same_core fs fs"
  "capture_index x = length (caps f) \<Longrightarrow> same_core f (f\<lparr>caps := caps f @ [x]\<rparr>)"
  by (auto simp: same_core_def caps_good_def intro: list_all2_refl)

lemma resolve_ok:
  "resolve name wr fs = (r, fs') \<Longrightarrow> list_all2 same_core fs fs' \<and>
     (\<forall>x. r = Inr (LOCAL x) \<longrightarrow> fs \<noteq> [] \<and> (\<exists>l \<in> set (locals (hd fs)). lv_reg l = x)) \<and>
     (\<forall>i. r = Inr (CAPTURE i) \<longrightarrow> fs \<noteq> [] \<and> (\<exists>c \<in> set (caps (hd fs')). capture_index c = i))"
proof (induction name wr fs arbitrary: r fs' rule: resolve.induct)
  case (2 name wr f ps)
  obtain q ps' where rec: "resolve name False ps = (q, ps')" by fastforce
  show ?case
  proof (cases "find (\<lambda>l. lv_name l = name) (locals f)")
    case (Some l)
    then show ?thesis using 2(2) find_SomeD [OF Some] by auto
  next
    case None
    show ?thesis
    proof (cases "find (\<lambda>c. ci_name c = name) (caps f) = None \<and> \<not> (wr \<or> ps = [])")
      case False
      then show ?thesis using 2(2) None find_SomeD [of "\<lambda>c. ci_name c = name" "caps f"] by (auto split: option.splits)
    next
      case True
      have "list_all2 same_core ps ps'" using 2(1) [OF None _ _ rec] True by auto
      then show ?thesis using 2(2) None True rec by (auto split: sum.splits VarLoc.splits if_splits)
    qed
  qed
qed simp

definition var_facts :: "VarLoc \<Rightarrow> fact set" where
  "var_facts loc = (case loc of LOCAL r \<Rightarrow> {FReg r} | CAPTURE i \<Rightarrow> {FCap i} | GLOBAL \<Rightarrow> {})"

lemma var_facts_simps [simp]: "var_facts (LOCAL r) = {FReg r}" "var_facts (CAPTURE i) = {FCap i}" "var_facts GLOBAL = {}"
  by (simp_all add: var_facts_def)

lemma core_ok:
  assumes "st_ok s" "list_all2 same_core (fcs s) fs"
  shows "st_ok (s\<lparr>fcs := fs\<rparr>) \<and> st_grows s (s\<lparr>fcs := fs\<rparr>)"
proof -
  have "fs \<noteq> []" using assms by (auto simp: st_ok_def)
  moreover have "fc_ok (fs ! i) \<and> grows (fcs s ! i) (fs ! i)" if "i < length fs" for i
    using assms that same_core_ok [of "fcs s ! i" "fs ! i"] by (auto simp: st_ok_def list_all2_conv_all_nth all_set_conv_all_nth)
  ultimately show ?thesis
    using assms by (auto simp: st_ok_def st_grows_def list_all2_conv_all_nth all_set_conv_all_nth)
qed

lemma safe_resolve_var [safe_rules]: "safe (resolve_var name wr) R var_facts"
proof (rule safeI, goal_cases)
  case (1 s)
  obtain r fs where r: "resolve name wr (fcs s) = (r, fs)" by fastforce
  note ok = resolve_ok [OF r]
  have reg: "x < nregs (hd fs)" if x: "r = Inr (LOCAL x)" for x
  proof -
    obtain l where "l \<in> set (locals (cur s))" "lv_reg l = x" using ok x by auto
    moreover have "fc_ok (cur s)" using 1(1) by (auto simp: st_ok_def)
    moreover have "same_core (cur s) (hd fs)" using ok 1(1) by (cases "fcs s"; cases fs) (auto simp: st_ok_def)
    ultimately show ?thesis by (auto simp: fc_ok_def same_core_def)
  qed
  have cap: "i < ncaps (hd fs)" if i: "r = Inr (CAPTURE i)" for i
  proof -
    have "fcs s \<noteq> []" "list_all2 same_core (fcs s) fs" using ok i by auto
    then have "caps_good (caps (hd fs))" using 1(1) by (cases "fcs s"; cases fs) (auto simp: st_ok_def fc_ok_def same_core_def)
    moreover obtain c where "c \<in> set (caps (hd fs))" "capture_index c = i" using ok i by auto
    ultimately show ?thesis by (auto simp: caps_good_def)
  qed
  show ?case using core_ok [OF 1(1)] ok reg cap by (auto simp: resolve_var_def r var_facts_def split: VarLoc.splits)
qed

end
