(* ===== verification/Compile_Blocks.thy ===== *)
theory Compile_Blocks
  imports Compile_Prims
begin

text \<open>
  Instructions that carry operands in the instructions behind them: calls with their argument count and struct literals with the names
  of their fields. The literal is the one place where the code is unfinished between two steps; it can stay so only when the constant
  pool overflows.
\<close>

subsection \<open>Single instructions with operands of their own kind\<close>

lemma last_fine_nop: "last_fine N M L K (make_ins NOP a b c)"
  by (simp add: last_fine_def reg_operands_def const_operands_def)

lemma safe_nop [safe_rules]: "safe (put NOP 0 0 0) R (\<lambda>_. {})"
proof (rule safe_put, goal_cases)
  case (1 f)
  have "hint_fits (nregs f) (nconsts f) (fcode f) (make_ins NOP 0 0 0)" if "code_fine (nregs f) (nconsts f) (nnested f) (ncaps f) (fcode f)"
  proof (cases "fcode f = []")
    case False
    then have "ins_fine (nregs f) (nconsts f) (nnested f) (ncaps f) (fcode f) (length (fcode f) - 1)" using that by (simp add: code_fine_def)
    then show ?thesis
      using False by (cases "op (last (fcode f))") (auto simp: hint_fits_def ins_fine_def Let_def last_conv_nth bx_def be16_def)
  qed (simp add: hint_fits_def)
  then show ?case using 1(1) by (auto simp: ins_ready_def fc_ok_def last_fine_nop)
qed

lemma safe_get_field [safe_rules]:
  "FReg r \<in> R \<Longrightarrow> FReg x \<in> R \<Longrightarrow> FConst i \<in> R \<Longrightarrow> i \<le> 255 \<Longrightarrow> safe (put GET_FIELD r x i) R (\<lambda>_. {})"
  by (rule safe_put) (fastforce simp: ins_ready_def last_fine_def reg_operands_def const_operands_def reg_unat unat_small)

lemma safe_set_field [safe_rules]:
  "FReg r \<in> R \<Longrightarrow> FConst i \<in> R \<Longrightarrow> FReg x \<in> R \<Longrightarrow> i \<le> 255 \<Longrightarrow> safe (put SET_FIELD r i x) R (\<lambda>_. {})"
  by (rule safe_put) (fastforce simp: ins_ready_def last_fine_def reg_operands_def const_operands_def reg_unat unat_small)

lemma FRegs4: "FRegs r 4 = {FReg r, FReg (r + 1), FReg (r + 2), FReg (r + 3)}"
  by (auto simp: image_iff lessThan_nat_numeral lessThan_Suc numeral_eq_Suc)

lemma safe_for_prep [safe_rules]: "FRegs r 4 \<subseteq> R \<Longrightarrow> FReg x \<in> R \<Longrightarrow> safe (put FOR_PREP r x 0) R (\<lambda>_. {})"
  unfolding FRegs4
  by (rule safe_put) (fastforce simp: ins_ready_def last_fine_def reg_operands_def const_operands_def reg_unat)

lemma safe_for_step [safe_rules]:
  fixes R :: "fact set"
  assumes "FRegs r 4 \<subseteq> R"
  shows "safe (femit FOR_STEP r 0 0 :: ('f, nat) cm) R (\<lambda>k. {FJump k})"
proof -
  have "ins_ready f (make_ins FOR_STEP (word_of_nat r) (word_of_nat 0) (word_of_nat 0))" if "fc_ok f" "\<forall>x \<in> R. holds f x" for f :: "'f fc"
  proof -
    have "r + 3 < nregs f" using assms that(2) unfolding FRegs4 by (metis holds.simps(1) insertCI subsetD)
    then show ?thesis using reg_unat [OF that(1), of r] by (simp add: ins_ready_def last_fine_def reg_operands_def const_operands_def)
  qed
  from safe_femit [where opc = FOR_STEP, OF this] show ?thesis by (simp add: is_jump_def)
qed

lemma safe_make_closure_ins:
  fixes R :: "fact set"
  assumes "FReg r \<in> R" "FNest j \<in> R" "j \<le> 65535"
  shows "safe (put MAKE_CLOSURE r (j mod 256) (j div 256) :: ('f, unit) cm) R (\<lambda>_. {})"
proof (rule safe_put)
  fix f :: "'f fc"
  assume f: "fc_ok f" "\<forall>x \<in> R. holds f x"
  have "holds f (FReg r)" "holds f (FNest j)" using f(2) assms by blast+
  then have "r < nregs f" "j < nnested f" by simp_all
  moreover have "unat (word_of_nat (j mod 256) :: u8) + 256 * unat (word_of_nat (j div 256) :: u8) = j"
    using assms(3) by (simp add: unat_small)
  ultimately show "ins_ready f (make_ins MAKE_CLOSURE (word_of_nat r) (word_of_nat (j mod 256)) (word_of_nat (j div 256)))"
    using reg_unat [OF f(1), of r] by (simp add: ins_ready_def last_fine_def reg_operands_def const_operands_def)
qed

subsection \<open>Calls with the instruction behind them\<close>

text \<open>The same judgement with any condition on the current function, for the steps between two instructions.\<close>

definition tri :: "('f fc \<Rightarrow> bool) \<Rightarrow> ('f, 'a) cm \<Rightarrow> ('a \<Rightarrow> 'f fc \<Rightarrow> bool) \<Rightarrow> bool" where
  "tri P m Q \<longleftrightarrow> (\<forall>s. st_ok s \<longrightarrow> P (cur s) \<longrightarrow>
     st_ok (snd (m s)) \<and> st_grows s (snd (m s)) \<and> (\<forall>y. fst (m s) = Inr y \<longrightarrow> Q y (cur (snd (m s)))))"

lemma safe_tri: "safe m R Q \<longleftrightarrow> tri (\<lambda>f. \<forall>x \<in> R. holds f x) m (\<lambda>y f. \<forall>x \<in> Q y. holds f x)"
  by (simp add: safe_def tri_def)

lemma tri_bind: 
  fixes m :: "('f, 'a) cm"
  assumes "tri P m M" "\<And>x. tri (M x) (k x) Q"
  shows "tri P (cbind m k) Q"
  unfolding tri_def
proof (intro allI impI)
  fix s :: "'f cstate"
  assume s: "st_ok s" "P (cur s)"
  obtain r s1 where m: "m s = (r, s1)" by fastforce
  have 1: "st_ok s1" "st_grows s s1" "\<And>y. r = Inr y \<Longrightarrow> M y (cur s1)" using assms(1) s m by (auto simp: tri_def)
  show "st_ok (snd (cbind m k s)) \<and> st_grows s (snd (cbind m k s)) \<and>
     (\<forall>y. fst (cbind m k s) = Inr y \<longrightarrow> Q y (cur (snd (cbind m k s))))"
    using 1 m assms(2) st_grows_trans [OF 1(2)] by (cases r) (auto simp: cbind_def tri_def)
qed

lemma tri_seq: "tri P m (\<lambda>_. M) \<Longrightarrow> tri M k Q \<Longrightarrow> tri P (cseq m k) Q"
  unfolding cseq_def by (rule tri_bind)

lemma tri_fdo:
  fixes g :: "'f fc \<Rightarrow> compile_error + 'a \<times> 'f fc"
  assumes "\<And>f. fc_ok f \<Longrightarrow> P f \<Longrightarrow> case g f of Inl e \<Rightarrow> True | Inr (x, f') \<Rightarrow> fc_ok f' \<and> grows f f' \<and> Q x f'"
  shows "tri P (fdo g) Q"
  unfolding tri_def
proof (intro allI impI)
  fix s :: "'f cstate"
  assume s: "st_ok s" "P (cur s)"
  obtain f fs where fs: "fcs s = f # fs" using s(1) by (cases "fcs s") (auto simp: st_ok_def)
  have f: "fc_ok f" "P f" using s fs by (auto simp: st_ok_def)
  show "st_ok (snd (fdo g s)) \<and> st_grows s (snd (fdo g s)) \<and> (\<forall>y. fst (fdo g s) = Inr y \<longrightarrow> Q y (cur (snd (fdo g s))))"
    using assms [OF f] s fs by (auto simp: fdo_def st_ok_def st_grows_def list_all2_refl split: sum.splits)
qed

lemma tri_put:
  assumes "\<And>f. fc_ok f \<Longrightarrow> P f \<Longrightarrow> ins_ready f (make_ins opc (word_of_nat a) (word_of_nat b) (word_of_nat c)) \<and>
    Q (snd (emit opc (word_of_nat a) (word_of_nat b) (word_of_nat c) f))"
  shows "tri P (put opc a b c) (\<lambda>_. Q)"
  unfolding put_def femit_def cskip_def cret_def
  by (rule tri_seq [where M = Q, OF tri_fdo]) (use assms emit_ok in \<open>fastforce simp: tri_def\<close>)+

definition last_call :: "OpCode \<Rightarrow> nat \<Rightarrow> 'f fc \<Rightarrow> bool" where
  "last_call opc n f \<longleftrightarrow> full f \<or> fcode f \<noteq> [] \<and> op (last (fcode f)) = opc \<and> opC (last (fcode f)) + n \<le> nregs f"

lemma last_call_emit: "b + n \<le> nregs f \<Longrightarrow> b < 256 \<Longrightarrow> last_call opc n (snd (emit opc a' b' (word_of_nat b) f))"
  by (simp add: last_call_def emit_def unat_small)

lemma safe_builtin_code [safe_rules]:
  fixes R :: "fact set"
  assumes "FReg r \<in> R" "n \<le> 255" "FRegs b n \<subseteq> R" "n = 0 \<longrightarrow> b = 0"
  shows "safe (builtin_code r bidx b n :: ('f, unit) cm) R (\<lambda>_. {})"
  unfolding safe_tri builtin_code_def
proof (rule tri_seq [where M = "last_call CALL_BUILTIN n"])
  show "tri (\<lambda>f :: 'f fc. \<forall>x \<in> R. holds f x) (put CALL_BUILTIN r (bidx mod 256) b) (\<lambda>_. last_call CALL_BUILTIN n)"
  proof (rule tri_put, rule conjI)
    fix f :: "'f fc"
    assume f: "fc_ok f" "\<forall>x \<in> R. holds f x"
    have r: "r < nregs f" using f(2) assms(1) by fastforce
    have b: "b + n \<le> nregs f" "b < nregs f" using regs_below [OF f(2) assms(3)] assms(4) r by auto
    show "ins_ready f (make_ins CALL_BUILTIN (word_of_nat r) (word_of_nat (bidx mod 256)) (word_of_nat b))"
      using reg_unat [OF f(1) r] reg_unat [OF f(1) b(2)] r b by (simp add: ins_ready_def last_fine_def reg_operands_def const_operands_def)
    show "last_call CALL_BUILTIN n (snd (emit CALL_BUILTIN (word_of_nat r) (word_of_nat (bidx mod 256)) (word_of_nat b) f))"
      using b fc_okD [OF f(1)] by (intro last_call_emit) auto
  qed
  show "tri (last_call CALL_BUILTIN n) (put NOP n (bidx div 256) 0 :: ('f, unit) cm) (\<lambda>y f. \<forall>x \<in> {}. holds f x)"
    by (rule tri_put) (use assms(2) in \<open>auto simp: ins_ready_def last_call_def last_fine_nop hint_fits_def unat_small\<close>)
qed

lemma tri_put16:
  assumes "\<And>f h l. fc_ok f \<Longrightarrow> P f \<Longrightarrow> unat (be16 h l) = v \<Longrightarrow> ins_ready f (make_ins opc (word_of_nat a) h l)"
  shows "tri P (put16 opc a v) (\<lambda>_ _. True)"
  unfolding put16_def
proof (rule tri_fdo, goal_cases)
  case (1 f)
  show ?case using emit_ok [OF 1(1) assms [OF 1]] put16_result [of v] by (auto split: sum.splits)
qed

lemma last_call_const:
  assumes "last_call opc n f" "add_const F v f = Inr (idx, f')"
  shows "last_call opc n f'"
proof -
  obtain cs where "f' = f\<lparr>proto := (proto f)\<lparr>constants := constants (proto f) @ cs\<rparr>\<rparr>" using assms(2) by (rule add_const_shape)
  then show ?thesis using assms(1) by (auto simp: last_call_def full_def)
qed

lemma call_name_ok:
  "tri (last_call CALL n)
     (case name of
        None \<Rightarrow> cret 0
      | Some t \<Rightarrow> cbind (fconst C (V_STRING t)) (\<lambda>i.
          case to_u16 (int (i + 1)) what of Inl e \<Rightarrow> cthrow e | Inr w \<Rightarrow> cret (i + 1)))
     (\<lambda>cname f. last_call CALL n f \<and> cname \<le> nconsts f)"
proof (cases name)
  case None
  then show ?thesis by (simp add: tri_def cret_def)
next
  case (Some t)
  have 1: "tri (last_call CALL n) (fconst C (V_STRING t)) (\<lambda>i f. last_call CALL n f \<and> i < nconsts f)"
    unfolding fconst_def by (rule tri_fdo) (auto split: sum.splits dest: add_const_fc last_call_const)
  show ?thesis
    unfolding Some option.case
    by (rule tri_bind [OF 1]) (auto simp: tri_def cret_def cthrow_def split: sum.splits)
qed

lemma safe_call_code [safe_rules]:
  fixes R :: "fact set"
  assumes "FReg r \<in> R" "FReg fn \<in> R" "n \<le> 255" "FRegs b n \<subseteq> R" "n = 0 \<longrightarrow> b = 0"
  shows "safe (call_code C r fn b n name :: ('f, unit) cm) R (\<lambda>_. {})"
  unfolding safe_tri call_code_def
proof (rule tri_seq [where M = "last_call CALL n"])
  show "tri (\<lambda>f :: 'f fc. \<forall>x \<in> R. holds f x) (put CALL r fn b) (\<lambda>_. last_call CALL n)"
  proof (rule tri_put, rule conjI)
    fix f :: "'f fc"
    assume f: "fc_ok f" "\<forall>x \<in> R. holds f x"
    have r: "r < nregs f" "fn < nregs f" using f(2) assms(1,2) by fastforce+
    have b: "b + n \<le> nregs f" "b < nregs f" using regs_below [OF f(2) assms(4)] assms(5) r by auto
    show "ins_ready f (make_ins CALL (word_of_nat r) (word_of_nat fn) (word_of_nat b))"
      using reg_unat [OF f(1) r(1)] reg_unat [OF f(1) r(2)] reg_unat [OF f(1) b(2)] r b
      by (simp add: ins_ready_def last_fine_def reg_operands_def const_operands_def)
    show "last_call CALL n (snd (emit CALL (word_of_nat r) (word_of_nat fn) (word_of_nat b) f))"
      using b fc_okD [OF f(1)] by (intro last_call_emit) auto
  qed
  have "tri (\<lambda>f :: 'f fc. last_call CALL n f \<and> cname \<le> nconsts f) (put16 NOP n cname) (\<lambda>_ _. True)" for cname
    by (rule tri_put16) (use assms(3) in \<open>auto simp: ins_ready_def last_call_def last_fine_nop hint_fits_def unat_small bx_def\<close>)
  then show "tri (last_call CALL n :: 'f fc \<Rightarrow> bool) (cbind
     (case name of
        None \<Rightarrow> cret 0
      | Some t \<Rightarrow> cbind (fconst C (V_STRING t)) (\<lambda>i.
          case to_u16 (int (i + 1)) ''constant index'' of Inl e \<Rightarrow> cthrow e | Inr w \<Rightarrow> cret (i + 1))) (put16 NOP n)) (\<lambda>y f. \<forall>x \<in> {}. holds f x)"
    by (intro tri_bind [OF call_name_ok]) simp
qed

subsection \<open>The head of a struct literal\<close>

lemma ins_fine_later:
  assumes "ins_fine N M L K c k" "Suc k < length c"
  shows "ins_fine N M L K (c @ xs) k"
proof -
  have "hint_at (c @ xs) (Suc k) = hint_at c (Suc k)" using assms(2) by (simp add: hint_at_def nth_append)
  then show ?thesis
    using assms by (cases "op (c ! k)") (auto simp: ins_fine_def Let_def nth_append list_all_iff split: option.splits)
qed

definition name_ins :: "nat \<Rightarrow> Instruction \<Rightarrow> bool" where
  "name_ins M i \<longleftrightarrow> op i = LOAD_CONST_W \<and> opA i = 0 \<and> opBX i < M"

lemma code_fine_struct:
  assumes c: "code_fine N M L K c" "c \<noteq> []" "op (last c) = NEW_STRUCT"
    and h: "is_nop h" "opA h = length cs" and cs: "list_all (name_ins M) cs" and N: "0 < N"
  shows "code_fine N M L K (c @ h # cs)"
  unfolding code_fine_def
proof (intro allI impI)
  fix k assume k: "k < length (c @ h # cs)"
  consider "Suc k < length c" | "Suc k = length c" | "k = length c" | "length c < k" by linarith
  then show "ins_fine N M L K (c @ h # cs) k"
  proof cases
    case 1
    then show ?thesis using c(1) by (intro ins_fine_later) (auto simp: code_fine_def)
  next
    case 2
    have l: "last c = c ! k" using 2 c(2) by (simp add: last_conv_nth flip: 2)
    have "ins_fine N M L K c k" using 2 c(1) by (simp add: code_fine_def)
    moreover have "hint_at (c @ h # cs) (Suc k) = Some h" using 2 h by (simp add: hint_at_def)
    moreover have "(c @ h # cs) ! (k + 2 + j) = cs ! j" for j using 2 by (simp add: nth_append)
    ultimately show ?thesis
      using 2 l c(3) h(2) cs by (auto simp: ins_fine_def Let_def nth_append list_all_length name_ins_def)
  next
    case 3
    have "op h = NOP" using h(1) by (cases "op h") (simp_all add: is_nop_def)
    then show ?thesis using 3 by (simp add: ins_fine_def Let_def reg_operands_def const_operands_def)
  next
    case 4
    then obtain j where j: "k = length c + 1 + j" by (auto simp: less_iff_Suc_add)
    then have "(c @ h # cs) ! k = cs ! j" by (simp add: nth_append)
    moreover have "name_ins M (cs ! j)" using cs k j by (simp add: list_all_length)
    ultimately show ?thesis using N by (simp add: ins_fine_def Let_def name_ins_def reg_operands_def const_operands_def)
  qed
qed

text \<open>What the names of the fields append, completely or until the pool overflows.\<close>

definition names_added :: "'f fc \<Rightarrow> 'f fc \<Rightarrow> nat \<Rightarrow> bool" where
  "names_added f f' n \<longleftrightarrow> (\<exists>ks cs ls. f' = f\<lparr>proto := (proto f)\<lparr>constants := constants (proto f) @ ks, code := fcode f @ cs, lines := ls\<rparr>\<rparr> \<and>
     nconsts f' \<le> 65535 \<and> list_all (name_ins (nconsts f')) cs \<and> length cs = n)"

lemma names_added_step:
  assumes "names_added f g n" "add_const F v g = Inr (idx, g')" "unat (be16 h l) = unat idx"
  shows "names_added f (snd (emit LOAD_CONST_W 0 h l g')) (Suc n)"
proof -
  obtain ks cs ls where g: "g = f\<lparr>proto := (proto f)\<lparr>constants := constants (proto f) @ ks, code := fcode f @ cs, lines := ls\<rparr>\<rparr>"
    "nconsts g \<le> 65535" "list_all (name_ins (nconsts g)) cs" "length cs = n" using assms(1) by (auto simp: names_added_def)
  obtain ks' where g': "g' = g\<lparr>proto := (proto g)\<lparr>constants := constants (proto g) @ ks'\<rparr>\<rparr>" using assms(2) by (rule add_const_shape)
  have i: "unat idx < nconsts g'" "nconsts g' \<le> 65535" using add_const_ok [OF assms(2) g(2)] by auto
  have "list_all (name_ins (nconsts g')) cs" using g(3) unfolding g' by (auto simp: list_all_iff name_ins_def)
  moreover have "name_ins (nconsts g') (make_ins LOAD_CONST_W 0 h l)" using i(1) assms(3) by (simp add: name_ins_def bx_def)
  ultimately show ?thesis
    using i(2) g(1,4) g' unfolding names_added_def emit_def
    by (intro exI [of _ "ks @ ks'"] exI [of _ "cs @ [make_ins LOAD_CONST_W 0 h l]"] exI [of _ "lines (proto g') @ [cur_line g']"]) auto
qed

lemma emit_name_run:
  assumes "names_added f g n" "fcs s = g # fs"
  obtains g' where "emit_global C LOAD_CONST_W 0 name s = (Inr (), s\<lparr>fcs := g' # fs\<rparr>)" "names_added f g' (Suc n)"
  | e where "emit_global C LOAD_CONST_W 0 name s = (Inl e, s)" "full g"
proof (cases "add_const (c_flt C) (V_STRING name) g")
  case (Inl e)
  have "nconsts g \<le> 65535" using assms(1) by (auto simp: names_added_def)
  with Inl have "full g" by (rule add_const_fails)
  then show ?thesis using Inl assms(2) that(2) by (simp add: emit_global_def cbind_def fconst_def fdo_def)
next
  case (Inr q)
  then obtain idx g' where a: "add_const (c_flt C) (V_STRING name) g = Inr (idx, g')" by (cases q) simp
  have "unat idx \<le> 65535" using unsigned_less [of idx, where 'a = nat] by simp
  then obtain h l where hl: "hi8 (int (unat idx)) = Inr h" "lo8 (int (unat idx)) = Inr l" "unat (be16 h l) = unat idx" by (rule operand16)
  have "emit_global C LOAD_CONST_W 0 name s = (Inr (), s\<lparr>fcs := snd (emit LOAD_CONST_W 0 h l g') # fs\<rparr>)"
    using a hl(1,2) assms(2) by (simp add: emit_global_def cbind_def fconst_def fdo_def put16_def)
  then show ?thesis using that(1) names_added_step [OF assms(1) a hl(3)] by blast
qed

lemma names_run:
  "names_added f g n \<Longrightarrow> fcs s = g # fs \<Longrightarrow>
     \<exists>g' m. snd (cfor (emit_global C LOAD_CONST_W 0) names s) = s\<lparr>fcs := g' # fs\<rparr> \<and> names_added f g' m \<and>
       (full g' \<or> fst (cfor (emit_global C LOAD_CONST_W 0) names s) = Inr () \<and> m = n + length names)"
proof (induction names arbitrary: g n s)
  case Nil
  then have "s\<lparr>fcs := g # fs\<rparr> = s" by simp
  then show ?case using Nil by (auto simp: cskip_def cret_def intro!: exI [of _ g] exI [of _ n])
next
  case (Cons name names)
  from Cons.prems show ?case
  proof (cases rule: emit_name_run [of f g n s fs C name])
    case (1 g')
    then show ?thesis using Cons.IH [OF 1(2), of "s\<lparr>fcs := g' # fs\<rparr>"] by (simp add: cseq_def cbind_def)
  next
    case (2 e)
    then have "s\<lparr>fcs := g # fs\<rparr> = s" using Cons.prems by simp
    then show ?thesis using 2 Cons.prems by (auto simp: cseq_def cbind_def intro!: exI [of _ g] exI [of _ n])
  qed
qed

lemma names_added_ok:
  assumes f: "fc_ok f" "0 < nregs f" and l: "full f \<or> fcode f \<noteq> [] \<and> op (last (fcode f)) = NEW_STRUCT"
    and g: "names_added (snd (emit NOP (word_of_nat n) 0 0 f)) g m" "full g \<or> m = n" "n \<le> 255"
  shows "fc_ok g \<and> grows f g"
proof -
  obtain ks cs ls where g': "g = f\<lparr>proto := (proto f)\<lparr>constants := constants (proto f) @ ks, code := fcode f @ make_ins NOP (word_of_nat n) 0 0 # cs, lines := ls\<rparr>\<rparr>"
    "nconsts g \<le> 65535" "list_all (name_ins (nconsts g)) cs" "length cs = m" using g(1) by (auto simp: names_added_def emit_def)
  have fine: "code_fine (nregs g) (nconsts g) (nnested g) (ncaps g) (fcode g)" if "\<not> full g"
  proof -
    have nf: "\<not> full f" using that g'(1) by (auto simp: full_def)
    then have "code_fine (nregs f) (nconsts f) (nnested f) (ncaps f) (fcode f)" using f(1) by (simp add: fc_ok_def)
    then have "code_fine (nregs f) (nconsts g) (nnested f) (ncaps f) (fcode f)" by (rule code_fine_mono) (simp_all add: g'(1))
    then have "code_fine (nregs f) (nconsts g) (nnested f) (ncaps f) (fcode f @ make_ins NOP (word_of_nat n) 0 0 # cs)"
      by (rule code_fine_struct) (use nf l that g(2,3) g'(3,4) f(2) in \<open>auto simp: unat_small\<close>)
    then show ?thesis by (simp add: g'(1))
  qed
  have j: "jumpy (fcode f) k \<Longrightarrow> jumpy (fcode f @ xs) k" for k xs by (auto simp: jumpy_def nth_append)
  show ?thesis
  proof
    show "grows f g" by (auto simp: g'(1) grows_def nth_append)
    show "fc_ok g" using f(1) fine g'(2) by (auto simp: g'(1) fc_ok_def full_def j)
  qed
qed

lemma struct_names_run:
  assumes s: "st_ok s" "0 < nregs (cur s)" and l: "full (cur s) \<or> fcode (cur s) \<noteq> [] \<and> op (last (fcode (cur s))) = NEW_STRUCT"
    and n: "length names \<le> 255" and s': "s' = snd (cseq (put NOP (length names) 0 0) (cfor (emit_global C LOAD_CONST_W 0) names) s)"
  shows "st_ok s' \<and> st_grows s s'"
proof -
  obtain f fs where fs: "fcs s = f # fs" using s(1) by (cases "fcs s") (auto simp: st_ok_def)
  have f: "fc_ok f" "0 < nregs f" using s fs by (auto simp: st_ok_def)
  define g where "g = snd (emit NOP (word_of_nat (length names)) 0 0 f)"
  have "nconsts g \<le> 65535" using f(1) by (simp add: g_def emit_def fc_ok_def)
  then have g: "names_added g g 0"
    unfolding names_added_def by (intro exI [of _ "[]"] exI [of _ "lines (proto g)"]) simp
  obtain g' m where run: "snd (cfor (emit_global C LOAD_CONST_W 0) names (s\<lparr>fcs := g # fs\<rparr>)) = s\<lparr>fcs := g' # fs\<rparr>" "names_added g g' m"
      "full g' \<or> m = length names"
    using names_run [OF g, of "s\<lparr>fcs := g # fs\<rparr>" fs C names] by auto
  have "s' = s\<lparr>fcs := g' # fs\<rparr>"
    using run(1) fs unfolding s' by (simp add: cseq_def cbind_def put_def femit_def fdo_def cskip_def cret_def g_def split_beta)
  moreover have "fc_ok g' \<and> grows f g'"
    using names_added_ok [OF f _ run(2) [unfolded g_def] run(3) n] l fs by simp
  ultimately show ?thesis using s(1) fs by (auto simp: st_ok_def st_grows_def list_all2_refl)
qed

lemma safe_struct_head [safe_rules]:
  fixes R :: "fact set"
  assumes "FReg r \<in> R"
  shows "safe (struct_head C r sname names :: ('f, unit) cm) R (\<lambda>_. {})"
proof -
  define M where "M f \<longleftrightarrow> 0 < nregs f \<and> (full f \<or> fcode f \<noteq> [] \<and> op (last (fcode f)) = NEW_STRUCT)" for f :: "'f fc"
  have 1: "tri (\<lambda>f :: 'f fc. \<forall>x \<in> R. holds f x) (fconst C (V_STRING sname)) (\<lambda>i f. r < nregs f \<and> i < nconsts f)"
    unfolding fconst_def
  proof (rule tri_fdo, goal_cases)
    case (1 f)
    have r: "r < nregs f" using 1(2) assms by fastforce
    have "fc_ok f' \<and> grows f f' \<and> r < nregs f' \<and> unat idx < nconsts f'" if "add_const (c_flt C) (V_STRING sname) f = Inr (idx, f')" for idx f'
      using add_const_fc [OF 1(1) that] r by (auto simp: grows_def)
    then show ?case by (auto split: sum.splits)
  qed
  have 2: "tri (\<lambda>f :: 'f fc. r < nregs f \<and> i < nconsts f) (put16 NEW_STRUCT r i) (\<lambda>_. M)" for i
    unfolding put16_def
  proof (rule tri_fdo, goal_cases)
    case (1 f)
    have "ins_ready f (make_ins NEW_STRUCT (word_of_nat r) h l)" if "unat (be16 h l) = i" for h l
      using 1 that by (intro ready_pool) (auto simp: pool_op_def)
    then show ?case
      using emit_ok [OF 1(1), of NEW_STRUCT] put16_result [of i] 1(2) by (auto simp: M_def emit_def split: sum.splits)
  qed
  have 3: "tri M (if 255 < length names then cthrow e else cseq (put NOP (length names) 0 0) (cfor (emit_global C LOAD_CONST_W 0) names)) (\<lambda>_ _. True)" for e
    using struct_names_run [of _ names _ C] by (auto simp: tri_def M_def cthrow_def)
  show ?thesis
    unfolding safe_tri struct_head_def emit_global_def
    by (rule tri_seq [OF tri_bind [OF 1 2]]) (simp add: 3 [unfolded emit_global_def])
qed

end
