(* ===== verification/Compile_Nest.thy ===== *)
theory Compile_Nest
  imports Compile_Blocks
begin

text \<open>
  Loops with their pending jumps, the compilers of nested functions, the discovery pass and the finished prototypes.
\<close>

subsection \<open>Loops\<close>

definition loops_from :: "nat set \<Rightarrow> 'f fc \<Rightarrow> 'f fc \<Rightarrow> bool" where
  "loops_from S f g \<longleftrightarrow> proto g = proto f \<and> fc.ra g = fc.ra f \<and> locals g = locals f \<and> assign_result g = assign_result f \<and> caps g = caps f \<and>
     (\<forall>c \<in> set (loop_stack g). \<forall>p \<in> patches c. p \<in> S \<or> (\<exists>c' \<in> set (loop_stack f). p \<in> patches c'))"

lemma loops_from_ok:
  assumes "fc_ok f" "\<forall>p \<in> S. holds f (FJump p)" "loops_from S f g"
  shows "fc_ok g \<and> grows f g"
proof -
  have "full f \<or> (\<forall>c \<in> set (loop_stack g). \<forall>p \<in> patches c. jumpy (fcode f) p)"
  proof (cases "full f")
    case False
    then have old: "\<And>c p. c \<in> set (loop_stack f) \<Longrightarrow> p \<in> patches c \<Longrightarrow> jumpy (fcode f) p" using assms(1) by (simp add: fc_ok_def)
    have new: "\<And>p. p \<in> S \<Longrightarrow> jumpy (fcode f) p" using assms(2) False by auto
    show ?thesis using assms(3) old new unfolding loops_from_def by blast
  qed simp
  then show ?thesis using assms(1,3) by (auto simp: fc_ok_def loops_from_def grows_def full_def)
qed

lemma safe_loops:
  assumes "FJump ` S \<subseteq> R" "\<And>f. loops_from S f (g f)"
  shows "safe (fmod g) R (\<lambda>_. {})"
  unfolding fmod_def
proof (rule safe_fdo, goal_cases)
  case (1 f)
  then have "\<forall>p \<in> S. holds f (FJump p)" using assms(1) by blast
  then show ?case using loops_from_ok [OF 1(1) _ assms(2)] by simp
qed

abbreviation pop_ctx :: "('f, LoopContext) cm" where
  "pop_ctx \<equiv> fdo (\<lambda>f. case loop_stack f of [] \<Rightarrow> Inl (Rejected []) | c # cs \<Rightarrow> Inr (c, f\<lparr>loop_stack := cs\<rparr>))"

lemma safe_pop_ctx [safe_rules]: "safe pop_ctx R (\<lambda>c. FJump ` patches c)"
proof (rule safe_fdo, goal_cases)
  case (1 f)
  show ?case
  proof (cases "loop_stack f")
    case (Cons c cs)
    have "loops_from {} f (f\<lparr>loop_stack := cs\<rparr>)" using Cons by (auto simp: loops_from_def)
    then have "fc_ok (f\<lparr>loop_stack := cs\<rparr>) \<and> grows f (f\<lparr>loop_stack := cs\<rparr>)" using loops_from_ok [OF 1(1)] by blast
    then show ?thesis using 1(1) Cons by (auto simp: fc_ok_def full_def)
  qed simp
qed

lemma patches_simps [simp]:
  "patches \<lparr>break_patches = bs, continue_patches = cs, continue_target = t, is_switch = w, finally_floor = n\<rparr> = set bs \<union> set cs"
  by (simp add: patches_def)

lemma add_continue_patches: "c \<in> set (add_continue p ls) \<Longrightarrow> q \<in> patches c \<Longrightarrow> q = p \<or> (\<exists>c' \<in> set ls. q \<in> patches c')"
  by (induction p ls rule: add_continue.induct) (auto simp: patches_def split: if_splits)

subsection \<open>Nested compilers\<close>

lemma safe_pure: "(b \<Longrightarrow> safe m R Q) \<Longrightarrow> safe m (insert (FPure b) R) Q"
  by (cases b) (auto simp: safe_def)

lemma safe_pure_Un: "(b \<Longrightarrow> safe m R Q) \<Longrightarrow> safe m (R \<union> {FPure b}) Q"
  by (simp add: safe_pure)

lemma fc_new_ok: "fc_new name ps var = Inr f \<Longrightarrow> fc_ok f"
  using ra_new_inv [of "length ps"]
  by (auto simp: fc_new_def fc_ok_def full_def code_fine_def caps_good_def ra_new_def ra_inv_def split: if_splits)

lemma fc_new_caps:
  assumes "fc_new name ps var = Inr f" "caps_good c"
  shows "fc_ok (f\<lparr>caps := c\<rparr>)" "fc_ok (f\<lparr>caps := c, no_discovery := b\<rparr>)"
proof -
  have "fcode f = []" using assms(1) by (auto simp: fc_new_def split: if_splits)
  then show "fc_ok (f\<lparr>caps := c\<rparr>)" "fc_ok (f\<lparr>caps := c, no_discovery := b\<rparr>)"
    using fc_new_ok [OF assms(1)] assms(2) by (auto simp: fc_ok_def full_def code_fine_def)
qed

definition closes :: "('f, 'a) cm \<Rightarrow> fact set \<Rightarrow> bool" where
  "closes m R \<longleftrightarrow> tri (\<lambda>f. \<forall>x \<in> R. holds f x) m (\<lambda>_ f. done_ok (proto f))"

lemma closes_safe: "closes m R \<Longrightarrow> safe m R (\<lambda>_. {})"
  by (auto simp: closes_def safe_tri tri_def)

lemma safe_keep:
  assumes "safe m R Q"
  shows "safe m R (\<lambda>y. R \<union> Q y)"
proof (rule safeI, goal_cases)
  case (1 s)
  have m: "st_ok (snd (m s))" "st_grows s (snd (m s))" "\<forall>y. fst (m s) = Inr y \<longrightarrow> (\<forall>x \<in> Q y. holds (cur (snd (m s))) x)"
    using assms 1 by (auto simp: safe_def)
  have "\<forall>x \<in> R. holds (cur (snd (m s))) x" using 1(2) holds_grows [OF _ st_grows_cur [OF 1(1) m(2)]] by blast
  then show ?case using m by blast
qed

lemma closes_bind:
  assumes "safe m R Q" "\<And>x. closes (k x) (R \<union> Q x)"
  shows "closes (cbind m k) R"
  using safe_keep [OF assms(1)] assms(2) unfolding closes_def safe_tri by (rule tri_bind)

lemma closes_seq: "safe m R Q \<Longrightarrow> closes k R \<Longrightarrow> closes (cseq m k) R"
  unfolding cseq_def by (rule closes_bind [where Q = "\<lambda>_. {}"]) (auto simp: safe_def)

lemma closes_finish: "closes finish R"
  unfolding closes_def finish_def fmod_def
proof (rule tri_fdo, goal_cases)
  case (1 f)
  have "nregs f \<le> max_reg (fc.ra f)" using 1(1) ra_invD(2) by (auto simp: fc_ok_def)
  then show ?case
    using 1(1) code_fine_mono [where c = "fcode f" and N' = "max_reg (fc.ra f)" and K' = "length (capture_is_cell (proto f)) + ncaps f"]
    by (auto simp: fc_ok_def done_ok_def grows_def full_def)
qed

lemma safe_in_fc:
  fixes m :: "('f, 'a) cm"
  assumes f: "fc_ok f" and m: "closes m {}"
  shows "safe (in_fc f m) R (\<lambda>(x, f'). {FPure (done_ok (proto f'))})"
proof (rule safeI, goal_cases)
  case (1 s)
  obtain r s1 where run: "m (s\<lparr>fcs := f # fcs s\<rparr>) = (r, s1)" by fastforce
  have "st_ok (s\<lparr>fcs := f # fcs s\<rparr>)" using 1(1) f by (auto simp: st_ok_def)
  then have s1: "st_ok s1" "st_grows (s\<lparr>fcs := f # fcs s\<rparr>) s1" "\<And>y. r = Inr y \<Longrightarrow> done_ok (proto (cur s1))"
    using m run by (auto simp: closes_def tri_def)
  then obtain g fs where "fcs s1 = g # fs" "list_all2 grows (fcs s) fs" by (auto simp: st_grows_def list_all2_Cons1)
  then show ?case
    using s1 1(1) run by (cases r) (auto simp: in_fc_def st_ok_def st_grows_def)
qed

lemma safe_in_place_of:
  fixes m :: "('f, 'a) cm"
  assumes d: "fc_ok d" and m: "safe m {} Q"
  shows "safe (in_place_of d m) R (\<lambda>_. {})"
proof (rule safeI, goal_cases)
  case (1 s)
  obtain f fs where fs: "fcs s = f # fs" using 1(1) by (cases "fcs s") (auto simp: st_ok_def)
  obtain r s1 where run: "m (s\<lparr>fcs := d # fs\<rparr>) = (r, s1)" by fastforce
  have "st_ok (s\<lparr>fcs := d # fs\<rparr>)" using 1(1) d fs by (auto simp: st_ok_def)
  then have s1: "st_ok s1" "st_grows (s\<lparr>fcs := d # fs\<rparr>) s1"
    using m run by (auto simp: safe_def)
  then obtain g gs where "fcs s1 = g # gs" "list_all2 grows fs gs" by (auto simp: st_grows_def list_all2_Cons1)
  then show ?case
    using s1 1(1) run fs by (cases r) (auto simp: in_place_of_def in_fc_def st_ok_def st_grows_def)
qed

lemma safe_discover: 
  assumes m: "safe m {} Q"
  shows "safe (discover m) R (\<lambda>_. {})"
  unfolding discover_def
proof (rule safe_bind [where Q = "\<lambda>f. {FPure (caps_good (caps f))}"])
  show "safe (fget id) R (\<lambda>f. {FPure (caps_good (caps f))})" by (rule safe_fget) (simp add: fc_ok_def)
  fix f :: "'a fc"
  have step: "safe (cbind (in_place_of (d\<lparr>caps := caps f, no_discovery := True\<rparr>) m) (\<lambda>(u, d'). fmod (\<lambda>f. f\<lparr>boxed_names := escaping_names d'\<rparr>))) R (\<lambda>_. {})"
    if "fc_new (pname (proto f)) (params (proto f)) (variadic (proto f)) = Inr d" "caps_good (caps f)" for d
    by (rule safe_bind [OF safe_in_place_of [OF fc_new_caps(2) [OF that] m]]) (auto intro!: safe_fmod simp: same_core_def)
  have "safe (if no_discovery f then cskip
       else case fc_new (pname (proto f)) (params (proto f)) (variadic (proto f)) of
              Inl e \<Rightarrow> cthrow e
            | Inr d \<Rightarrow> cbind (in_place_of (d\<lparr>caps := caps f, no_discovery := True\<rparr>) m) (\<lambda>(u, d'). fmod (\<lambda>f. f\<lparr>boxed_names := escaping_names d'\<rparr>))) R (\<lambda>_. {})"
    if "caps_good (caps f)"
    using step that by (auto intro: safe_skip safe_throw split: sum.splits)
  then show "safe (if no_discovery f then cskip
       else case fc_new (pname (proto f)) (params (proto f)) (variadic (proto f)) of
              Inl e \<Rightarrow> cthrow e
            | Inr d \<Rightarrow> cbind (in_place_of (d\<lparr>caps := caps f, no_discovery := True\<rparr>) m) (\<lambda>(u, d'). fmod (\<lambda>f. f\<lparr>boxed_names := escaping_names d'\<rparr>)))
      (R \<union> {FPure (caps_good (caps f))}) (\<lambda>_. {})"
    by (rule safe_pure_Un)
qed

text \<open>Changes of the state outside the compilers.\<close>

definition outside :: "('f cstate \<Rightarrow> 'f cstate) \<Rightarrow> bool" where
  "outside g \<longleftrightarrow> (\<forall>s. fcs (g s) = fcs s \<and> protos_out (g s) = protos_out s)"

lemma outside_ok: "outside g \<Longrightarrow> st_ok (g s) = st_ok s" "outside g \<Longrightarrow> st_grows t (g s) = st_grows t s" "outside g \<Longrightarrow> st_grows (g s) t = st_grows s t"
  "outside g \<Longrightarrow> cur (g s) = cur s"
  by (simp_all add: outside_def st_ok_def st_grows_def)

lemma safe_outside: "outside g \<Longrightarrow> safe (\<lambda>s. (Inr (h s), g s)) R (\<lambda>_. {})"
  by (auto simp: safe_def outside_ok)

lemma safe_around: "outside g \<Longrightarrow> outside h \<Longrightarrow> safe m R Q \<Longrightarrow> safe (\<lambda>s. case m (g s) of (r, s') \<Rightarrow> (r, h s')) R Q"
proof (rule safeI, goal_cases)
  case (1 s)
  obtain r s1 where run: "m (g s) = (r, s1)" by fastforce
  have "st_ok (g s)" "\<forall>x \<in> R. holds (cur (g s)) x" using 1 outside_ok(1,4) [of g s] by simp_all
  then have s1: "st_ok s1" "st_grows (g s) s1" "\<forall>y. r = Inr y \<longrightarrow> (\<forall>x \<in> Q y. holds (cur s1) x)"
    using 1(3) run by (auto simp: safe_def)
  then show ?case using run outside_ok [OF 1(1), of s] outside_ok [OF 1(2), of s1] outside_ok(2) [OF 1(2), of s s1] by simp
qed

lemma safe_add_nested [safe_rules]: "FPure (done_ok p) \<in> R \<Longrightarrow> safe (add_nested p) R (\<lambda>j. {FNest j})"
  unfolding add_nested_def
proof (rule safe_bind [where Q = "\<lambda>_. {}"], goal_cases)
  case 1
  have "safe (\<lambda>s. (Inr (length (protos_out s)), s\<lparr>protos_out := protos_out s @ [p]\<rparr>)) R (\<lambda>_. {})"
    using 1 unfolding safe_def st_ok_def st_grows_def by (auto simp: list_all2_refl)
  then show ?case .
next
  case (2 a)
  show ?case
    by (rule safe_fdo) (auto simp: fc_ok_def full_def grows_def intro: code_fine_mono)
qed

end
