(* ===== verification/Compile_Safe.thy ===== *)
theory Compile_Safe
  imports Compile_Nest
begin

text \<open>
  Every procedure of the compiler keeps the invariant, by the rules of the logic; so every prototype of a compiled program passes the
  operand check of the machine.
\<close>

subsection \<open>Rules for the shapes of the code\<close>

lemma safe_option [safe_rules]:
  "(x = None \<Longrightarrow> safe m R Q) \<Longrightarrow> (\<And>y. x = Some y \<Longrightarrow> safe (k y) R Q) \<Longrightarrow> safe (case x of None \<Rightarrow> m | Some y \<Rightarrow> k y) R Q"
  by (cases x) simp_all

lemma safe_loc [safe_rules]:
  "(\<And>r. loc = LOCAL r \<Longrightarrow> safe (l r) R Q) \<Longrightarrow> (\<And>i. loc = CAPTURE i \<Longrightarrow> safe (c i) R Q) \<Longrightarrow> (loc = GLOBAL \<Longrightarrow> safe g R Q) \<Longrightarrow>
     safe (case loc of LOCAL r \<Rightarrow> l r | CAPTURE i \<Rightarrow> c i | GLOBAL \<Rightarrow> g) R Q"
  by (cases loc) simp_all

lemma safe_pair [safe_rules]: "(\<And>a b. x = (a, b) \<Longrightarrow> safe (k a b) R Q) \<Longrightarrow> safe (case x of (a, b) \<Rightarrow> k a b) R Q"
  by (cases x) simp

lemma safe_u16 [safe_rules]:
  "(v \<le> 65535 \<Longrightarrow> safe m R Q) \<Longrightarrow> safe (case to_u16 (int v) what of Inl e \<Rightarrow> cthrow e | Inr w \<Rightarrow> m) R Q"
  by (auto simp: to_u16_def safe_throw)

lemma safe_list [safe_rules]:
  "(x = [] \<Longrightarrow> safe m R Q) \<Longrightarrow> (\<And>y ys. x = y # ys \<Longrightarrow> safe (k y ys) R Q) \<Longrightarrow> safe (case x of [] \<Rightarrow> m | y # ys \<Rightarrow> k y ys) R Q"
  by (cases x) simp_all

lemma safe_ask [safe_rules]: "safe (fget g) R (\<lambda>_. {})"
  by (rule safe_fget) simp

lemma safe_has_parent [safe_rules]: "safe has_parent R (\<lambda>_. {})"
  by (simp add: safe_def has_parent_def)

lemma safe_mark [safe_rules]: "safe (mark_non_builtin name) R (\<lambda>_. {})"
proof -
  have "outside (\<lambda>s :: 'a cstate. if name \<in> set (non_builtin_names s) then s else s\<lparr>non_builtin_names := non_builtin_names s @ [name]\<rparr>)"
    by (simp add: outside_def)
  then have "safe (\<lambda>s :: 'a cstate. (Inr (), if name \<in> set (non_builtin_names s) then s else s\<lparr>non_builtin_names := non_builtin_names s @ [name]\<rparr>)) R (\<lambda>_. {})"
    by (rule safe_outside)
  then show ?thesis by (simp add: mark_non_builtin_def [abs_def])
qed

lemmas safe_forms = safe_bind safe_seq

definition procs_safe :: "'f cprocs \<Rightarrow> bool" where
  "procs_safe P \<longleftrightarrow> (\<forall>e d R. d = 255 \<or> FReg d \<in> R \<longrightarrow> safe (ce P e d) R (\<lambda>r. {FReg r})) \<and> (\<forall>st R. safe (cstm P st) R (\<lambda>_. {}))"

lemma safe_ce [safe_rules]: "procs_safe P \<Longrightarrow> d = 255 \<or> FReg d \<in> R \<Longrightarrow> safe (ce P e d) R (\<lambda>r. {FReg r})"
  and safe_cstm [safe_rules]: "procs_safe P \<Longrightarrow> safe (cstm P st) R (\<lambda>_. {})"
  unfolding procs_safe_def by blast+

lemma safe_cfor [safe_rules]: "(\<And>x. safe (m x) R (\<lambda>_. {})) \<Longrightarrow> safe (cfor m xs) R (\<lambda>_. {})"
  by (rule safe_for)

subsection \<open>Variables\<close>

lemma safe_read_local [safe_rules]: "FReg r \<in> R \<Longrightarrow> FReg slot \<in> R \<Longrightarrow> safe (emit_read_local C r slot) R (\<lambda>_. {})"
  unfolding emit_read_local_def by (rule safe_rules safe_forms | simp)+

lemma safe_write_local [safe_rules]: "FReg slot \<in> R \<Longrightarrow> FReg r \<in> R \<Longrightarrow> safe (emit_write_local C slot r) R (\<lambda>_. {})"
  unfolding emit_write_local_def by (rule safe_rules safe_forms | simp)+

lemma safe_read_capture [safe_rules]: "FReg r \<in> R \<Longrightarrow> FCap i \<in> R \<Longrightarrow> safe (emit_read_capture C r i) R (\<lambda>_. {})"
  unfolding emit_read_capture_def by (rule safe_rules safe_forms | simp)+

subsection \<open>Expressions\<close>

lemma safe_into [safe_rules]: "procs_safe P \<Longrightarrow> FReg r \<in> R \<Longrightarrow> safe (into P e r) R (\<lambda>_. {})"
  unfolding into_def by (rule safe_rules safe_forms | simp | blast)+

lemma safe_logical [safe_rules]: "procs_safe P \<Longrightarrow> dest = 255 \<or> FReg dest \<in> R \<Longrightarrow> safe (compile_logical P l opr rhs dest) R (\<lambda>r. {FReg r})"
  unfolding compile_logical_def by (rule safe_rules safe_forms | simp | blast)+

lemma safe_coalesce [safe_rules]: "procs_safe P \<Longrightarrow> dest = 255 \<or> FReg dest \<in> R \<Longrightarrow> safe (compile_coalesce P l rhs dest) R (\<lambda>r. {FReg r})"
  unfolding compile_coalesce_def by (rule safe_rules safe_forms | simp | blast)+

lemma binary_ops_class: "map_of binary_ops opr = Some opc \<Longrightarrow> opclass opc = 3"
  by (auto simp: binary_ops_def opclass_def split: if_splits)

lemma compound_ops_class: "map_of compound_ops opr = Some opc \<Longrightarrow> opclass opc = 3"
  by (auto simp: compound_ops_def opclass_def split: if_splits)

lemma safe_put_binary:
  "map_of binary_ops opr = Some opc \<Longrightarrow> FReg a \<in> R \<Longrightarrow> FReg b \<in> R \<Longrightarrow> FReg c \<in> R \<Longrightarrow> safe (put opc a b c) R (\<lambda>_. {})"
  by (rule safe_put3 [OF binary_ops_class])

lemma safe_compound_op [safe_rules]: "safe (compound_op opr) R (\<lambda>opc. {FPure (opclass opc = 3)})"
  unfolding compound_op_def by (auto simp: safe_def cret_def cthrow_def dest: compound_ops_class split: option.splits)

lemma safe_put_compound:
  assumes "FPure (opclass opc = 3) \<in> R" "FReg a \<in> R" "FReg b \<in> R" "FReg c \<in> R"
  shows "safe (put opc a b c) R (\<lambda>_. {})"
proof (cases "opclass opc = 3")
  case True
  then show ?thesis using assms by (intro safe_put3)
next
  case False
  then show ?thesis using assms(1) by (auto simp: safe_def dest!: bspec)
qed

lemma safe_binary [safe_rules]: "procs_safe P \<Longrightarrow> dest = 255 \<or> FReg dest \<in> R \<Longrightarrow> safe (compile_binary P l opr rhs dest) R (\<lambda>r. {FReg r})"
  unfolding compile_binary_def by (rule safe_rules safe_forms | (rule safe_put_binary, assumption) | simp | blast)+

lemma safe_variable [safe_rules]: "dest = 255 \<or> FReg dest \<in> R \<Longrightarrow> safe (compile_variable C name dest) R (\<lambda>r. {FReg r})"
  unfolding compile_variable_def by (rule safe_rules safe_forms | simp | blast)+

lemma safe_put_step [safe_rules]:
  "FReg a \<in> R \<Longrightarrow> FReg b \<in> R \<Longrightarrow> FReg c \<in> R \<Longrightarrow> safe (put (if x then ADD else SUB) a b c) R (\<lambda>_. {})"
  "FReg a \<in> R \<Longrightarrow> FReg b \<in> R \<Longrightarrow> FReg c \<in> R \<Longrightarrow> safe (put (if x then ASSOC_APPEND else ARRAY_SET) a b c) R (\<lambda>_. {})"
  by (rule safe_put3; simp add: opclass_def)+

lemma safe_step [safe_rules]:
  assumes "dest = 255 \<or> FReg dest \<in> R"
  shows "safe (compile_step C opr e pre dest) R (\<lambda>r. {FReg r})"
proof -
  obtain loc node where e: "e = Expr loc node" by (cases e)
  have var: "safe (compile_step C opr (Expr loc (Variable name)) pre dest) R (\<lambda>r. {FReg r})" for name
    using assms unfolding compile_step_def Let_def Expression.case expr_node.case by - (rule safe_rules safe_forms | simp | blast)+
  show ?thesis unfolding e using var by (cases node) (simp_all add: compile_step_def safe_throw)
qed

lemma safe_unary [safe_rules]: "procs_safe P \<Longrightarrow> dest = 255 \<or> FReg dest \<in> R \<Longrightarrow> safe (compile_unary C P opr e pre dest) R (\<lambda>r. {FReg r})"
  unfolding compile_unary_def by (rule safe_rules safe_forms | simp | blast)+

lemma safe_ternary [safe_rules]: "procs_safe P \<Longrightarrow> dest = 255 \<or> FReg dest \<in> R \<Longrightarrow> safe (compile_ternary P c a b dest) R (\<lambda>r. {FReg r})"
  unfolding compile_ternary_def by (rule safe_rules safe_forms | simp | blast)+

subsection \<open>Assignments\<close>

lemma safe_read_var [safe_rules]: "FReg r \<in> R \<Longrightarrow> var_facts loc \<subseteq> R \<Longrightarrow> safe (read_var C r name loc) R (\<lambda>_. {})"
  unfolding read_var_def by (rule safe_rules safe_forms | simp | blast)+

definition want_facts :: "nat option \<Rightarrow> fact set" where
  "want_facts w = (case w of None \<Rightarrow> {} | Some r \<Rightarrow> {FReg r})"

lemma want_facts_simps [simp]: "want_facts None = {}" "want_facts (Some r) = {FReg r}"
  by (simp_all add: want_facts_def)

lemma safe_assign_item [safe_rules]:
  "procs_safe P \<Longrightarrow> var_facts loc \<subseteq> R \<Longrightarrow> want_facts want \<subseteq> R \<Longrightarrow> safe (assign_item C P name opr loc obj idx v want) R (\<lambda>_. {})"
  unfolding assign_item_def
  by (rule safe_rules safe_forms | rule safe_put_compound | simp | blast)+

lemma safe_assign_local [safe_rules]: "FReg slot \<in> R \<Longrightarrow> FReg x \<in> R \<Longrightarrow> safe (assign_local C opr slot x) R (\<lambda>_. {})"
  unfolding assign_local_def by (rule safe_rules safe_forms | rule safe_put_compound | simp | blast)+

lemma safe_compound_global [safe_rules]: "FConst ni \<in> R \<Longrightarrow> FReg x \<in> R \<Longrightarrow> safe (compound_global C opr ni x) R (\<lambda>r. {FReg r})"
  unfolding compound_global_def by (rule safe_rules safe_forms | rule safe_put_compound | simp | blast)+

lemma safe_assign_new_local [safe_rules]: "FReg x \<in> R \<Longrightarrow> safe (assign_new_local C name opr x) R (\<lambda>_. {})"
  unfolding assign_new_local_def by (rule safe_rules safe_forms | simp | blast)+

lemma safe_assign_global [safe_rules]: "FReg x \<in> R \<Longrightarrow> safe (assign_global C name opr x) R (\<lambda>_. {})"
  unfolding assign_global_def by (rule safe_seq, rule safe_fmod, simp add: same_core_def) (rule safe_rules safe_forms | simp | blast)+

lemma safe_want: "safe (fget assign_result) R want_facts"
  by (rule safe_fget) (auto simp: want_facts_def fc_ok_def split: option.splits)

lemma safe_set_result: "FReg r \<in> R \<Longrightarrow> safe (fmod (\<lambda>f. f\<lparr>assign_result := Some r\<rparr>)) R (\<lambda>_. {})"
  unfolding fmod_def by (rule safe_fdo) (auto simp: fc_ok_def full_def grows_def dest!: bspec)

lemma safe_assign_expr [safe_rules]: "procs_safe P \<Longrightarrow> safe (compile_assign_expr C P name opr obj idx v) R (\<lambda>_. {})"
  unfolding compile_assign_expr_def
  by (rule safe_bind [OF safe_want], rule safe_seq, rule safe_fmod, simp add: same_core_def) (rule safe_rules safe_forms | simp | blast)+

lemma safe_assign_value [safe_rules]:
  "procs_safe P \<Longrightarrow> dest = 255 \<or> FReg dest \<in> R \<Longrightarrow> safe (compile_assign_value C P name opr obj idx v dest) R (\<lambda>r. {FReg r})"
  unfolding compile_assign_value_def by (rule safe_rules safe_forms safe_set_result | simp | blast)+

subsection \<open>Literals and elements\<close>

lemma safe_array_lit [safe_rules]: "procs_safe P \<Longrightarrow> dest = 255 \<or> FReg dest \<in> R \<Longrightarrow> safe (compile_array_lit P es dest) R (\<lambda>r. {FReg r})"
  unfolding compile_array_lit_def by (rule safe_rules safe_forms | simp | blast)+

lemma safe_assoc_lit [safe_rules]: "procs_safe P \<Longrightarrow> dest = 255 \<or> FReg dest \<in> R \<Longrightarrow> safe (compile_assoc_lit P kvs dest) R (\<lambda>r. {FReg r})"
  unfolding compile_assoc_lit_def Let_def by (rule safe_rules safe_forms | simp | blast)+

lemma safe_struct_field [safe_rules]: "procs_safe P \<Longrightarrow> FReg r \<in> R \<Longrightarrow> safe (struct_field C P r fe) R (\<lambda>_. {})"
  unfolding struct_field_def by (rule safe_rules safe_forms | simp | blast)+

lemma safe_struct_lit [safe_rules]: "procs_safe P \<Longrightarrow> dest = 255 \<or> FReg dest \<in> R \<Longrightarrow> safe (compile_struct_lit C P sname fvs dest) R (\<lambda>r. {FReg r})"
  unfolding compile_struct_lit_def by (rule safe_rules safe_forms | simp | blast)+

lemma safe_index [safe_rules]: "procs_safe P \<Longrightarrow> dest = 255 \<or> FReg dest \<in> R \<Longrightarrow> safe (compile_index P obj idx dest) R (\<lambda>r. {FReg r})"
  unfolding compile_index_def by (rule safe_rules safe_forms | simp | blast)+

lemma safe_member [safe_rules]: "procs_safe P \<Longrightarrow> dest = 255 \<or> FReg dest \<in> R \<Longrightarrow> safe (compile_member C P obj field dest) R (\<lambda>r. {FReg r})"
  unfolding compile_member_def by (rule safe_rules safe_forms | simp | blast)+

subsection \<open>Calls\<close>

lemma safe_arg_reg [safe_rules]: "FReg v \<in> R \<Longrightarrow> safe (arg_reg v) R (\<lambda>r. {FPure (r = v)})"
  by (auto simp: arg_reg_def safe_def cret_def cthrow_def split: sum.splits)

lemma FRegs_Suc: "FRegs b (Suc n) = insert (FReg b) (FRegs (Suc b) n)"
  by (auto simp: image_iff lessThan_Suc_eq_insert_0)

lemma safe_args [safe_rules]: "procs_safe P \<Longrightarrow> FRegs b (length es) \<subseteq> R \<Longrightarrow> safe (compile_args P b es) R (\<lambda>_. {})"
proof (induction P b es arbitrary: R rule: compile_args.induct)
  case (2 P b e es)
  have b: "FReg b \<in> R" "FRegs (Suc b) (length es) \<subseteq> R" using "2.prems" by (auto simp: FRegs_Suc)
  have "safe (cbind (ce P e b) (\<lambda>x. cseq (if x = b then cskip else put MOVE b x 0) (compile_args P (Suc b) es))) R (\<lambda>_. {})"
    using b "2.prems"(1) "2.IH" by - (rule safe_rules safe_forms | rule "2.IH" | simp | blast)+
  then show ?case
    using b(1) by (auto intro!: safe_bind [OF safe_arg_reg] safe_pure)
qed (simp add: safe_skip)

lemma safe_check: "(length es \<le> 255 \<Longrightarrow> safe k R Q) \<Longrightarrow> safe (cseq (check_argc es) k) R Q"
  by (cases "length es \<le> 255") (auto simp: check_argc_def cseq_def cbind_def cskip_def cret_def cthrow_def safe_def)

lemma safe_arg_block:
  assumes "n = 0 \<Longrightarrow> safe (k 0) R Q" "\<And>b. 0 < n \<Longrightarrow> safe (k b) (R \<union> FRegs b n) Q"
  shows "safe (cbind (arg_block n) k) R Q"
proof (cases "n = 0")
  case True
  then have "cbind (arg_block n) k = k 0" by (simp add: arg_block_def cbind_def cret_def fun_eq_iff)
  then show ?thesis using assms(1) True by simp
next
  case False
  then show ?thesis using assms(2) by (auto simp: arg_block_def intro!: safe_bind [OF safe_alloc_seq])
qed

lemmas safe_call_forms = safe_check safe_arg_block

lemma safe_builtin_call [safe_rules]:
  "procs_safe P \<Longrightarrow> dest = 255 \<or> FReg dest \<in> R \<Longrightarrow> safe (compile_builtin_call P bidx es dest) R (\<lambda>r. {FReg r})"
  unfolding compile_builtin_call_def by (rule safe_call_forms | rule safe_rules safe_forms | simp | blast)+

lemma safe_callee_ctx [safe_rules]: "safe (fmod (\<lambda>f. f\<lparr>callee_ctx := b\<rparr>)) R (\<lambda>_. {})"
  by (rule safe_fmod) (simp add: same_core_def)

lemma safe_plain_call [safe_rules]:
  "procs_safe P \<Longrightarrow> dest = 255 \<or> FReg dest \<in> R \<Longrightarrow> safe (compile_plain_call C P callee es dest) R (\<lambda>r. {FReg r})"
  unfolding compile_plain_call_def Let_def by (rule safe_call_forms | rule safe_rules safe_forms | simp | blast)+

lemma safe_special_call:
  "procs_safe P \<Longrightarrow> dest = 255 \<or> FReg dest \<in> R \<Longrightarrow> special_call P name es dest = Some m \<Longrightarrow> safe m R (\<lambda>r. {FReg r})"
  unfolding special_call_def Let_def
  by (clarsimp split: if_splits; (rule safe_rules safe_forms | simp | blast)+)

lemma safe_call [safe_rules]:
  assumes "procs_safe P" "dest = 255 \<or> FReg dest \<in> R"
  shows "safe (compile_call C P callee es dest) R (\<lambda>r. {FReg r})"
proof -
  obtain loc node where c: "callee = Expr loc node" by (cases callee)
  have plain: "safe (compile_plain_call C P e es dest) R (\<lambda>r. {FReg r})" for e using assms by (rule safe_plain_call)
  have builtin: "safe (compile_builtin_call P b es dest) R (\<lambda>r. {FReg r})" for b using assms by (rule safe_builtin_call)
  show ?thesis
    unfolding c compile_call_def Let_def
    by (cases node) (auto simp: plain intro!: safe_option safe_seq safe_mark builtin dest: safe_special_call [OF assms])
qed

subsection \<open>Functions\<close>

lemma safe_block [safe_rules]: "procs_safe P \<Longrightarrow> safe (compile_block P b) R (\<lambda>_. {})"
  unfolding compile_block_def by (rule safe_rules safe_forms | simp | blast)+

lemma safe_default_param: "procs_safe P \<Longrightarrow> FReg (fst q) \<in> R \<Longrightarrow> safe (default_param C P q) R (\<lambda>_. {})"
  unfolding default_param_def by (cases q) (rule safe_rules safe_forms | simp | blast)+

lemma safe_box_param: "FReg (fst q) \<in> R \<Longrightarrow> safe (box_param q) R (\<lambda>_. {})"
  unfolding box_param_def
  by (cases q) (rule safe_rules safe_forms | (rule safe_fmod, simp add: same_core_def) | simp | blast)+

lemma closes_body:
  assumes P: "procs_safe P"
  shows "closes (compile_body C P body ds) R"
  unfolding compile_body_def
proof (rule closes_bind [where Q = "\<lambda>ps. FRegs 0 (length ps)"])
  show "safe (fget (\<lambda>f. params (proto f))) R (\<lambda>ps. FRegs 0 (length ps))"
    by (rule safe_fget) (auto simp: fc_ok_def)
  fix ps :: "string list"
  have reg: "FReg (fst q) \<in> R \<union> FRegs 0 (length ps)" if "q \<in> set (zip [0..<length ps] xs)" for q and xs :: "'x list"
  proof -
    obtain a b where "q = (a, b)" by (cases q)
    then show ?thesis using that by (auto dest!: set_zip_leftD)
  qed
  show "closes (cseq (cfor (default_param C P) (zip [0..<length ps] ds)) (cseq (cfor box_param (zip [0..<length ps] ps))
      (cseq (compile_block P body) (cseq (put RETURN_NULL 0 0 0) finish)))) (R \<union> FRegs 0 (length ps))"
    by (rule closes_seq closes_finish safe_for safe_default_param safe_box_param safe_block safe_puts P | erule reg)+
qed

lemma closes_fun: "procs_safe P \<Longrightarrow> closes (compile_fun C P body ds) R"
  unfolding compile_fun_def by (rule closes_seq [OF safe_discover [OF closes_safe]]) (rule closes_body; assumption)+

lemma safe_capture_value [safe_rules]: "safe (load_capture_value C c) R (\<lambda>r. {FReg r})"
  unfolding load_capture_value_def
  by (rule safe_rules safe_forms | (rule safe_fmod, simp add: same_core_def) | simp | blast)+

lemma safe_make_closure [safe_rules]:
  assumes "FReg r \<in> R" "FNest j \<in> R"
  shows "safe (make_closure C r j cps) R (\<lambda>_. {})"
  unfolding make_closure_def
proof (rule safe_bind [OF safe_map [where Q = "\<lambda>r. {FReg r}"]])
  show "safe (load_capture_value C c) R (\<lambda>r. {FReg r})" for c by (rule safe_capture_value)
  fix crs
  let ?R = "R \<union> (\<Union>y \<in> set crs. {FReg y})"
  have hint: "safe (cseq (put LOAD_CAPTURE 0 cr 0) (free_temp cr)) ?R (\<lambda>_. {})" if "cr \<in> set crs" for cr
  proof (rule safe_seq)
    show "safe (put LOAD_CAPTURE 0 cr 0) ?R (\<lambda>_. {})"
    proof (rule safe_put, goal_cases)
      case (1 f)
      then have "holds f (FReg r)" "holds f (FReg cr)" using assms(1) that by blast+
      then show ?case using reg_unat [OF 1(1), of cr] by (simp add: ins_ready_def last_fine_def reg_operands_def const_operands_def)
    qed
    show "safe (free_temp cr) ?R (\<lambda>_. {})" using that by (intro safe_free_temp) simp
  qed
  show "safe (cseq (case to_u16 (int j) ''16-bit operand'' of Inl e \<Rightarrow> cthrow e | Inr w \<Rightarrow> put MAKE_CLOSURE r (j mod 256) (j div 256))
     (cfor (\<lambda>cr. cseq (put LOAD_CAPTURE 0 cr 0) (free_temp cr)) crs)) ?R (\<lambda>_. {})"
  proof (rule safe_seq)
    show "safe (case to_u16 (int j) ''16-bit operand'' of Inl e \<Rightarrow> cthrow e | Inr w \<Rightarrow> put MAKE_CLOSURE r (j mod 256) (j div 256)) ?R (\<lambda>_. {})"
      by (rule safe_u16, rule safe_make_closure_ins) (use assms in auto)
  qed (rule safe_for, rule hint)
qed

lemma safe_func_decl [safe_rules]: "procs_safe P \<Longrightarrow> safe (compile_func_decl C P name ps ds var body) R (\<lambda>_. {})"
  unfolding compile_func_decl_def
  by (auto intro!: safe_throw split: sum.splits)
     (rule safe_bind [OF safe_in_fc [OF fc_new_ok closes_fun]], assumption, assumption, (rule safe_rules safe_forms | simp | blast)+)

lemma same_core_trans: "same_core f g \<Longrightarrow> same_core g h \<Longrightarrow> same_core f h"
  by (auto simp: same_core_def)

lemma use_captures_ok:
  "use_captures fs ns i = (r, fs') \<Longrightarrow> list_all2 same_core fs fs' \<and>
     (\<forall>cps. r = Inr cps \<longrightarrow> length cps = length ns \<and> (\<forall>c \<in> set cps. capture_index c < i + length ns))"
proof (induction fs ns i arbitrary: r fs' rule: use_captures.induct)
  case (2 fs n ns i)
  obtain q gs where q: "resolve n False fs = (q, gs)" by fastforce
  have gs: "list_all2 same_core fs gs" using resolve_ok [OF q] by blast
  have tr: "list_all2 same_core fs hs" if "list_all2 same_core gs hs" for hs
    by (rule list_all2_trans [OF same_core_trans gs that])
  show ?case
  proof (cases q)
    case (Inr loc)
    obtain p hs where rest: "use_captures gs ns (Suc i) = (p, hs)" by fastforce
    show ?thesis using "2.IH" [OF q [symmetric] Inr rest] tr "2.prems" q Inr rest by (cases p) auto
  qed (use "2.prems" q gs in auto)
qed simp

lemma safe_use_captures:
  "safe (\<lambda>s. case use_captures (fcs s) ns 0 of (r, fs) \<Rightarrow> (r, s\<lparr>fcs := fs\<rparr>)) R (\<lambda>cps. {FPure (caps_good cps)})"
proof (rule safeI, goal_cases)
  case (1 s)
  obtain r fs where r: "use_captures (fcs s) ns 0 = (r, fs)" by fastforce
  show ?case using use_captures_ok [OF r] core_ok [OF 1(1)] by (auto simp: r caps_good_def)
qed

lemma safe_closure [safe_rules]:
  assumes "procs_safe P" "dest = 255 \<or> FReg dest \<in> R"
  shows "safe (compile_closure C P ps ds use_list var body dest) R (\<lambda>r. {FReg r})"
proof (cases "fc_new ''<closure>'' ps var :: compile_error + 'a fc")
  case (Inl e)
  then show ?thesis by (simp add: compile_closure_def safe_throw)
next
  case (Inr f0)
  have inner: "safe (in_fc (f0\<lparr>caps := cps\<rparr>) (compile_fun C P body ds)) (R \<union> {FPure (caps_good cps)}) (\<lambda>(x, f'). {FPure (done_ok (proto f'))})" for cps
    by (rule safe_pure_Un, rule safe_in_fc [OF fc_new_caps(1) [OF Inr] closes_fun [OF assms(1)]])
  show ?thesis
    using assms unfolding compile_closure_def Inr sum.case
    by - (rule safe_if, rule safe_throw, rule safe_bind [OF safe_use_captures], rule safe_bind [OF inner],
      (rule safe_rules safe_forms | simp | blast)+)
qed

subsection \<open>Interpolated strings and the dispatch\<close>

lemma safe_piece [safe_rules]: "safe (piece C t) R (\<lambda>r. {FReg r})"
  unfolding piece_def by (rule safe_rules safe_forms | simp | blast)+

lemma safe_fragment [safe_rules]: "procs_safe P \<Longrightarrow> safe (fragment C P e lit) R (\<lambda>r. {FReg r})"
  unfolding fragment_def by (rule safe_rules safe_forms | simp | blast)+

lemma safe_more:
  assumes "safe m R (\<lambda>r. {FReg r})" "\<And>R. safe k R (\<lambda>rs. FReg ` set rs)"
  shows "safe (cbind m (\<lambda>pr. cbind k (\<lambda>prs. cret (pr # prs)))) R (\<lambda>rs. FReg ` set rs)"
  by (rule safe_bind [OF assms(1)], rule safe_bind [OF assms(2)], rule safe_ret) auto

lemma safe_parts: "procs_safe P \<Longrightarrow> safe (interp_parts C P n t) R (\<lambda>rs. FReg ` set rs)"
proof (induction C P n t arbitrary: R rule: interp_parts.induct)
  case (2 C P n t)
  then show ?case
    by (auto simp: Let_def intro!: safe_more safe_ret safe_piece safe_catch safe_fragment split: option.splits)
qed (simp add: safe_ret)

lemma safe_string_interp [safe_rules]:
  "procs_safe P \<Longrightarrow> dest = 255 \<or> FReg dest \<in> R \<Longrightarrow> safe (compile_string_interp C P t dest) R (\<lambda>r. {FReg r})"
  unfolding compile_string_interp_def
  by (rule safe_parts safe_for | rule safe_rules safe_forms | simp | blast)+

lemma safe_expr:
  assumes "procs_safe P" "dest = 255 \<or> FReg dest \<in> R"
  shows "safe (compile_expr C P e dest) R (\<lambda>r. {FReg r})"
proof -
  obtain loc node where e: "e = Expr loc node" by (cases e)
  have load: "safe (cbind (ensure_dest dest) (\<lambda>r. cseq (fload C r v) (cret r))) R (\<lambda>r. {FReg r})"
    "safe (cbind (ensure_dest dest) (\<lambda>r. cseq (put LOAD_NULL r 0 0) (cret r))) R (\<lambda>r. {FReg r})"
    "safe (cbind (ensure_dest dest) (\<lambda>r. cseq (emit_global C LOAD_GLOBAL r n) (cret r))) R (\<lambda>r. {FReg r})" for v n
    by (rule safe_rules safe_forms | simp add: assms)+
  have str: "safe (cbind (ensure_dest dest) (\<lambda>r. if b then compile_string_interp C P t r else cseq (fload C r v) (cret r))) R (\<lambda>r. {FReg r})" for b t v
    by (rule safe_rules safe_forms | simp add: assms)+
  show ?thesis
    unfolding e compile_expr_def Let_def Expression.case
    by (cases node) (simp_all only: expr_node.case load str safe_throw safe_variable [OF assms(2)] safe_assign_value [OF assms]
      safe_binary [OF assms] safe_unary [OF assms] safe_ternary [OF assms] safe_call [OF assms] safe_closure [OF assms]
      safe_array_lit [OF assms] safe_assoc_lit [OF assms] safe_struct_lit [OF assms] safe_index [OF assms] safe_member [OF assms])
qed

subsection \<open>Statements\<close>

lemma safe_pending [safe_rules]: "safe (fmod (\<lambda>f. f\<lparr>pending_finally := h f\<rparr>)) R (\<lambda>_. {})"
  by (rule safe_fmod) (simp add: same_core_def)

lemma safe_finallys [safe_rules]: "procs_safe P \<Longrightarrow> safe (emit_pending_finallys P n) R (\<lambda>_. {})"
  unfolding emit_pending_finallys_def by (rule safe_rules safe_forms | simp | blast)+

lemma safe_return [safe_rules]: "procs_safe P \<Longrightarrow> safe (compile_return P e) R (\<lambda>_. {})"
  unfolding compile_return_def by (rule safe_rules safe_forms | simp | blast)+

lemma safe_if_stmt [safe_rules]: "procs_safe P \<Longrightarrow> safe (compile_if P c a b) R (\<lambda>_. {})"
  unfolding compile_if_def by (rule safe_rules safe_forms | simp | blast)+

lemma safe_loop_depth [safe_rules]: "safe (fmod (\<lambda>f. f\<lparr>loop_depth := h f\<rparr>)) R (\<lambda>_. {})"
  by (rule safe_fmod) (simp add: same_core_def)

lemma safe_loop_body [safe_rules]: "procs_safe P \<Longrightarrow> safe (loop_body P target body) R (\<lambda>c. FJump ` patches c)"
  unfolding loop_body_def
  by (rule safe_seq, rule safe_loops [where S = "{}"], simp, simp add: loops_from_def, blast)
     (rule safe_rules safe_forms | assumption)+

lemma safe_patch_all: "FJump ` set ps \<subseteq> R \<Longrightarrow> safe (patch_all ps t) R (\<lambda>_. {})"
  unfolding patch_all_def by (rule safe_for) (auto intro: safe_fpatch)

lemma safe_patch_ctx [safe_rules]:
  "FJump ` patches c \<subseteq> R \<Longrightarrow> safe (patch_all (break_patches c) t) R (\<lambda>_. {})"
  "FJump ` patches c \<subseteq> R \<Longrightarrow> safe (patch_all (continue_patches c) t) R (\<lambda>_. {})"
  by (auto intro!: safe_patch_all simp: patches_def)

lemma safe_while [safe_rules]: "procs_safe P \<Longrightarrow> safe (compile_while P c body) R (\<lambda>_. {})"
  unfolding compile_while_def by (rule safe_rules safe_forms | simp | blast)+

definition opt_jump :: "nat option \<Rightarrow> fact set" where
  "opt_jump j = (case j of None \<Rightarrow> {} | Some k \<Rightarrow> {FJump k})"

lemma safe_exit_test:
  "procs_safe P \<Longrightarrow> safe (case c of None \<Rightarrow> cret None
     | Some e \<Rightarrow> cbind (ce P e 255) (\<lambda>x. cbind (fjump JUMP_IF_FALSE x) (\<lambda>j. cseq (free_temp x) (cret (Some j))))) R opt_jump"
  by (rule safe_option) (rule safe_rules safe_forms safe_ret | simp add: opt_jump_def)+

lemma safe_exit_patch [safe_rules]: "opt_jump j \<subseteq> R \<Longrightarrow> safe (case j of None \<Rightarrow> cskip | Some k \<Rightarrow> fpatch k t) R (\<lambda>_. {})"
  by (auto simp: opt_jump_def intro: safe_skip safe_fpatch split: option.splits)

lemma safe_for_stmt [safe_rules]: "procs_safe P \<Longrightarrow> safe (compile_for P init c post body) R (\<lambda>_. {})"
  unfolding compile_for_def by (rule safe_exit_test safe_exit_patch | rule safe_rules safe_forms | simp | blast)+

definition opt_reg :: "nat option \<Rightarrow> fact set" where
  "opt_reg c = (case c of None \<Rightarrow> {} | Some r \<Rightarrow> {FReg r})"

lemma safe_loop_var [safe_rules]:
  assumes "FReg r \<in> R"
  shows "safe (loop_var name r) R opt_reg"
proof -
  have "safe (fmod (\<lambda>f. f\<lparr>locals := \<lparr>lv_name = name, lv_reg = r, lv_depth = fscope f\<rparr> # locals f\<rparr>)) R' (\<lambda>_. {})" if "FReg r \<in> R'" for R'
    unfolding fmod_def by (rule safe_fdo) (use that in \<open>auto simp: fc_ok_def full_def grows_def dest!: bspec\<close>)
  then show ?thesis
    using assms unfolding loop_var_def by - (rule safe_rules safe_forms safe_ret | assumption | simp add: opt_reg_def)+
qed

lemma safe_fresh_cell [safe_rules]: "opt_reg c \<subseteq> R \<Longrightarrow> FReg r \<in> R \<Longrightarrow> safe (fresh_cell c r) R (\<lambda>_. {})"
  unfolding fresh_cell_def by (cases c) (auto simp: opt_reg_def intro!: safe_skip safe_seq safe_puts)

lemma safe_foreach [safe_rules]: "procs_safe P \<Longrightarrow> safe (compile_foreach P it key val body) R (\<lambda>_. {})"
  unfolding compile_foreach_def
  by (rule safe_alloc_seq | rule safe_rules safe_forms | simp add: FRegs4 | blast)+

lemma safe_catch_block [safe_rules]: "procs_safe P \<Longrightarrow> safe (compile_catch C P var b) R (\<lambda>_. {})"
  unfolding compile_catch_def by (rule safe_rules safe_forms | simp | blast)+

lemma safe_opt_block [safe_rules]: "procs_safe P \<Longrightarrow> safe (opt_block P b) R (\<lambda>_. {})"
  unfolding opt_block_def by (rule safe_rules safe_forms | simp | blast)+

lemma safe_try [safe_rules]: "procs_safe P \<Longrightarrow> safe (compile_try C P tb var cb fb) R (\<lambda>_. {})"
  unfolding compile_try_def by (rule safe_rules safe_forms | simp | blast)+

lemma safe_switch_tests: "procs_safe P \<Longrightarrow> FReg subj \<in> R \<Longrightarrow> safe (switch_tests P subj vs) R (\<lambda>js. FJump ` set js)"
  unfolding switch_tests_def
  by (rule safe_weaken [OF safe_map [where R = R and Q = "\<lambda>j. {FJump j}"]]) (rule safe_rules safe_forms safe_ret | simp | blast)+

lemma safe_case_body:
  "procs_safe P \<Longrightarrow> FJump k \<in> R \<Longrightarrow> FJump ` set (fst q) \<subseteq> R \<Longrightarrow> safe (case_body P k q) R (\<lambda>j. {FJump j})"
  unfolding case_body_def by (cases q) (rule safe_patch_all | rule safe_rules safe_forms | simp | blast)+

lemma safe_switch [safe_rules]:
  assumes P: "procs_safe P"
  shows "safe (compile_switch P subject cases) R (\<lambda>_. {})"
proof -
  have tests: "safe (cmap (\<lambda>(vs, body). switch_tests P subj vs) cases) (R \<union> {FReg subj}) (\<lambda>jss. \<Union>js \<in> set jss. FJump ` set js)" for subj
    by (rule safe_map) (auto intro: safe_switch_tests [OF P])
  have push: "safe (fmod (\<lambda>f. f\<lparr>loop_stack := \<lparr>break_patches = [], continue_patches = [], continue_target = None, is_switch = True,
       finally_floor = length (pending_finally f)\<rparr> # loop_stack f\<rparr>)) R' (\<lambda>_. {})" for R'
    by (rule safe_loops [where S = "{}"]) (auto simp: loops_from_def)
  have bodies: "safe (cmap (case_body P k) (map2 (\<lambda>js (vs, body). (js, vs = [], body)) jss cases)) R' (\<lambda>ends. \<Union>j \<in> set ends. {FJump j})"
    if "FJump k \<in> R'" "(\<Union>js \<in> set jss. FJump ` set js) \<subseteq> R'" for R' jss k
    by (rule safe_map, rule safe_case_body [OF P that(1)]) (use that(2) in \<open>force dest!: set_zip_leftD\<close>)
  show ?thesis
    unfolding compile_switch_def
    by (rule safe_bind [OF safe_ce [OF P]], simp, rule safe_bind [OF tests])
       (rule safe_rules safe_forms push | rule bodies | rule safe_patch_all | simp | blast)+
qed

lemma safe_store_const [safe_rules]: "safe (store_const C name v) R (\<lambda>_. {})"
  unfolding store_const_def by (rule safe_rules safe_forms | simp | blast)+

lemma safe_const_items [safe_rules]:
  assumes P: "procs_safe P"
  shows "safe (compile_const_items C P iota items) R (\<lambda>_. {})"
proof (induction items arbitrary: iota R)
  case (Cons item items)
  obtain name d where item: "item = (name, d)" by (cases item)
  have kept: "safe (cseq (store_const C name v) (compile_const_items C P i items)) R (\<lambda>_. {})" for v i
    by (rule safe_seq [OF safe_store_const Cons.IH])
  have run: "safe (cseq (cbind (ce P e 255) (\<lambda>r. cseq (emit_global C STORE_GLOBAL r name) (free_temp r))) (compile_const_items C P i items)) R (\<lambda>_. {})" for e i
    using P by - (rule safe_seq [OF _ Cons.IH], (rule safe_rules safe_forms | simp | blast)+)
  show ?case
  proof (cases d)
    case None
    then show ?thesis by (simp add: item kept)
  next
    case (Some e)
    obtain loc node where "e = Expr loc node" by (cases e)
    then show ?thesis by (cases node) (simp_all add: item Some kept run)
  qed
qed (simp add: safe_skip)

lemma safe_struct_decl [safe_rules]: "procs_safe P \<Longrightarrow> safe (compile_struct_decl C P name fds) R (\<lambda>_. {})"
  unfolding compile_struct_decl_def by (rule safe_rules safe_forms | simp | blast)+

lemma safe_out [safe_rules]: "FReg r \<in> R \<Longrightarrow> safe (put CALL_BUILTIN r 1 r) R (\<lambda>_. {})"
  by (rule safe_put) (fastforce simp: ins_ready_def last_fine_def reg_operands_def const_operands_def reg_unat)

lemma safe_output [safe_rules]: "procs_safe P \<Longrightarrow> safe (emit_output_args C P es newline) R (\<lambda>_. {})"
  unfolding emit_output_args_def Let_def by (rule safe_rules safe_forms | simp | blast)+

lemma safe_break [safe_rules]: "procs_safe P \<Longrightarrow> safe (compile_break P) R (\<lambda>_. {})"
proof -
  have add: "safe (fmod (\<lambda>f. case loop_stack f of [] \<Rightarrow> f | c # cs \<Rightarrow> f\<lparr>loop_stack := c\<lparr>break_patches := break_patches c @ [p]\<rparr> # cs\<rparr>)) R' (\<lambda>_. {})"
    if "FJump p \<in> R'" for p R'
    by (rule safe_loops [where S = "{p}"]) (use that in \<open>auto simp: loops_from_def patches_def split: list.splits\<close>)
  show "procs_safe P \<Longrightarrow> ?thesis"
    unfolding compile_break_def by (rule safe_rules safe_forms add | simp)+
qed

lemma safe_continue [safe_rules]: "procs_safe P \<Longrightarrow> safe (compile_continue P) R (\<lambda>_. {})"
proof -
  have add: "safe (fmod (\<lambda>f. f\<lparr>loop_stack := add_continue p (loop_stack f)\<rparr>)) R' (\<lambda>_. {})" if "FJump p \<in> R'" for p R'
    by (rule safe_loops [where S = "{p}"]) (use that add_continue_patches in \<open>fastforce simp: loops_from_def\<close>)+
  show "procs_safe P \<Longrightarrow> ?thesis"
    unfolding compile_continue_def by (rule safe_rules safe_forms add | simp)+
qed

lemma safe_known [safe_rules]: "safe (\<lambda>s. (Inr (h s), s)) R (\<lambda>_. {})"
  by (simp add: safe_def)

lemma safe_note [safe_rules]:
  "safe (\<lambda>s. (Inr (), s\<lparr>compile_modules := h s\<rparr>)) R (\<lambda>_. {})" "safe (\<lambda>s. (Inr (), s\<lparr>compile_included := h s\<rparr>)) R (\<lambda>_. {})"
  by (rule safe_outside; simp add: outside_def)+

lemma safe_use [safe_rules]: "procs_safe P \<Longrightarrow> safe (compile_use C P name) R (\<lambda>_. {})"
  unfolding compile_use_def Let_def by (rule safe_catch | rule safe_rules safe_forms | simp)+

lemma safe_use_file [safe_rules]:
  assumes P: "procs_safe P"
  shows "safe (compile_use_file C P path) R (\<lambda>_. {})"
proof -
  have "safe (\<lambda>s. case cfor (cstm P) prog (s\<lparr>cur_dirs := d # cur_dirs s\<rparr>) of (r, s') \<Rightarrow> (r, s'\<lparr>cur_dirs := tl (cur_dirs s')\<rparr>)) R' (\<lambda>_. {})" for prog d R'
    by (rule safe_around) (auto simp: outside_def intro: safe_cfor safe_cstm [OF P])
  then show ?thesis
    unfolding compile_use_file_def Let_def by - (rule safe_rules safe_forms | assumption | simp)+
qed

lemma safe_line [safe_rules]: "safe (fmod (\<lambda>f. f\<lparr>cur_line := n\<rparr>)) R (\<lambda>_. {})"
  by (rule safe_fmod) (simp add: same_core_def)

lemma safe_expr_stmt:
  assumes "procs_safe P"
  shows "safe (case e of Expr loc (AssignmentExpression name opr obj idx v) \<Rightarrow> compile_assign_expr C P name opr obj idx v
             | _ \<Rightarrow> cbind (ce P e 255) free_temp) R (\<lambda>_. {})"
proof -
  obtain loc node where e: "e = Expr loc node" by (cases e)
  have "safe (cbind (ce P e' 255) free_temp) R (\<lambda>_. {})" for e' using assms by - (rule safe_rules safe_forms | simp | blast)+
  then show ?thesis by (cases node) (simp_all add: e safe_assign_expr [OF assms])
qed

lemma safe_stmt:
  assumes "procs_safe P"
  shows "safe (compile_stmt C P st) R (\<lambda>_. {})"
proof -
  obtain loc node where st: "st = Stmt loc node" by (cases st)
  have thr: "safe (cbind (ce P e 255) (\<lambda>r. cseq (put THROW r 0 0) (free_temp r))) R (\<lambda>_. {})" for e using assms by - (rule safe_rules safe_forms | simp | blast)+
  show ?thesis
    unfolding st compile_stmt_def Statement.case
    by (rule safe_seq, (rule safe_rules)+)
       (cases node; simp only: stmt_node.case; (rule safe_rules assms thr safe_expr_stmt)+)
qed

lemma procs_at_safe: "procs_safe (cprocs_at C n)"
proof (induction n)
  case 0
  then show ?case by (simp add: procs_safe_def safe_throw)
next
  case (Suc n)
  then show ?case using safe_expr [OF Suc] safe_stmt [OF Suc] by (simp add: procs_safe_def)
qed

subsection \<open>Whole programs\<close>

lemma safe_keep_names: "safe m R Q \<Longrightarrow> safe (keep_names m) R Q"
proof (rule safeI, goal_cases)
  case (1 s)
  have "outside (\<lambda>t :: 'a cstate. t\<lparr>non_builtin_names := non_builtin_names s\<rparr>)" by (simp add: outside_def)
  note same = outside_ok [OF this]
  show ?case using 1 unfolding safe_def by (auto simp: keep_names_def same split: prod.splits)
qed

lemma closes_program: "procs_safe P \<Longrightarrow> closes (compile_stmts P sts) R"
proof -
  assume P: "procs_safe P"
  let ?body = "cseq push_scope (cseq (cfor (cstm P) sts) (cseq pop_scope (cseq (put RETURN_NULL 0 0 0) finish)))"
  have body: "closes ?body R'" for R'
    by (rule closes_seq closes_finish safe_push_scope safe_pop_scope safe_cfor safe_cstm safe_puts P)+
  show ?thesis
    unfolding compile_stmts_def Let_def
    by (rule closes_seq [OF safe_keep_names [OF safe_discover [OF closes_safe [OF body]]] body])
qed

lemma compiled_done:
  assumes "compile_program C n prog = Inr cp" "p \<in> set (all_protos cp)"
  shows "done_ok p"
proof -
  obtain f0 :: "'a fc" where f0: "fc_new ''<main>'' [] False = Inr f0" by (simp add: fc_new_def)
  let ?s = "\<lparr>fcs = [f0], protos_out = [], non_builtin_names = [], compile_modules = {}, compile_included = {},
    cur_dirs = (if compile_root C = [] then [] else [compile_root C])\<rparr> :: 'a cstate"
  obtain r s1 where run: "compile_stmts (cprocs_at C n) prog ?s = (r, s1)" by fastforce
  have "st_ok ?s" using fc_new_ok [OF f0] by (simp add: st_ok_def)
  then have s1: "st_ok s1" "\<And>y. r = Inr y \<Longrightarrow> done_ok (proto (cur s1))"
    using closes_program [OF procs_at_safe, of C n prog "{}"] run by (auto simp: closes_def tri_def)
  then show ?thesis
    using assms f0 run by (cases r) (auto simp: compile_program_def in_fc_def st_ok_def)
qed

text \<open>The limits within which compiled code passes the check: a variadic function has a parameter, as the parser ensures; the constant
  pool did not fill up; a function has at least as many registers as captures, because \<^verbatim>\<open>LOAD_CAPTURE 0 i\<close> right behind a closure
  is read as one more capture of it.\<close>

definition within_limits :: "'f FunctionProto \<Rightarrow> bool" where
  "within_limits p \<longleftrightarrow> (variadic p \<longrightarrow> 0 < arity p) \<and> length (constants p) < 65535 \<and> length (capture_is_cell p) \<le> reg_count p"

lemma capture_hint_ok:
  assumes "code_fine N M L K c" "K \<le> N" "i \<in> set c" "is_capture_hint i"
  shows "opB i < N"
proof -
  obtain k where "k < length c" "c ! k = i" using assms(3) by (auto simp: in_set_conv_nth)
  then have "ins_fine N M L K c k" "op (c ! k) = LOAD_CAPTURE" using assms(1,4) by (auto simp: code_fine_def is_capture_hint_def split: OpCode.splits)
  then show ?thesis using assms(2) \<open>c ! k = i\<close> by (auto simp: ins_fine_def Let_def)
qed

lemma ins_fine_ok:
  assumes p: "code_fine (reg_count p) (length (constants p)) (length (nested p)) K (code p)" "K \<le> reg_count p" and k: "k < length (code p)"
  shows "ins_ok p k"
proof -
  have fine: "ins_fine (reg_count p) (length (constants p)) (length (nested p)) K (code p) k" using p(1) k by (simp add: code_fine_def)
  have hints: "list_all (\<lambda>h. opB h < reg_count p) (takeWhile is_capture_hint (drop (Suc k) (code p)))"
    using capture_hint_ok [OF p] by (auto simp: list_all_iff dest!: set_takeWhileD dest: in_set_dropD)
  show ?thesis
    using fine hints by (cases "op (code p ! k)") (auto simp: ins_fine_def ins_ok_def tail_ok_def Let_def list_all_iff split: option.splits)
qed

lemma done_proto_ok: "done_ok p \<Longrightarrow> within_limits p \<Longrightarrow> proto_ok p"
  by (auto simp: done_ok_def within_limits_def proto_ok_def list_all_iff intro: ins_fine_ok)

end
