(* ===== verification/Vm_Runs.thy ===== *)
theory Vm_Runs
  imports Vm_Safety
begin

text \<open>
  What the invariant of \<open>Vm_Safety\<close> gives for whole runs: no access outside the register file, the depth limit, calls that
  return to an undisturbed caller; and one behaviour that goes wrong, handlers that outlive the function that pushed them.
\<close>

subsection \<open>A small program\<close>

definition instr :: "OpCode \<Rightarrow> nat \<Rightarrow> nat \<Rightarrow> nat \<Rightarrow> Instruction" where
  "instr opc a b c = make_ins opc (word_of_nat a) (word_of_nat b) (word_of_nat c)"

definition demo_proto :: "nat \<Rightarrow> 'f Value list \<Rightarrow> addr list \<Rightarrow> Instruction list \<Rightarrow> 'f FunctionProto" where
  "demo_proto n cs ns c = \<lparr>pname = [], arity = 0, variadic = False, reg_count = n, constants = cs, code = c, nested = ns,
     lines = [], params = [], capture_is_cell = []\<rparr>"

definition demo_env :: "(addr \<Rightarrow> int FunctionProto) \<Rightarrow> int vm_env" where
  "demo_env ps = \<lparr>flt = int_floats, fmt = (\<lambda>d. []), depth = 1, protos = ps, bc_cloner = None,
     builtins = None, builtin_names = [], foreign = (\<lambda>opc x y. Inr V_NONE), warn_undef = False\<rparr>"

definition empty_vm :: "int VM" where
  "empty_vm = \<lparr>regs = [], call_stack = [], try_stack = [], try_floor = 0, current_exception = V_NONE, globals = Map.empty,
     arrays = [], closures = (\<lambda>c. \<lparr>cl_proto = 0, captures = []\<rparr>), next_closure = 0, isolate_globals = False, isolated = {}\<rparr>"

text \<open>The main program calls a function in register 0 and keeps the result in register 1.\<close>

definition demo_protos :: "addr \<Rightarrow> int FunctionProto" where
  "demo_protos p =
     (if p = 0 then demo_proto 2 [] [1] [instr MAKE_CLOSURE 0 0 0, instr CALL 1 0 0, instr NOP 0 0 0, instr RETURN 1 0 0]
      else demo_proto 1 [] [] [instr LOAD_INT 0 7 0, instr RETURN 0 0 0])"

lemmas run_defs = instr_def make_ins_def reg_operands_def const_operands_def tail_ok_def hint_at_def is_nop_def is_capture_hint_def

lemma demo_protos_ok: "proto_ok (demo_protos 0)" "proto_ok (demo_protos 1)"
  by (simp_all add: proto_ok_def demo_protos_def demo_proto_def upt_conv_Cons ins_ok_def Let_def run_defs bx_def be16_def)

lemma demo_code_ok: "code_ok (demo_env demo_protos)"
proof
  fix p
  show "proto_ok (protos (demo_env demo_protos) p)"
    using demo_protos_ok by (cases "p = 0") (simp_all add: demo_env_def demo_protos_def)
qed

lemma empty_vm_inv: "vm_inv E empty_vm"
  by (simp add: vm_inv_def empty_vm_def)

lemma demo_calls:
  "\<exists>vm1. call_frame (demo_env demo_protos) 0 [] empty_vm = Running vm1 \<and> length (call_stack vm1) = 1"
  by (simp add: call_frame_def empty_vm_def MAX_CALL_DEPTH_def Let_def bind_args_def demo_env_def demo_protos_def demo_proto_def
      push_frame_def)

subsection \<open>Runs stay in range\<close>

inductive vm_reach :: "'f vm_env \<Rightarrow> 'f VM \<Rightarrow> 'f VM \<Rightarrow> bool" for E vm where
  start: "vm_reach E vm vm"
| turn: "vm_reach E vm vm1 \<Longrightarrow> vm_step E vm1 = Running vm2 \<Longrightarrow> vm_reach E vm vm2"

inductive_cases vm_reachE: "vm_reach E vm vm'"

lemma vm_reach_inv: "vm_reach E vm vm' \<Longrightarrow> code_ok E \<Longrightarrow> vm_inv E vm \<Longrightarrow> vm_inv E vm'"
proof (induction rule: vm_reach.induct)
  case (turn vm1 vm2)
  then show ?case using vm_step_good [of E vm1] by simp
qed

text \<open>C2: The virtual machine never touches a register outside its file, a constant outside its pool or a prototype outside the nested
  ones, and never has more than 500 frames: whatever the values are, wherever the program jumps and whatever the handlers and the
  functions of the host do, as long as the operands of every instruction pass the check.\<close>

theorem vm_registers_safe:
  assumes ok: "code_ok E" and inv: "vm_inv E vm" and call: "call_frame E cl args vm = Running vm0"
    and reach: "vm_reach E (run_start vm0) vm'"
  shows "vm_step E vm' \<noteq> Out_of_range \<and> length (call_stack vm') \<le> 500"
proof -
  have "vm_inv E vm'" using vm_reach_inv [OF reach ok] call_frame_inv [OF ok inv call] by simp
  then show ?thesis using vm_step_good [OF ok, of vm'] by (auto simp: vm_inv_def MAX_CALL_DEPTH_def)
qed

theorem vm_registers_safe_witness:
  "\<exists>vm0. call_frame (demo_env demo_protos) 0 [] empty_vm = Running vm0 \<and> vm_step (demo_env demo_protos) (run_start vm0) \<noteq> Out_of_range"
proof -
  obtain vm0 where "call_frame (demo_env demo_protos) 0 [] empty_vm = Running vm0" using demo_calls by blast
  with vm_registers_safe [OF demo_code_ok empty_vm_inv this vm_reach.start] show ?thesis by blast
qed

text \<open>A program started by \<^verbatim>\<open>execute\<close> or a function called by the host never ends in an access out of range either, and a function
  called at the depth limit is refused with an exception.\<close>

theorem entry_points_safe:
  assumes "code_ok E" "vm_inv E vm" "length (call_stack vm) < MAX_CALL_DEPTH"
  shows "execute E n main vm \<noteq> Some Out_of_range \<and> call_closure E n cl args vm \<noteq> Some Out_of_range"
  using assms vm_run_good [OF assms(1) execute_frame_inv [OF assms(2,3), of main], of n Out_of_range]
    call_closure_good [OF assms(1,2), of n cl args Out_of_range]
  by (auto simp: execute_def)

subsection \<open>Calls return to an undisturbed caller\<close>

lemma vm_exec_CALL: "op i = CALL \<Longrightarrow> vm_exec E i vm = exec_call E i vm"
  by (simp add: vm_exec_def vm_binary_def vm_unary_def)

lemma enter_Running:
  "enter E cl a ab n vm = Running vm' \<Longrightarrow> \<exists>c new. call_stack vm' = c # call_stack vm \<and> base c = length (regs vm) \<and>
     ret_reg c = int (cur_base vm + a) \<and> regs vm' = regs vm @ new"
  by (auto simp: enter_def Let_def push_frame_def split: option.splits if_splits)

lemma enter_Raised: "enter E cl a ab n vm = Raised e vm' \<Longrightarrow> call_stack vm' = call_stack vm"
  by (auto simp: enter_def Let_def split: option.splits if_splits)

text \<open>A call enters the function or raises an exception in the caller.\<close>

lemma exec_call_cases:
  "\<exists>cl n. exec_call E i vm = enter E cl (opA i) (opC i) n (skip_hint E vm) \<or> exec_call E i vm = Out_of_range \<or>
     (\<exists>m. exec_call E i vm = Raised (Failed m) (skip_hint E vm))"
proof (cases "reg (skip_hint E vm) (opB i)")
  case (Some v)
  then show ?thesis
    by (cases v) (auto simp: exec_call_def Let_def with_reg_def with_name_def with_const_def split: Value.split)
qed (simp add: exec_call_def Let_def with_reg_def)

lemma skip_hint_simps2 [simp]: "regs (skip_hint E vm) = regs vm" "cur_base (skip_hint E vm) = cur_base vm"
    "length (call_stack (skip_hint E vm)) = length (call_stack vm)"
  by (auto simp: skip_hint_def set_ip_def cur_base_def split: option.split list.split)

lemma exec_call_enters:
  assumes "vm_exec E i vm = Running vm'" "op i = CALL"
  shows "\<exists>c new. call_stack vm' = c # call_stack (skip_hint E vm) \<and> base c = length (regs vm) \<and>
    ret_reg c = int (cur_base vm + opA i) \<and> regs vm' = regs vm @ new"
  using assms exec_call_cases [of E i vm] enter_Running [of E _ "opA i" "opC i" _ "skip_hint E vm" vm']
  by (auto simp: vm_exec_CALL)

lemma exec_call_raises:
  assumes "vm_exec E i vm = Raised e vm'" "op i = CALL"
  shows "length (call_stack vm') = length (call_stack vm)"
  using assms exec_call_cases [of E i vm] enter_Raised [of E _ "opA i" "opC i" _ "skip_hint E vm" e vm']
  by (auto simp: vm_exec_CALL)

lemma handle_length: "handle e vm = Running vm' \<Longrightarrow> length (call_stack vm') \<le> length (call_stack vm)"
  using unwind_length [of "frame_depth (hd (try_stack vm))" "call_stack vm" "regs vm"]
  by (auto simp: handle_def Let_def set_ip_def split: vm_exn.splits if_splits prod.splits list.splits)

text \<open>C5: Whatever a function does, and whether it returns or an exception takes control back to a handler of its caller: when the
  caller goes on, the stack is as it was before the call and so is every register, except that the one named by the instruction may
  hold the result.\<close>

theorem call_preserves_caller:
  assumes ok: "code_ok E" and inv: "vm_inv E vm" and cs: "call_stack vm = f # fs"
    and i: "next_ins E vm = Some i" "op i = CALL"
    and enter: "vm_step E vm = Running vm1" "length (call_stack vm) < length (call_stack vm1)"
    and runs: "runs_above E (length (call_stack vm)) vm1 vm2"
    and ret: "vm_step E vm2 = Running vm3" "length (call_stack vm3) = length (call_stack vm)"
  shows "\<exists>n v. call_stack vm3 = f\<lparr>ip := n\<rparr> # fs \<and> regs vm3 = (regs vm)[base f + opA i := v]"
proof -
  let ?vm = "set_ip (Suc (cur_ip vm)) vm"
  have act: "act E ?vm" using inv cs by (simp add: act_def)
  have "vm_exec E i ?vm = Running vm1"
  proof (cases "vm_exec E i ?vm")
    case (Raised e w)
    then have "handle e w = Running vm1" using enter(1) i cs by (simp add: vm_step_def)
    then have "length (call_stack vm1) \<le> length (call_stack ?vm)"
      using handle_length exec_call_raises [OF Raised i(2)] by fastforce
    then show ?thesis using enter(2) cs by (simp add: set_ip_def)
  qed (use enter i cs in \<open>auto simp: vm_step_def\<close>)
  from exec_call_enters [OF this i(2)] obtain c new where c: "call_stack vm1 = c # call_stack (skip_hint E ?vm)"
    "base c = length (regs vm)" "ret_reg c = int (base f + opA i)" "regs vm1 = regs vm @ new"
    using cs by (auto simp: cur_base_def set_ip_def)
  obtain n where n: "call_stack (skip_hint E ?vm) = f\<lparr>ip := n\<rparr> # fs"
    using here_skip_hint [OF here_set_ip [OF here_refl [of vm]], of E "Suc (cur_ip vm)"] cs by (auto simp: here_def)
  have inv1: "vm_inv E vm1" using vm_step_good [OF ok inv] enter(1) by simp
  have "vm_inv E vm2 \<and> below c (f\<lparr>ip := n\<rparr> # fs) vm1 vm2"
    by (rule runs_above_below [OF _ ok inv1]) (use runs cs c(1) n in simp_all)
  then obtain zs m where vm2: "vm_inv E vm2" "call_stack vm2 = zs @ c\<lparr>ip := m\<rparr> # f\<lparr>ip := n\<rparr> # fs" "take (base c) (regs vm2) = regs vm"
    by (auto simp: below_def c)
  have nr: "nat (ret_reg c) = base f + opA i" unfolding c(3) by (rule nat_int)
  from vm_step_pop [OF ok vm2(1,2) ret(1)] ret(2) cs
  obtain k where k: "call_stack vm3 = f\<lparr>ip := k\<rparr> # fs" and
    r: "regs vm3 = regs vm \<or> (\<exists>v. regs vm3 = (regs vm)[base f + opA i := v])"
    using vm2(3) nr by auto
  from r have "\<exists>v. regs vm3 = (regs vm)[base f + opA i := v]" by (metis list_update_id)
  with k show ?thesis by blast
qed

definition demo_frame :: "addr \<Rightarrow> nat \<Rightarrow> nat \<Rightarrow> int \<Rightarrow> Frame" where
  "demo_frame p k b r = \<lparr>fproto = p, fclosure = p, ip = k, base = b, ret_reg = r, argc = 0\<rparr>"

definition demo_vm :: "int Value list \<Rightarrow> Frame list \<Rightarrow> int VM" where
  "demo_vm rs fs = empty_vm\<lparr>regs := rs, call_stack := fs, closures := (\<lambda>c. \<lparr>cl_proto = c, captures = []\<rparr>), next_closure := 2\<rparr>"

lemmas eval_defs = vm_step_def next_ins_def cur_proto_def cur_ip_def cur_base_def set_ip_def vm_exec_def vm_binary_def vm_unary_def
  exec_load_def exec_call_def skip_hint_def hint_def enter_def leave_def push_frame_def reg_block_def bind_args_def with_reg_def reg_def
  set_reg_def MAX_CALL_DEPTH_def Let_def

lemma demo_run:
  "vm_step (demo_env demo_protos) (demo_vm [V_BYTECODE_FN 1, V_NONE] [demo_frame 0 1 0 (-1)]) =
     Running (demo_vm [V_BYTECODE_FN 1, V_NONE, V_NONE] [demo_frame 1 0 2 1, demo_frame 0 3 0 (-1)])"
  "vm_step (demo_env demo_protos) (demo_vm [V_BYTECODE_FN 1, V_NONE, V_NONE] [demo_frame 1 0 2 1, demo_frame 0 3 0 (-1)]) =
     Running (demo_vm [V_BYTECODE_FN 1, V_NONE, V_INT 7] [demo_frame 1 1 2 1, demo_frame 0 3 0 (-1)])"
  "vm_step (demo_env demo_protos) (demo_vm [V_BYTECODE_FN 1, V_NONE, V_INT 7] [demo_frame 1 1 2 1, demo_frame 0 3 0 (-1)]) =
     Running (demo_vm [V_BYTECODE_FN 1, V_INT 7] [demo_frame 0 3 0 (-1)])"
  by (simp_all add: eval_defs demo_vm_def demo_frame_def empty_vm_def demo_env_def demo_protos_def demo_proto_def run_defs)

theorem call_preserves_caller_witness:
  "\<exists>n v. call_stack (demo_vm [V_BYTECODE_FN 1, V_INT 7] [demo_frame 0 3 0 (-1)]) = [(demo_frame 0 1 0 (-1))\<lparr>ip := n\<rparr>] \<and>
     regs (demo_vm [V_BYTECODE_FN 1, V_INT 7] [demo_frame 0 3 0 (-1)]) = [V_BYTECODE_FN 1, V_NONE][0 + 1 := v]"
proof -
  let ?E = "demo_env demo_protos" and ?f = "demo_frame 0 1 0 (-1)" and ?i = "instr CALL 1 0 0"
  let ?vm = "demo_vm [V_BYTECODE_FN 1, V_NONE] [?f]"
  let ?vm1 = "demo_vm [V_BYTECODE_FN 1, V_NONE, V_NONE] [demo_frame 1 0 2 1, demo_frame 0 3 0 (-1)]"
  let ?vm2 = "demo_vm [V_BYTECODE_FN 1, V_NONE, V_INT 7] [demo_frame 1 1 2 1, demo_frame 0 3 0 (-1)]"
  have len: "length (call_stack (demo_vm rs fs)) = length fs" for rs fs by (simp add: demo_vm_def)
  have inv: "vm_inv ?E ?vm"
    by (simp add: vm_inv_def demo_vm_def demo_frame_def demo_env_def demo_protos_def demo_proto_def MAX_CALL_DEPTH_def empty_vm_def)
  have i: "next_ins ?E ?vm = Some ?i" "op ?i = CALL"
    by (simp_all add: next_ins_def demo_vm_def demo_frame_def demo_env_def demo_protos_def demo_proto_def cur_proto_def cur_ip_def run_defs)
  have runs: "runs_above ?E (length (call_stack ?vm)) ?vm1 ?vm2"
    by (rule runs_above.turn [OF runs_above.here demo_run(2)]) (simp add: len)
  have "call_stack ?vm = [?f]" by (simp add: demo_vm_def)
  from call_preserves_caller [OF demo_code_ok inv this i demo_run(1) _ runs demo_run(3)]
  show ?thesis by (simp add: len) (simp add: demo_vm_def demo_frame_def instr_def make_ins_def)
qed

subsection \<open>Handlers left behind\<close>

text \<open>C8: A return does not remove the handlers of the function it leaves, and the compiler emits nothing that would. The next exception
  that finds such a handler, raised in the caller after a call that has already returned, continues the caller at the address of
  the catch block of the function: in the middle of code that has nothing to do with it.\<close>

theorem return_leaves_handlers:
  assumes cs: "call_stack vm = f # g # gs" and i: "next_ins E vm = Some i" "op i = RETURN"
    and t: "try_stack vm = t # ts" "frame_depth t = length (call_stack vm)" "try_floor vm \<le> length ts"
    and ret: "vm_step E vm = Running vm1"
  shows "call_stack vm1 = g # gs \<and> (\<exists>vm2. handle (Failed m) vm1 = Running vm2 \<and> call_stack vm2 = g\<lparr>ip := catch_ip t\<rparr> # gs)"
proof -
  obtain v where lv: "leave v (set_ip (Suc (cur_ip vm)) vm) = Running vm1"
    using ret cs i
    by (auto simp: vm_step_def vm_exec_def vm_binary_def vm_unary_def with_reg_def leave_def set_ip_def Let_def split: option.splits if_splits)
  have "call_stack vm1 = g # gs \<and> try_stack vm1 = t # ts \<and> try_floor vm1 = try_floor vm"
    using lv cs t by (auto simp: leave_def set_ip_def Let_def split: if_splits)
  then show ?thesis using t cs by (auto simp: handle_def set_ip_def)
qed

text \<open>The code the compiler emits for

    \<^verbatim>\<open>function f() { try { $a = 1; return $a + $a; } catch ($e) { return 8; } }  f();  throw 1;\<close>

  The exception is not caught anywhere, yet the program ends normally: the handler of \<^verbatim>\<open>f\<close> continues the main program behind the
  \<^verbatim>\<open>throw\<close>.\<close>

definition lost_protos :: "addr \<Rightarrow> int FunctionProto" where
  "lost_protos p =
     (if p = 0 then
        demo_proto 2 [V_STRING ''f''] [1]
          [instr MAKE_CLOSURE 0 0 0, instr STORE_GLOBAL 0 0 0, instr LOAD_GLOBAL 0 0 0, instr CALL 1 0 0, instr NOP 0 0 1,
           instr LOAD_INT 1 1 0, instr THROW 1 0 0, instr RETURN_NULL 0 0 0]
      else
        demo_proto 2 [] []
          [instr TRY_PUSH 0 0 7, instr LOAD_INT 0 1 0, instr MOVE 1 0 0, instr ADD 0 1 1, instr RETURN 0 0 0, instr TRY_POP 0 0 0,
           instr JUMP 0 0 10, instr LOAD_EXC 1 0 0, instr LOAD_INT 0 8 0, instr RETURN 0 0 0, instr RETURN_NULL 0 0 0])"

lemma vm_loop_numeral:
  "vm_loop E (numeral k) vm = (case vm_step E vm of Running vm' \<Rightarrow> vm_loop E (pred_numeral k) vm' | r \<Rightarrow> Some r)"
  by (simp add: numeral_eq_Suc)

lemma replicate_numeral: "replicate (numeral k) x = x # replicate (pred_numeral k) x"
  by (simp add: numeral_eq_Suc)

lemma lost_exception: "\<exists>vm. execute (demo_env lost_protos) 20 0 empty_vm = Some (Finished V_NONE vm)"
  by (simp add: eval_defs execute_def execute_frame_def vm_run_def run_start_def run_end_def empty_vm_def demo_env_def lost_protos_def demo_proto_def run_defs
    vm_loop_numeral replicate_numeral fits_i64_def store_result_def bx_def be16_def vm_arith_def i64_add_ovf_def exec_closure_def with_name_def with_const_def store_global_def load_global_def exec_try_def handle_def)

definition lost_vm :: "int VM" where
  "lost_vm = (demo_vm [V_BYTECODE_FN 1, V_NONE, V_INT 2, V_INT 1] [demo_frame 1 4 2 1, demo_frame 0 5 0 (-1)])
     \<lparr>try_stack := [\<lparr>catch_ip = 7, frame_depth = 2, reg_base = 2\<rparr>]\<rparr>"

theorem return_leaves_handlers_witness:
  "\<exists>vm1 vm2. vm_step (demo_env lost_protos) lost_vm = Running vm1 \<and> handle (Failed ''uncaught'') vm1 = Running vm2 \<and>
     call_stack vm2 = [(demo_frame 0 5 0 (-1))\<lparr>ip := 7\<rparr>]"
proof -
  let ?E = "demo_env lost_protos" and ?t = "\<lparr>catch_ip = 7, frame_depth = 2, reg_base = 2\<rparr>"
  note defs = lost_vm_def demo_vm_def empty_vm_def demo_frame_def demo_env_def lost_protos_def demo_proto_def run_defs
  obtain vm1 where vm1: "vm_step ?E lost_vm = Running vm1" by (simp add: eval_defs defs)
  have i: "next_ins ?E lost_vm = Some (instr RETURN 0 0 0)" by (simp add: next_ins_def cur_proto_def cur_ip_def Let_def defs)
  have "call_stack lost_vm = [demo_frame 1 4 2 1, demo_frame 0 5 0 (-1)]" by (simp add: lost_vm_def demo_vm_def)
  from return_leaves_handlers [OF this i _ _ _ _ vm1, of ?t "[]" "''uncaught''"] vm1
  show ?thesis by (auto simp: defs)
qed

text \<open>C10: The short paths of the machine for integers give exactly what the operators of the values give, overflow and every other type
  included.\<close>

theorem fast_paths_exact:
  "vm_arith i64_add_ovf (val_add F) x y = val_add F x y \<and> vm_arith i64_sub_ovf (val_sub F) x y = val_sub F x y \<and>
   vm_arith i64_mul_ovf (val_mul F) x y = val_mul F x y"
  by (cases x; cases y; simp add: vm_arith_def val_add_def val_sub_def val_mul_def checked_def arith_check_def to_int_def is_float_def split: prod.split)

end
