(* ===== verification/Compile_Runs.thy ===== *)
theory Compile_Runs
  imports Compile_Safe Vm_Runs
begin

text \<open>
  The compiler and the machine together: compiled programs never leave the register file; and whole programs, from the syntax tree
  through the compiler to the end of the run, on which the machine does something else than the program says.
\<close>

subsection \<open>Compiled programs stay in range\<close>

text \<open>The prototypes of a compiled program by address.\<close>

definition proto_at :: "'f CompiledProgram \<Rightarrow> addr \<Rightarrow> 'f FunctionProto" where
  "proto_at cp a = (if a < length (all_protos cp) then all_protos cp ! a else last (all_protos cp))"

abbreviation main_addr :: "'f CompiledProgram \<Rightarrow> addr" where
  "main_addr cp \<equiv> length (all_protos cp) - 1"

lemma all_protos_ne: "compile_program C n prog = Inr cp \<Longrightarrow> all_protos cp \<noteq> []"
  by (auto simp: compile_program_def split: sum.splits prod.splits)


subsection \<open>Programs\<close>

definition demo_cfg :: "int ccfg" where
  "demo_cfg = \<lparr>c_flt = int_floats, float_value = (\<lambda>t. 0), builtin_index = (\<lambda>n. None), is_reserved_builtin = (\<lambda>n. False),
     module_path = (\<lambda>n. None), file_text = (\<lambda>p. None), compile_root = [], canonical = (\<lambda>d p. p), parent_path = (\<lambda>p. p)\<rparr>"

abbreviation ex :: "expr_node \<Rightarrow> Expression" where "ex \<equiv> Expr no_loc"
abbreviation st :: "stmt_node \<Rightarrow> Statement" where "st \<equiv> Stmt no_loc"

lemma cprocs_at_numeral:
  "cprocs_at C (numeral k) = \<lparr>ce = compile_expr C (cprocs_at C (pred_numeral k)), cstm = compile_stmt C (cprocs_at C (pred_numeral k))\<rparr>"
  by (simp add: numeral_eq_Suc)

lemmas monad_defs = in_fc_def in_place_of_def discover_def keep_names_def cbind_def cseq_def cskip_def cret_def cthrow_def fdo_def
  fget_def fmod_def put_def femit_def emit_def put16_def fjump_def emit_jump_def current_ip_def patch_here_def fpatch_def patch_jump_def
  fconst_def fload_def emit_load_const_def add_const_def to_u16_def to_u8_def hi8_def lo8_def i8_bits_def Let_def make_ins_def
  val_eq_def val_is_number_def

lemmas scope_defs = push_scope_def pop_scope_def resolve_var_def has_parent_def declare_local_def ensure_dest_def alloc_temp_def
  free_temp_def release_seq_def ra_new_def ra_alloc_def ra_free_def ra_alloc_local_def ra_free_local_def emit_global_def
  emit_write_local_def emit_read_local_def emit_read_capture_def is_cell_var_def

lemmas expr_defs = compile_expr_def compile_assign_expr_def assign_global_def assign_new_local_def assign_local_def
  compile_assign_value_def compile_variable_def compile_binary_def binary_ops_def compile_call_def special_call_def builtin_alias_def
  compile_plain_call_def check_argc_def arg_block_def call_code_def compile_closure_def load_capture_value_def make_closure_def add_nested_def

lemmas stmt_defs = compile_program_def compile_stmts_def fc_new_def finish_def compile_stmt_def compile_func_decl_def compile_fun_def
  compile_body_def default_param_def box_param_def compile_block_def compile_try_def compile_catch_def opt_block_def compile_return_def
  emit_pending_finallys_def compile_while_def loop_body_def compile_break_def patch_all_def emit_output_args_def compile_use_def

lemmas compile_eval = monad_defs scope_defs expr_defs stmt_defs cprocs_at_numeral demo_cfg_def no_loc_def

lemmas machine_eval = eval_defs execute_def execute_frame_def vm_run_def run_start_def run_end_def empty_vm_def demo_env_def demo_proto_def
  run_defs vm_loop_numeral replicate_numeral fits_i64_def store_result_def bx_def be16_def vm_arith_def i64_add_ovf_def exec_closure_def
  with_name_def with_const_def store_global_def load_global_def exec_try_def handle_def exec_jump_def is_truthy_def

text \<open>\<^verbatim>\<open>$x = 300;\<close>\<close>

definition small_program :: Program where
  "small_program = [st (ExpressionStatement (ex (AssignmentExpression ''$x'' ''='' None None (ex (NumberLiteral 300)))))]"

definition compiled :: "int FunctionProto list \<Rightarrow> int CompiledProgram" where
  "compiled ps = \<lparr>all_protos = ps, non_builtin_module_fns = []\<rparr>"

definition code_proto :: "string \<Rightarrow> nat \<Rightarrow> int Value list \<Rightarrow> addr list \<Rightarrow> Instruction list \<Rightarrow> int FunctionProto" where
  "code_proto name n cs ns c = (demo_proto n cs ns c)\<lparr>pname := name, lines := replicate (length c) 0\<rparr>"

lemma small_compiled:
  "compile_program demo_cfg 2 small_program =
     Inr (compiled [code_proto ''<main>'' 1 [V_INT 300, V_STRING ''$x''] [] [instr LOAD_CONST 0 0 0, instr STORE_GLOBAL 0 0 1, instr RETURN_NULL 0 0 0]])"
  by (simp add: compile_eval small_program_def compiled_def code_proto_def demo_proto_def instr_def)


subsection \<open>Handlers that stay behind\<close>

text \<open>\<^verbatim>\<open>function f() { try { $a = 1; return $a + $a; } catch ($e) { return 8; } }  f();  throw 1;\<close>\<close>

definition lost_program :: Program where
  "lost_program =
    [st (FunctionDeclaration ''f'' [] [] False
       [st (TryCatchStatement
          [st (ExpressionStatement (ex (AssignmentExpression ''$a'' ''='' None None (ex (NumberLiteral 1))))),
           st (ReturnStatement (Some (ex (BinaryExpression (ex (Variable ''$a'')) ''+'' (ex (Variable ''$a''))))))]
          ''$e'' (Some [st (ReturnStatement (Some (ex (NumberLiteral 8))))]) None)]),
     st (ExpressionStatement (ex (CallExpression (ex (Variable ''f'')) []))),
     st (ThrowStatement (ex (NumberLiteral 1)))]"

text \<open>The last statement throws and nothing catches it, yet the run ends normally: the handler of \<^verbatim>\<open>f\<close> is still there and its address
  leads to the end of the main program.\<close>

definition lost_fn :: "int FunctionProto" where
  "lost_fn = code_proto ''f'' 2 [] []
     [instr TRY_PUSH 0 0 7, instr LOAD_INT 0 1 0, instr MOVE 1 0 0, instr ADD 0 1 1, instr RETURN 0 0 0, instr TRY_POP 0 0 0,
      instr JUMP 0 0 10, instr LOAD_EXC 1 0 0, instr LOAD_INT 0 8 0, instr RETURN 0 0 0, instr RETURN_NULL 0 0 0]"

definition lost_main :: "int FunctionProto" where
  "lost_main = code_proto ''<main>'' 2 [V_STRING ''f''] [1]
     [instr MAKE_CLOSURE 0 0 0, instr STORE_GLOBAL 0 0 0, instr LOAD_GLOBAL 0 0 0, instr CALL 1 0 0, instr NOP 0 0 1,
      instr LOAD_INT 1 1 0, instr THROW 1 0 0, instr RETURN_NULL 0 0 0]"

text \<open>The first copy of the function belongs to the discovery pass.\<close>

definition lost_code :: "int CompiledProgram" where
  "lost_code = compiled [lost_fn, lost_fn, lost_main]"

lemma lost_compiled: "compile_program demo_cfg 5 lost_program = Inr lost_code"
  by (simp add: compile_eval lost_program_def lost_code_def lost_fn_def lost_main_def compiled_def code_proto_def demo_proto_def instr_def)

lemma lost_at: "main_addr lost_code = 2" "proto_at lost_code = (\<lambda>a. if a < 2 then lost_fn else lost_main)"
  by (auto simp: fun_eq_iff proto_at_def lost_code_def compiled_def nth_Cons' numeral_eq_Suc)

lemma compiled_exception_lost:
  "\<exists>vm. execute (demo_env (proto_at lost_code)) 20 (main_addr lost_code) empty_vm = Some (Finished V_NONE vm)"
  unfolding lost_at by (simp add: machine_eval lost_fn_def lost_main_def code_proto_def)

text \<open>\<^verbatim>\<open>while (true) { try { break; } catch ($e) { } }  throw 1;\<close>\<close>

definition break_program :: Program where
  "break_program =
    [st (WhileStatement (ex (BooleanLiteral True)) [st (TryCatchStatement [st BreakStatement] ''$e'' (Some []) None)]),
     st (ThrowStatement (ex (NumberLiteral 1)))]"

definition break_code :: "int CompiledProgram" where
  "break_code = compiled [code_proto ''<main>'' 1 [] []
     [instr LOAD_TRUE 0 0 0, instr JUMP_IF_FALSE 0 0 8, instr TRY_PUSH 0 0 6, instr JUMP 0 0 8, instr TRY_POP 0 0 0, instr JUMP 0 0 7,
      instr LOAD_EXC 0 0 0, instr JUMP 0 0 0, instr LOAD_INT 0 1 0, instr THROW 0 0 0, instr RETURN_NULL 0 0 0]]"

lemma break_compiled: "compile_program demo_cfg 5 break_program = Inr break_code"
  by (simp add: compile_eval break_program_def break_code_def compiled_def code_proto_def demo_proto_def instr_def)

lemma break_proto_at: "proto_at break_code 0 = code_proto ''<main>'' 1 [] []
     [instr LOAD_TRUE 0 0 0, instr JUMP_IF_FALSE 0 0 8, instr TRY_PUSH 0 0 6, instr JUMP 0 0 8, instr TRY_POP 0 0 0, instr JUMP 0 0 7,
      instr LOAD_EXC 0 0 0, instr JUMP 0 0 0, instr LOAD_INT 0 1 0, instr THROW 0 0 0, instr RETURN_NULL 0 0 0]" "main_addr break_code = 0"
  by (simp_all add: proto_at_def break_code_def compiled_def)

fun vm_turns :: "'f vm_env \<Rightarrow> nat \<Rightarrow> 'f VM \<Rightarrow> 'f outcome" where
  "vm_turns E 0 vm = Running vm"
| "vm_turns E (Suc k) vm = (case vm_step E vm of Running vm' \<Rightarrow> vm_turns E k vm' | r \<Rightarrow> r)"

lemma vm_turns_numeral:
  "vm_turns E (numeral k) vm = (case vm_step E vm of Running vm' \<Rightarrow> vm_turns E (pred_numeral k) vm' | r \<Rightarrow> r)"
  by (simp add: numeral_eq_Suc)

lemma vm_loop_turns: "vm_turns E k vm = Running vm' \<Longrightarrow> vm_loop E n vm = (if n < k then None else vm_loop E (n - k) vm')"
proof (induction k arbitrary: n vm)
  case (Suc k)
  then show ?case by (cases n) (auto split: outcome.splits)
qed simp

lemma vm_loop_cycle:
  assumes "vm_turns E k vm = Running vm" "0 < k"
  shows "vm_loop E n vm = None"
proof (induction n rule: less_induct)
  case (less n)
  then show ?case using assms(2) vm_loop_turns [OF assms(1), of n] by simp
qed

text \<open>The program throws after its loop, so it ends with an uncaught exception; the machine never ends: the handler of the loop body
  survives the \<^verbatim>\<open>break\<close>, catches the exception and enters the loop again.\<close>

definition caught_vm :: "int VM" where
  "caught_vm = (execute_frame (demo_env (proto_at break_code)) 0 empty_vm)\<lparr>regs := [V_INT 1], current_exception := V_INT 1\<rparr>"

lemma break_never_ends: "execute (demo_env (proto_at break_code)) n (main_addr break_code) empty_vm = None"
proof -
  let ?E = "demo_env (proto_at break_code)"
  note eval = machine_eval vm_turns_numeral break_proto_at code_proto_def caught_vm_def
  have 1: "vm_turns ?E 8 (run_start (execute_frame ?E 0 empty_vm)) = Running caught_vm" by (simp add: eval)
  have 2: "vm_turns ?E 8 caught_vm = Running caught_vm" by (simp add: eval)
  have "vm_loop ?E n (run_start (execute_frame ?E (main_addr break_code) empty_vm)) = None"
    unfolding break_proto_at(2) using vm_loop_turns [OF 1, of n] vm_loop_cycle [OF 2] by simp
  then show ?thesis by (simp add: execute_def vm_run_def)
qed

subsection \<open>Instructions read as operands of others\<close>

text \<open>\<^verbatim>\<open>print 1; use math;\<close> with a host that keeps what is written in array 0: the instruction of \<^verbatim>\<open>use\<close> is taken for the argument count of
  the call before it, and the end of the line is not written.\<close>

definition use_program :: Program where
  "use_program = [st (PrintStatement [ex (NumberLiteral 1)]), st (UseStatement ''math'' [])]"

definition write_fn :: "int host_fn" where
  "write_fn args A = (Inr V_NONE, A[0 := A ! 0 @ args])"

definition writing_env :: "(addr \<Rightarrow> int FunctionProto) \<Rightarrow> int vm_env" where
  "writing_env ps = (demo_env ps)\<lparr>builtins := Some [None, Some write_fn]\<rparr>"

definition use_code :: "Instruction list \<Rightarrow> int CompiledProgram" where
  "use_code ns = compiled [code_proto ''<main>'' 1 [V_STRING [CHR 10]] []
     ([instr LOAD_INT 0 1 0, instr CALL_BUILTIN 0 1 0, instr LOAD_CONST 0 0 0, instr CALL_BUILTIN 0 1 0] @ ns @ [instr RETURN_NULL 0 0 0])]"

lemma use_compiled:
  "compile_program demo_cfg 5 use_program = Inr (use_code [instr NOP 0 0 0])" "compile_program demo_cfg 5 [hd use_program] = Inr (use_code [])"
  by (simp_all add: compile_eval use_program_def use_code_def compiled_def code_proto_def demo_proto_def instr_def)

lemma use_proto_at: "proto_at (use_code ns) 0 = code_proto ''<main>'' 1 [V_STRING [CHR 10]] []
     ([instr LOAD_INT 0 1 0, instr CALL_BUILTIN 0 1 0, instr LOAD_CONST 0 0 0, instr CALL_BUILTIN 0 1 0] @ ns @ [instr RETURN_NULL 0 0 0])"
  "main_addr (use_code ns) = 0"
  by (simp_all add: proto_at_def use_code_def compiled_def)

lemma use_drops_output:
  "\<exists>vm. execute (writing_env (proto_at (use_code [instr NOP 0 0 0]))) 20 0 (empty_vm\<lparr>arrays := [[]]\<rparr>) = Some (Finished V_NONE vm) \<and>
     arrays vm = [[V_INT 1]]"
  by (simp add: machine_eval writing_env_def write_fn_def exec_builtin_def use_proto_at code_proto_def)

lemma print_writes_line:
  "\<exists>vm. execute (writing_env (proto_at (use_code []))) 20 0 (empty_vm\<lparr>arrays := [[]]\<rparr>) = Some (Finished V_NONE vm) \<and>
     arrays vm = [[V_INT 1, V_STRING [CHR 10]]]"
  by (simp add: machine_eval writing_env_def write_fn_def exec_builtin_def use_proto_at code_proto_def)

text \<open>\<^verbatim>\<open>return (function() use ($c) { function() { }; return $c; })();\<close>: the read of the captured variable stands right behind the
  closure that is thrown away and is taken for one of its captures, so the call returns that closure instead of \<^verbatim>\<open>$c\<close>.\<close>

definition capture_program :: Program where
  "capture_program =
    [st (ReturnStatement (Some (ex (CallExpression (ex (FunctionExpression [] [] [''$c''] False
       [st (ExpressionStatement (ex (FunctionExpression [] [] [] False []))), st (ReturnStatement (Some (ex (Variable ''$c''))))])) []))))]"

definition unit_fn :: "int FunctionProto" where
  "unit_fn = code_proto ''<closure>'' 0 [] [] [instr RETURN_NULL 0 0 0]"

definition capture_fn :: "addr \<Rightarrow> int FunctionProto" where
  "capture_fn a = (code_proto ''<closure>'' 1 [] [a]
     [instr MAKE_CLOSURE 0 0 0, instr LOAD_CAPTURE 0 0 0, instr RETURN 0 0 0, instr RETURN_NULL 0 0 0])\<lparr>capture_is_cell := [False]\<rparr>"

definition capture_main :: "int FunctionProto" where
  "capture_main = code_proto ''<main>'' 2 [V_STRING ''$c''] [5]
     [instr LOAD_GLOBAL 1 0 0, instr MAKE_CLOSURE 0 0 0, instr LOAD_CAPTURE 0 1 0, instr CALL 1 0 0, instr NOP 0 0 0,
      instr RETURN 1 0 0, instr RETURN_NULL 0 0 0]"

definition capture_code :: "int CompiledProgram" where
  "capture_code = compiled [unit_fn, unit_fn, capture_fn 1, unit_fn, unit_fn, capture_fn 4, capture_main]"

lemma capture_compiled: "compile_program demo_cfg 6 capture_program = Inr capture_code"
  by (simp add: compile_eval capture_program_def capture_code_def unit_fn_def capture_fn_def capture_main_def
    compiled_def code_proto_def demo_proto_def instr_def)

lemma capture_at: "main_addr capture_code = 6" "proto_at capture_code 6 = capture_main"
  "proto_at capture_code 5 = capture_fn 4" "proto_at capture_code 4 = unit_fn"
  by (simp_all add: proto_at_def capture_code_def compiled_def)

lemma capture_lost:
  "\<exists>vm. execute (demo_env (proto_at capture_code)) 20 (main_addr capture_code) (empty_vm\<lparr>globals := [''$c'' \<mapsto> V_INT 5]\<rparr>) =
     Some (Finished (V_BYTECODE_FN 2) vm) \<and> closures vm 2 = \<lparr>cl_proto = 4, captures = [V_NONE]\<rparr>"
  unfolding capture_at(1) by (simp add: machine_eval capture_at capture_main_def capture_fn_def unit_fn_def code_proto_def)

text \<open>\<^verbatim>\<open>function f() { $x = 1; return $x + ($x = 5); }  return f();\<close>: the left operand is the register of \<^verbatim>\<open>$x\<close> itself, so the sum sees the
  value that is assigned while the right operand is evaluated.\<close>

definition order_program :: Program where
  "order_program =
    [st (FunctionDeclaration ''f'' [] [] False
       [st (ExpressionStatement (ex (AssignmentExpression ''$x'' ''='' None None (ex (NumberLiteral 1))))),
        st (ReturnStatement (Some (ex (BinaryExpression (ex (Variable ''$x'')) ''+''
          (ex (AssignmentExpression ''$x'' ''='' None None (ex (NumberLiteral 5))))))))]),
     st (ReturnStatement (Some (ex (CallExpression (ex (Variable ''f'')) []))))]"

definition order_fn :: "int FunctionProto" where
  "order_fn = code_proto ''f'' 3 [] []
     [instr LOAD_INT 0 1 0, instr MOVE 1 0 0, instr LOAD_INT 0 5 0, instr MOVE 1 0 0, instr MOVE 0 1 0, instr ADD 2 1 0,
      instr RETURN 2 0 0, instr RETURN_NULL 0 0 0]"

definition order_main :: "int FunctionProto" where
  "order_main = code_proto ''<main>'' 2 [V_STRING ''f''] [1]
     [instr MAKE_CLOSURE 0 0 0, instr STORE_GLOBAL 0 0 0, instr LOAD_GLOBAL 0 0 0, instr CALL 1 0 0, instr NOP 0 0 1,
      instr RETURN 1 0 0, instr RETURN_NULL 0 0 0]"

definition order_code :: "int CompiledProgram" where
  "order_code = compiled [order_fn, order_fn, order_main]"

lemma order_compiled: "compile_program demo_cfg 6 order_program = Inr order_code"
  by (simp add: compile_eval order_program_def order_code_def order_fn_def order_main_def compiled_def code_proto_def demo_proto_def instr_def)

lemma order_at: "main_addr order_code = 2" "proto_at order_code 2 = order_main" "proto_at order_code (Suc 0) = order_fn"
  by (simp_all add: proto_at_def order_code_def compiled_def)

lemma operand_reassigned:
  "\<exists>vm. execute (demo_env (proto_at order_code)) 20 (main_addr order_code) empty_vm = Some (Finished (V_INT 10) vm)"
  unfolding order_at(1) by (simp add: machine_eval order_at order_main_def order_fn_def code_proto_def)

end
