(* ===== verification/Interp.thy ===== *)
theory Interp
  imports Vm Environment Parser
begin

text \<open>
  The tree-walking interpreter (\<^verbatim>\<open>Interpreter\<close> in \<^verbatim>\<open>interpreter.h\<close>, \<^verbatim>\<open>interpreter.cpp\<close>) as it runs a script from the
  command line, without a web request: all statements and expressions, function calls, string interpolation, the built-in
  functions and file inclusion. The state is explicit: arrays, scopes and functions are shared by reference and live in
  lists, \<^verbatim>\<open>current_\<close> is an index, and every computation returns its state also when it throws, so whatever the
  C++ code does not undo when an exception passes stays done here.

  Exceptions are the C++ classes. Three values stand for what is not an exception of the program: \<open>OutOfFuel\<close> (the bound on nested
  calls and turns of loops of the model; no handler sees it), \<open>StackExhausted\<close> (a value nested too deep to print) and
  \<open>UndefinedBehaviour\<close> (an argument read past the end). The recursive calls go through a record of procedures. Functions of
  modules and of the host are arguments and may change arrays; floating-point, files and paths are arguments too. Locations and
  stack traces of error reports are not modelled.
\<close>

record LookFunction =
  fun_name :: string
  fun_params :: "string list"
  fun_variadic :: bool
  fun_body :: "Statement list"
  fun_closure :: addr
  fun_defaults :: "Expression option list"

datatype 'f exn = ReturnException "'f Value" | BreakException | ContinueException | ExitException u32 | RouteMatchedException
  | RouteStopException | RuntimeError "'f Value option" string | OutOfFuel | StackExhausted | UndefinedBehaviour

type_synonym 'f native = "'f Value list \<Rightarrow> 'f arrays \<Rightarrow> ('f exn + 'f Value) \<times> 'f arrays"
type_synonym 'f module_fns = "string \<rightharpoonup> 'f native"

record 'f interp =
  heap :: "'f arrays"
  envs :: "'f Env list"
  funs :: "LookFunction list"
  genv :: addr
  current :: addr
  out_text :: string
  modules :: "string \<rightharpoonup> 'f module_fns"
  struct_defs :: "string \<rightharpoonup> (string \<times> 'f Value option) list"
  current_iota :: nat
  call_depth :: nat
  included_files :: "string set"
  current_file :: string
  setup_globals :: "addr option"
  rebased :: "addr \<rightharpoonup> addr"

record 'f icfg =
  i_flt :: "'f float_ops"
  i_fmt :: "'f \<Rightarrow> string"
  i_nest :: nat
  i_float :: "string \<Rightarrow> 'f"
  i_sqrt :: "'f \<Rightarrow> 'f"
  i_fabs :: "'f \<Rightarrow> 'f"
  i_cloner :: "'f clone_hook"
  stdlib :: "string \<rightharpoonup> 'f module_fns"
  registered :: "string \<rightharpoonup> 'f native"
  reserved :: "string \<Rightarrow> bool"
  service :: "string \<Rightarrow> string \<Rightarrow> 'f native"
  env_var :: "string \<rightharpoonup> string"
  script_args :: "string list"
  module_file :: "string \<rightharpoonup> string"
  read_file :: "string \<rightharpoonup> string"
  resolve :: "string \<Rightarrow> string \<Rightarrow> string"
  project_root :: string

type_synonym ('f, 'a) im = "'f interp \<Rightarrow> ('f exn + 'a) \<times> 'f interp"

record 'f iprocs =
  ev :: "Expression \<Rightarrow> ('f, 'f Value) im"
  run :: "Statement \<Rightarrow> ('f, unit) im"
  turns :: nat

subsection \<open>Computations\<close>

definition iret :: "'a \<Rightarrow> ('f, 'a) im" where
  "iret x s = (Inr x, s)"

definition ithrow :: "'f exn \<Rightarrow> ('f, 'a) im" where
  "ithrow e s = (Inl e, s)"

definition ibind :: "('f, 'a) im \<Rightarrow> ('a \<Rightarrow> ('f, 'b) im) \<Rightarrow> ('f, 'b) im" where
  "ibind m k s = (case m s of (Inl e, s') \<Rightarrow> (Inl e, s') | (Inr x, s') \<Rightarrow> k x s')"

abbreviation ithen :: "('f, unit) im \<Rightarrow> ('f, 'b) im \<Rightarrow> ('f, 'b) im" where
  "ithen m n \<equiv> ibind m (\<lambda>_. n)"

definition iget :: "('f interp \<Rightarrow> 'a) \<Rightarrow> ('f, 'a) im" where
  "iget g s = (Inr (g s), s)"

definition imod :: "('f interp \<Rightarrow> 'f interp) \<Rightarrow> ('f, unit) im" where
  "imod g s = (Inr (), g s)"

definition fail :: "string \<Rightarrow> ('f, 'a) im" where
  "fail t = ithrow (RuntimeError None t)"

fun ifor :: "('a \<Rightarrow> ('f, unit) im) \<Rightarrow> 'a list \<Rightarrow> ('f, unit) im" where
  "ifor f [] = iret ()"
| "ifor f (x # xs) = ithen (f x) (ifor f xs)"

fun imap :: "('a \<Rightarrow> ('f, 'b) im) \<Rightarrow> 'a list \<Rightarrow> ('f, 'b list) im" where
  "imap f [] = iret []"
| "imap f (x # xs) = ibind (f x) (\<lambda>y. ibind (imap f xs) (\<lambda>ys. iret (y # ys)))"

text \<open>What \<^verbatim>\<open>catch (...)\<close> catches.\<close>

fun fatal :: "'f exn \<Rightarrow> bool" where
  "fatal OutOfFuel = True"
| "fatal StackExhausted = True"
| "fatal UndefinedBehaviour = True"
| "fatal _ = False"

definition icatch :: "('f, 'a) im \<Rightarrow> ('f exn \<Rightarrow> ('f, 'a) im) \<Rightarrow> ('f, 'a) im" where
  "icatch m h s = (case m s of (Inl e, s') \<Rightarrow> if fatal e then (Inl e, s') else h e s' | (Inr x, s') \<Rightarrow> (Inr x, s'))"

text \<open>Running in another scope; the code restores the scope on every way out of these places.\<close>

definition in_env :: "addr \<Rightarrow> ('f, 'a) im \<Rightarrow> ('f, 'a) im" where
  "in_env e m s = (case m (s\<lparr>current := e\<rparr>) of (r, s') \<Rightarrow> (r, s'\<lparr>current := current s\<rparr>))"

definition new_env :: "addr \<Rightarrow> ('f, addr) im" where
  "new_env p s = (case env_new (envs s) (Some p) of (e, E) \<Rightarrow> (Inr e, s\<lparr>envs := E\<rparr>))"

definition idefine :: "addr \<Rightarrow> string \<Rightarrow> 'f Value \<Rightarrow> ('f, unit) im" where
  "idefine e n v = imod (\<lambda>s. s\<lparr>envs := env_define (envs s) e n v\<rparr>)"

definition ilookup :: "string \<Rightarrow> ('f, 'f Value) im" where
  "ilookup n s =
     (case env_get (envs s) (current s) n of
        None \<Rightarrow> (Inl OutOfFuel, s)
      | Some (Inl (UndefinedVariable x)) \<Rightarrow> fail (''Undefined variable: '' @ x) s
      | Some (Inr v) \<Rightarrow> (Inr v, s))"

text \<open>\<^verbatim>\<open>try { current_->set(...) } catch (...) { current_->define(...) }\<close>\<close>

definition iset :: "string \<Rightarrow> 'f Value \<Rightarrow> ('f, unit) im" where
  "iset n v s =
     (case env_set (envs s) (current s) n v of
        None \<Rightarrow> (Inl OutOfFuel, s)
      | Some (Inl e) \<Rightarrow> idefine (current s) n v s
      | Some (Inr E) \<Rightarrow> (Inr (), s\<lparr>envs := E\<rparr>))"

definition alloc :: "'f Value list \<Rightarrow> ('f, 'f Value) im" where
  "alloc vs s = (Inr (V_ARRAY (length (heap s))), s\<lparr>heap := heap s @ [vs]\<rparr>)"

definition istr :: "'f icfg \<Rightarrow> 'f Value \<Rightarrow> ('f, string) im" where
  "istr C v s = (case to_string (i_fmt C) (heap s) (i_nest C) v of None \<Rightarrow> (Inl StackExhausted, s) | Some t \<Rightarrow> (Inr t, s))"

definition truthy :: "'f icfg \<Rightarrow> 'f Value \<Rightarrow> ('f, bool) im" where
  "truthy C v = iget (\<lambda>s. is_truthy (i_flt C) (\<lambda>a. heap s ! a) v)"

definition arr_of :: "addr \<Rightarrow> ('f, 'f Value list) im" where
  "arr_of a = iget (\<lambda>s. heap s ! a)"

definition run_native :: "'f native \<Rightarrow> 'f Value list \<Rightarrow> ('f, 'f Value) im" where
  "run_native f vs s = (case f vs (heap s) of (r, A) \<Rightarrow> (r, s\<lparr>heap := A\<rparr>))"

definition quoted :: "string \<Rightarrow> string" where
  "quoted t = [CHR 0x27] @ t @ [CHR 0x27]"

definition dquoted :: "string \<Rightarrow> string" where
  "dquoted t = [CHR 0x22] @ t @ [CHR 0x22]"

definition lift_op :: "value_error + 'a \<Rightarrow> ('f, 'a) im" where
  "lift_op r = (case r of Inl e \<Rightarrow> fail (op_text e) | Inr x \<Rightarrow> iret x)"

text \<open>Reading and writing elements; the two report an index out of range differently.\<close>

definition lift_idx :: "(int \<Rightarrow> string) \<Rightarrow> idx_error + 'a \<Rightarrow> ('f, 'a) im" where
  "lift_idx bounds r =
     (case r of
        Inr x \<Rightarrow> iret x
      | Inl (OutOfBounds i) \<Rightarrow> fail (bounds i)
      | Inl NotAnArray \<Rightarrow> fail ''Index operator requires an array''
      | Inl ImmutableString \<Rightarrow> fail ''Strings are immutable; cannot assign to a string index''
      | Inl (OpFailed e) \<Rightarrow> fail (op_text e)
      | Inl TooDeep \<Rightarrow> ithrow StackExhausted)"

subsection \<open>Interpolated strings\<close>

fun closing_brace :: "nat \<Rightarrow> string \<Rightarrow> nat option" where
  "closing_brace d [] = None"
| "closing_brace d (c # t) =
     (if c = CHR ''{'' then map_option Suc (closing_brace (Suc d) t)
      else if c = CHR ''}'' then (if d = 1 then Some 0 else map_option Suc (closing_brace (d - 1) t))
      else map_option Suc (closing_brace d t))"

definition is_interp :: "string \<Rightarrow> bool" where
  "is_interp t = (case t of c # d # _ \<Rightarrow> c = CHR ''{'' \<and> (d = CHR ''$'' \<or> isalpha d \<or> d = CHR ''_'') | _ \<Rightarrow> False)"

text \<open>The value of a fragment as text: nothing when it is not an expression, \<open>None\<close> when it does not parse.\<close>

definition fragment_text :: "'f icfg \<Rightarrow> 'f iprocs \<Rightarrow> string \<Rightarrow> ('f, string) im option" where
  "fragment_text C P t =
     (case scan_tokens (t @ '';'') of
        Inl e \<Rightarrow> None
      | Inr ts \<Rightarrow>
          (case parse ts of
             Inl e \<Rightarrow> None
           | Inr (Stmt _ (ExpressionStatement e) # _) \<Rightarrow> Some (ibind (ev P e) (istr C))
           | Inr _ \<Rightarrow> Some (iret [])))"

fun interpolate_loop :: "'f icfg \<Rightarrow> 'f iprocs \<Rightarrow> nat \<Rightarrow> string \<Rightarrow> ('f, string) im" where
  "interpolate_loop C P 0 t = iret []"
| "interpolate_loop C P (Suc n) t =
     (let more = (\<lambda>m t'. ibind m (\<lambda>a. ibind (interpolate_loop C P n t') (\<lambda>b. iret (a @ b)))) in
      case t of
        [] \<Rightarrow> iret []
      | c # t' \<Rightarrow>
          (case (if is_interp t then closing_brace 1 t' else None) of
             None \<Rightarrow> more (iret [c]) t'
           | Some j \<Rightarrow>
               more (case fragment_text C P (take j t') of
                       None \<Rightarrow> iret (take (j + 2) t)
                     | Some m \<Rightarrow> icatch m (\<lambda>e. iret (take (j + 2) t)))
                    (drop (j + 2) t)))"

definition interpolate_string :: "'f icfg \<Rightarrow> 'f iprocs \<Rightarrow> string \<Rightarrow> ('f, string) im" where
  "interpolate_string C P t = interpolate_loop C P (length t) t"

subsection \<open>Operators\<close>

definition binary_value ::
    "'f float_ops \<Rightarrow> ('f Value \<Rightarrow> string option) \<Rightarrow> string \<Rightarrow> 'f Value \<Rightarrow> 'f Value \<Rightarrow> (idx_error + 'f Value) option" where
  "binary_value F str opr l r =
     (let cmp = (\<lambda>x. op_result (case x of Inl e \<Rightarrow> Inl e | Inr b \<Rightarrow> Inr (V_BOOL b))) in
      if opr = ''+'' then Some (op_result (val_add F l r))
      else if opr = ''-'' then Some (op_result (val_sub F l r))
      else if opr = ''*'' then Some (op_result (val_mul F l r))
      else if opr = ''/'' then Some (op_result (val_div F l r))
      else if opr = ''%'' then Some (op_result (val_mod F l r))
      else if opr = ''**'' then Some (Inr (val_pow F l r))
      else if opr = ''.'' then Some (val_concat str l r)
      else if opr = ''=='' then Some (Inr (V_BOOL (val_eq F l r)))
      else if opr = ''!='' then Some (Inr (V_BOOL (\<not> val_eq F l r)))
      else if opr = ''<'' then Some (cmp (val_less F l r))
      else if opr = ''<='' then Some (cmp (val_less_eq F l r))
      else if opr = ''>'' then Some (cmp (val_greater F l r))
      else if opr = ''>='' then Some (cmp (val_greater_eq F l r))
      else if opr = ''<=>'' then Some (op_result (case spaceship F l r of Inl e \<Rightarrow> Inl e | Inr i \<Rightarrow> Inr (V_INT (word_of_int i))))
      else if opr = ''&'' then Some (Inr (bitwise_and F l r))
      else if opr = ''|'' then Some (Inr (bitwise_or F l r))
      else if opr = ''^'' then Some (Inr (bitwise_xor F l r))
      else if opr = ''<<'' then Some (Inr (shift_left F l r))
      else if opr = ''>>'' then Some (Inr (shift_right F l r))
      else None)"

definition eval_binary :: "'f icfg \<Rightarrow> 'f iprocs \<Rightarrow> Expression \<Rightarrow> string \<Rightarrow> Expression \<Rightarrow> ('f, 'f Value) im" where
  "eval_binary C P l opr r =
     (let bool_of = (\<lambda>e. ibind (ev P e) (truthy C)) in
      if opr = ''&&'' then ibind (bool_of l) (\<lambda>b. if \<not> b then iret (V_BOOL False) else ibind (bool_of r) (\<lambda>b. iret (V_BOOL b)))
      else if opr = ''||'' then ibind (bool_of l) (\<lambda>b. if b then iret (V_BOOL True) else ibind (bool_of r) (\<lambda>b. iret (V_BOOL b)))
      else if opr = ''??'' then ibind (ev P l) (\<lambda>v. if v \<noteq> V_NONE then iret v else ev P r)
      else ibind (ev P l) (\<lambda>x. ibind (ev P r) (\<lambda>y. ibind (iget heap) (\<lambda>A.
             case binary_value (i_flt C) (to_string (i_fmt C) A (i_nest C)) opr x y of
               None \<Rightarrow> fail (''Unknown binary op: '' @ opr)
             | Some v \<Rightarrow> lift_idx (\<lambda>i. []) v))))"

definition negated :: "'f float_ops \<Rightarrow> 'f Value \<Rightarrow> 'f Value" where
  "negated F v =
     (case v of
        V_FLOAT x \<Rightarrow> V_FLOAT (f_neg F x)
      | _ \<Rightarrow> let n = to_int F v in if sint n = - (2 ^ 63) then V_FLOAT (f_neg F (f_of_int F (sint n))) else V_INT (- n))"

definition eval_unary :: "'f icfg \<Rightarrow> 'f iprocs \<Rightarrow> string \<Rightarrow> Expression \<Rightarrow> bool \<Rightarrow> ('f, 'f Value) im" where
  "eval_unary C P opr e is_prefix =
     (if opr = ''++'' \<or> opr = ''--'' then
        (case e of
           Expr _ (Variable n) \<Rightarrow>
             ibind (ilookup n) (\<lambda>v.
             ibind (lift_op (if opr = ''++'' then val_add (i_flt C) v (V_INT 1) else val_sub (i_flt C) v (V_INT 1))) (\<lambda>w.
             ithen (iset n w) (iret (if is_prefix then w else v))))
         | _ \<Rightarrow> fail ''++/-- requires a variable'')
      else
        ibind (ev P e) (\<lambda>v.
          if opr = ''-'' then iret (negated (i_flt C) v)
          else if opr = ''!'' then ibind (truthy C v) (\<lambda>b. iret (V_BOOL (\<not> b)))
          else if opr = ''~'' then iret (bitwise_not (i_flt C) v)
          else fail (''Unknown unary op: '' @ opr)))"

subsection \<open>Structures, elements and assignment\<close>

definition eval_member :: "'f icfg \<Rightarrow> 'f iprocs \<Rightarrow> Expression \<Rightarrow> string \<Rightarrow> ('f, 'f Value) im" where
  "eval_member C P e field =
     ibind (ev P e) (\<lambda>v.
       case v of
         V_ARRAY a \<Rightarrow>
           ibind (iget heap) (\<lambda>A.
             if is_assoc (A ! a) then
               (case assoc_find (to_string (i_fmt C) A (i_nest C)) field 1 (drop 1 (A ! a)) of
                  Inl e \<Rightarrow> ithrow StackExhausted
                | Inr None \<Rightarrow> iret V_NONE
                | Inr (Some i) \<Rightarrow> iret (A ! a ! i))
             else fail (''Cannot access field '' @ quoted field @ '' on a non-struct value''))
       | _ \<Rightarrow> fail (''Member access '' @ quoted (''.'' @ field) @ '' requires a struct or assoc array''))"

definition default_value :: "'f icfg \<Rightarrow> 'f Value option \<Rightarrow> ('f, 'f Value) im" where
  "default_value C d =
     (case d of
        None \<Rightarrow> iret V_NONE
      | Some (V_ARRAY a) \<Rightarrow> (\<lambda>s. case deep_clone (i_cloner C) (V_ARRAY a) (heap s) of (v, A) \<Rightarrow> (Inr v, s\<lparr>heap := A\<rparr>))
      | Some v \<Rightarrow> iret v)"

definition eval_struct :: "'f icfg \<Rightarrow> 'f iprocs \<Rightarrow> string \<Rightarrow> (string \<times> Expression) list \<Rightarrow> ('f, 'f Value) im" where
  "eval_struct C P name fds =
     ibind (iget (\<lambda>s. struct_defs s name)) (\<lambda>d.
       case d of
         None \<Rightarrow> fail (''Unknown struct '' @ quoted name)
       | Some defs \<Rightarrow>
           (case find (\<lambda>f. fst f \<notin> fst ` set defs) fds of
              Some f \<Rightarrow> fail (''Unknown field '' @ quoted (fst f) @ '' in struct '' @ quoted name)
            | None \<Rightarrow>
                ibind (imap (\<lambda>(n, d). ibind (case map_of fds n of Some e \<Rightarrow> ev P e | None \<Rightarrow> default_value C d)
                                           (\<lambda>v. iret [V_STRING n, v])) defs) (\<lambda>vs.
                alloc (ASSOC # V_STRING ''__struct__'' # V_STRING name # concat vs))))"

definition eval_index :: "'f icfg \<Rightarrow> 'f iprocs \<Rightarrow> Expression \<Rightarrow> Expression \<Rightarrow> ('f, 'f Value) im" where
  "eval_index C P e i =
     ibind (ev P e) (\<lambda>v. ibind (ev P i) (\<lambda>k. ibind (iget heap) (\<lambda>A.
       lift_idx (\<lambda>i. ''Array index '' @ int_str i @ '' out of bounds'')
         (index_expression (i_flt C) (to_string (i_fmt C) A (i_nest C)) A v k))))"

text \<open>The element is looked up after the right-hand side, the container and the index were evaluated, in this order.\<close>

definition element_assignment ::
    "'f icfg \<Rightarrow> 'f iprocs \<Rightarrow> string \<Rightarrow> string \<Rightarrow> Expression option \<Rightarrow> Expression \<Rightarrow> 'f Value \<Rightarrow> ('f, 'f Value) im" where
  "element_assignment C P name opr e i v =
     ibind (case e of Some e \<Rightarrow> ev P e | None \<Rightarrow> ilookup name) (\<lambda>c.
       case c of
         V_STRING t \<Rightarrow> fail ''Strings are immutable; cannot assign to a string index''
       | V_ARRAY a \<Rightarrow>
           ibind (ev P i) (\<lambda>k s.
             case index_assignment (i_flt C) (to_string (i_fmt C) (heap s) (i_nest C)) opr (heap s) c k v of
               (r, A) \<Rightarrow> lift_idx (\<lambda>i. ''Array index out of bounds'') r (s\<lparr>heap := A\<rparr>))
       | _ \<Rightarrow> fail ((case e of Some _ \<Rightarrow> ''assignment target'' | None \<Rightarrow> name) @ '' is not an array''))"

definition eval_assign ::
    "'f icfg \<Rightarrow> 'f iprocs \<Rightarrow> string \<Rightarrow> string \<Rightarrow> Expression option \<Rightarrow> Expression option \<Rightarrow> Expression \<Rightarrow> ('f, 'f Value) im" where
  "eval_assign C P name opr e i r =
     ibind (ev P r) (\<lambda>v.
       case i of
         Some i \<Rightarrow> element_assignment C P name opr e i v
       | None \<Rightarrow>
           ibind (if opr = ''='' then iret v
                  else ibind (ilookup name) (\<lambda>x. ibind (iget heap) (\<lambda>A.
                         lift_idx (\<lambda>i. []) (apply_op (i_flt C) (to_string (i_fmt C) A (i_nest C)) opr x v)))) (\<lambda>w.
           ithen (iset name w) (iret w)))"

subsection \<open>Function calls\<close>

definition closure_env :: "'f icfg \<Rightarrow> addr \<Rightarrow> ('f, addr) im" where
  "closure_env C e s =
     (case setup_globals s of
        None \<Rightarrow> (Inr e, s)
      | Some g0 \<Rightarrow>
          (case request_env (i_cloner C) g0 (genv s) e (envs s) (heap s) (rebased s) of
             (e', E, A, m) \<Rightarrow> (Inr e', s\<lparr>envs := E, heap := A, rebased := m\<rparr>)))"

definition expects :: "LookFunction \<Rightarrow> string \<Rightarrow> nat \<Rightarrow> nat \<Rightarrow> string" where
  "expects fn how n k =
     ''Function '' @ quoted (fun_name fn) @ '' expects '' @ how @ nat_str n @ '' args, got '' @ nat_str k"

text \<open>Parameters from position \<open>i\<close> on: the argument, or the default of the parameter, evaluated in the scope of the function. The scope of
  the caller comes back when an argument is missing and after the last parameter, not when a default throws.\<close>

fun bind_params ::
    "'f iprocs \<Rightarrow> LookFunction \<Rightarrow> string \<Rightarrow> nat \<Rightarrow> addr \<Rightarrow> addr \<Rightarrow> 'f Value list \<Rightarrow> nat \<Rightarrow> string list \<Rightarrow> ('f, unit) im" where
  "bind_params P fn how n saved fe args i [] = imod (\<lambda>s. s\<lparr>current := saved\<rparr>)"
| "bind_params P fn how n saved fe args i (p # ps) =
     ithen (if i < length args then idefine fe p (args ! i)
            else if length (fun_defaults fn) = length (fun_params fn) \<and> fun_defaults fn ! i \<noteq> None
            then ibind (ev P (the (fun_defaults fn ! i))) (idefine fe p)
            else ithen (imod (\<lambda>s. s\<lparr>current := saved\<rparr>)) (fail (expects fn how n (length args))))
           (bind_params P fn how n saved fe args (Suc i) ps)"

definition bind_arguments :: "'f iprocs \<Rightarrow> LookFunction \<Rightarrow> addr \<Rightarrow> 'f Value list \<Rightarrow> ('f, unit) im" where
  "bind_arguments P fn fe args =
     ibind (iget current) (\<lambda>saved.
       let enter_scope = imod (\<lambda>s. s\<lparr>current := fe\<rparr>); ps = fun_params fn in
       if fun_variadic fn then
         (if ps = [] then ithrow UndefinedBehaviour
          else ithen enter_scope
              (ithen (bind_params P fn ''at least '' (length ps - 1) saved fe args 0 (butlast ps))
              (ibind (alloc (drop (length ps - 1) args)) (idefine fe (last ps)))))
       else if length ps < length args then fail (expects fn ''at most '' (length ps) (length args))
       else ithen enter_scope (bind_params P fn [] (length ps) saved fe args 0 ps))"

definition I_MAX_CALL_DEPTH :: nat where
  "I_MAX_CALL_DEPTH = 256"

definition run_body :: "'f iprocs \<Rightarrow> addr \<Rightarrow> Statement list \<Rightarrow> ('f, 'f Value) im" where
  "run_body P fe body s =
     (case ifor (run P) body (s\<lparr>current := fe, call_depth := Suc (call_depth s)\<rparr>) of
        (r, s') \<Rightarrow> (case r of Inr _ \<Rightarrow> Inr V_NONE | Inl (ReturnException v) \<Rightarrow> Inr v | Inl e \<Rightarrow> Inl e,
                    s'\<lparr>current := current s, call_depth := call_depth s' - 1\<rparr>))"

text \<open>A function value without a function stands for a null pointer.\<close>

definition new_fn_env :: "addr \<Rightarrow> ('f, addr) im" where
  "new_fn_env p = ibind (new_env p) (\<lambda>e. ithen (imod (\<lambda>s. s\<lparr>envs := mark_fn_boundary (envs s) e\<rparr>)) (iret e))"

definition call_function :: "'f icfg \<Rightarrow> 'f iprocs \<Rightarrow> addr \<Rightarrow> 'f Value list \<Rightarrow> ('f, 'f Value) im" where
  "call_function C P f args =
     ibind (iget (\<lambda>s. (call_depth s, if f < length (funs s) then Some (funs s ! f) else None))) (\<lambda>(d, fn).
       case fn of
         None \<Rightarrow> ithrow UndefinedBehaviour
       | Some fn \<Rightarrow>
           if I_MAX_CALL_DEPTH \<le> d then fail (''Stack overflow: max call depth exceeded in '' @ quoted (fun_name fn))
           else
             ibind (closure_env C (fun_closure fn)) (\<lambda>ce.
             ibind (new_fn_env ce) (\<lambda>fe.
             ithen (bind_arguments P fn fe args)
                   (run_body P fe (fun_body fn)))))"

definition no_vm :: string where
  "no_vm = ''invoke: VM closure '' @ [CHR 0xE2, CHR 0x80, CHR 0x94] @ '' no active VM''"

definition invoke :: "'f icfg \<Rightarrow> 'f iprocs \<Rightarrow> 'f Value \<Rightarrow> 'f Value list \<Rightarrow> ('f, 'f Value) im" where
  "invoke C P f args =
     (case f of
        V_BYTECODE_FN a \<Rightarrow> fail no_vm
      | V_FUNCTION a \<Rightarrow> call_function C P a args
      | _ \<Rightarrow> fail ''invoke: not a function'')"

subsection \<open>Built-in functions\<close>

text \<open>The arguments a service evaluates, or its complaint.\<close>

definition service_args :: "string \<Rightarrow> string \<Rightarrow> nat \<Rightarrow> string + nat" where
  "service_args m f n =
     (let name = m @ ''::'' @ f @ ''()''; takes = (\<lambda>ok t k. if ok then Inr k else Inl (name @ '' takes '' @ t)) in
      if m = ''ws'' then
        (if f = ''on'' then takes (n = 3) ''3 arguments'' 3
         else if f = ''send'' then takes (n = 2) ''2 arguments'' 2
         else if f = ''close'' \<or> f = ''broadcast'' then takes (n = 1) ''1 argument'' 1
         else if f = ''clients'' then Inr 0
         else Inl (name @ '' not found''))
      else if m = ''timer'' then
        (if f = ''after'' \<or> f = ''every'' then takes (2 \<le> n) ''2 arguments'' 2
         else if f = ''cancel'' then takes (1 \<le> n) ''1 argument'' 1
         else Inl (name @ '' not found''))
      else
        (if f = ''send'' then takes (2 \<le> n) ''at least 2 arguments'' (min n 3)
         else if f = ''on'' then takes (n = 3) ''3 arguments'' 3
         else if f = ''close'' then takes (1 \<le> n) ''1 argument'' 1
         else if f = ''clients'' then Inr 0
         else Inl (name @ '' not found'')))"

text \<open>\<^verbatim>\<open>route::group\<close> outside a request: the callback runs.\<close>

definition route_group :: "'f icfg \<Rightarrow> 'f iprocs \<Rightarrow> Expression list \<Rightarrow> ('f, 'f Value) im" where
  "route_group C P args =
     (if length args < 2 then fail ''route::group() requires prefix and callback''
      else
        ibind (ibind (ev P (args ! 0)) (istr C)) (\<lambda>_.
        ibind (if 3 \<le> length args then ibind (ev P (args ! 1)) (\<lambda>_. ev P (args ! 2)) else ev P (args ! 1)) (\<lambda>cb.
        ibind (invoke C P cb []) (\<lambda>_. iret V_NONE))))"

definition module_function :: "string \<Rightarrow> string \<Rightarrow> string \<Rightarrow> ('f, 'f native) im" where
  "module_function m f advice =
     ibind (iget (\<lambda>s. modules s m)) (\<lambda>md.
       case md of
         None \<Rightarrow> fail (''Module '' @ quoted m @ '' not loaded.'' @ advice)
       | Some fns \<Rightarrow> (case fns f of None \<Rightarrow> fail (quoted m @ '' has no function '' @ quoted f) | Some g \<Rightarrow> iret g))"

definition module_call :: "'f icfg \<Rightarrow> 'f iprocs \<Rightarrow> string \<Rightarrow> string \<Rightarrow> Expression list \<Rightarrow> ('f, 'f Value) im" where
  "module_call C P m f args =
     (let service_on = (\<lambda>es. ibind (imap (ev P) es) (run_native (service C m f))) in
      if m \<in> {''ws'', ''timer'', ''sse''} then
        (case service_args m f (length args) of Inl t \<Rightarrow> fail t | Inr k \<Rightarrow> service_on (take k args))
      else if m = ''jobs'' \<and> f = ''run'' then service_on (take 1 args)
      else if m = ''route'' \<and> f = ''group'' then route_group C P args
      else ibind (module_function m f []) (\<lambda>g. ibind (imap (ev P) args) (run_native g)))"

fun join_with :: "string \<Rightarrow> string list \<Rightarrow> string" where
  "join_with sep [] = []"
| "join_with sep [t] = t"
| "join_with sep (t # u # r) = t @ sep @ join_with sep (u # r)"

text \<open>The built-in functions with names of their own; \<open>None\<close> for every other name.\<close>

definition arity_is :: "bool \<Rightarrow> string \<Rightarrow> ('f, 'a) im \<Rightarrow> ('f, 'a) im" where
  "arity_is ok t m = (if ok then m else fail t)"

definition array_builtin :: "'f icfg \<Rightarrow> 'f iprocs \<Rightarrow> string \<Rightarrow> Expression list \<Rightarrow> ('f, 'f Value) im option" where
  "array_builtin C P f args =
     (let n = length args; arg = (\<lambda>i. ev P (args ! i)) in
      if f = ''count'' \<or> f = ''len'' then
        Some (arity_is (n = 1) (f @ ''() takes 1 argument'')
          (ibind (arg 0) (\<lambda>v. ibind (iget heap) (\<lambda>A. iret (V_INT (of_nat (look_count A v)))))))
      else if f = ''push'' then
        Some (arity_is (n = 2) ''push() takes 2 arguments''
          (ibind (arg 0) (\<lambda>v. case v of
             V_ARRAY a \<Rightarrow> ibind (arg 1) (\<lambda>x. ithen (imod (\<lambda>s. s\<lparr>heap := (heap s)[a := heap s ! a @ [x]]\<rparr>)) (iret v))
           | _ \<Rightarrow> fail ''push() requires array as first argument'')))
      else if f = ''pop'' then
        Some (arity_is (n = 1) ''pop() takes 1 argument''
          (ibind (arg 0) (\<lambda>v. case v of
             V_ARRAY a \<Rightarrow> ibind (arr_of a) (\<lambda>xs.
               if xs = [] then iret V_NONE
               else ithen (imod (\<lambda>s. s\<lparr>heap := (heap s)[a := butlast xs]\<rparr>)) (iret (last xs)))
           | _ \<Rightarrow> fail ''pop() requires array'')))
      else if f = ''join'' then
        Some (arity_is (1 \<le> n) ''join() takes 1-2 arguments''
          (ibind (arg 0) (\<lambda>v. ibind (if 2 \<le> n then ibind (arg 1) (istr C) else iret []) (\<lambda>sep. case v of
             V_ARRAY a \<Rightarrow> ibind (arr_of a) (\<lambda>xs. ibind (imap (istr C) xs) (\<lambda>ts. iret (V_STRING (join_with sep ts))))
           | _ \<Rightarrow> fail ''join() requires array''))))
      else None)"

text \<open>Channels and tasks: the checks are those of the code, the effect is a parameter.\<close>

definition task_builtin :: "'f icfg \<Rightarrow> 'f iprocs \<Rightarrow> string \<Rightarrow> Expression list \<Rightarrow> ('f, 'f Value) im option" where
  "task_builtin C P f args =
     (let n = length args; arg = (\<lambda>i. ev P (args ! i)); go = (\<lambda>vs. run_native (service C [] f) vs) in
      if f = ''channel'' then
        Some (if n = 0 then go []
              else ibind (arg 0) (\<lambda>v.
                if sint (scast (to_int (i_flt C) v) :: u32) < 0 then fail ''channel: capacity cannot be negative'' else go [v]))
      else if f = ''send'' then
        Some (arity_is (n = 2) ''send() takes 2 arguments: send($ch, $val)''
          (ibind (arg 0) (\<lambda>c. ibind (arg 1) (\<lambda>v. case c of
             V_CHANNEL a \<Rightarrow> go [c, v] | _ \<Rightarrow> fail ''send() first argument must be a channel''))))
      else if f \<in> {''receive'', ''close'', ''chan_size''} then
        Some (arity_is (n = 1) (f @ ''() takes 1 argument'')
          (ibind (arg 0) (\<lambda>c. case c of V_CHANNEL a \<Rightarrow> go [c] | _ \<Rightarrow> fail (f @ ''() argument must be a channel''))))
      else if f = ''parallel'' then
        Some (arity_is (n = 1) ''parallel() takes 1 argument''
          (ibind (arg 0) (\<lambda>c. case c of V_FUNCTION a \<Rightarrow> go [c] | _ \<Rightarrow> fail ''parallel() requires a function'')))
      else None)"

definition config_key :: "string \<Rightarrow> string" where
  "config_key t = map toupper (case find_if (\<lambda>c. c = CHR ''.'') t of
     None \<Rightarrow> t @ ''_'' | Some i \<Rightarrow> take i t @ ''_'' @ drop (Suc i) t)"

definition env_builtin :: "'f icfg \<Rightarrow> 'f iprocs \<Rightarrow> string \<Rightarrow> Expression list \<Rightarrow> ('f, 'f Value) im option" where
  "env_builtin C P f args =
     (let var = (\<lambda>key. if args = [] then iret V_NONE
           else ibind (ibind (ev P (args ! 0)) (istr C)) (\<lambda>t. case env_var C (key t) of
                  Some x \<Rightarrow> iret (V_STRING x)
                | None \<Rightarrow> if 2 \<le> length args then ev P (args ! 1) else iret V_NONE)) in
      if f = ''args'' then Some (alloc (map V_STRING (script_args C)))
      else if f = ''env'' then Some (var (\<lambda>t. t))
      else if f = ''config'' then Some (var config_key)
      else if f = ''stop'' then Some (ithrow RouteStopException)
      else if f = ''json'' then
        Some (if args = [] then iret (V_STRING ''null'')
              else ibind (iget (\<lambda>s. modules s ''json'')) (\<lambda>md. case md of
                     Some fns \<Rightarrow> ibind (ev P (args ! 0)) (\<lambda>v. case fns ''encode'' of
                       Some g \<Rightarrow> run_native g [v] | None \<Rightarrow> fail ''map::at'')
                   | None \<Rightarrow> ibind (ibind (ev P (args ! 0)) (istr C)) (\<lambda>t. iret (V_STRING t))))
      else if f = ''exit'' \<or> f = ''die'' then
        Some (if args = [] then ithrow (ExitException 0)
              else ibind (ev P (args ! 0)) (\<lambda>v. case v of
                     V_INT i \<Rightarrow> ithrow (ExitException (ucast i))
                   | V_STRING t \<Rightarrow> ithen (imod (\<lambda>s. s\<lparr>out_text := out_text s @ t\<rparr>)) (ithrow (ExitException 0))
                   | _ \<Rightarrow> ithrow (ExitException 0)))
      else None)"

text \<open>The functions that read their arguments without counting them.\<close>

definition raw_arg :: "'f iprocs \<Rightarrow> Expression list \<Rightarrow> nat \<Rightarrow> ('f, 'f Value) im" where
  "raw_arg P args i = (if i < length args then ev P (args ! i) else ithrow UndefinedBehaviour)"

definition bool_value :: "'f float_ops \<Rightarrow> 'f Value \<Rightarrow> bool" where
  "bool_value F v = (to_int F v \<noteq> 0 \<or> (case v of V_STRING t \<Rightarrow> t \<noteq> [] \<and> t \<noteq> ''false'' \<and> t \<noteq> ''0'' | _ \<Rightarrow> False))"

definition legacy_builtin :: "'f icfg \<Rightarrow> 'f iprocs \<Rightarrow> string \<Rightarrow> Expression list \<Rightarrow> ('f, 'f Value) im option" where
  "legacy_builtin C P f args =
     (let F = i_flt C; arg = raw_arg P args;
          one = (\<lambda>g. Some (ibind (arg 0) (\<lambda>v. iret (g v))));
          text = (\<lambda>g. Some (ibind (ibind (arg 0) (istr C)) (\<lambda>t. iret (g t))));
          pick = (\<lambda>le. Some (ibind (arg 0) (\<lambda>a. ibind (arg 1) (\<lambda>b. ibind (lift_op (le a b)) (\<lambda>c. iret (if c then a else b)))))) in
      if f \<in> {''str'', ''strval'', ''string''} then text V_STRING
      else if f \<in> {''int'', ''intval''} then one (\<lambda>v. V_INT (to_int F v))
      else if f \<in> {''float'', ''floatval''} then one (\<lambda>v. V_FLOAT (to_float F v))
      else if f \<in> {''bool'', ''boolval''} then one (\<lambda>v. V_BOOL (bool_value F v))
      else if f = ''strlen'' then text (\<lambda>t. V_INT (scast (of_nat (length t) :: u32)))
      else if f = ''abs'' then one (\<lambda>v. case v of V_FLOAT x \<Rightarrow> V_FLOAT (i_fabs C x)
                                     | _ \<Rightarrow> let n = to_int F v in V_INT (if sint n < 0 then - n else n))
      else if f = ''max'' then pick (val_greater_eq F)
      else if f = ''min'' then pick (val_less_eq F)
      else if f = ''sqrt'' then one (\<lambda>v. V_FLOAT (i_sqrt C (to_float F v)))
      else if f = ''strtoupper'' then text (\<lambda>t. V_STRING (map toupper t))
      else if f = ''strtolower'' then text (\<lambda>t. V_STRING (map tolower t))
      else None)"

definition builtin_call :: "'f icfg \<Rightarrow> 'f iprocs \<Rightarrow> string \<Rightarrow> Expression list \<Rightarrow> ('f, 'f Value) im option" where
  "builtin_call C P f args =
     first_some (\<lambda>b. b C P f args) [array_builtin, task_builtin, env_builtin, legacy_builtin]"

text \<open>A call by name or of a value. The callee is evaluated before the arguments.\<close>

definition user_call :: "'f icfg \<Rightarrow> 'f iprocs \<Rightarrow> string \<Rightarrow> Expression \<Rightarrow> Expression list \<Rightarrow> ('f, 'f Value) im" where
  "user_call C P f callee args =
     (case registered C f of
        Some g \<Rightarrow> ibind (imap (ev P) args) (run_native g)
      | None \<Rightarrow>
          ibind (ev P callee) (\<lambda>v. case v of
            V_BYTECODE_FN a \<Rightarrow> invoke C P v []
          | V_FUNCTION a \<Rightarrow> ibind (imap (ev P) args) (call_function C P a)
          | V_NONE \<Rightarrow> fail (''Undefined variable: '' @ f)
          | _ \<Rightarrow> fail (quoted f @ '' is not callable (function expected)'')))"

definition eval_call :: "'f icfg \<Rightarrow> 'f iprocs \<Rightarrow> Expression \<Rightarrow> Expression list \<Rightarrow> ('f, 'f Value) im" where
  "eval_call C P callee args =
     (case callee of
        Expr _ (ScopeResolution m f) \<Rightarrow> module_call C P m f args
      | Expr _ (Variable f) \<Rightarrow> (case builtin_call C P f args of Some m \<Rightarrow> m | None \<Rightarrow> user_call C P f callee args)
      | _ \<Rightarrow> user_call C P [] callee args)"

subsection \<open>Expressions\<close>

definition eval_function :: "string list \<Rightarrow> Expression option list \<Rightarrow> string list \<Rightarrow> bool \<Rightarrow> Statement list \<Rightarrow> ('f, 'f Value) im" where
  "eval_function ps ds caps var body =
     ibind (if caps = [] then iget current
            else ibind (iget genv) (\<lambda>g. ibind (new_env g) (\<lambda>e.
                 ithen (ifor (\<lambda>n. ibind (icatch (ilookup n) (\<lambda>_. iret V_NONE)) (idefine e n)) caps) (iret e)))) (\<lambda>e s.
     (Inr (V_FUNCTION (length (funs s))),
      s\<lparr>funs := funs s @ [\<lparr>fun_name = ''__anonymous__'', fun_params = ps, fun_variadic = var, fun_body = body, fun_closure = e,
                            fun_defaults = ds\<rparr>]\<rparr>))"

definition evaluate_expression :: "'f icfg \<Rightarrow> 'f iprocs \<Rightarrow> Expression \<Rightarrow> ('f, 'f Value) im" where
  "evaluate_expression C P expr =
     (case expr of Expr loc node \<Rightarrow>
      (case node of
         ScopeResolution m f \<Rightarrow>
           ibind (module_function m f ('' Add: use '' @ m @ '';'')) (\<lambda>_. iret (V_STRING (''__module__:'' @ m @ ''::'' @ f)))
       | IotaExpression \<Rightarrow> iget (\<lambda>s. V_INT (of_nat (current_iota s)))
       | MemberAccessExpression e fld \<Rightarrow> eval_member C P e fld
       | StructLiteralExpression n fds \<Rightarrow> eval_struct C P n fds
       | TernaryExpression c a b \<Rightarrow> ibind (ibind (ev P c) (truthy C)) (\<lambda>t. if t then ev P a else ev P b)
       | NumberLiteral n \<Rightarrow> iret (V_INT n)
       | FloatLiteral t \<Rightarrow> iret (V_FLOAT (i_float C t))
       | BooleanLiteral b \<Rightarrow> iret (V_BOOL b)
       | NullLiteral \<Rightarrow> iret V_NONE
       | StringLiteral t is_raw \<Rightarrow> if is_raw then iret (V_STRING t) else ibind (interpolate_string C P t) (\<lambda>t. iret (V_STRING t))
       | FunctionExpression ps ds caps var body \<Rightarrow> eval_function ps ds caps var body
       | ArrayLiteral es \<Rightarrow> ibind (imap (ev P) es) alloc
       | AssocArrayLiteral kvs \<Rightarrow>
           ibind (imap (\<lambda>(k, v). ibind (ev P k) (\<lambda>x. ibind (ev P v) (\<lambda>y. iret [x, y]))) kvs) (\<lambda>vs. alloc (ASSOC # concat vs))
       | Variable n \<Rightarrow> ilookup n
       | IndexExpression e i \<Rightarrow> eval_index C P e i
       | AssignmentExpression n opr e i v \<Rightarrow> eval_assign C P n opr e i v
       | UnaryExpression opr e pre \<Rightarrow> eval_unary C P opr e pre
       | BinaryExpression l opr r \<Rightarrow> eval_binary C P l opr r
       | CallExpression callee args \<Rightarrow> eval_call C P callee args))"

subsection \<open>Blocks and loops\<close>

definition execute_block :: "'f iprocs \<Rightarrow> Statement list \<Rightarrow> ('f, unit) im" where
  "execute_block P b = ibind (ibind (iget current) new_env) (\<lambda>e. in_env e (ifor (run P) b))"

text \<open>A turn of a loop: whether the loop goes on.\<close>

definition turn :: "('f, unit) im \<Rightarrow> ('f, bool) im" where
  "turn m s =
     (case m s of
        (Inr _, s') \<Rightarrow> (Inr True, s')
      | (Inl ContinueException, s') \<Rightarrow> (Inr True, s')
      | (Inl BreakException, s') \<Rightarrow> (Inr False, s')
      | (Inl e, s') \<Rightarrow> (Inl e, s'))"

fun while_loop :: "'f icfg \<Rightarrow> 'f iprocs \<Rightarrow> nat \<Rightarrow> Expression \<Rightarrow> Statement list \<Rightarrow> ('f, unit) im" where
  "while_loop C P 0 c b = ithrow OutOfFuel"
| "while_loop C P (Suc k) c b =
     ibind (ibind (ev P c) (truthy C)) (\<lambda>t.
       if t then ibind (turn (execute_block P b)) (\<lambda>go. if go then while_loop C P k c b else iret ()) else iret ())"

fun for_loop :: "'f icfg \<Rightarrow> 'f iprocs \<Rightarrow> nat \<Rightarrow> Expression option \<Rightarrow> Expression option \<Rightarrow> Statement list \<Rightarrow> ('f, unit) im" where
  "for_loop C P 0 c p b = ithrow OutOfFuel"
| "for_loop C P (Suc k) c p b =
     ibind (case c of None \<Rightarrow> iret True | Some c \<Rightarrow> ibind (ev P c) (truthy C)) (\<lambda>t.
       if t then
         ibind (turn (execute_block P b)) (\<lambda>go.
           if go then ibind (case p of None \<Rightarrow> iret V_NONE | Some p \<Rightarrow> ev P p) (\<lambda>_. for_loop C P k c p b) else iret ())
       else iret ())"

text \<open>The scope of the loop is left only when the loop ends by itself.\<close>

definition execute_for ::
    "'f icfg \<Rightarrow> 'f iprocs \<Rightarrow> Statement option \<Rightarrow> Expression option \<Rightarrow> Expression option \<Rightarrow> Statement list \<Rightarrow> ('f, unit) im" where
  "execute_for C P i c p b =
     ibind (iget current) (\<lambda>prev.
     ibind (new_env prev) (\<lambda>e.
     ithen (imod (\<lambda>s. s\<lparr>current := e\<rparr>))
    (ithen (case i of None \<Rightarrow> iret () | Some i \<Rightarrow> run P i)
    (ithen (for_loop C P (turns P) c p b)
           (imod (\<lambda>s. s\<lparr>current := prev\<rparr>))))))"

text \<open>The array is read anew at every turn; in a map the step is two.\<close>

fun foreach_loop ::
    "'f iprocs \<Rightarrow> nat \<Rightarrow> bool \<Rightarrow> addr \<Rightarrow> nat \<Rightarrow> string \<Rightarrow> string \<Rightarrow> Statement list \<Rightarrow> ('f, unit) im" where
  "foreach_loop P 0 assoc a i k v b = ithrow OutOfFuel"
| "foreach_loop P (Suc n) assoc a i k v b =
     ibind (arr_of a) (\<lambda>arr.
       if (if assoc then Suc i else i) < length arr then
         ibind (ibind (iget current) new_env) (\<lambda>e.
         ithen (if k \<noteq> [] then idefine e k (if assoc then arr ! i else V_INT (of_nat i)) else iret ())
        (ithen (idefine e v (if assoc then arr ! Suc i else arr ! i))
        (ibind (turn (in_env e (ifor (run P) b))) (\<lambda>go.
           if go then foreach_loop P n assoc a (if assoc then i + 2 else i + 1) k v b else iret ()))))
       else iret ())"

definition execute_foreach :: "'f iprocs \<Rightarrow> Expression \<Rightarrow> string \<Rightarrow> string \<Rightarrow> Statement list \<Rightarrow> ('f, unit) im" where
  "execute_foreach P e k v b =
     ibind (ev P e) (\<lambda>it. case it of
       V_ARRAY a \<Rightarrow> ibind (arr_of a) (\<lambda>arr. foreach_loop P (turns P) (is_assoc arr) a (if is_assoc arr then 1 else 0) k v b)
     | _ \<Rightarrow> fail ''foreach requires an array'')"

subsection \<open>Exceptions and branches\<close>

fun is_control :: "'f exn \<Rightarrow> bool" where
  "is_control (ReturnException v) = True"
| "is_control BreakException = True"
| "is_control ContinueException = True"
| "is_control (ExitException i) = True"
| "is_control RouteMatchedException = True"
| "is_control _ = False"

fun caught_value :: "'f exn \<Rightarrow> 'f Value" where
  "caught_value (RuntimeError (Some v) t) = v"
| "caught_value (RuntimeError None t) = V_STRING t"
| "caught_value _ = V_STRING ''route_stop''"

definition finally_block :: "'f iprocs \<Rightarrow> Statement list option \<Rightarrow> ('f, unit) im" where
  "finally_block P fb = (case fb of None \<Rightarrow> iret () | Some b \<Rightarrow> execute_block P b)"

text \<open>The finally block runs after the try block, after the catch block, and when either is left by control flow or the try
  block by an error that is not caught; not when the catch block fails.\<close>

definition execute_try ::
    "'f iprocs \<Rightarrow> Statement list \<Rightarrow> string \<Rightarrow> Statement list option \<Rightarrow> Statement list option \<Rightarrow> ('f, unit) im" where
  "execute_try P tb var cb fb =
     (let fin = finally_block P fb;
          run_catch = (\<lambda>b. icatch (execute_block P b) (\<lambda>e. if is_control e then ithen fin (ithrow e) else ithrow e)) in
      ithen (icatch (execute_block P tb) (\<lambda>e.
               if is_control e then ithen fin (ithrow e)
               else case cb of
                      None \<Rightarrow> ithen fin (ithrow e)
                    | Some b \<Rightarrow> ithen (if var \<noteq> [] then ibind (iget current) (\<lambda>c. idefine c var (caught_value e)) else iret ())
                                      (run_catch b)))
            fin)"

definition run_case :: "'f iprocs \<Rightarrow> Statement list \<Rightarrow> ('f, unit) im" where
  "run_case P b = icatch (execute_block P b) (\<lambda>e. case e of BreakException \<Rightarrow> iret () | _ \<Rightarrow> ithrow e)"

fun matches :: "'f icfg \<Rightarrow> 'f iprocs \<Rightarrow> 'f Value \<Rightarrow> Expression list \<Rightarrow> ('f, bool) im" where
  "matches C P v [] = iret False"
| "matches C P v (e # es) = ibind (ev P e) (\<lambda>w. if val_eq (i_flt C) v w then iret True else matches C P v es)"

text \<open>A case without values is the default; the last of them counts.\<close>

fun switch_cases ::
    "'f icfg \<Rightarrow> 'f iprocs \<Rightarrow> 'f Value \<Rightarrow> Statement list option \<Rightarrow> (Expression list \<times> Statement list) list \<Rightarrow> ('f, unit) im" where
  "switch_cases C P v dflt [] = (case dflt of None \<Rightarrow> iret () | Some b \<Rightarrow> run_case P b)"
| "switch_cases C P v dflt ((es, b) # cs) =
     (if es = [] then switch_cases C P v (Some b) cs
      else ibind (matches C P v es) (\<lambda>m. if m then run_case P b else switch_cases C P v dflt cs))"

subsection \<open>Declarations\<close>

definition declare_function ::
    "'f icfg \<Rightarrow> string \<Rightarrow> string list \<Rightarrow> Expression option list \<Rightarrow> bool \<Rightarrow> Statement list \<Rightarrow> ('f, unit) im" where
  "declare_function C n ps ds var body =
     (if reserved C n then fail (quoted n @ '' is a builtin '' @ [CHR 0xE2, CHR 0x80, CHR 0x94] @ '' cannot be redefined'')
      else (\<lambda>s. idefine (current s) n (V_FUNCTION (length (funs s)))
        (s\<lparr>funs := funs s @ [\<lparr>fun_name = n, fun_params = ps, fun_variadic = var, fun_body = body, fun_closure = current s,
                              fun_defaults = ds\<rparr>]\<rparr>)))"

definition declare_struct :: "'f iprocs \<Rightarrow> string \<Rightarrow> (string \<times> Expression option) list \<Rightarrow> ('f, unit) im" where
  "declare_struct P n fds =
     ibind (imap (\<lambda>(f, d). case d of None \<Rightarrow> iret (f, None) | Some e \<Rightarrow> ibind (ev P e) (\<lambda>v. iret (f, Some v))) fds) (\<lambda>defs.
     imod (\<lambda>s. s\<lparr>struct_defs := (struct_defs s)(n \<mapsto> defs)\<rparr>))"

text \<open>An item without a value repeats the last expression with the next counter.\<close>

fun const_items :: "'f iprocs \<Rightarrow> Expression option \<Rightarrow> nat \<Rightarrow> (string \<times> Expression option) list \<Rightarrow> ('f, unit) im" where
  "const_items P last_e i [] = imod (\<lambda>s. s\<lparr>current_iota := 0\<rparr>)"
| "const_items P last_e i ((n, e) # its) =
     (let e' = (case e of None \<Rightarrow> last_e | Some _ \<Rightarrow> e) in
      ithen (imod (\<lambda>s. s\<lparr>current_iota := i\<rparr>))
     (ibind (case e' of None \<Rightarrow> iret (V_INT (of_nat i)) | Some x \<Rightarrow> ev P x) (\<lambda>v.
      ithen (iset n v) (const_items P e' (Suc i) its))))"

subsection \<open>Modules and files\<close>

fun lex_text :: "lex_error \<Rightarrow> string" where
  "lex_text (Unterminated_comment n) = ''Unterminated block comment starting at line '' @ nat_str n"
| "lex_text (Unterminated_string n) = ''Unterminated string at line '' @ nat_str n"
| "lex_text (Unterminated_raw_string n) = ''Unterminated raw string at line '' @ nat_str n"
| "lex_text (Unexpected_character c) = ''Unexpected character: '' @ quoted [c]"

definition load_program :: "(string \<Rightarrow> string) \<Rightarrow> string \<Rightarrow> ('f, Program) im" where
  "load_program lex_msg t =
     (case scan_tokens t of
        Inl e \<Rightarrow> fail (lex_msg (lex_text e))
      | Inr ts \<Rightarrow>
          (case parse ts of
             Inl (LookParseError msg l c) \<Rightarrow> fail msg
           | Inl _ \<Rightarrow> ithrow OutOfFuel
           | Inr prog \<Rightarrow> iret prog))"

text \<open>A file runs in a scope of its own under the globals; names that are no variables then become global.\<close>

definition exported :: "string \<times> 'f Value \<Rightarrow> bool" where
  "exported kv = (fst kv \<noteq> [] \<and> hd (fst kv) \<noteq> CHR ''$'')"

definition in_file :: "string \<Rightarrow> ('f, 'a) im \<Rightarrow> ('f, 'a) im" where
  "in_file path m s = (case m (s\<lparr>current_file := path\<rparr>) of (r, s') \<Rightarrow> (r, s'\<lparr>current_file := current_file s\<rparr>))"

definition run_file :: "'f iprocs \<Rightarrow> string \<Rightarrow> Program \<Rightarrow> ('f, unit) im" where
  "run_file P path prog =
     ibind (iget genv) (\<lambda>g.
     ibind (new_env g) (\<lambda>e.
     ithen (in_file path (in_env e (ifor (run P) prog)))
    (ibind (iget (\<lambda>s. filter exported (env_values (envs s ! e)))) (ifor (\<lambda>(n, v). idefine g n v)))))"

definition execute_use :: "'f icfg \<Rightarrow> 'f iprocs \<Rightarrow> string \<Rightarrow> string \<Rightarrow> ('f, unit) im" where
  "execute_use C P name alias =
     (case stdlib C name of
        Some m \<Rightarrow> imod (\<lambda>s. s\<lparr>modules := (modules s)((if alias = [] then name else alias) \<mapsto> m)\<rparr>)
      | None \<Rightarrow>
          (case module_file C name of
             Some path \<Rightarrow>
               ibind (iget (\<lambda>s. path \<in> included_files s)) (\<lambda>known.
                 if known then iret ()
                 else ithen (imod (\<lambda>s. s\<lparr>included_files := insert path (included_files s)\<rparr>))
                     (case read_file C path of
                        None \<Rightarrow> fail (''Could not open module file: '' @ path)
                      | Some t \<Rightarrow> ibind (load_program (\<lambda>e. e) t) (run_file P path)))
           | None \<Rightarrow>
               if name \<in> {''ws'', ''timer'', ''sse''} then
                 fail (quoted name @ '' is built in and is not a module: remove the '' @ quoted (''use '' @ name) @ '' line and call '' @
                   name @ '':: directly.'')
               else fail (''Unknown module: '' @ quoted name @ ''. If it is a package, install it with: lk module install '' @ name)))"

definition execute_use_file :: "'f icfg \<Rightarrow> 'f iprocs \<Rightarrow> string \<Rightarrow> ('f, unit) im" where
  "execute_use_file C P file =
     ibind (iget (\<lambda>s. resolve C (current_file s) file)) (\<lambda>path.
       if \<not> prefix (project_root C) path then
         fail (''use '' @ dquoted file @ '': file module cannot escape the project directory'')
       else
         ibind (iget (\<lambda>s. path \<in> included_files s)) (\<lambda>known.
           if known then fail (''Circular include: '' @ dquoted file)
           else ithen (imod (\<lambda>s. s\<lparr>included_files := insert path (included_files s)\<rparr>))
               (case read_file C path of
                  None \<Rightarrow> fail (''Cannot open included file: '' @ dquoted file)
                | Some t \<Rightarrow> ibind (load_program (\<lambda>e. ''Lexer error in '' @ dquoted file @ '': '' @ e) t) (run_file P path))))"

subsection \<open>Statements and programs\<close>

definition build_output :: "'f icfg \<Rightarrow> 'f iprocs \<Rightarrow> Expression list \<Rightarrow> ('f, string) im" where
  "build_output C P es = ibind (imap (\<lambda>e. ibind (ev P e) (istr C)) es) (\<lambda>ts. iret (join_with '' '' ts))"

definition write_out :: "string \<Rightarrow> ('f, unit) im" where
  "write_out t = imod (\<lambda>s. s\<lparr>out_text := out_text s @ t\<rparr>)"

definition execute_throw :: "'f icfg \<Rightarrow> 'f iprocs \<Rightarrow> Expression \<Rightarrow> ('f, unit) im" where
  "execute_throw C P e = ibind (ev P e) (\<lambda>v. ibind (istr C v) (\<lambda>t. ithrow (RuntimeError (Some v) t)))"

definition execute_statement :: "'f icfg \<Rightarrow> 'f iprocs \<Rightarrow> Statement \<Rightarrow> ('f, unit) im" where
  "execute_statement C P stmt =
     (case stmt of Stmt loc node \<Rightarrow>
      (case node of
         UseStatement n alias \<Rightarrow> execute_use C P n alias
       | UseFileStatement f \<Rightarrow> execute_use_file C P f
       | PrintStatement es \<Rightarrow> ibind (build_output C P es) (\<lambda>t. write_out (t @ [CHR 10]))
       | WriteStatement es \<Rightarrow> ibind (build_output C P es) write_out
       | ExpressionStatement e \<Rightarrow> ibind (ev P e) (\<lambda>_. iret ())
       | BlockStatement b \<Rightarrow> execute_block P b
       | IfStatement c a b \<Rightarrow>
           ibind (ibind (ev P c) (truthy C)) (\<lambda>t. if t then execute_block P a else (case b of None \<Rightarrow> iret () | Some b \<Rightarrow> execute_block P b))
       | WhileStatement c b \<Rightarrow> while_loop C P (turns P) c b
       | ForStatement i c p b \<Rightarrow> execute_for C P i c p b
       | ForeachStatement e k v b \<Rightarrow> execute_foreach P e k v b
       | TryCatchStatement tb var cb fb \<Rightarrow> execute_try P tb var cb fb
       | SwitchStatement e cs \<Rightarrow> ibind (ev P e) (\<lambda>v. switch_cases C P v None cs)
       | BreakStatement \<Rightarrow> ithrow BreakException
       | ContinueStatement \<Rightarrow> ithrow ContinueException
       | FunctionDeclaration n ps ds var body \<Rightarrow> declare_function C n ps ds var body
       | StructDeclaration n fds \<Rightarrow> declare_struct P n fds
       | ConstBlock its \<Rightarrow> const_items P None 0 its
       | ReturnStatement e \<Rightarrow> ibind (case e of None \<Rightarrow> iret V_NONE | Some e \<Rightarrow> ev P e) (\<lambda>v. ithrow (ReturnException v))
       | ThrowStatement e \<Rightarrow> execute_throw C P e))"

text \<open>The procedures with at most \<open>n\<close> nested calls and turns of a loop.\<close>

fun iprocs_at :: "'f icfg \<Rightarrow> nat \<Rightarrow> 'f iprocs" where
  "iprocs_at C 0 = \<lparr>ev = (\<lambda>e. ithrow OutOfFuel), run = (\<lambda>st. ithrow OutOfFuel), turns = 0\<rparr>"
| "iprocs_at C (Suc n) =
     \<lparr>ev = evaluate_expression C (iprocs_at C n), run = execute_statement C (iprocs_at C n), turns = Suc n\<rparr>"

definition interpret_program :: "'f icfg \<Rightarrow> nat \<Rightarrow> Program \<Rightarrow> ('f, unit) im" where
  "interpret_program C n prog = ifor (run (iprocs_at C n)) prog"

text \<open>The interpreter at the start: one scope, which is the globals.\<close>

definition interp_new :: "(string \<rightharpoonup> 'f module_fns) \<Rightarrow> 'f interp" where
  "interp_new core = \<lparr>heap = [], envs = [\<lparr>env_values = [], env_parent = None, fn_boundary = False\<rparr>], funs = [], genv = 0, current = 0,
     out_text = [], modules = core, struct_defs = Map.empty, current_iota = 0, call_depth = 0, included_files = {}, current_file = [],
     setup_globals = None, rebased = Map.empty\<rparr>"

end
