(* ===== verification/Interp_Scope.thy ===== *)
theory Interp_Scope
  imports Interp
begin

text \<open>
  What the interpreter does to scopes. Assignments look for their variable up to the scope of the running function, so a call can
  change no variable that existed before it; \<open>keeps n\<close> is a logic for that over the computations of the interpreter, and the same rules,
  for \<open>n = 0\<close>, give the invariant of the state: scopes form trees, and the current scope, the globals and the scopes of closures exist.
\<close>

subsection \<open>Scopes\<close>

definition interp_inv :: "'f interp \<Rightarrow> bool" where
  "interp_inv s \<longleftrightarrow> wf_envs (envs s) \<and> current s < length (envs s) \<and> genv s < length (envs s) \<and>
     (\<forall>f \<in> set (funs s). fun_closure f < length (envs s)) \<and> (\<forall>a e. rebased s a = Some e \<longrightarrow> e < length (envs s))"

text \<open>A scope all of whose assignments go to scopes from \<open>n\<close> on.\<close>

definition mine :: "nat \<Rightarrow> 'f Env list \<Rightarrow> addr \<Rightarrow> bool" where
  "mine n E e \<longleftrightarrow> e < length E \<and> (\<forall>j \<in> set (env_scope E e). n \<le> j)"

definition grown :: "nat \<Rightarrow> 'f Env list \<Rightarrow> 'f Env list \<Rightarrow> bool" where
  "grown n E E' \<longleftrightarrow> length E \<le> length E' \<and> (\<forall>i < n. i < length E \<longrightarrow> E' ! i = E ! i) \<and>
     (\<forall>i < length E. env_parent (E' ! i) = env_parent (E ! i) \<and> fn_boundary (E' ! i) = fn_boundary (E ! i))"

lemma grown_refl [simp]: "grown n E E"
  by (simp add: grown_def)

lemma grown_trans: "grown n E F \<Longrightarrow> grown n F G \<Longrightarrow> grown n E G"
  unfolding grown_def by (auto intro: le_trans)

lemma env_scope_rec:
  assumes "wf_envs E" "i < length E"
  shows "env_scope E i = i # (if fn_boundary (E ! i) then [] else case env_parent (E ! i) of Some p \<Rightarrow> env_scope E p | None \<Rightarrow> [])"
  using env_chain_parent [OF assms] by (auto simp: env_scope_def split: option.splits)

lemma grown_scope:
  assumes "wf_envs E" "grown n E E'" "wf_envs E'"
  shows "i < length E \<Longrightarrow> env_scope E' i = env_scope E i"
proof (induction i rule: less_induct)
  case (less i)
  have "i < length E'" using less.prems assms(2) by (simp add: grown_def)
  then show ?case
    using less assms(2) wf_envs_parent [OF assms(1) less.prems]
    by (auto simp: env_scope_rec assms(1,3) grown_def split: option.splits)
qed

lemma mine_grown: "wf_envs E \<Longrightarrow> wf_envs E' \<Longrightarrow> grown n E E' \<Longrightarrow> mine n E e \<Longrightarrow> mine n E' e"
  using grown_scope [of E n E' e] by (auto simp: mine_def grown_def)

lemma mine_le: "wf_envs E \<Longrightarrow> mine n E e \<Longrightarrow> n \<le> e"
  by (auto simp: mine_def env_scope_rec)

lemma mine_zero: "e < length E \<Longrightarrow> mine 0 E e"
  by (simp add: mine_def)

subsection \<open>Changes to scopes\<close>

declare env_define_struct [simp]

lemma grown_define: "n \<le> e \<Longrightarrow> grown n E (env_define E e x v)"
  by (auto simp: grown_def env_define_nth)

lemma wf_env_define [simp]: "wf_envs (env_define E e x v) = wf_envs E"
  by (simp add: wf_envs_def)

lemma grown_append: "n \<le> length E \<Longrightarrow> grown n E (E @ F)"
  by (auto simp: grown_def nth_append)

lemma wf_env_append: "wf_envs E \<Longrightarrow> (\<And>p. env_parent x = Some p \<Longrightarrow> p < length E) \<Longrightarrow> wf_envs (E @ [x])"
  by (auto simp: wf_envs_def nth_append less_Suc_eq)

lemma mine_new:
  assumes "wf_envs E" "mine n E p"
  shows "mine n (E @ [\<lparr>env_values = vs, env_parent = Some p, fn_boundary = False\<rparr>]) (length E)"
proof -
  let ?E = "E @ [\<lparr>env_values = vs, env_parent = Some p, fn_boundary = False\<rparr>]"
  have p: "p < length E" "n \<le> length E" using assms mine_le [of E n p] by (auto simp: mine_def)
  have wf: "wf_envs ?E" using assms(1) p by (intro wf_env_append) auto
  have "env_scope ?E (length E) = length E # env_scope ?E p" using env_scope_rec [OF wf, of "length E"] by simp
  moreover have "env_scope ?E p = env_scope E p" using grown_scope [OF assms(1) grown_append wf] p by blast
  ultimately show ?thesis using assms(2) p by (auto simp: mine_def)
qed

lemma mine_fn:
  assumes "wf_envs E" "p < length E" "n \<le> length E"
  shows "mine n (E @ [\<lparr>env_values = vs, env_parent = Some p, fn_boundary = True\<rparr>]) (length E)"
proof -
  have "wf_envs (E @ [\<lparr>env_values = vs, env_parent = Some p, fn_boundary = True\<rparr>])" using assms by (intro wf_env_append) auto
  then show ?thesis using assms env_scope_rec [of "E @ [\<lparr>env_values = vs, env_parent = Some p, fn_boundary = True\<rparr>]" "length E"]
    by (simp add: mine_def)
qed

lemma env_set_grown:
  assumes "wf_envs E" "mine n E e" "env_set E e x v = Some (Inr E')"
  shows "grown n E E' \<and> wf_envs E' \<and> length E' = length E"
proof -
  have e: "e < length E" using assms(2) by (simp add: mine_def)
  obtain j where j: "set_target E e x = Some j" "E' = env_define E j x v"
    using assms(3) env_set_spec [OF assms(1) e, of x v] by (auto split: option.splits)
  then have "j \<in> set (env_scope E e)" unfolding set_target_def by (auto dest!: first_some_SomeD split: if_splits)
  then show ?thesis using assms j by (auto simp: mine_def grown_define)
qed

subsection \<open>The logic\<close>

datatype efact = Mine addr | Fresh addr | Valid addr

fun eholds :: "nat \<Rightarrow> 'f Env list \<Rightarrow> efact \<Rightarrow> bool" where
  "eholds n E (Mine e) = mine n E e"
| "eholds n E (Fresh e) = (n \<le> e \<and> e < length E)"
| "eholds n E (Valid e) = (e < length E)"

abbreviation all_hold :: "nat \<Rightarrow> 'f interp \<Rightarrow> efact set \<Rightarrow> bool" where
  "all_hold n s R \<equiv> \<forall>x \<in> R. eholds n (envs s) x"

lemma eholds_grown: "wf_envs E \<Longrightarrow> wf_envs E' \<Longrightarrow> grown n E E' \<Longrightarrow> eholds n E x \<Longrightarrow> eholds n E' x"
  by (cases x) (auto simp: mine_grown grown_def)

text \<open>A state from which a computation may start, and what it leads to.\<close>

definition ready :: "nat \<Rightarrow> 'f interp \<Rightarrow> bool" where
  "ready n s \<longleftrightarrow> interp_inv s \<and> mine n (envs s) (current s)"

definition keeps :: "nat \<Rightarrow> efact set \<Rightarrow> ('f, 'a) im \<Rightarrow> ('a \<Rightarrow> efact set) \<Rightarrow> bool" where
  "keeps n R m Q \<longleftrightarrow> (\<forall>s. ready n s \<longrightarrow> all_hold n s R \<longrightarrow>
     (case m s of (r, s') \<Rightarrow> ready n s' \<and> grown n (envs s) (envs s') \<and> (\<forall>y. r = Inr y \<longrightarrow> all_hold n s' (Q y))))"

named_theorems keeps_rules \<open>the rules of the logic\<close>

lemma keepsI:
  fixes m :: "('f, 'a) im"
  assumes "\<And>s r s'. ready n s \<Longrightarrow> all_hold n s R \<Longrightarrow> m s = (r, s') \<Longrightarrow>
     ready n s' \<and> grown n (envs s) (envs s') \<and> (\<forall>y. r = Inr y \<longrightarrow> all_hold n s' (Q y))"
  shows "keeps n R m Q"
  unfolding keeps_def
proof (intro allI impI)
  fix s :: "'f interp"
  assume "ready n s" "all_hold n s R"
  then show "case m s of (r, s') \<Rightarrow> ready n s' \<and> grown n (envs s) (envs s') \<and> (\<forall>y. r = Inr y \<longrightarrow> all_hold n s' (Q y))"
    using assms [of s] by (cases "m s") simp
qed

lemma keepsD:
  assumes "keeps n R m Q" "ready n s" "all_hold n s R" "m s = (r, s')"
  shows "ready n s'" "grown n (envs s) (envs s')" "r = Inr y \<Longrightarrow> all_hold n s' (Q y)"
proof -
  have "case m s of (r, s') \<Rightarrow> ready n s' \<and> grown n (envs s) (envs s') \<and> (\<forall>y. r = Inr y \<longrightarrow> all_hold n s' (Q y))"
    using assms(1-3) unfolding keeps_def by simp
  then show "ready n s'" "grown n (envs s) (envs s')" "r = Inr y \<Longrightarrow> all_hold n s' (Q y)" by (simp_all add: assms(4))
qed

lemma ready_wf: "ready n s \<Longrightarrow> wf_envs (envs s)"
  by (simp add: ready_def interp_inv_def)

lemma all_hold_grown:
  "ready n s \<Longrightarrow> ready n s' \<Longrightarrow> grown n (envs s) (envs s') \<Longrightarrow> all_hold n s R \<Longrightarrow> all_hold n s' R"
  by (meson eholds_grown ready_wf)

lemma keeps_bind [keeps_rules]:
  assumes m: "keeps n R m Q" and k: "\<And>x. keeps n (R \<union> Q x) (k x) Q'"
  shows "keeps n R (ibind m k) Q'"
proof (rule keepsI)
  fix s :: "'a interp" and r s'
  assume s: "ready n s" "all_hold n s R" and run: "ibind m k s = (r, s')"
  obtain r1 s1 where 1: "m s = (r1, s1)" by fastforce
  note m1 = keepsD [OF m s 1]
  show "ready n s' \<and> grown n (envs s) (envs s') \<and> (\<forall>y. r = Inr y \<longrightarrow> all_hold n s' (Q' y))"
  proof (cases r1)
    case (Inl e)
    then show ?thesis using run 1 m1 by (auto simp: ibind_def)
  next
    case (Inr x)
    then have 2: "k x s1 = (r, s')" using run 1 by (simp add: ibind_def)
    have "all_hold n s1 (R \<union> Q x)" using all_hold_grown [OF s(1) m1(1,2) s(2)] m1(3) [OF Inr] by blast
    note k1 = keepsD [OF k m1(1) this 2]
    then show ?thesis using grown_trans [OF m1(2)] by blast
  qed
qed

lemma keeps_ret [keeps_rules]: "keeps n R (iret x) (\<lambda>_. {})"
  by (rule keepsI) (auto simp: iret_def)

lemma keeps_ret_fact: "Q x \<subseteq> R \<Longrightarrow> keeps n R (iret x) Q"
  by (rule keepsI) (auto simp: iret_def)

lemma keeps_throw [keeps_rules]: "keeps n R (ithrow e) Q"
  by (rule keepsI) (auto simp: ithrow_def)

lemma keeps_fail [keeps_rules]: "keeps n R (fail t) Q"
  by (simp add: fail_def keeps_throw)

lemma keeps_get_current [keeps_rules]: "keeps n R (iget current) (\<lambda>e. {Mine e})"
  by (rule keepsI) (auto simp: iget_def ready_def)

lemma keeps_get_genv [keeps_rules]: "keeps n R (iget genv) (\<lambda>e. {Valid e})"
  by (rule keepsI) (auto simp: iget_def ready_def interp_inv_def)

lemma keeps_get [keeps_rules]: "keeps n R (iget g) (\<lambda>_. {})"
  by (rule keepsI) (auto simp: iget_def)

text \<open>Changes that leave the scopes alone.\<close>

definition same_scopes :: "'f interp \<Rightarrow> 'f interp \<Rightarrow> bool" where
  "same_scopes s s' \<longleftrightarrow> envs s' = envs s \<and> current s' = current s \<and> genv s' = genv s \<and> funs s' = funs s \<and> rebased s' = rebased s"

lemma keeps_same: "(\<And>s. same_scopes s (snd (m s))) \<Longrightarrow> keeps n R m (\<lambda>_. {})"
  by (rule keepsI) (metis (no_types, lifting) empty_iff grown_refl interp_inv_def ready_def same_scopes_def snd_conv)

lemma keeps_mod [keeps_rules]: "(\<And>s. same_scopes s (g s)) \<Longrightarrow> keeps n R (imod g) (\<lambda>_. {})"
  by (rule keeps_same) (simp add: imod_def)

lemma keeps_alloc [keeps_rules]: "keeps n R (alloc vs) (\<lambda>_. {})"
  by (rule keeps_same) (simp add: alloc_def same_scopes_def)

lemma keeps_str [keeps_rules]: "keeps n R (istr C v) (\<lambda>_. {})"
  by (rule keeps_same) (simp add: istr_def same_scopes_def split: option.splits)

lemma keeps_truthy [keeps_rules]: "keeps n R (truthy C v) (\<lambda>_. {})"
  by (simp add: truthy_def keeps_get)

lemma keeps_arr_of [keeps_rules]: "keeps n R (arr_of a) (\<lambda>_. {})"
  by (simp add: arr_of_def keeps_get)

lemma keeps_native [keeps_rules]: "keeps n R (run_native f vs) (\<lambda>_. {})"
  by (rule keeps_same) (simp add: run_native_def same_scopes_def split: prod.splits)

lemma keeps_lift_op [keeps_rules]: "keeps n R (lift_op r) (\<lambda>_. {})"
  by (cases r) (auto simp: lift_op_def intro: keeps_rules)

lemma keeps_lift_idx [keeps_rules]: "keeps n R (lift_idx b r) (\<lambda>_. {})"
  by (auto simp: lift_idx_def intro: keeps_rules split: sum.splits idx_error.splits)

lemma keeps_lookup [keeps_rules]: "keeps n R (ilookup x) (\<lambda>_. {})"
  by (rule keeps_same) (simp add: ilookup_def fail_def ithrow_def same_scopes_def split: option.splits sum.splits env_error.splits)

lemma keeps_default [keeps_rules]: "keeps n R (default_value C d) (\<lambda>_. {})"
  by (rule keeps_same) (auto simp: default_value_def iret_def same_scopes_def split: option.splits Value.splits prod.splits)

text \<open>Control structures.\<close>

lemma keeps_if [keeps_rules]: "keeps n R a Q \<Longrightarrow> keeps n R b Q \<Longrightarrow> keeps n R (if c then a else b) Q"
  by simp

lemma keeps_option [keeps_rules]: "keeps n R a Q \<Longrightarrow> (\<And>x. keeps n R (f x) Q) \<Longrightarrow> keeps n R (case y of None \<Rightarrow> a | Some x \<Rightarrow> f x) Q"
  by (simp split: option.split)

lemma keeps_sum [keeps_rules]: "(\<And>x. keeps n R (f x) Q) \<Longrightarrow> (\<And>x. keeps n R (g x) Q) \<Longrightarrow> keeps n R (case y of Inl x \<Rightarrow> f x | Inr x \<Rightarrow> g x) Q"
  by (simp split: sum.split)

lemma keeps_prod [keeps_rules]: "(\<And>a b. keeps n R (f a b) Q) \<Longrightarrow> keeps n R (case y of (a, b) \<Rightarrow> f a b) Q"
  by (simp split: prod.split)

lemma keeps_list [keeps_rules]: "keeps n R a Q \<Longrightarrow> (\<And>x xs. keeps n R (f x xs) Q) \<Longrightarrow> keeps n R (case y of [] \<Rightarrow> a | x # xs \<Rightarrow> f x xs) Q"
  by (simp split: list.split)

lemma keeps_for [keeps_rules]: "(\<And>x. keeps n R (f x) (\<lambda>_. {})) \<Longrightarrow> keeps n R (ifor f xs) (\<lambda>_. {})"
proof (induction xs)
  case (Cons x xs)
  then show ?case using keeps_bind [of n R "f x" "\<lambda>_. {}" "\<lambda>_. ifor f xs" "\<lambda>_. {}"] by simp
qed (simp add: keeps_ret)

lemma keeps_map [keeps_rules]:
  assumes "\<And>x. keeps n R (f x) (\<lambda>_. {})"
  shows "keeps n R (imap f xs) (\<lambda>_. {})"
proof (induction xs)
  case (Cons x xs)
  have "keeps n (R \<union> {}) (imap f xs) (\<lambda>_. {})" using Cons by simp
  then show ?case unfolding imap.simps by (intro keeps_bind [OF assms] keeps_bind [where Q = "\<lambda>_. {}"] keeps_ret)
qed (simp add: keeps_ret)

lemma keeps_catch [keeps_rules]:
  assumes m: "keeps n R m (\<lambda>_. {})" and h: "\<And>e. keeps n R (h e) (\<lambda>_. {})"
  shows "keeps n R (icatch m h) (\<lambda>_. {})"
proof (rule keepsI)
  fix s :: "'a interp" and r s'
  assume s: "ready n s" "all_hold n s R" and run: "icatch m h s = (r, s')"
  obtain r1 s1 where 1: "m s = (r1, s1)" by fastforce
  note m1 = keepsD [OF m s 1]
  show "ready n s' \<and> grown n (envs s) (envs s') \<and> (\<forall>y. r = Inr y \<longrightarrow> all_hold n s' {})"
  proof (cases "\<exists>e. r1 = Inl e \<and> \<not> fatal e")
    case True
    then obtain e where 2: "h e s1 = (r, s')" using run 1 by (auto simp: icatch_def)
    show ?thesis using keepsD [OF h m1(1) all_hold_grown [OF s(1) m1(1,2) s(2)] 2] grown_trans [OF m1(2)] by auto
  next
    case False
    then have "s' = s1" using run 1 by (cases r1) (auto simp: icatch_def)
    then show ?thesis using m1 by auto
  qed
qed

lemma keeps_turn [keeps_rules]:
  assumes "keeps n R m (\<lambda>_. {})"
  shows "keeps n R (turn m) (\<lambda>_. {})"
proof (rule keepsI)
  fix s :: "'a interp" and r s'
  assume s: "ready n s" "all_hold n s R" and run: "turn m s = (r, s')"
  obtain r1 s1 where 1: "m s = (r1, s1)" by fastforce
  then have "s' = s1" using run by (auto simp: turn_def split: sum.splits exn.splits)
  then show "ready n s' \<and> grown n (envs s) (envs s') \<and> (\<forall>y. r = Inr y \<longrightarrow> all_hold n s' {})" using keepsD [OF assms s 1] by auto
qed

subsection \<open>Scopes in the logic\<close>

lemma keeps_mono: "keeps n R m Q \<Longrightarrow> R \<subseteq> R' \<Longrightarrow> keeps n R' m Q"
  unfolding keeps_def by (meson subsetD)

lemma ready_le: "ready n s \<Longrightarrow> n \<le> length (envs s)"
  using mine_le [of "envs s" n "current s"] by (auto simp: ready_def interp_inv_def mine_def)

lemma inv_grown:
  assumes "interp_inv s" "wf_envs E" "grown n (envs s) E"
  shows "interp_inv (s\<lparr>envs := E\<rparr>)"
  using assms unfolding interp_inv_def grown_def by (simp, meson less_le_trans)

lemma ready_grown:
  assumes "ready n s" "wf_envs E" "grown n (envs s) E"
  shows "ready n (s\<lparr>envs := E\<rparr>)"
  using inv_grown [OF _ assms(2,3)] mine_grown [OF ready_wf [OF assms(1)] assms(2,3)] assms(1) by (simp add: ready_def)

lemma ready_in: "ready n s \<Longrightarrow> mine n (envs s) e \<Longrightarrow> ready n (s\<lparr>current := e\<rparr>)"
  by (auto simp: ready_def interp_inv_def mine_def)

lemma keeps_new [keeps_rules]:
  assumes "Mine p \<in> R"
  shows "keeps n R (new_env p) (\<lambda>e. {Mine e})"
proof (rule keepsI)
  fix s :: "'a interp" and r s'
  assume s: "ready n s" "all_hold n s R" and run: "new_env p s = (r, s')"
  let ?E = "envs s @ [\<lparr>env_values = [], env_parent = Some p, fn_boundary = False\<rparr>]"
  have s': "r = Inr (length (envs s))" "s' = s\<lparr>envs := ?E\<rparr>" using run by (auto simp: new_env_def env_new_def)
  have p: "mine n (envs s) p" using assms s(2) by auto
  then have wf: "wf_envs ?E" using ready_wf [OF s(1)] by (intro wf_env_append) (auto simp: mine_def)
  have g: "grown n (envs s) ?E" using ready_le [OF s(1)] by (rule grown_append)
  show "ready n s' \<and> grown n (envs s) (envs s') \<and> (\<forall>y. r = Inr y \<longrightarrow> all_hold n s' {Mine y})"
    unfolding s' using ready_grown [OF s(1) wf g] g mine_new [OF ready_wf [OF s(1)] p] by simp
qed

lemma keeps_new_valid [keeps_rules]:
  assumes "Valid p \<in> R"
  shows "keeps n R (new_env p) (\<lambda>e. {Fresh e})"
proof (rule keepsI)
  fix s :: "'a interp" and r s'
  assume s: "ready n s" "all_hold n s R" and run: "new_env p s = (r, s')"
  let ?E = "envs s @ [\<lparr>env_values = [], env_parent = Some p, fn_boundary = False\<rparr>]"
  have s': "r = Inr (length (envs s))" "s' = s\<lparr>envs := ?E\<rparr>" using run by (auto simp: new_env_def env_new_def)
  have "p < length (envs s)" using assms s(2) by auto
  then have wf: "wf_envs ?E" using ready_wf [OF s(1)] by (intro wf_env_append) auto
  have g: "grown n (envs s) ?E" using ready_le [OF s(1)] by (rule grown_append)
  show "ready n s' \<and> grown n (envs s) (envs s') \<and> (\<forall>y. r = Inr y \<longrightarrow> all_hold n s' {Fresh y})"
    unfolding s' using ready_grown [OF s(1) wf g] g ready_le [OF s(1)] by simp
qed

lemma keeps_define [keeps_rules]:
  assumes "Mine e \<in> R \<or> Fresh e \<in> R"
  shows "keeps n R (idefine e x v) (\<lambda>_. {})"
proof (rule keepsI)
  fix s :: "'a interp" and r s'
  assume s: "ready n s" "all_hold n s R" and run: "idefine e x v s = (r, s')"
  have "n \<le> e" using assms s(2) mine_le [OF ready_wf [OF s(1)], of n e] by auto
  then have g: "grown n (envs s) (env_define (envs s) e x v)" by (rule grown_define)
  have "ready n (s\<lparr>envs := env_define (envs s) e x v\<rparr>)" using ready_grown [OF s(1) _ g] ready_wf [OF s(1)] by simp
  then show "ready n s' \<and> grown n (envs s) (envs s') \<and> (\<forall>y. r = Inr y \<longrightarrow> all_hold n s' {})"
    using run g by (auto simp: idefine_def imod_def)
qed

lemma keeps_set [keeps_rules]: "keeps n R (iset x v) (\<lambda>_. {})"
proof (rule keepsI)
  fix s :: "'a interp" and r s'
  assume s: "ready n s" "all_hold n s R" and run: "iset x v s = (r, s')"
  have cur: "mine n (envs s) (current s)" using s(1) by (simp add: ready_def)
  note wf = ready_wf [OF s(1)]
  have "s' = s \<or> (\<exists>E. s' = s\<lparr>envs := E\<rparr> \<and> grown n (envs s) E \<and> wf_envs E)"
    using run env_set_grown [OF wf cur, of x v] grown_define [OF mine_le [OF wf cur]] wf
    by (fastforce simp: iset_def idefine_def imod_def split: option.splits sum.splits)
  then show "ready n s' \<and> grown n (envs s) (envs s') \<and> (\<forall>y. r = Inr y \<longrightarrow> all_hold n s' {})"
    using s(1) ready_grown [OF s(1)] by auto
qed

lemma keeps_in_env [keeps_rules]:
  assumes "Mine e \<in> R" and m: "keeps n R m (\<lambda>_. {})"
  shows "keeps n R (in_env e m) (\<lambda>_. {})"
proof (rule keepsI)
  fix s :: "'a interp" and r s'
  assume s: "ready n s" "all_hold n s R" and run: "in_env e m s = (r, s')"
  obtain s2 where 2: "m (s\<lparr>current := e\<rparr>) = (r, s2)" "s' = s2\<lparr>current := current s\<rparr>"
    using run by (auto simp: in_env_def split: prod.splits)
  have "ready n (s\<lparr>current := e\<rparr>)" using ready_in [OF s(1)] assms(1) s(2) by auto
  note m2 = keepsD [OF m this _ 2(1)]
  have m2: "ready n s2" "grown n (envs s) (envs s2)" using m2(1,2) s(2) by auto
  have "mine n (envs s2) (current s)"
    using mine_grown [OF ready_wf [OF s(1)] ready_wf [OF m2(1)] m2(2)] s(1) by (simp add: ready_def)
  then show "ready n s' \<and> grown n (envs s) (envs s') \<and> (\<forall>y. r = Inr y \<longrightarrow> all_hold n s' {})"
    using ready_in [OF m2(1)] m2(2) 2(2) by auto
qed

subsection \<open>Calls\<close>

definition procs_keep :: "nat \<Rightarrow> 'f iprocs \<Rightarrow> bool" where
  "procs_keep n P \<longleftrightarrow> (\<forall>e. keeps n {} (ev P e) (\<lambda>_. {})) \<and> (\<forall>st. keeps n {} (run P st) (\<lambda>_. {}))"

lemma keeps_ev [keeps_rules]: "procs_keep n P \<Longrightarrow> keeps n R (ev P e) (\<lambda>_. {})"
  unfolding procs_keep_def by (rule keeps_mono [of n "{}"]) simp_all

lemma keeps_run [keeps_rules]: "procs_keep n P \<Longrightarrow> keeps n R (run P st) (\<lambda>_. {})"
  unfolding procs_keep_def by (rule keeps_mono [of n "{}"]) simp_all

text \<open>The rebinding of closures to the globals of a request only adds scopes.\<close>

lemma request_env_scopes:
  assumes "request_env bc g0 g env E A memo = (e, E', A', memo')" "wf_envs E" "env < length E" "g < length E"
    "\<forall>a b. memo a = Some b \<longrightarrow> b < length E"
  shows "(\<exists>F. E' = E @ F) \<and> wf_envs E' \<and> e < length E' \<and> (\<forall>a b. memo' a = Some b \<longrightarrow> b < length E')"
  using assms
proof (induction bc g0 g env E A memo arbitrary: e E' A' memo' rule: request_env.induct)
  case (1 bc g0 g env E A memo)
  show ?case
  proof (cases "env = g0 \<or> g0 \<notin> set (env_chain E env) \<or> memo env \<noteq> None \<or> env_parent (E ! env) = None")
    case True
    then show ?thesis using "1.prems" by (auto simp: request_env.simps [of bc g0 g env] split: if_splits option.splits)
  next
    case False
    then obtain p where p: "env_parent (E ! env) = Some p" "p < env" using wf_envs_parent "1.prems"(2,3) by blast
    obtain p' E1 A1 memo1 where r: "request_env bc g0 g p E A memo = (p', E1, A1, memo1)" by (metis prod_cases4)
    have ih: "(\<exists>F. E1 = E @ F) \<and> wf_envs E1 \<and> p' < length E1 \<and> (\<forall>a b. memo1 a = Some b \<longrightarrow> b < length E1)"
      using "1.IH" [OF _ _ _ p r] False p "1.prems" by auto
    obtain kvs A2 where k: "clone_bindings (rebase_value bc) (env_values (E1 ! env)) A1 = (kvs, A2)" by fastforce
    let ?x = "\<lparr>env_values = kvs, env_parent = Some p', fn_boundary = fn_boundary (E1 ! env)\<rparr>"
    have eq: "e = length E1" "E' = E1 @ [?x]" "memo' = memo1(env \<mapsto> length E1)"
      using "1.prems"(1) False p r k by (auto simp: request_env.simps [of bc g0 g env] env_rebased_def split: if_splits)
    moreover have "wf_envs (E1 @ [?x])" using ih by (intro wf_env_append) auto
    ultimately show ?thesis using ih by (auto simp: less_Suc_eq)
  qed
qed

text \<open>What a call comes to, from a state of which only the invariant is known: the current scope is the one before the call, or one of
  the new ones when a default value failed.\<close>

definition calls :: "nat \<Rightarrow> addr \<Rightarrow> 'f interp \<Rightarrow> ('f exn + 'a) \<times> 'f interp \<Rightarrow> bool" where
  "calls n c s res \<longleftrightarrow> interp_inv (snd res) \<and> grown n (envs s) (envs (snd res)) \<and>
     (current (snd res) = c \<or> mine n (envs (snd res)) (current (snd res))) \<and> (\<forall>x. fst res = Inr x \<longrightarrow> current (snd res) = c)"

lemma inv_current: "interp_inv s \<Longrightarrow> c < length (envs s) \<Longrightarrow> interp_inv (s\<lparr>current := c\<rparr>)"
  by (simp add: interp_inv_def)

lemma calls_trans: "grown n (envs s) (envs s1) \<Longrightarrow> calls n c s1 res \<Longrightarrow> calls n c s res"
  unfolding calls_def using grown_trans by blast

lemma bind_params_calls:
  assumes P: "procs_keep n P"
  shows "ready n s \<Longrightarrow> mine n (envs s) fe \<Longrightarrow> saved < length (envs s) \<Longrightarrow> calls n saved s (bind_params P fn how k saved fe args i ps s)"
proof (induction ps arbitrary: i s)
  case Nil
  then show ?case using inv_current [of s saved] by (simp add: calls_def imod_def ready_def)
next
  case (Cons p ps)
  let ?has = "length (fun_defaults fn) = length (fun_params fn) \<and> fun_defaults fn ! i \<noteq> None"
  show ?case
  proof (cases "i < length args \<or> ?has")
    case True
    let ?m = "if i < length args then idefine fe p (args ! i) else ibind (ev P (the (fun_defaults fn ! i))) (idefine fe p)"
    have m: "keeps n {Mine fe} ?m (\<lambda>_. {})" by (rule keeps_rules P | simp)+
    obtain r1 s1 where 1: "?m s = (r1, s1)" by fastforce
    have m1: "ready n s1" "grown n (envs s) (envs s1)" using keepsD(1,2) [OF m Cons.prems(1) _ 1] Cons.prems(2) by auto
    have eq: "bind_params P fn how k saved fe args i (p # ps) s =
        (case r1 of Inl e \<Rightarrow> (Inl e, s1) | Inr _ \<Rightarrow> bind_params P fn how k saved fe args (Suc i) ps s1)"
      using 1 True by (auto simp: ibind_def split: if_splits sum.splits prod.splits)
    show ?thesis
    proof (cases r1)
      case (Inl e)
      then show ?thesis using eq m1 by (simp add: calls_def ready_def)
    next
      case (Inr u)
      have "mine n (envs s1) fe"
        using mine_grown [OF ready_wf [OF Cons.prems(1)] ready_wf [OF m1(1)] m1(2) Cons.prems(2)] .
      moreover have "saved < length (envs s1)" using Cons.prems(3) m1(2) by (simp add: grown_def)
      ultimately have "calls n saved s (bind_params P fn how k saved fe args (Suc i) ps s1)"
        by (intro calls_trans [OF m1(2)] Cons.IH m1(1))
      then show ?thesis using eq Inr by simp
    qed
  next
    case False
    then show ?thesis using Cons.prems inv_current [of s saved]
      by (auto simp: calls_def ibind_def imod_def fail_def ithrow_def ready_def)
  qed
qed

lemma bind_arguments_calls:
  fixes s :: "'f interp"
  assumes P: "procs_keep n P" and s: "interp_inv s" "mine n (envs s) fe"
  shows "calls n (current s) s (bind_arguments P fn fe args s)"
proof -
  let ?s = "s\<lparr>current := fe\<rparr>"
  have r: "ready n ?s" using s by (auto simp: ready_def interp_inv_def mine_def)
  have c: "current s < length (envs ?s)" using s(1) by (simp add: interp_inv_def)
  have bp: "calls n (current s) s (bind_params P fn how k (current s) fe args i ps ?s)" for how k i ps
    using bind_params_calls [OF P r _ c] s(2) by (simp add: calls_def)
  have vr: "calls n (current s) s
      (ithen (bind_params P fn how k (current s) fe args i ps) (ibind (alloc vs) (idefine fe x)) ?s)" for how k i ps vs x
  proof -
    obtain r1 s1 where 1: "bind_params P fn how k (current s) fe args i ps ?s = (r1, s1)" by fastforce
    note b = bp [of how k i ps, unfolded 1]
    show ?thesis
    proof (cases r1)
      case (Inl e)
      then show ?thesis using b 1 by (simp add: ibind_def calls_def)
    next
      case (Inr u)
      have g: "grown n (envs s) (envs s1)" "interp_inv s1" "current s1 = current s" using b Inr by (auto simp: calls_def)
      have fe: "n \<le> fe" using mine_le s by (auto simp: interp_inv_def)
      let ?E = "env_define (envs s1) fe x (V_ARRAY (length (heap s1)))"
      have "grown n (envs s1) ?E" using fe by (rule grown_define)
      then have "grown n (envs s) ?E" "interp_inv (s1\<lparr>envs := ?E\<rparr>)"
        using grown_trans [OF g(1)] inv_grown [OF g(2)] g(2) by (auto simp: interp_inv_def)
      then show ?thesis using 1 Inr g(3) by (simp add: ibind_def calls_def alloc_def idefine_def imod_def interp_inv_def)
    qed
  qed
  have "calls n (current s) s ((ithrow e :: ('f, unit) im) s)" for e using s(1) by (simp add: calls_def ithrow_def)
  then show ?thesis unfolding bind_arguments_def Let_def fail_def using bp vr by (simp add: ibind_def iget_def imod_def)
qed

lemma run_body_calls:
  assumes P: "procs_keep n P" and s: "interp_inv s" "mine n (envs s) fe"
  shows "calls n (current s) s (run_body P fe body s)"
proof -
  let ?s = "s\<lparr>current := fe, call_depth := Suc (call_depth s)\<rparr>"
  have r: "ready n ?s" using s by (auto simp: ready_def interp_inv_def mine_def)
  obtain r1 s1 where 1: "ifor (run P) body ?s = (r1, s1)" by fastforce
  have k: "keeps n {} (ifor (run P) body) (\<lambda>_. {})" by (rule keeps_rules P)+
  have m: "ready n s1" "grown n (envs s) (envs s1)" using keepsD(1,2) [OF k r _ 1] by auto
  have "current s < length (envs s1)" using s(1) m(2) by (auto simp: interp_inv_def grown_def)
  then have "interp_inv (s1\<lparr>current := current s, call_depth := call_depth s1 - 1\<rparr>)" using m(1) by (simp add: ready_def interp_inv_def)
  then show ?thesis using m(2) by (simp add: run_body_def 1 calls_def)
qed

lemma closure_env_scopes:
  assumes "interp_inv s" "e < length (envs s)" "closure_env C e s = (r, s')" "n \<le> length (envs s)"
  shows "interp_inv s' \<and> grown n (envs s) (envs s') \<and> current s' = current s \<and> funs s' = funs s \<and> (\<exists>e'. r = Inr e' \<and> e' < length (envs s'))"
proof (cases "setup_globals s")
  case None
  then show ?thesis using assms by (auto simp: closure_env_def)
next
  case (Some g0)
  obtain e' E A m where r: "request_env (i_cloner C) g0 (genv s) e (envs s) (heap s) (rebased s) = (e', E, A, m)" by (metis prod_cases4)
  have *: "(\<exists>F. E = envs s @ F) \<and> wf_envs E \<and> e' < length E \<and> (\<forall>a b. m a = Some b \<longrightarrow> b < length E)"
    using request_env_scopes [OF r] assms(1,2) by (auto simp: interp_inv_def)
  then have g: "grown n (envs s) E" using grown_append [OF assms(4)] by auto
  have "interp_inv (s\<lparr>envs := E\<rparr>)" using inv_grown [OF assms(1) _ g] * by blast
  then show ?thesis using assms(3) Some r * g by (auto simp: closure_env_def interp_inv_def)
qed

lemma new_fn_env_scopes:
  assumes "interp_inv s" "e < length (envs s)" "new_fn_env e s = (r, s')" "n \<le> length (envs s)"
  shows "interp_inv s' \<and> grown n (envs s) (envs s') \<and> current s' = current s \<and> (\<exists>fe. r = Inr fe \<and> mine n (envs s') fe)"
proof -
  let ?E = "envs s @ [\<lparr>env_values = [], env_parent = Some e, fn_boundary = True\<rparr>]"
  have eq: "r = Inr (length (envs s))" "s' = s\<lparr>envs := ?E\<rparr>"
    using assms(3) by (auto simp: new_fn_env_def ibind_def new_env_def env_new_def imod_def iret_def mark_fn_boundary_def)
  have wf: "wf_envs ?E" "wf_envs (envs s)" using assms(1,2) by (auto simp: interp_inv_def intro: wf_env_append)
  have g: "grown n (envs s) ?E" by (rule grown_append [OF assms(4)])
  have "interp_inv (s\<lparr>envs := ?E\<rparr>)" by (rule inv_grown [OF assms(1) wf(1) g])
  then show ?thesis using eq g mine_fn [OF wf(2) assms(2,4)] by simp
qed

lemma call_function_calls:
  assumes P: "procs_keep n P" and s: "interp_inv s" "n \<le> length (envs s)"
  shows "calls n (current s) s (call_function C P f args s)"
proof (cases "f < length (funs s) \<and> \<not> I_MAX_CALL_DEPTH \<le> call_depth s")
  case False
  then show ?thesis using s(1) by (auto simp: call_function_def ibind_def iget_def fail_def ithrow_def calls_def)
next
  case True
  let ?fn = "funs s ! f"
  have "fun_closure ?fn < length (envs s)" using True s(1) by (auto simp: interp_inv_def)
  then obtain e s1 where 1: "closure_env C (fun_closure ?fn) s = (Inr e, s1)" "interp_inv s1" "grown n (envs s) (envs s1)"
      "current s1 = current s" "e < length (envs s1)"
    using closure_env_scopes [OF s(1) _ _ s(2)] by (metis prod.exhaust)
  have n1: "n \<le> length (envs s1)" using s(2) 1(3) by (simp add: grown_def)
  obtain fe s2 where 2: "new_fn_env e s1 = (Inr fe, s2)" "interp_inv s2" "grown n (envs s1) (envs s2)" "current s2 = current s"
      "mine n (envs s2) fe"
    using new_fn_env_scopes [OF 1(2,5) _ n1] 1(4) by (metis prod.exhaust)
  obtain r3 s3 where 3: "bind_arguments P ?fn fe args s2 = (r3, s3)" by fastforce
  have g2: "grown n (envs s) (envs s2)" using grown_trans [OF 1(3) 2(3)] .
  have c3: "calls n (current s) s (r3, s3)" using calls_trans [OF g2] bind_arguments_calls [OF P 2(2,5)] 2(4) 3 by metis
  have eq: "call_function C P f args s = (case r3 of Inl e \<Rightarrow> (Inl e, s3) | Inr _ \<Rightarrow> run_body P fe (fun_body ?fn) s3)"
    using True 1(1) 2(1) 3 by (auto simp: call_function_def ibind_def iget_def split: sum.splits)
  show ?thesis
  proof (cases r3)
    case (Inl e)
    then show ?thesis using eq c3 by (simp add: calls_def)
  next
    case (Inr u)
    have 4: "interp_inv s3" "grown n (envs s2) (envs s3)" "current s3 = current s"
      using bind_arguments_calls [OF P 2(2,5), of ?fn args] 3 Inr 2(4) by (auto simp: calls_def)
    have "mine n (envs s3) fe" using mine_grown [OF _ _ 4(2) 2(5)] 2(2) 4(1) by (simp add: interp_inv_def)
    then have "calls n (current s) s3 (run_body P fe (fun_body ?fn) s3)" using run_body_calls [OF P 4(1)] 4(3) by metis
    then show ?thesis using calls_trans grown_trans [OF g2 4(2)] eq Inr by simp
  qed
qed

lemma keeps_call [keeps_rules]:
  assumes "procs_keep n P"
  shows "keeps n R (call_function C P f args) (\<lambda>_. {})"
proof (rule keepsI)
  fix s :: "'a interp" and r s'
  assume s: "ready n s" and run: "call_function C P f args s = (r, s')"
  have "calls n (current s) s (r, s')" using call_function_calls [OF assms _ ready_le [OF s], of C f args] run s by (simp add: ready_def)
  then have *: "interp_inv s'" "grown n (envs s) (envs s')" "current s' = current s \<or> mine n (envs s') (current s')" by (auto simp: calls_def)
  have "mine n (envs s') (current s)" using mine_grown [OF _ _ *(2)] s *(1) by (simp add: ready_def interp_inv_def)
  then show "ready n s' \<and> grown n (envs s) (envs s') \<and> (\<forall>y. r = Inr y \<longrightarrow> all_hold n s' {})" using * by (auto simp: ready_def)
qed

subsection \<open>Expressions\<close>

lemma keeps_Value [keeps_rules]:
  assumes "\<And>x. keeps n R (f1 x) Q" "\<And>x. keeps n R (f2 x) Q" "\<And>x. keeps n R (f3 x) Q" "\<And>x. keeps n R (f4 x) Q" "\<And>x. keeps n R (f5 x) Q"
    "\<And>x. keeps n R (f6 x) Q" "\<And>x. keeps n R (f7 x) Q" "\<And>x. keeps n R (f8 x) Q" "\<And>x. keeps n R (f9 x) Q" "\<And>x. keeps n R (f10 x) Q"
    "keeps n R f11 Q"
  shows "keeps n R (case_Value f1 f2 f3 f4 f5 f6 f7 f8 f9 f10 f11 v) Q"
  using assms by (cases v) simp_all

lemma keeps_interpolate [keeps_rules]:
  assumes P: "procs_keep n P"
  shows "keeps n R (interpolate_string C P t) (\<lambda>_. {})"
proof -
  have frag: "keeps n R (case fragment_text C P t of None \<Rightarrow> iret u | Some m \<Rightarrow> icatch m (\<lambda>e. iret u)) (\<lambda>_. {})" for t u R
    unfolding fragment_text_def
    by (auto split: sum.splits list.splits Statement.splits stmt_node.splits intro!: keeps_rules P)
  have "keeps n R (interpolate_loop C P k t) (\<lambda>_. {})" for k R
  proof (induction k arbitrary: t R)
    case 0
    show ?case unfolding interpolate_loop.simps by (rule keeps_ret)
  next
    case (Suc k)
    show ?case unfolding interpolate_loop.simps Let_def by (rule frag Suc.IH keeps_rules)+
  qed
  then show ?thesis by (simp add: interpolate_string_def)
qed

lemma keeps_binary [keeps_rules]: "procs_keep n P \<Longrightarrow> keeps n R (eval_binary C P l opr r) (\<lambda>_. {})"
  unfolding eval_binary_def Let_def by (rule keeps_rules | assumption)+

lemma keeps_Expr [keeps_rules]: "(\<And>l nd. keeps n R (f l nd) Q) \<Longrightarrow> keeps n R (case e of Expr l nd \<Rightarrow> f l nd) Q"
  by (cases e) simp

lemma keeps_Stmt [keeps_rules]: "(\<And>l nd. keeps n R (f l nd) Q) \<Longrightarrow> keeps n R (case e of Stmt l nd \<Rightarrow> f l nd) Q"
  by (cases e) simp

lemma keeps_unary [keeps_rules]: "procs_keep n P \<Longrightarrow> keeps n R (eval_unary C P opr e pre) (\<lambda>_. {})"
  unfolding eval_unary_def by (auto split: Expression.split expr_node.split intro!: keeps_rules)

lemma keeps_member [keeps_rules]: "procs_keep n P \<Longrightarrow> keeps n R (eval_member C P e fld) (\<lambda>_. {})"
  unfolding eval_member_def by (rule keeps_rules | assumption)+

lemma keeps_struct [keeps_rules]: "procs_keep n P \<Longrightarrow> keeps n R (eval_struct C P x fds) (\<lambda>_. {})"
  unfolding eval_struct_def by (rule keeps_rules | assumption)+

lemma keeps_index [keeps_rules]: "procs_keep n P \<Longrightarrow> keeps n R (eval_index C P e i) (\<lambda>_. {})"
  unfolding eval_index_def by (rule keeps_rules | assumption)+

lemma keeps_store [keeps_rules]:
  "keeps n R (\<lambda>s. case g s of (r, A) \<Rightarrow> lift_idx b r (s\<lparr>heap := A\<rparr>)) (\<lambda>_. {})"
  by (rule keeps_same)
    (auto simp: lift_idx_def same_scopes_def iret_def ithrow_def fail_def split: prod.splits sum.splits idx_error.splits)

lemma keeps_assign [keeps_rules]: "procs_keep n P \<Longrightarrow> keeps n R (eval_assign C P x opr e i v) (\<lambda>_. {})"
  unfolding eval_assign_def element_assignment_def by (rule keeps_rules | assumption)+

lemma keeps_invoke [keeps_rules]: "procs_keep n P \<Longrightarrow> keeps n R (invoke C P f args) (\<lambda>_. {})"
  unfolding invoke_def by (rule keeps_rules | assumption)+

lemma keeps_arity [keeps_rules]: "keeps n R m Q \<Longrightarrow> keeps n R (arity_is ok t m) Q"
  unfolding arity_is_def by (rule keeps_rules | assumption)+

lemma keeps_module_call [keeps_rules]: "procs_keep n P \<Longrightarrow> keeps n R (module_call C P m f args) (\<lambda>_. {})"
  unfolding module_call_def Let_def route_group_def module_function_def by (rule keeps_rules | assumption)+

lemma keeps_raw [keeps_rules]: "procs_keep n P \<Longrightarrow> keeps n R (raw_arg P args i) (\<lambda>_. {})"
  unfolding raw_arg_def by (rule keeps_rules | assumption)+

lemma same_scopes_simps [simp]:
  "same_scopes s (s\<lparr>heap := A\<rparr>)" "same_scopes s (s\<lparr>out_text := t\<rparr>)" "same_scopes s (s\<lparr>struct_defs := d\<rparr>)"
  "same_scopes s (s\<lparr>current_iota := i\<rparr>)" "same_scopes s (s\<lparr>modules := md\<rparr>)" "same_scopes s (s\<lparr>included_files := fs\<rparr>)"
  by (simp_all add: same_scopes_def)

text \<open>The built-in functions: a computation, when the name is one of theirs.\<close>

definition opt_keeps :: "nat \<Rightarrow> efact set \<Rightarrow> ('f, 'a) im option \<Rightarrow> bool" where
  "opt_keeps n R x \<longleftrightarrow> (\<forall>m. x = Some m \<longrightarrow> keeps n R m (\<lambda>_. {}))"

lemma opt_keeps_rules:
  "keeps n R m (\<lambda>_. {}) \<Longrightarrow> opt_keeps n R (Some m)"
  "opt_keeps n R None"
  "opt_keeps n R x \<Longrightarrow> opt_keeps n R y \<Longrightarrow> opt_keeps n R (if b then x else y)"
  by (simp_all add: opt_keeps_def)

lemma builtins_keep:
  assumes P: "procs_keep n P"
  shows "opt_keeps n R (array_builtin C P f args)" "opt_keeps n R (task_builtin C P f args)"
    "opt_keeps n R (env_builtin C P f args)" "opt_keeps n R (legacy_builtin C P f args)"
  unfolding array_builtin_def task_builtin_def env_builtin_def legacy_builtin_def Let_def
  by (rule opt_keeps_rules keeps_rules P same_scopes_simps)+

lemma keeps_user_call [keeps_rules]: "procs_keep n P \<Longrightarrow> keeps n R (user_call C P f e args) (\<lambda>_. {})"
  unfolding user_call_def by (rule keeps_rules | assumption)+

lemma keeps_eval_call [keeps_rules]:
  assumes P: "procs_keep n P"
  shows "keeps n R (eval_call C P e args) (\<lambda>_. {})"
proof -
  have "opt_keeps n R (builtin_call C P f args)" for f
    using builtins_keep [OF P] by (auto simp: builtin_call_def opt_keeps_def split: option.splits)
  then have b: "keeps n R (case builtin_call C P f args of Some m \<Rightarrow> m | None \<Rightarrow> user_call C P f e args) (\<lambda>_. {})" for f
    by (auto simp: opt_keeps_def keeps_user_call [OF P] split: option.split)
  show ?thesis unfolding eval_call_def by (cases e; rename_tac l nd; case_tac nd; simp add: keeps_rules P b)
qed

lemma keeps_fun_alloc:
  assumes "Mine (fun_closure fn) \<in> R \<or> Fresh (fun_closure fn) \<in> R"
  shows "keeps n R (\<lambda>s. (Inr (g s), s\<lparr>funs := funs s @ [fn]\<rparr>)) (\<lambda>_. {})"
proof (rule keepsI)
  fix s :: "'a interp" and r s'
  assume s: "ready n s" "all_hold n s R" and run: "(Inr (g s), s\<lparr>funs := funs s @ [fn]\<rparr>) = (r, s')"
  have "fun_closure fn < length (envs s)" using assms(1) s(2) by (auto simp: mine_def)
  then show "ready n s' \<and> grown n (envs s) (envs s') \<and> (\<forall>y. r = Inr y \<longrightarrow> all_hold n s' {})"
    using s(1) run by (auto simp: ready_def interp_inv_def)
qed

lemma keeps_function [keeps_rules]: "keeps n R (eval_function ps ds caps var body :: ('f, 'f Value) im) (\<lambda>_. {})"
proof -
  let ?m = "(ibind (iget genv) (\<lambda>g. ibind (new_env g) (\<lambda>e.
     ithen (ifor (\<lambda>x. ibind (icatch (ilookup x) (\<lambda>_. iret V_NONE)) (idefine e x)) caps) (iret e)))) :: ('f, addr) im"
  have m: "keeps n R ?m (\<lambda>e. {Fresh e})"
    by (rule keeps_bind keeps_get_genv keeps_new_valid keeps_ret_fact keeps_for keeps_catch keeps_lookup keeps_ret keeps_define | simp)+
  have "keeps n R (if caps = [] then iget current else ?m) (\<lambda>e. if caps = [] then {Mine e} else {Fresh e})"
    using m by (simp add: keeps_get_current)
  then show ?thesis unfolding eval_function_def by (rule keeps_bind) (auto intro: keeps_fun_alloc)
qed

lemma keeps_expression [keeps_rules]:
  assumes P: "procs_keep n P"
  shows "keeps n R (evaluate_expression C P e) (\<lambda>_. {})"
proof -
  obtain l nd where e: "e = Expr l nd" by (cases e)
  have "keeps n R (module_function m f t) (\<lambda>_. {})" for m f t R unfolding module_function_def by (rule keeps_rules)+
  note rules = this keeps_rules P
  show ?thesis unfolding evaluate_expression_def e Expression.case
    by (cases nd) (simp_all only: expr_node.case, (rule rules)+)
qed

subsection \<open>Statements\<close>

lemma keeps_block [keeps_rules]:
  assumes P: "procs_keep n P"
  shows "keeps n R (execute_block P b) (\<lambda>_. {})"
  unfolding execute_block_def by (rule keeps_bind keeps_get_current keeps_new keeps_in_env keeps_for keeps_run P | simp)+

lemma keeps_while [keeps_rules]:
  assumes P: "procs_keep n P"
  shows "keeps n R (while_loop C P k c b) (\<lambda>_. {})"
proof (induction k arbitrary: R)
  case (Suc k)
  show ?case unfolding while_loop.simps by (rule Suc keeps_rules P)+
qed (simp add: keeps_throw)

lemma keeps_for_loop [keeps_rules]:
  assumes P: "procs_keep n P"
  shows "keeps n R (for_loop C P k c p b) (\<lambda>_. {})"
proof (induction k arbitrary: R)
  case (Suc k)
  show ?case unfolding for_loop.simps by (rule Suc keeps_rules P)+
qed (simp add: keeps_throw)

lemma keeps_enter: "Mine e \<in> R \<Longrightarrow> keeps n R (imod (\<lambda>s. s\<lparr>current := e\<rparr>)) (\<lambda>_. {})"
  by (rule keepsI) (auto simp: imod_def intro!: ready_in)

lemma keeps_execute_for [keeps_rules]:
  assumes P: "procs_keep n P"
  shows "keeps n R (execute_for C P i c p b) (\<lambda>_. {})"
  unfolding execute_for_def
  by (rule keeps_bind keeps_get_current keeps_new keeps_enter keeps_option keeps_ret keeps_run keeps_for_loop P | simp)+

lemma keeps_foreach_loop:
  assumes P: "procs_keep n P"
  shows "keeps n R (foreach_loop P k assoc a i x y b) (\<lambda>_. {})"
proof (induction k arbitrary: i R)
  case (Suc k)
  show ?case unfolding foreach_loop.simps
    by (rule Suc keeps_bind keeps_arr_of keeps_if keeps_get_current keeps_new keeps_define keeps_ret keeps_turn keeps_in_env keeps_for keeps_run P
      | simp)+
qed (simp add: keeps_throw)

lemma keeps_foreach [keeps_rules]:
  assumes P: "procs_keep n P"
  shows "keeps n R (execute_foreach P e x y b) (\<lambda>_. {})"
  unfolding execute_foreach_def by (rule keeps_foreach_loop keeps_rules P)+

lemma keeps_finally [keeps_rules]: "procs_keep n P \<Longrightarrow> keeps n R (finally_block P fb) (\<lambda>_. {})"
  unfolding finally_block_def by (rule keeps_rules | assumption)+

lemma keeps_try [keeps_rules]:
  assumes P: "procs_keep n P"
  shows "keeps n R (execute_try P tb x cb fb) (\<lambda>_. {})"
  unfolding execute_try_def Let_def
  by (rule keeps_bind keeps_catch keeps_block keeps_if keeps_finally keeps_throw keeps_option keeps_get_current keeps_define keeps_ret P | simp)+

lemma keeps_exn [keeps_rules]:
  "(\<And>e. keeps n R (h e) (\<lambda>_. {})) \<Longrightarrow> keeps n R (case e of BreakException \<Rightarrow> iret () | _ \<Rightarrow> h e) (\<lambda>_. {})"
  by (cases e) (simp_all add: keeps_ret)

lemma keeps_case [keeps_rules]: "procs_keep n P \<Longrightarrow> keeps n R (run_case P b) (\<lambda>_. {})"
  unfolding run_case_def by (rule keeps_rules | assumption)+

lemma keeps_matches [keeps_rules]:
  assumes P: "procs_keep n P"
  shows "keeps n R (matches C P v es) (\<lambda>_. {})"
proof (induction es arbitrary: R)
  case (Cons e es)
  show ?case unfolding matches.simps by (rule Cons keeps_rules P)+
qed (simp add: keeps_ret)

lemma keeps_switch [keeps_rules]:
  assumes P: "procs_keep n P"
  shows "keeps n R (switch_cases C P v d cs) (\<lambda>_. {})"
proof (induction cs arbitrary: d R)
  case Nil
  show ?case unfolding switch_cases.simps by (rule keeps_rules P)+
next
  case (Cons c cs)
  obtain es b where c: "c = (es, b)" by fastforce
  show ?case unfolding c switch_cases.simps by (rule Cons keeps_rules P)+
qed

lemma keeps_declare [keeps_rules]: "keeps n R (declare_function C x ps ds var body) (\<lambda>_. {})"
proof (cases "reserved C x")
  case True
  then show ?thesis by (simp add: declare_function_def keeps_fail)
next
  case False
  show ?thesis
  proof (rule keepsI)
    fix s :: "'a interp" and r s'
    assume s: "ready n s" and run: "declare_function C x ps ds var body s = (r, s')"
    let ?E = "env_define (envs s) (current s) x (V_FUNCTION (length (funs s)))"
    have g: "grown n (envs s) ?E" using mine_le [OF ready_wf [OF s]] s by (intro grown_define) (simp add: ready_def)
    have "ready n (s\<lparr>envs := ?E\<rparr>)" using ready_grown [OF s _ g] ready_wf [OF s] by simp
    then show "ready n s' \<and> grown n (envs s) (envs s') \<and> (\<forall>y. r = Inr y \<longrightarrow> all_hold n s' {})"
      using run g False s by (auto simp: declare_function_def idefine_def imod_def ready_def interp_inv_def)
  qed
qed

lemma keeps_declare_struct [keeps_rules]:
  assumes P: "procs_keep n P"
  shows "keeps n R (declare_struct P x fds) (\<lambda>_. {})"
  unfolding declare_struct_def by (rule same_scopes_simps keeps_rules P)+

lemma keeps_const [keeps_rules]:
  assumes P: "procs_keep n P"
  shows "keeps n R (const_items P e i its) (\<lambda>_. {})"
proof (induction its arbitrary: e i R)
  case Nil
  show ?case unfolding const_items.simps by (rule same_scopes_simps keeps_rules)+
next
  case (Cons it its)
  obtain x d where it: "it = (x, d)" by fastforce
  show ?case unfolding it const_items.simps Let_def by (rule Cons same_scopes_simps keeps_rules P)+
qed

text \<open>A file runs below the globals and may assign to them; so either nothing is protected, or there is no file.\<close>

definition no_files :: "nat \<Rightarrow> 'f icfg \<Rightarrow> bool" where
  "no_files n C \<longleftrightarrow> n = 0 \<or> (\<forall>p. read_file C p = None)"

lemma keeps_in_file [keeps_rules]:
  assumes m: "keeps n R m (\<lambda>_. {})"
  shows "keeps n R (in_file path m) (\<lambda>_. {})"
proof (rule keepsI)
  fix s :: "'a interp" and r s'
  assume s: "ready n s" "all_hold n s R" and run: "in_file path m s = (r, s')"
  obtain s2 where 2: "m (s\<lparr>current_file := path\<rparr>) = (r, s2)" "s' = s2\<lparr>current_file := current_file s\<rparr>"
    using run by (auto simp: in_file_def split: prod.splits)
  have "ready n (s\<lparr>current_file := path\<rparr>)" using s(1) by (simp add: ready_def interp_inv_def)
  then have "ready n s2" "grown n (envs s) (envs s2)" using keepsD(1,2) [OF m _ _ 2(1)] s(2) by auto
  then show "ready n s' \<and> grown n (envs s) (envs s') \<and> (\<forall>y. r = Inr y \<longrightarrow> all_hold n s' {})"
    using 2(2) by (simp add: ready_def interp_inv_def)
qed

lemma keeps_get_genv_zero: "keeps 0 R (iget genv) (\<lambda>e. {Mine e})"
  by (rule keepsI) (auto simp: iget_def ready_def interp_inv_def mine_zero)

lemma keeps_run_file:
  assumes P: "procs_keep 0 P"
  shows "keeps 0 R (run_file P path prog) (\<lambda>_. {})"
  unfolding run_file_def
  by (rule keeps_bind keeps_get_genv_zero keeps_new keeps_in_file keeps_in_env keeps_for keeps_run keeps_prod keeps_define P keeps_get | simp)+

lemma keeps_load [keeps_rules]: "keeps n R (load_program h t) (\<lambda>_. {})"
  unfolding load_program_def by (auto split: sum.splits parse_error.splits intro: keeps_rules)

lemma keeps_read:
  assumes P: "procs_keep n P" and C: "no_files n C"
  shows "keeps n R (case read_file C p of None \<Rightarrow> fail t | Some x \<Rightarrow> ibind (load_program h x) (run_file P path)) (\<lambda>_. {})"
proof (cases "n = 0")
  case True
  then show ?thesis using P by (auto split: option.split intro!: keeps_rules keeps_run_file)
next
  case False
  then show ?thesis using C by (simp add: no_files_def keeps_fail)
qed

lemma keeps_use [keeps_rules]:
  assumes P: "procs_keep n P" and C: "no_files n C"
  shows "keeps n R (execute_use C P x alias) (\<lambda>_. {})" "keeps n R (execute_use_file C P x) (\<lambda>_. {})"
  unfolding execute_use_def execute_use_file_def by (rule keeps_read [OF P C] same_scopes_simps keeps_rules)+

lemma keeps_write [keeps_rules]: "keeps n R (write_out t) (\<lambda>_. {})"
  unfolding write_out_def by (rule same_scopes_simps keeps_rules)+

lemma keeps_output [keeps_rules]: "procs_keep n P \<Longrightarrow> keeps n R (build_output C P es) (\<lambda>_. {})"
  unfolding build_output_def by (rule keeps_rules | assumption)+

lemma keeps_statement:
  assumes P: "procs_keep n P" and C: "no_files n C"
  shows "keeps n R (execute_statement C P st) (\<lambda>_. {})"
proof -
  obtain l nd where st: "st = Stmt l nd" by (cases st)
  show ?thesis unfolding execute_statement_def st Statement.case
    by (cases nd)
      (simp_all only: stmt_node.case execute_throw_def, (rule keeps_use [OF P C] same_scopes_simps keeps_rules P)+)
qed

lemma procs_keep_at: "no_files n C \<Longrightarrow> procs_keep n (iprocs_at C k)"
  by (induction k) (auto simp: procs_keep_def keeps_throw keeps_expression keeps_statement)

subsection \<open>The two results\<close>



end
