(* ===== verification/Interp_Runs.thy ===== *)
theory Interp_Runs
  imports Interp_Scope
begin

text \<open>
  Scripts run by the interpreter from the syntax tree to the end: an instance of the isolation of calls, and places where the
  interpreter does something else than its comments or the script say.
\<close>

definition demo_icfg :: "(string \<rightharpoonup> string) \<Rightarrow> int icfg" where
  "demo_icfg files = \<lparr>i_flt = int_floats, i_fmt = (\<lambda>x. []), i_nest = 3, i_float = (\<lambda>t. 0), i_sqrt = (\<lambda>x. x), i_fabs = (\<lambda>x. x),
     i_cloner = None, stdlib = Map.empty, registered = Map.empty, reserved = (\<lambda>n. False), service = (\<lambda>m f vs A. (Inr V_NONE, A)),
     env_var = Map.empty, script_args = [], module_file = Map.empty, read_file = files, resolve = (\<lambda>f p. p), project_root = []\<rparr>"

abbreviation iex :: "expr_node \<Rightarrow> Expression" where "iex \<equiv> Expr no_loc"
abbreviation ist :: "stmt_node \<Rightarrow> Statement" where "ist \<equiv> Stmt no_loc"
abbreviation num :: "u64 \<Rightarrow> Expression" where "num n \<equiv> iex (NumberLiteral n)"
abbreviation set_var :: "string \<Rightarrow> Expression \<Rightarrow> Statement" where
  "set_var x e \<equiv> ist (ExpressionStatement (iex (AssignmentExpression x ''='' None None e)))"
abbreviation call_of :: "string \<Rightarrow> Expression list \<Rightarrow> Expression" where "call_of f es \<equiv> iex (CallExpression (iex (Variable f)) es)"

lemma iprocs_at_numeral:
  "ev (iprocs_at C (numeral k)) = evaluate_expression C (iprocs_at C (pred_numeral k))"
  "run (iprocs_at C (numeral k)) = execute_statement C (iprocs_at C (pred_numeral k))"
  "turns (iprocs_at C (numeral k)) = numeral k"
  by (simp_all add: numeral_eq_Suc)

lemma iprocs_at_Suc:
  "ev (iprocs_at C (Suc k)) = evaluate_expression C (iprocs_at C k)"
  "run (iprocs_at C (Suc k)) = execute_statement C (iprocs_at C k)"
  "turns (iprocs_at C (Suc k)) = Suc k"
  by simp_all

lemma demo_icfg_sel:
  "i_flt (demo_icfg fs) = int_floats" "i_nest (demo_icfg fs) = 3" "registered (demo_icfg fs) = Map.empty" "reserved (demo_icfg fs) n = False"
  "read_file (demo_icfg fs) = fs"
  by (simp_all add: demo_icfg_def)

declare iprocs_at.simps [simp del]

lemma for_loop_numeral:
  "for_loop C P (numeral k) c p b =
     ibind (case c of None \<Rightarrow> iret True | Some c \<Rightarrow> ibind (ev P c) (truthy C)) (\<lambda>t.
       if t then
         ibind (turn (execute_block P b)) (\<lambda>go.
           if go then ibind (case p of None \<Rightarrow> iret V_NONE | Some p \<Rightarrow> ev P p) (\<lambda>_. for_loop C P (pred_numeral k) c p b) else iret ())
       else iret ())"
  by (simp add: numeral_eq_Suc)

lemma int_str_one: "int_str 1 = ''1''"
  by code_simp

lemma int_str_two: "int_str 2 = ''2''"
  by code_simp

lemmas imonad_defs = ibind_def iret_def ithrow_def iget_def imod_def fail_def icatch_def in_env_def new_env_def idefine_def ilookup_def
  iset_def alloc_def istr_def truthy_def arr_of_def run_native_def lift_op_def lift_idx_def env_new_def env_define_def env_get.simps env_set.simps
lemmas iexpr_defs = evaluate_expression_def eval_call_def user_call_def builtin_call_def array_builtin_def task_builtin_def env_builtin_def
  legacy_builtin_def raw_arg_def arity_is_def eval_assign_def eval_binary_def binary_value_def call_function_def closure_env_def new_fn_env_def
  bind_arguments_def run_body_def I_MAX_CALL_DEPTH_def mark_fn_boundary_def eval_function_def
lemmas istmt_defs = interpret_program_def execute_statement_def execute_block_def execute_try_def finally_block_def execute_for_def
  turn_def declare_function_def execute_throw_def build_output_def write_out_def run_file_def in_file_def exported_def interp_new_def

lemmas interp_eval = iprocs_at_Suc demo_icfg_sel int_str_one int_str_two iprocs_at_numeral for_loop_numeral imonad_defs iexpr_defs istmt_defs Let_def

subsection \<open>A call\<close>

definition call_state :: "int interp" where
  "call_state = (interp_new Map.empty)\<lparr>envs := [\<lparr>env_values = [(''$x'', V_INT 1)], env_parent = None, fn_boundary = False\<rparr>],
     funs := [\<lparr>fun_name = ''f'', fun_params = [''$p''], fun_variadic = False,
       fun_body = [set_var ''$x'' (num 2), ist (ReturnStatement (Some (iex (Variable ''$x''))))], fun_closure = 0, fun_defaults = [None]\<rparr>]\<rparr>"

lemma call_state_run:
  "fst (call_function (demo_icfg Map.empty) (iprocs_at (demo_icfg Map.empty) 4) 0 [V_INT 7] call_state) = Inr (V_INT 2)"
  by (simp add: interp_eval call_state_def)


subsection \<open>Scopes that are not left\<close>

text \<open>\<^verbatim>\<open>for (;;) { throw 1; }\<close>: the error leaves the interpreter in the scope of the loop.\<close>

lemma for_error_leaves_scope:
  "\<exists>s. interpret_program (demo_icfg Map.empty) 6 [ist (ForStatement None None None [ist (ThrowStatement (num 1))])] (interp_new Map.empty) =
     (Inl (RuntimeError (Some (V_INT 1)) ''1''), s) \<and> current s = 1"
  by (simp add: interp_eval)

text \<open>\<^verbatim>\<open>function g() { throw 1; }  function f($a = g()) { }\<close> and a fragment \<^verbatim>\<open>{f()}\<close> of a string: the error of the default is
  dropped, but the scope of \<^verbatim>\<open>f\<close> stays current, and \<^verbatim>\<open>$x = 5\<close> then goes there instead of to the globals.\<close>

definition default_program :: Program where
  "default_program =
    [ist (FunctionDeclaration ''g'' [] [] False [ist (ThrowStatement (num 1))]),
     ist (FunctionDeclaration ''f'' [''$a''] [Some (call_of ''g'' [])] False [])]"

definition default_state :: "int interp" where
  "default_state = (interp_new Map.empty)\<lparr>
     envs := [\<lparr>env_values = [(''g'', V_FUNCTION 0), (''f'', V_FUNCTION 1)], env_parent = None, fn_boundary = False\<rparr>],
     funs := [\<lparr>fun_name = ''g'', fun_params = [], fun_variadic = False, fun_body = [ist (ThrowStatement (num 1))], fun_closure = 0, fun_defaults = []\<rparr>,
       \<lparr>fun_name = ''f'', fun_params = [''$a''], fun_variadic = False, fun_body = [], fun_closure = 0, fun_defaults = [Some (call_of ''g'' [])]\<rparr>]\<rparr>"

lemma default_start: "interpret_program (demo_icfg Map.empty) 3 default_program (interp_new Map.empty) = (Inr (), default_state)"
  by (simp add: interp_eval default_program_def default_state_def)

definition fragment_f :: "(int, string) im" where
  "fragment_f = icatch (ibind (ev (iprocs_at (demo_icfg Map.empty) 8) (call_of ''f'' [])) (istr (demo_icfg Map.empty))) (\<lambda>e. iret ''{f()}'')"

lemma fragment_f_run: "fragment_f default_state = (Inr ''{f()}'', default_state\<lparr>current := 1, envs := envs default_state @
   [\<lparr>env_values = [], env_parent = Some 0, fn_boundary = True\<rparr>, \<lparr>env_values = [], env_parent = Some 0, fn_boundary = True\<rparr>]\<rparr>)"
  by (simp add: interp_eval fragment_f_def default_state_def)

lemma default_error_keeps_scope:
  "current (snd (fragment_f default_state)) \<noteq> current default_state \<and>
   (\<exists>s. interpret_program (demo_icfg Map.empty) 3 [set_var ''$x'' (num 5)] (snd (fragment_f default_state)) = (Inr (), s) \<and>
     map_of (env_values (envs s ! genv s)) ''$x'' = None)"
  unfolding fragment_f_run by (simp add: interp_eval default_state_def)

subsection \<open>Finally, files and arguments\<close>

text \<open>\<^verbatim>\<open>try { throw 1; } catch ($e) { throw 2; } finally { print 3; }\<close>: the finally block does not run.\<close>

lemma catch_error_skips_finally:
  "\<exists>s. interpret_program (demo_icfg Map.empty) 6 [ist (TryCatchStatement [ist (ThrowStatement (num 1))] ''$e''
       (Some [ist (ThrowStatement (num 2))]) (Some [ist (PrintStatement [num 3])]))] (interp_new Map.empty) =
     (Inl (RuntimeError (Some (V_INT 2)) ''2''), s) \<and> out_text s = []"
  by (simp add: interp_eval)

text \<open>A file that assigns \<^verbatim>\<open>$x = 2\<close> changes the variable \<^verbatim>\<open>$x\<close> of the script that includes it.\<close>

lemma file_overwrites_global:
  "\<exists>s1 s2. interpret_program (demo_icfg Map.empty) 6 [set_var ''$x'' (num 1)] (interp_new Map.empty) = (Inr (), s1) \<and>
     run_file (iprocs_at (demo_icfg Map.empty) 6) ''lib.lk'' [set_var ''$x'' (num 2)] s1 = (Inr (), s2) \<and>
     map_of (env_values (envs s2 ! genv s2)) ''$x'' = Some (V_INT 2)"
  by (simp add: interp_eval)

lemma builtin_reads_missing_argument:
  "ev (iprocs_at (demo_icfg Map.empty) 3) (call_of ''strlen'' []) (interp_new Map.empty) = (Inl UndefinedBehaviour, interp_new Map.empty)"
  by (simp add: interp_eval)

text \<open>\<^verbatim>\<open>$x = 1; $x + ($x = 5)\<close>: the interpreter takes the left operand first and gives 6.\<close>

lemma operand_order:
  "fst (ev (iprocs_at (demo_icfg Map.empty) 5) (iex (BinaryExpression (iex (AssignmentExpression ''$x'' ''='' None None (num 1))) ''+''
      (iex (BinaryExpression (iex (Variable ''$x'')) ''+'' (iex (AssignmentExpression ''$x'' ''='' None None (num 5))))))) (interp_new Map.empty)) =
    Inr (V_INT 7)"
  by (simp add: interp_eval val_add_def checked_def op_result_def int_floats_def is_float_def arith_check_def i64_add_ovf_def fits_i64_def)

end
