(* ===== verification/Spec2Isabelle.thy ===== *)
theory Spec2Isabelle
  imports Session_Esc Int_Overflow Ssrf Json_Str Charset Html_Escape Smtp_Parse Imap_Parse
    Path_Safe Url_Safe Db_Dsn Dkim_Tag Pg_Insert Fcgi Db_Wire Http_Parse Sha256 Session_Files
    Values Value_Heap Environment Channel Reg_Alloc Precedence
    Ws_Session Ws_Handshake Compile_Runs Interp_Runs
begin

text \<open>
  A verification library for LOOK, a scripting language for web applications with its own server: a C++ program
  under \<^verbatim>\<open>src/cpp\<close>. A script is read by the lexer and the parser, compiled to register bytecode or walked
  directly, and run against values, arrays and environments; requests reach it through the HTTP server (with
  WebSocket), FastCGI or the command line; it reaches the outside through sessions, databases, mail and an HTTP client.
  Everything the runtime accepts from the network or from files goes through small pure parsers and guards in
  \<^verbatim>\<open>include/look\<close>.

  \<^bold>\<open>Conventions.\<close> A \<^verbatim>\<open>std::string\<close> is a list of bytes (\<^typ>\<open>string\<close>, or lists of 8-bit words in the
  binary protocols). A read position that only moves forward is the suffix it denotes. Fixed-width integers are words
  where they can wrap and natural numbers where an invariant or a stated bound keeps them small. Exceptions, early
  returns and error codes are values of option or sum types. Objects shared by reference (arrays, environments) live in
  explicit stores and are named by index. Threads and event loops are step relations or sequences of events; an
  operation that holds a lock is one step. Code outside the repository (a file system, floating point, the clone hook of
  foreign objects) is a parameter.

  \<^bold>\<open>The language.\<close>
  \<^item> \<open>Lexer\<close> (\<^verbatim>\<open>token.h, lexer.h, lexer.cpp\<close>): every token class, string escapes and interpolation,
    comments, automatic semicolons. The lexemes and the skipped text together are the source; a string literal exists
    for every byte string and lexes back to it.
  \<^item> \<open>Ast\<close>, \<open>Parser\<close>, \<open>Precedence\<close> (\<^verbatim>\<open>ast.h, parser.h, parser.cpp\<close>): all member functions of
    the recursive-descent parser. The recursive calls go through a record of procedures with fuel; the number of tokens
    is enough fuel for every input, because each cycle of calls consumes a token, and each loop is bounded by the tokens
    left. Operator precedence and associativity are those of the level table; the depth limits do not cover chains of
    assignments.
  \<^item> \<open>Reg_Alloc\<close> (\<^verbatim>\<open>RegisterAllocator\<close> in \<^verbatim>\<open>compiler.h\<close>): locals and live argument blocks are never handed
    out again; a block is refused only when there is none.
  \<^item> \<open>Values\<close>, \<open>Int_Overflow\<close>, \<open>Value_Heap\<close> (\<^verbatim>\<open>interpreter.h, interpreter.cpp, int_overflow.h,
    array_count.h\<close>): conversions and operators of script values, exact or promoted integer arithmetic, and the deep
    clones over the array store, which share nothing with the original.
  \<^item> \<open>Environment\<close>, \<open>Channel\<close> (\<^verbatim>\<open>interpreter.h, interpreter.cpp\<close>): scope chains with function boundaries,
    the isolation of requests, and channels between tasks as an interleaving step relation.

  \<^item> \<open>Indexing\<close> (\<^verbatim>\<open>array_get\<close>, \<^verbatim>\<open>array_set\<close> of \<^verbatim>\<open>vm.cpp\<close>, index expressions and assignments of
    \<^verbatim>\<open>interpreter.cpp\<close>): element access of both engines; maps refine finite maps, the engines agree except on numbers as
    keys of maps.
  \<^item> \<open>Bytecode\<close> (\<^verbatim>\<open>bytecode.h\<close>, emission in \<^verbatim>\<open>compiler.h, compiler.cpp\<close>): instructions, prototypes, checked
    operands, the constant pool.
  \<^item> \<open>Compile\<close> (\<^verbatim>\<open>compiler.h, compiler.cpp\<close>): the translation of every statement and expression, in a state and error
    monad over the stack of function compilers; a failed part leaves the state it had reached, as an exception does. The
    recursive calls go through a record of procedures with fuel: the depth of the tree is enough, more only matters for files
    that are included, and what is proved holds for every fuel. The table of built-in functions, floating-point literals, files
    and paths are parameters. \<open>Compile_Logic\<close> is a logic of safety and closed jumps for these procedures,
    \<open>Compile_Prims\<close>, \<open>Compile_Blocks\<close> and \<open>Compile_Nest\<close> its rules for emission, statements and nested functions,
    \<open>Compile_Safe\<close> the result for whole programs: registers, constants, nested functions and jump targets exist in whatever was
    emitted. \<open>Compile_Runs\<close> composes it with the machine and runs whole programs on which the two disagree with the language.
  \<^item> \<open>Vm\<close>, \<open>Vm_Safety\<close>, \<open>Vm_Runs\<close> (\<^verbatim>\<open>vm.h, vm.cpp\<close>): the dispatch loop, one definition per group of instructions;
    every access outside the register file is an outcome, and none is reachable from code whose operands pass a simple check;
    calls return to an undisturbed caller; handlers outlive a return. The loop has fuel because programs need not end; the
    safety statements hold for every number of turns.

  \<^item> \<open>Interp\<close> (\<^verbatim>\<open>interpreter.h, interpreter.cpp\<close>): the tree-walking interpreter, every statement and expression, as a script runs
    without a web request. Computations return their state also when they throw, so whatever the code does not undo stays done. The
    fuel bounds nested calls and turns of loops; running out of it is a result that no handler of the program sees. \<open>Interp_Scope\<close> is a logic
    of scopes: calls change no variable that existed before, and the scopes stay well-formed. \<open>Interp_Runs\<close> runs scripts on which the
    interpreter departs from its comments.

  \<^bold>\<open>The network side.\<close>
  \<^item> \<open>Http_Parse\<close> (\<^verbatim>\<open>http_parse.h\<close>): the request parser is exact on well-formed requests and refuses what two
    parsers could read differently.
  \<^item> \<open>Websocket\<close>, \<open>Ws_Session\<close>, \<open>Ws_Handshake\<close> (\<^verbatim>\<open>websocket.h, websocket.cpp\<close>, \<^verbatim>\<open>on_ws_data\<close> and
    \<^verbatim>\<open>close_ws\<close> of \<^verbatim>\<open>http_server.cpp\<close>): the frame codec, fragment assembly independent of how reads cut the
    stream, teardown exactly once, SHA-1 against FIPS 180-4 and Base64 against its decoder, the registry.
  \<^item> \<open>Fcgi\<close>, \<open>Wire\<close> (\<^verbatim>\<open>fcgi.h, fcgi_parse.h, fcgi_main.cpp\<close>): records, name-value pairs, request assembly with
    its body limit, over the contract \<open>bounded_reader\<close> of readers that never leave their buffer.
  \<^item> \<open>Db_Wire\<close>, \<open>Db_Dsn\<close>, \<open>Pg_Insert\<close> (\<^verbatim>\<open>mysql_wire_parse.h, mysql_client.cpp, pg_parse.h, db_dsn.h,
    pg_insert.h\<close>): wire formats, TLS decisions and redaction of connection strings, rewriting of INSERT statements.
  \<^item> \<open>Smtp_Parse\<close>, \<open>Imap_Parse\<close>, \<open>Dkim_Tag\<close>, \<open>Charset\<close>, \<open>Json_Str\<close>, \<open>Html_Escape\<close>, \<open>Ssrf\<close>,
    \<open>Url_Safe\<close>, \<open>Path_Safe\<close>: the parsers, encoders and guards of the headers of the same names.
  \<^item> \<open>Sha256\<close> (\<^verbatim>\<open>crypto_sha256.h\<close>): SHA-256, HMAC and PBKDF2 against their standards.
  \<^item> \<open>Session_Esc\<close>, \<open>Session_Files\<close> (\<^verbatim>\<open>session_esc.h, session_files.h\<close>): the session blob refines a map; session
    files are read only when they belong to this user, written by rename, and collected only past their lifetime, over a
    model file system with owners, modes and links.

  \<open>Prelude\<close> holds the byte-string operations of the C++ library, the word types, the shared lemmas and the contracts
  (codecs, key-value stores) that the components interpret.

  \<^bold>\<open>Not modelled.\<close> The interpreter and the machine under a web request (routes, middleware, request and response), callbacks from
  host functions into scripts, the warnings of the compiler, the locations and stack traces of error reports; JSON values; the functions
  of the standard library that only call the operating system; sockets, TLS and process control of the servers and clients;
  fibers (assembly); the Windows branches; the vendored SQLite, miniz and linenoise.
\<close>

end
